(* ===== verification/Prelude.thy ===== *)
theory Prelude
  imports Main "HOL-Library.Word"
begin

text \<open>
  Shared material of the development: the machine types of the C++ sources
  (\<open>byte\<close>, \<open>u16\<close>, \<open>u32\<close>, \<open>u64\<close>), the arithmetic of \<open>size_t\<close> written out on
  natural numbers, a state-and-exception monad for the operations that may throw
  after having changed their object, and lemmas on lists that are overwritten in
  place (\<open>patch\<close>) or stored as a chain of blocks of equal length.
\<close>

unbundle bit_operations_syntax

named_theorems tiger_defs "definitions unfolded by the component proofs"
named_theorems chunk_simps "lemmas on chains of blocks of equal length"

section \<open>Machine types\<close>

type_synonym byte = "8 word"
type_synonym u16 = "16 word"
type_synonym u32 = "32 word"
type_synonym u64 = "64 word"

text \<open>
  \<open>size_t\<close> values are natural numbers below \<open>2 ^ 64\<close>. A difference of two of them
  wraps around, and the sources rely on such differences in their bounds checks, so
  the subtraction is written out.
\<close>

definition sub64 :: "nat \<Rightarrow> nat \<Rightarrow> nat" where
  "sub64 a b = (a + (2 ^ 64 - b mod 2 ^ 64)) mod 2 ^ 64"

lemma sub64_le: "b \<le> a \<Longrightarrow> a < 2 ^ 64 \<Longrightarrow> sub64 a b = a - b"
  by (simp add: sub64_def mod_if)

lemma sub64_wraps: "a < b \<Longrightarrow> b < 2 ^ 64 \<Longrightarrow> sub64 a b = 2 ^ 64 - (b - a)"
  by (simp add: sub64_def)

section \<open>State with exceptions\<close>

text \<open>
  An operation that may throw returns the exception or its result together with the
  object as it was left behind: a C++ exception does not undo what was done before it.
\<close>

type_synonym ('s, 'e, 'a) se = "'s \<Rightarrow> ('e + 'a) \<times> 's"

definition se_return :: "'a \<Rightarrow> ('s, 'e, 'a) se" where
  "se_return x = (\<lambda>s. (Inr x, s))"

definition se_throw :: "'e \<Rightarrow> ('s, 'e, 'a) se" where
  "se_throw e = (\<lambda>s. (Inl e, s))"

definition se_bind :: "('s, 'e, 'a) se \<Rightarrow> ('a \<Rightarrow> ('s, 'e, 'b) se) \<Rightarrow> ('s, 'e, 'b) se" where
  "se_bind m f = (\<lambda>s. case m s of (Inl e, s') \<Rightarrow> (Inl e, s') | (Inr x, s') \<Rightarrow> f x s')"

lemma se_bind_Inr [simp]: "m s = (Inr x, s') \<Longrightarrow> se_bind m f s = f x s'"
  by (simp add: se_bind_def)

lemma se_bind_Inl [simp]: "m s = (Inl e, s') \<Longrightarrow> se_bind m f s = (Inl e, s')"
  by (simp add: se_bind_def)

lemma se_return_apply [simp]: "se_return x s = (Inr x, s)"
  by (simp add: se_return_def)

lemma se_throw_apply [simp]: "se_throw e s = (Inl e, s)"
  by (simp add: se_throw_def)

lemma se_bind_assoc: "se_bind (se_bind m f) g = se_bind m (\<lambda>x. se_bind (f x) g)"
  by (auto simp: se_bind_def fun_eq_iff split: prod.splits sum.splits)

section \<open>Overwriting a segment of a list\<close>

definition patch :: "'a list \<Rightarrow> nat \<Rightarrow> 'a list \<Rightarrow> 'a list" where
  "patch xs p ys = take p xs @ ys @ drop (p + length ys) xs"

lemma patch_Nil [simp]: "patch xs p [] = xs"
  by (simp add: patch_def)

lemma length_patch: "p + length ys \<le> length xs \<Longrightarrow> length (patch xs p ys) = length xs"
  by (simp add: patch_def)

lemma length_patch_grow:
  "p \<le> length xs \<Longrightarrow> length (patch xs p ys) = max (length xs) (p + length ys)"
  by (simp add: patch_def)

lemma patch_append:
  "p + length ys \<le> length xs \<Longrightarrow> patch (patch xs p ys) (p + length ys) zs = patch xs p (ys @ zs)"
  by (simp add: patch_def ac_simps)

lemma patch_append_grow:
  "p \<le> length xs \<Longrightarrow> patch (patch xs p ys) (p + length ys) zs = patch xs p (ys @ zs)"
  by (simp add: patch_def ac_simps)

lemma take_patch: "p \<le> length xs \<Longrightarrow> take p (patch xs p ys) = take p xs"
  by (simp add: patch_def)

lemma drop_patch: "p \<le> length xs \<Longrightarrow> drop (p + length ys) (patch xs p ys) = drop (p + length ys) xs"
  by (simp add: patch_def)

lemma take_drop_patch: "p \<le> length xs \<Longrightarrow> take (length ys) (drop p (patch xs p ys)) = ys"
  by (simp add: patch_def)

lemma take_patch_max:
  assumes "p \<le> n" "p + length ys \<le> length xs" "n \<le> length xs"
  shows "take (max n (p + length ys)) (patch xs p ys) = patch (take n xs) p ys"
proof (cases "p + length ys \<le> n")
  case True
  then have "length ys \<le> n - p" by arith
  with True assms show ?thesis by (cases "n = p") (simp_all add: patch_def max_def min_def drop_take)
next
  case False
  with assms show ?thesis by (simp add: patch_def)
qed

lemma patch_append_right:
  "p + length ys \<le> length xs \<Longrightarrow> patch (xs @ zs) p ys = patch xs p ys @ zs"
  by (simp add: patch_def)

section \<open>Chains of blocks of equal length\<close>

lemma length_concat_uniform:
  "(\<forall>x \<in> set xs. length (f x) = b) \<Longrightarrow> length (concat (map f xs)) = length xs * b"
  by (induction xs) auto

lemma concat_uniform_take:
  "(\<forall>x \<in> set xs. length (f x) = b) \<Longrightarrow> i \<le> length xs \<Longrightarrow>
     take (i * b) (concat (map f xs)) = concat (map f (take i xs))"
proof (induction xs arbitrary: i)
  case (Cons x xs)
  then show ?case by (cases i) (auto simp: algebra_simps)
qed simp

lemma concat_uniform_drop:
  "(\<forall>x \<in> set xs. length (f x) = b) \<Longrightarrow> i \<le> length xs \<Longrightarrow>
     drop (i * b) (concat (map f xs)) = concat (map f (drop i xs))"
proof (induction xs arbitrary: i)
  case (Cons x xs)
  then show ?case by (cases i) (auto simp: algebra_simps)
qed simp

lemma concat_uniform_segment:
  assumes "\<forall>x \<in> set xs. length (f x) = b" "i < length xs" "j + n \<le> b"
  shows "take n (drop (i * b + j) (concat (map f xs))) = take n (drop j (f (xs ! i)))"
proof -
  have "drop (i * b + j) (concat (map f xs)) = drop j (concat (map f (drop i xs)))"
    using assms concat_uniform_drop [of xs f b i] by (metis drop_drop add.commute less_imp_le)
  also have "drop i xs = xs ! i # drop (Suc i) xs"
    using assms(2) by (simp add: Cons_nth_drop_Suc)
  finally show ?thesis using assms by (auto simp: set_conv_nth)
qed

lemma concat_uniform_update:
  assumes u: "\<forall>x \<in> set xs. length (f x) = b" and i: "i < length xs"
    and o: "j + length ys \<le> b" and y: "f y = patch (f (xs ! i)) j ys"
  shows "concat (map f (xs[i := y])) = patch (concat (map f xs)) (i * b + j) ys"
proof -
  have li: "length (f (xs ! i)) = b" using u i by simp
  have split: "xs = take i xs @ xs ! i # drop (Suc i) xs" using i by (simp add: id_take_nth_drop)
  have pre: "length (concat (map f (take i xs))) = i * b"
    using u i length_concat_uniform [of "take i xs" f b] by (auto dest: in_set_takeD)
  have "concat (map f (xs[i := y])) =
      concat (map f (take i xs)) @ patch (f (xs ! i)) j ys @ concat (map f (drop (Suc i) xs))"
    using i y by (simp add: upd_conv_take_nth_drop)
  also have "\<dots> = patch (concat (map f (take i xs)) @ f (xs ! i) @ concat (map f (drop (Suc i) xs))) (i * b + j) ys"
    using pre li o by (simp add: patch_def)
  also have "concat (map f (take i xs)) @ f (xs ! i) @ concat (map f (drop (Suc i) xs)) = concat (map f xs)"
    by (subst (4) split) simp
  finally show ?thesis .
qed

lemmas [chunk_simps] = length_concat_uniform concat_uniform_take concat_uniform_drop

section \<open>Numbers and characters as text\<close>

text \<open>Formatting of integers by an output stream.\<close>

fun show_base :: "nat \<Rightarrow> nat \<Rightarrow> string" where
  "show_base b n = (if b \<le> 1 \<or> n < b then [''0123456789abcdef'' ! n] else show_base b (n div b) @ [''0123456789abcdef'' ! (n mod b)])"

declare show_base.simps [simp del]


text \<open>A \<^verbatim>\<open>std::string\<close> is a list of characters; \<open>char_byte\<close> and \<open>byte_char\<close> read a \<^verbatim>\<open>char\<close> as \<^verbatim>\<open>uint8_t\<close> and back.\<close>

definition char_byte :: "char \<Rightarrow> byte" where
  "char_byte c = of_nat (of_char c)"

definition byte_char :: "byte \<Rightarrow> char" where
  "byte_char b = char_of (unat b)"

lemma byte_char_byte [simp]: "byte_char (char_byte c) = c"
proof -
  have "(of_char c :: nat) < 256" by simp
  then show ?thesis by (simp add: byte_char_def char_byte_def unat_of_nat take_bit_nat_eq_self)
qed

lemma char_byte_char [simp]: "char_byte (byte_char b) = b"
proof -
  have "unat b < 2 ^ LENGTH(8)" by (rule unsigned_less)
  then show ?thesis by (simp add: byte_char_def char_byte_def)
qed

end
