(* ===== verification/Endian.thy ===== *)
theory Endian
  imports Prelude
begin

text \<open>
  Byte order (\<^verbatim>\<open>src/endian.h\<close>): the three \<^verbatim>\<open>byteswap\<close> templates, the
  conversions \<^verbatim>\<open>bswap_on_little_endian\<close> and \<^verbatim>\<open>bswap_on_big_endian\<close>, and the
  object representation of an integer that \<^verbatim>\<open>memcpy\<close> and the stream calls see.
  The byte order of the host (\<^verbatim>\<open>__TIGER_BYTE_ORDER\<close>, fixed by the compiler) is an
  argument of every definition that depends on it.
\<close>

datatype endian = TIGER_LITTLE_ENDIAN | TIGER_BIG_ENDIAN

section \<open>Byte swaps\<close>

definition bswap_16 :: "u16 \<Rightarrow> u16" where
  "bswap_16 x = (drop_bit 8 x AND 0xff) OR push_bit 8 (x AND 0xff)"

definition bswap_32 :: "u32 \<Rightarrow> u32" where
  "bswap_32 x = drop_bit 24 (x AND 0xff000000) OR drop_bit 8 (x AND 0x00ff0000)
     OR push_bit 8 (x AND 0x0000ff00) OR push_bit 24 (x AND 0x000000ff)"

definition bswap_64 :: "u64 \<Rightarrow> u64" where
  "bswap_64 x =
     drop_bit 56 (x AND 0xff00000000000000) OR drop_bit 40 (x AND 0x00ff000000000000)
     OR drop_bit 24 (x AND 0x0000ff0000000000) OR drop_bit 8 (x AND 0x000000ff00000000)
     OR push_bit 8 (x AND 0x00000000ff000000) OR push_bit 24 (x AND 0x0000000000ff0000)
     OR push_bit 40 (x AND 0x000000000000ff00) OR push_bit 56 (x AND 0x00000000000000ff)"

definition byteswap16 :: "u16 \<Rightarrow> u16" where
  "byteswap16 value = bswap_16 value"

definition byteswap32 :: "u32 \<Rightarrow> u32" where
  "byteswap32 value = bswap_32 value"

definition byteswap64 :: "u64 \<Rightarrow> u64" where
  "byteswap64 value = bswap_64 value"

definition bswap_on_little_endian16 :: "endian \<Rightarrow> u16 \<Rightarrow> u16" where
  "bswap_on_little_endian16 host t = (if host = TIGER_BIG_ENDIAN then t else byteswap16 t)"

definition bswap_on_little_endian32 :: "endian \<Rightarrow> u32 \<Rightarrow> u32" where
  "bswap_on_little_endian32 host t = (if host = TIGER_BIG_ENDIAN then t else byteswap32 t)"

definition bswap_on_little_endian64 :: "endian \<Rightarrow> u64 \<Rightarrow> u64" where
  "bswap_on_little_endian64 host t = (if host = TIGER_BIG_ENDIAN then t else byteswap64 t)"

definition bswap_on_big_endian64 :: "endian \<Rightarrow> u64 \<Rightarrow> u64" where
  "bswap_on_big_endian64 host t = (if host = TIGER_BIG_ENDIAN then byteswap64 t else t)"

section \<open>Object representation\<close>

definition le_bytes :: "'a::len word \<Rightarrow> byte list" where
  "le_bytes w = map (\<lambda>i. ucast (drop_bit (8 * i) w)) [0..<LENGTH('a) div 8]"

definition le_word :: "byte list \<Rightarrow> 'a::len word" where
  "le_word bs = foldr (\<lambda>b acc. ucast b OR push_bit 8 acc) bs 0"

definition in_order :: "endian \<Rightarrow> byte list \<Rightarrow> byte list" where
  "in_order e bs = (if e = TIGER_LITTLE_ENDIAN then bs else rev bs)"

text \<open>\<open>mem_bytes host w\<close> are the bytes of a variable that holds \<open>w\<close>; \<open>mem_word\<close> reads them back.\<close>

definition mem_bytes :: "endian \<Rightarrow> 'a::len word \<Rightarrow> byte list" where
  "mem_bytes host w = in_order host (le_bytes w)"

definition mem_word :: "endian \<Rightarrow> byte list \<Rightarrow> 'a::len word" where
  "mem_word host bs = le_word (in_order host bs)"

lemma length_le_bytes [simp]: "length (le_bytes (w :: 'a::len word)) = LENGTH('a) div 8"
  by (simp add: le_bytes_def)

lemma length_in_order [simp]: "length (in_order e bs) = length bs"
  by (simp add: in_order_def)

lemma in_order_in_order [simp]: "in_order e (in_order e bs) = bs"
  by (simp add: in_order_def)

lemma length_mem_bytes [simp]: "length (mem_bytes host (w :: 'a::len word)) = LENGTH('a) div 8"
  by (simp add: mem_bytes_def)

lemma bit_le_word:
  "bit (le_word bs :: 'a::len word) n \<longleftrightarrow>
     n < LENGTH('a) \<and> n div 8 < length bs \<and> bit (bs ! (n div 8)) (n mod 8)"
proof (induction bs arbitrary: n)
  case Nil
  then show ?case by (simp add: le_word_def)
next
  case (Cons b bs)
  have step: "(le_word (b # bs) :: 'a word) = ucast b OR push_bit 8 (le_word bs)"
    by (simp add: le_word_def)
  show ?case
  proof (cases "n < 8")
    case True
    then show ?thesis by (auto simp: step bit_simps)
  next
    case False
    then have "n div 8 = Suc ((n - 8) div 8)" "n mod 8 = (n - 8) mod 8"
      by (simp_all add: le_div_geq le_mod_geq)
    moreover have "\<not> bit b n" using False by (auto dest: bit_imp_le_length)
    ultimately show ?thesis using False by (auto simp: step bit_simps Cons.IH)
  qed
qed

lemma bit_le_bytes_nth:
  "i < LENGTH('a) div 8 \<Longrightarrow> j < 8 \<Longrightarrow> bit (le_bytes (w :: 'a::len word) ! i) j \<longleftrightarrow> bit w (8 * i + j)"
  by (simp add: le_bytes_def bit_simps)

lemma le_word_le_bytes:
  assumes "8 dvd LENGTH('a)"
  shows "le_word (le_bytes w) = (w :: 'a::len word)"
proof (rule bit_word_eqI)
  fix n assume n: "n < LENGTH('a)"
  with assms have "n div 8 < LENGTH('a) div 8" by (auto simp: dvd_def)
  with n show "bit (le_word (le_bytes w) :: 'a word) n = bit w n"
    by (simp add: bit_le_word bit_le_bytes_nth)
qed

lemma le_bytes_le_word:
  assumes "8 dvd LENGTH('a)" and l: "length bs = LENGTH('a) div 8"
  shows "le_bytes (le_word bs :: 'a::len word) = bs"
proof (rule nth_equalityI)
  show "length (le_bytes (le_word bs :: 'a word)) = length bs" using l by simp
next
  fix i assume "i < length (le_bytes (le_word bs :: 'a word))"
  then have i: "i < LENGTH('a) div 8" by simp
  show "le_bytes (le_word bs :: 'a word) ! i = bs ! i"
  proof (rule bit_word_eqI)
    fix j assume j: "j < LENGTH(8)"
    have "8 * i + j < LENGTH('a)" using i j assms by (auto simp: dvd_def)
    then show "bit (le_bytes (le_word bs :: 'a word) ! i) j = bit (bs ! i) j"
      using i j l by (simp add: bit_le_bytes_nth bit_le_word)
  qed
qed

lemma mem_word_mem_bytes [simp]:
  "8 dvd LENGTH('a) \<Longrightarrow> mem_word host (mem_bytes host w) = (w :: 'a::len word)"
  by (simp add: mem_word_def mem_bytes_def le_word_le_bytes)

section \<open>Byte swaps reverse the representation\<close>

lemma le_bytes_8 [simp]: "le_bytes (w :: byte) = [w]"
  by (simp add: le_bytes_def)

lemma byte_masks:
  "(0xff :: 'a::len word) = mask 8"
  "(0xff00 :: 'a word) = push_bit 8 (mask 8)"
  "(0xff0000 :: 'a word) = push_bit 16 (mask 8)"
  "(0xff000000 :: 'a word) = push_bit 24 (mask 8)"
  "(0xff00000000 :: 'a word) = push_bit 32 (mask 8)"
  "(0xff0000000000 :: 'a word) = push_bit 40 (mask 8)"
  "(0xff000000000000 :: 'a word) = push_bit 48 (mask 8)"
  "(0xff00000000000000 :: 'a word) = push_bit 56 (mask 8)"
  by (simp_all add: mask_eq_exp_minus_1 push_bit_eq_mult)

lemma upt_bytes: "[0..<2] = [0, 1::nat]" "[0..<4] = [0, 1, 2, 3::nat]" "[0..<8] = [0, 1, 2, 3, 4, 5, 6, 7::nat]"
  by (simp_all add: upt_rec)

lemma bswap_16_le_bytes: "le_bytes (bswap_16 x) = rev (le_bytes x)"
  unfolding le_bytes_def bswap_16_def byte_masks
  by (simp add: upt_bytes) (auto intro!: bit_word_eqI simp: bit_simps)

lemma bswap_32_le_bytes: "le_bytes (bswap_32 x) = rev (le_bytes x)"
  unfolding le_bytes_def bswap_32_def byte_masks
  by (simp add: upt_bytes) (auto intro!: bit_word_eqI simp: bit_simps)

lemma bswap_64_le_bytes: "le_bytes (bswap_64 x) = rev (le_bytes x)"
  unfolding le_bytes_def bswap_64_def byte_masks
  by (simp add: upt_bytes) (auto intro!: bit_word_eqI simp: bit_simps)

text \<open>A swap that reverses the representation reverses what is read from it.\<close>

lemma swap_le_word:
  fixes swap :: "'a::len word \<Rightarrow> 'a word"
  assumes w: "8 dvd LENGTH('a)" and sw: "\<And>x. le_bytes (swap x) = rev (le_bytes x)"
    and l: "length bs = LENGTH('a) div 8"
  shows "swap (le_word bs :: 'a word) = le_word (rev bs)"
proof -
  have "le_bytes (swap (le_word bs :: 'a word)) = rev bs"
    using w l by (simp add: sw le_bytes_le_word)
  then have "le_word (le_bytes (swap (le_word bs :: 'a word))) = (le_word (rev bs) :: 'a word)"
    by simp
  then show ?thesis by (simp only: le_word_le_bytes [OF w])
qed

lemma mem_bytes_swap:
  fixes swap :: "'a::len word \<Rightarrow> 'a word"
  assumes "\<And>x. le_bytes (swap x) = rev (le_bytes x)"
  shows "mem_bytes host (if e \<noteq> host then swap v else (v :: 'a word)) = in_order e (le_bytes v)"
  using assms by (cases e; cases host) (simp_all add: mem_bytes_def in_order_def)

lemma mem_word_swap:
  fixes swap :: "'a::len word \<Rightarrow> 'a word"
  assumes "8 dvd LENGTH('a)" "\<And>x. le_bytes (swap x) = rev (le_bytes x)"
    and "length bs = LENGTH('a) div 8"
  shows "(if e = host then mem_word host bs else swap (mem_word host bs :: 'a word)) = le_word (in_order e bs)"
  using assms swap_le_word [of swap bs] swap_le_word [of swap "rev bs"]
  by (cases e; cases host) (simp_all add: mem_word_def in_order_def)

lemma byteswap_le_bytes:
  "le_bytes (byteswap16 x) = rev (le_bytes x)"
  "le_bytes (byteswap32 y) = rev (le_bytes y)"
  "le_bytes (byteswap64 z) = rev (le_bytes z)"
  by (simp_all add: byteswap16_def byteswap32_def byteswap64_def
      bswap_16_le_bytes bswap_32_le_bytes bswap_64_le_bytes)

lemma le_bytes_inject: "8 dvd LENGTH('a) \<Longrightarrow> le_bytes x = le_bytes y \<Longrightarrow> x = (y :: 'a::len word)"
  by (metis le_word_le_bytes)

lemma byteswap_involution:
  "byteswap16 (byteswap16 x) = x" "byteswap32 (byteswap32 y) = y" "byteswap64 (byteswap64 z) = z"
  by (rule le_bytes_inject; simp add: byteswap_le_bytes)+

text \<open>
  On either host, \<^verbatim>\<open>bswap_on_little_endian\<close> converts to network order: the
  representation of the result is the big-endian one.
\<close>

lemma network_order:
  "mem_bytes host (bswap_on_little_endian16 host x) = rev (le_bytes x)"
  "mem_bytes host (bswap_on_little_endian32 host y) = rev (le_bytes y)"
  "mem_bytes host (bswap_on_little_endian64 host z) = rev (le_bytes z)"
  by (cases host; simp add: bswap_on_little_endian16_def bswap_on_little_endian32_def
      bswap_on_little_endian64_def mem_bytes_def in_order_def byteswap_le_bytes)+

lemma bswap_on_little_endian_involution:
  "bswap_on_little_endian16 host (bswap_on_little_endian16 host x) = x"
  "bswap_on_little_endian32 host (bswap_on_little_endian32 host y) = y"
  "bswap_on_little_endian64 host (bswap_on_little_endian64 host z) = z"
  by (simp_all add: bswap_on_little_endian16_def bswap_on_little_endian32_def
      bswap_on_little_endian64_def byteswap_involution)

end
