(* ===== verification/Buffer.thy ===== *)
theory Buffer
  imports Prelude
begin

text \<open>
  The contract between a byte buffer with a cursor and the codecs that run on it.

  The locale \<open>byte_buffer\<close> fixes the operations a codec calls (\<open>bwrite\<close>, \<open>bread\<close>,
  \<open>bseek\<close>) and what it may observe (\<open>contents\<close>, \<open>pos\<close>, the mode, e.g. the byte order),
  and assumes the laws of the buffer. \<open>stores w m bs\<close> says that the writer \<open>w\<close>, in mode
  \<open>m\<close>, stores exactly the bytes \<open>bs\<close> at the cursor; \<open>loads r m bs x\<close> says that the reader
  \<open>r\<close>, started in front of the bytes \<open>bs\<close>, consumes them and returns \<open>x\<close>. Both compose,
  and a writer and a reader that agree on the bytes form a round trip.
\<close>

section \<open>The abstract buffer\<close>

text \<open>
  The specification: a list of bytes and a position, on which a write replaces or
  extends, a read returns the bytes behind the position or fails and changes nothing.
\<close>

datatype buf_op = BWrite "byte list" | BRead nat | BSeek nat

datatype buf_out = BDone | BGot "byte list" | BFailed

fun flat_step :: "buf_op \<Rightarrow> byte list \<times> nat \<Rightarrow> buf_out \<times> (byte list \<times> nat)" where
  "flat_step (BWrite bs) (c, p) = (BDone, (patch c p bs, p + length bs))"
| "flat_step (BRead n) (c, p) =
     (if length c < p + n then (BFailed, (c, p)) else (BGot (take n (drop p c)), (c, p + n)))"
| "flat_step (BSeek q) (c, p) = (BDone, (c, q))"

fun op_allowed :: "nat \<Rightarrow> buf_op \<Rightarrow> byte list \<times> nat \<Rightarrow> bool" where
  "op_allowed lim (BWrite bs) (c, p) \<longleftrightarrow> p + length bs \<le> lim"
| "op_allowed lim (BRead n) (c, p) \<longleftrightarrow> True"
| "op_allowed lim (BSeek q) (c, p) \<longleftrightarrow> q \<le> length c"

fun run_steps :: "('o \<Rightarrow> 's \<Rightarrow> 'r \<times> 's) \<Rightarrow> 'o list \<Rightarrow> 's \<Rightarrow> 'r list \<times> 's" where
  "run_steps step [] s = ([], s)"
| "run_steps step (x # xs) s =
     (let (r, s1) = step x s; (rs, s2) = run_steps step xs s1 in (r # rs, s2))"

fun ops_allowed :: "nat \<Rightarrow> buf_op list \<Rightarrow> byte list \<times> nat \<Rightarrow> bool" where
  "ops_allowed lim [] f \<longleftrightarrow> True"
| "ops_allowed lim (x # xs) f \<longleftrightarrow> op_allowed lim x f \<and> ops_allowed lim xs (snd (flat_step x f))"

text \<open>One operation of a concrete buffer, observed.\<close>

fun buf_step ::
    "(byte list \<Rightarrow> ('s, 'e, unit) se) \<Rightarrow> (nat \<Rightarrow> ('s, 'e, byte list) se) \<Rightarrow> (nat \<Rightarrow> ('s, 'e, unit) se) \<Rightarrow>
     buf_op \<Rightarrow> 's \<Rightarrow> buf_out \<times> 's" where
  "buf_step w r k (BWrite bs) s = (case w bs s of (Inl _, s') \<Rightarrow> (BFailed, s') | (Inr _, s') \<Rightarrow> (BDone, s'))"
| "buf_step w r k (BRead n) s = (case r n s of (Inl _, s') \<Rightarrow> (BFailed, s') | (Inr bs, s') \<Rightarrow> (BGot bs, s'))"
| "buf_step w r k (BSeek q) s = (case k q s of (Inl _, s') \<Rightarrow> (BFailed, s') | (Inr _, s') \<Rightarrow> (BDone, s'))"

section \<open>The interface\<close>

locale byte_buffer =
  fixes binv :: "'s \<Rightarrow> bool"
    and contents :: "'s \<Rightarrow> byte list"
    and pos :: "'s \<Rightarrow> nat"
    and mode :: "'s \<Rightarrow> 'm"
    and limit :: "'s \<Rightarrow> nat"
    and bwrite :: "byte list \<Rightarrow> ('s, 'e, unit) se"
    and bread :: "nat \<Rightarrow> ('s, 'e, byte list) se"
    and bseek :: "nat \<Rightarrow> ('s, 'e, unit) se"
    and eof :: 'e
  assumes pos_le: "binv s \<Longrightarrow> pos s \<le> length (contents s)"
    and bwrite_law: "binv s \<Longrightarrow> pos s + length bs \<le> limit s \<Longrightarrow>
      \<exists>s'. bwrite bs s = (Inr (), s') \<and> binv s' \<and> mode s' = mode s \<and> limit s' = limit s \<and>
        contents s' = patch (contents s) (pos s) bs \<and> pos s' = pos s + length bs"
    and bread_law: "binv s \<Longrightarrow> pos s + n \<le> length (contents s) \<Longrightarrow>
      \<exists>s'. bread n s = (Inr (take n (drop (pos s) (contents s))), s') \<and> binv s' \<and> mode s' = mode s \<and> limit s' = limit s \<and>
        contents s' = contents s \<and> pos s' = pos s + n"
    and bread_eof: "binv s \<Longrightarrow> length (contents s) < pos s + n \<Longrightarrow> bread n s = (Inl eof, s)"
    and bseek_law: "binv s \<Longrightarrow> p \<le> length (contents s) \<Longrightarrow>
      \<exists>s'. bseek p s = (Inr (), s') \<and> binv s' \<and> mode s' = mode s \<and> limit s' = limit s \<and> contents s' = contents s \<and> pos s' = p"
begin

definition stores :: "('s, 'e, unit) se \<Rightarrow> 'm \<Rightarrow> byte list \<Rightarrow> bool" where
  "stores w m bs \<longleftrightarrow> (\<forall>s. binv s \<and> mode s = m \<and> pos s + length bs \<le> limit s \<longrightarrow>
     (\<exists>s'. w s = (Inr (), s') \<and> binv s' \<and> mode s' = m \<and> limit s' = limit s \<and>
        contents s' = patch (contents s) (pos s) bs \<and> pos s' = pos s + length bs))"

definition loads :: "('s, 'e, 'a) se \<Rightarrow> 'm \<Rightarrow> byte list \<Rightarrow> 'a \<Rightarrow> bool" where
  "loads r m bs x \<longleftrightarrow> (\<forall>s. binv s \<and> mode s = m \<and> pos s + length bs \<le> length (contents s) \<and>
     take (length bs) (drop (pos s) (contents s)) = bs \<longrightarrow>
     (\<exists>s'. r s = (Inr x, s') \<and> binv s' \<and> mode s' = m \<and> contents s' = contents s \<and> pos s' = pos s + length bs))"

lemma stores_write: "stores (bwrite bs) m bs"
  using bwrite_law by (auto simp: stores_def)

lemma stores_return: "stores (se_return ()) m []"
  using pos_le by (simp add: stores_def patch_def)

lemma stores_bind:
  assumes 1: "stores w1 m b1" and 2: "stores w2 m b2"
  shows "stores (se_bind w1 (\<lambda>_. w2)) m (b1 @ b2)"
  unfolding stores_def
proof (intro allI impI)
  fix s assume s: "binv s \<and> mode s = m \<and> pos s + length (b1 @ b2) \<le> limit s"
  with 1 obtain s1 where s1: "w1 s = (Inr (), s1)" "binv s1" "mode s1 = m"
      "limit s1 = limit s" "contents s1 = patch (contents s) (pos s) b1" "pos s1 = pos s + length b1"
    by (auto simp: stores_def)
  with 2 s obtain s2 where s2: "w2 s1 = (Inr (), s2)" "binv s2" "mode s2 = m"
      "limit s2 = limit s1" "contents s2 = patch (contents s1) (pos s1) b2" "pos s2 = pos s1 + length b2"
    by (auto simp: stores_def)
  have "contents s2 = patch (contents s) (pos s) (b1 @ b2)"
    using s s1(5,6) s2(5) pos_le [of s] by (simp add: patch_append_grow)
  with s1 s2 show "\<exists>s'. se_bind w1 (\<lambda>_. w2) s = (Inr (), s') \<and> binv s' \<and> mode s' = m \<and> limit s' = limit s \<and>
      contents s' = patch (contents s) (pos s) (b1 @ b2) \<and> pos s' = pos s + length (b1 @ b2)"
    by (auto simp: add.assoc)
qed

lemma stores_mode: "stores (w m) m bs \<Longrightarrow> stores (\<lambda>s. w (mode s) s) m bs"
  by (auto simp: stores_def)

lemma loads_read: "n = length bs \<Longrightarrow> loads (bread n) m bs bs"
  using bread_law by (fastforce simp: loads_def)

lemma loads_return: "loads (se_return x) m [] x"
  by (simp add: loads_def)

lemma loads_bind:
  assumes 1: "loads r m b1 x" and 2: "loads (f x) m b2 y"
  shows "loads (se_bind r f) m (b1 @ b2) y"
  unfolding loads_def
proof (intro allI impI)
  fix s assume s: "binv s \<and> mode s = m \<and> pos s + length (b1 @ b2) \<le> length (contents s) \<and>
    take (length (b1 @ b2)) (drop (pos s) (contents s)) = b1 @ b2"
  let ?rest = "drop (pos s) (contents s)"
  from s have len: "length b1 + length b2 \<le> length ?rest" and
    split: "take (length b1) ?rest @ take (length b2) (drop (length b1) ?rest) = b1 @ b2"
    by (auto simp: take_add)
  from split len have h: "take (length b1) ?rest = b1" "take (length b2) (drop (length b1) ?rest) = b2"
    by simp_all
  with 1 s obtain s1 where s1: "r s = (Inr x, s1)" "binv s1" "mode s1 = m" "contents s1 = contents s"
      "pos s1 = pos s + length b1"
    by (auto simp: loads_def)
  with 2 h(2) s show "\<exists>s'. se_bind r f s = (Inr y, s') \<and> binv s' \<and> mode s' = m \<and> contents s' = contents s \<and>
      pos s' = pos s + length (b1 @ b2)"
    by (auto simp: loads_def add.assoc add.commute)
qed

lemma loads_map: "loads r m bs x \<Longrightarrow> g x = y \<Longrightarrow> loads (se_bind r (\<lambda>x. se_return (g x))) m bs y"
  using loads_bind [of r m bs x "\<lambda>x. se_return (g x)" "[]"] loads_return [of y] by simp

lemma loads_mode: "loads (r m) m bs x \<Longrightarrow> loads (\<lambda>s. r (mode s) s) m bs x"
  by (auto simp: loads_def)

text \<open>What a writer stored is what the reader finds after seeking back.\<close>

lemma round_trip_prefix:
  assumes "stores w m (bs @ rest)" "loads r m bs x" "binv s" "mode s = m" "pos s + length (bs @ rest) \<le> limit s"
  shows "\<exists>s'. se_bind w (\<lambda>_. se_bind (bseek (pos s)) (\<lambda>_. r)) s = (Inr x, s') \<and> binv s' \<and>
     contents s' = patch (contents s) (pos s) (bs @ rest) \<and> pos s' = pos s + length bs"
proof -
  from assms(1,3-5) obtain s1 where s1: "w s = (Inr (), s1)" "binv s1" "mode s1 = m"
      "contents s1 = patch (contents s) (pos s) (bs @ rest)"
    by (auto simp: stores_def)
  have p: "pos s \<le> length (contents s)" using assms(3) by (rule pos_le)
  then have "pos s \<le> length (contents s1)" by (simp add: s1(4) length_patch_grow)
  with bseek_law [OF s1(2)] s1(3) obtain s2 where s2: "bseek (pos s) s1 = (Inr (), s2)" "binv s2" "mode s2 = m"
      "contents s2 = contents s1" "pos s2 = pos s" by metis
  moreover have "pos s + length bs \<le> length (contents s1)" "take (length bs) (drop (pos s) (contents s1)) = bs"
    using p by (simp_all add: s1(4) length_patch_grow) (simp add: patch_def)
  ultimately obtain s3 where "r s2 = (Inr x, s3)" "binv s3" "contents s3 = contents s1" "pos s3 = pos s + length bs"
    using assms(2) by (auto simp: loads_def)
  with s1 s2 show ?thesis by auto
qed

lemmas round_trip = round_trip_prefix [where rest = "[]", simplified append_Nil2]

text \<open>Every operation simulates the abstract buffer, and so does every sequence of them.\<close>

lemma step_refines:
  assumes "binv s" "op_allowed (limit s) op (contents s, pos s)"
  shows "\<exists>out s'. buf_step bwrite bread bseek op s = (out, s') \<and> binv s' \<and> limit s' = limit s \<and>
     flat_step op (contents s, pos s) = (out, (contents s', pos s'))"
proof (cases op)
  case (BWrite bs)
  then show ?thesis using assms bwrite_law [of s bs] by auto
next
  case (BRead n)
  then show ?thesis using assms bread_law [of s n] bread_eof [of s n]
    by (cases "length (contents s) < pos s + n") auto
next
  case (BSeek q)
  then show ?thesis using assms bseek_law [of s q] by auto
qed

lemma run_refines:
  assumes "binv s" "ops_allowed (limit s) ops (contents s, pos s)"
  shows "\<exists>outs s'. run_steps (buf_step bwrite bread bseek) ops s = (outs, s') \<and> binv s' \<and>
     run_steps flat_step ops (contents s, pos s) = (outs, (contents s', pos s'))"
  using assms
proof (induction ops arbitrary: s)
  case (Cons op ops)
  from step_refines [of s op] Cons.prems obtain r s1 where 1: "buf_step bwrite bread bseek op s = (r, s1)" "binv s1"
      "limit s1 = limit s" "flat_step op (contents s, pos s) = (r, (contents s1, pos s1))"
    by auto
  with Cons.prems have "ops_allowed (limit s1) ops (contents s1, pos s1)" by simp
  from Cons.IH [OF 1(2) this] 1 show ?case by auto
qed simp

end

end
