(* ===== verification/ByteArray.thy ===== *)
theory ByteArray
  imports Endian Buffer
begin

text \<open>
  The block store of \<^verbatim>\<open>src/bytearray.cc\<close>: a chain of blocks of \<^verbatim>\<open>m_base_size\<close>
  bytes with a current block and a position. The chain that starts at \<^verbatim>\<open>m_root\<close> and
  follows \<^verbatim>\<open>next\<close> is a list of nodes, a pointer into it is an index, and following
  \<^verbatim>\<open>next\<close> from the last node and dereferencing it is the error \<open>NullDeref\<close>. The
  contents of a fresh block (\<^verbatim>\<open>new char[s]\<close>) are indeterminate: the state carries
  them as \<open>ba_fresh\<close>, about which nothing is assumed.

  The invariant \<open>ba_inv\<close> and the refinement to a flat buffer with a cursor are proved
  for every operation that moves or copies bytes.
\<close>

section \<open>Data\<close>

record node =
  n_ptr :: "byte list"
  n_size :: nat

record bytearray =
  ba_base_size :: nat
  ba_position :: nat
  ba_capacity :: nat
  ba_size :: nat
  ba_endian :: endian
  ba_root :: "node list"
  ba_cur :: nat
  ba_fresh :: "nat \<Rightarrow> byte"

datatype ba_error = OutOfRange string | NullDeref | DivisionByZero | LengthError

text \<open>An \<^verbatim>\<open>iovec\<close>: \<^verbatim>\<open>iov_base\<close> is the offset \<open>iov_off\<close> in the block \<open>iov_node\<close>.\<close>

record iovec =
  iov_node :: nat
  iov_off :: nat
  iov_len :: nat

definition new_node :: "(nat \<Rightarrow> byte) \<Rightarrow> nat \<Rightarrow> node" where
  "new_node fresh s = \<lparr>n_ptr = map fresh [0..<s], n_size = s\<rparr>"

definition ByteArray_new :: "(nat \<Rightarrow> byte) \<Rightarrow> nat \<Rightarrow> bytearray" where
  "ByteArray_new fresh base_size =
     \<lparr>ba_base_size = base_size, ba_position = 0, ba_capacity = 0, ba_size = 0,
      ba_endian = TIGER_BIG_ENDIAN, ba_root = [new_node fresh base_size], ba_cur = 0,
      ba_fresh = fresh\<rparr>"

section \<open>Sizes\<close>

definition get_enable_read_size :: "bytearray \<Rightarrow> nat" where
  "get_enable_read_size ba = sub64 (ba_size ba) (ba_position ba)"

definition get_free_capacity :: "bytearray \<Rightarrow> nat" where
  "get_free_capacity ba = sub64 (ba_capacity ba) (ba_position ba)"

text \<open>\<^verbatim>\<open>ceil(1.0 * size / m_base_size)\<close>, exact for sizes below \<open>2 ^ 52\<close>.\<close>

definition ceil_div :: "nat \<Rightarrow> nat \<Rightarrow> nat" where
  "ceil_div a b = (a + b - 1) div b"

text \<open>The loop that appends \<^verbatim>\<open>cnt\<close> blocks; it returns the value \<^verbatim>\<open>cnt\<close> has after it.\<close>

fun append_nodes :: "nat \<Rightarrow> bytearray \<Rightarrow> nat \<times> bytearray" where
  "append_nodes 0 ba = (0, ba)"
| "append_nodes (Suc cnt) ba =
     append_nodes cnt
       (ba\<lparr>ba_root := ba_root ba @ [new_node (ba_fresh ba) (ba_base_size ba)],
           ba_capacity := ba_capacity ba + ba_base_size ba\<rparr>)"

definition add_free_capacity_to :: "nat \<Rightarrow> bytearray \<Rightarrow> bytearray" where
  "add_free_capacity_to sz ba =
     (let free_cap = get_free_capacity ba
      in if free_cap > sz then ba
         else let sz' = sz - free_cap;
                  cnt = ceil_div sz' (ba_base_size ba) + 1;
                  (cnt', ba') = append_nodes cnt ba
              in if free_cap = 0 \<and> cnt' > 0 then ba'\<lparr>ba_cur := ba_cur ba' + 1\<rparr> else ba')"

section \<open>Writing and reading\<close>

text \<open>\<^verbatim>\<open>memcpy(nd->ptr + npos, buf, len)\<close>.\<close>

definition poke :: "node \<Rightarrow> nat \<Rightarrow> byte list \<Rightarrow> node" where
  "poke nd npos buf = nd\<lparr>n_ptr := patch (n_ptr nd) npos buf\<rparr>"

definition peek :: "node \<Rightarrow> nat \<Rightarrow> nat \<Rightarrow> byte list" where
  "peek nd npos n = take n (drop npos (n_ptr nd))"

function write_loop :: "nat \<Rightarrow> nat \<Rightarrow> byte list \<Rightarrow> bytearray \<Rightarrow> (ba_error + unit) \<times> bytearray" where
  "write_loop npos ncap buf ba =
     (if buf = [] then (Inr (), ba)
      else if ba_cur ba \<ge> length (ba_root ba) then (Inl NullDeref, ba)
      else let nd = ba_root ba ! ba_cur ba in
        if ncap \<ge> length buf then
          let ba1 = ba\<lparr>ba_root := (ba_root ba)[ba_cur ba := poke nd npos buf]\<rparr>;
              ba2 = (if n_size nd = npos + length buf \<and> ba_cur ba + 1 < length (ba_root ba)
                     then ba1\<lparr>ba_cur := ba_cur ba + 1\<rparr> else ba1)
          in (Inr (), ba2\<lparr>ba_position := ba_position ba + length buf\<rparr>)
        else
          let ba1 = ba\<lparr>ba_root := (ba_root ba)[ba_cur ba := poke nd npos (take ncap buf)],
                      ba_position := ba_position ba + ncap, ba_cur := ba_cur ba + 1\<rparr>
          in if ba_cur ba + 1 < length (ba_root ba)
             then write_loop 0 (n_size (ba_root ba ! (ba_cur ba + 1))) (drop ncap buf) ba1
             else (Inl NullDeref, ba1))"
  by pat_completeness auto
termination
  by (relation "measure (\<lambda>(npos, ncap, buf, ba). length (ba_root ba) - ba_cur ba)") (auto simp: Let_def)

declare write_loop.simps [simp del]

definition ByteArray_write :: "byte list \<Rightarrow> (bytearray, ba_error, unit) se" where
  "ByteArray_write buf ba =
     (if buf = [] then (Inr (), ba)
      else if ba_base_size ba = 0 then (Inl DivisionByZero, ba)
      else
        let ba1 = add_free_capacity_to (length buf) ba;
            npos = ba_position ba1 mod ba_base_size ba1
        in if ba_cur ba1 \<ge> length (ba_root ba1) then (Inl NullDeref, ba1)
           else case write_loop npos (sub64 (n_size (ba_root ba1 ! ba_cur ba1)) npos) buf ba1 of
             (Inl e, ba2) \<Rightarrow> (Inl e, ba2)
           | (Inr _, ba2) \<Rightarrow>
               (Inr (), if ba_position ba2 > ba_size ba2
                        then ba2\<lparr>ba_size := ba_position ba2\<rparr> else ba2))"

function read_loop :: "nat \<Rightarrow> nat \<Rightarrow> nat \<Rightarrow> bytearray \<Rightarrow> (ba_error + byte list) \<times> bytearray" where
  "read_loop npos ncap sz ba =
     (if sz = 0 then (Inr [], ba)
      else if ba_cur ba \<ge> length (ba_root ba) then (Inl NullDeref, ba)
      else let nd = ba_root ba ! ba_cur ba in
        if ncap \<ge> sz then
          let ba2 = (if n_size nd = npos + sz \<and> ba_cur ba + 1 < length (ba_root ba)
                     then ba\<lparr>ba_cur := ba_cur ba + 1\<rparr> else ba)
          in (Inr (peek nd npos sz), ba2\<lparr>ba_position := ba_position ba + sz\<rparr>)
        else
          let ba1 = ba\<lparr>ba_position := ba_position ba + ncap, ba_cur := ba_cur ba + 1\<rparr>
          in if ba_cur ba + 1 < length (ba_root ba)
             then case read_loop 0 (n_size (ba_root ba ! (ba_cur ba + 1))) (sz - ncap) ba1 of
                    (Inl e, ba2) \<Rightarrow> (Inl e, ba2)
                  | (Inr bs, ba2) \<Rightarrow> (Inr (peek nd npos ncap @ bs), ba2)
             else (Inl NullDeref, ba1))"
  by pat_completeness auto
termination
  by (relation "measure (\<lambda>(npos, ncap, sz, ba). length (ba_root ba) - ba_cur ba)") auto

declare read_loop.simps [simp del]

definition ByteArray_read :: "nat \<Rightarrow> (bytearray, ba_error, byte list) se" where
  "ByteArray_read sz ba =
     (if sz > get_enable_read_size ba then (Inl (OutOfRange ''[read out of range]''), ba)
      else if ba_base_size ba = 0 then (Inl DivisionByZero, ba)
      else if ba_cur ba \<ge> length (ba_root ba) then (Inl NullDeref, ba)
      else let npos = ba_position ba mod ba_base_size ba
           in read_loop npos (sub64 (n_size (ba_root ba ! ba_cur ba)) npos) sz ba)"

text \<open>
  The \<^verbatim>\<open>const\<close> overload reads at a given position and leaves the object alone. Its
  bounds check \<^verbatim>\<open>size > (m_size - position)\<close> is a \<^verbatim>\<open>size_t\<close> difference, which wraps
  around when the position lies beyond \<^verbatim>\<open>m_size\<close>.
\<close>

fun seek_node :: "node list \<Rightarrow> nat \<Rightarrow> nat \<Rightarrow> (nat \<times> nat) option" where
  "seek_node [] cur position = None"
| "seek_node (nd # nds) cur position =
     (if position \<ge> n_size nd then seek_node nds (cur + 1) (position - n_size nd)
      else Some (cur, position))"

fun copy_out :: "node list \<Rightarrow> nat \<Rightarrow> nat \<Rightarrow> nat \<Rightarrow> ba_error + byte list" where
  "copy_out [] npos ncap sz = (if sz = 0 then Inr [] else Inl NullDeref)"
| "copy_out (nd # nds) npos ncap sz =
     (if sz = 0 then Inr []
      else if ncap \<ge> sz then Inr (peek nd npos sz)
      else case nds of
        [] \<Rightarrow> Inl NullDeref
      | nd' # _ \<Rightarrow>
          (case copy_out nds 0 (n_size nd') (sz - ncap) of
             Inl e \<Rightarrow> Inl e
           | Inr bs \<Rightarrow> Inr (peek nd npos ncap @ bs)))"

definition ByteArray_read_at :: "nat \<Rightarrow> nat \<Rightarrow> bytearray \<Rightarrow> ba_error + byte list" where
  "ByteArray_read_at sz position ba =
     (if sz > sub64 (ba_size ba) position then Inl (OutOfRange ''[read not of range]'')
      else if ba_base_size ba = 0 then Inl DivisionByZero
      else
        let npos = position mod ba_base_size ba
        in case seek_node (ba_root ba) 0 position of
             None \<Rightarrow> Inl NullDeref
           | Some (cur, _) \<Rightarrow>
               copy_out (drop cur (ba_root ba)) npos (sub64 (n_size (ba_root ba ! cur)) npos) sz)"

definition ByteArray_clear :: "bytearray \<Rightarrow> bytearray" where
  "ByteArray_clear ba =
     ba\<lparr>ba_position := 0, ba_size := 0, ba_capacity := ba_base_size ba, ba_cur := 0,
        ba_root := take 1 (ba_root ba)\<rparr>"

fun position_loop :: "node list \<Rightarrow> nat \<Rightarrow> nat \<Rightarrow> nat option" where
  "position_loop [] cur v = None"
| "position_loop (nd # nds) cur v =
     (if v > n_size nd then position_loop nds (cur + 1) (v - n_size nd)
      else if v = n_size nd \<and> nds \<noteq> [] then Some (cur + 1)
      else Some cur)"

definition set_position :: "nat \<Rightarrow> (bytearray, ba_error, unit) se" where
  "set_position v ba =
     (if v > ba_capacity ba then (Inl (OutOfRange ''[set position out of range]''), ba)
      else let ba1 = ba\<lparr>ba_position := v, ba_size := (if v > ba_size ba then v else ba_size ba)\<rparr>
           in case position_loop (ba_root ba) 0 v of
                None \<Rightarrow> (Inl NullDeref, ba1)
              | Some cur \<Rightarrow> (Inr (), ba1\<lparr>ba_cur := cur\<rparr>))"

section \<open>Scatter and gather buffers\<close>

fun iovec_loop :: "node list \<Rightarrow> nat \<Rightarrow> nat \<Rightarrow> nat \<Rightarrow> nat \<Rightarrow> ba_error + iovec list" where
  "iovec_loop [] cur npos ncap len = (if len = 0 then Inr [] else Inl NullDeref)"
| "iovec_loop (nd # nds) cur npos ncap len =
     (if len = 0 then Inr []
      else if ncap \<ge> len then Inr [\<lparr>iov_node = cur, iov_off = npos, iov_len = len\<rparr>]
      else case nds of
        [] \<Rightarrow> Inl NullDeref
      | nd' # _ \<Rightarrow>
          (case iovec_loop nds (cur + 1) 0 (n_size nd') (len - ncap) of
             Inl e \<Rightarrow> Inl e
           | Inr iovs \<Rightarrow> Inr (\<lparr>iov_node = cur, iov_off = npos, iov_len = ncap\<rparr> # iovs)))"

definition get_enable_read_buffers :: "nat \<Rightarrow> bytearray \<Rightarrow> ba_error + iovec list \<times> nat" where
  "get_enable_read_buffers len0 ba =
     (let len = (if len0 > get_enable_read_size ba then get_enable_read_size ba else len0)
      in if len = 0 then Inr ([], 0)
         else if ba_base_size ba = 0 then Inl DivisionByZero
         else if ba_cur ba \<ge> length (ba_root ba) then Inl NullDeref
         else let npos = ba_position ba mod ba_base_size ba
              in case iovec_loop (drop (ba_cur ba) (ba_root ba)) (ba_cur ba) npos
                        (sub64 (n_size (ba_root ba ! ba_cur ba)) npos) len of
                   Inl e \<Rightarrow> Inl e
                 | Inr iovs \<Rightarrow> Inr (iovs, len))"

definition get_enable_read_buffers_at :: "nat \<Rightarrow> nat \<Rightarrow> bytearray \<Rightarrow> ba_error + iovec list \<times> nat" where
  "get_enable_read_buffers_at len0 position ba =
     (if position \<ge> ba_size ba then Inr ([], 0)
      else let len = (if len0 > sub64 (ba_size ba) position then sub64 (ba_size ba) position else len0)
      in if len = 0 then Inr ([], 0)
         else case seek_node (ba_root ba) 0 position of
                None \<Rightarrow> Inl NullDeref
              | Some (cur, pos) \<Rightarrow>
                  (case iovec_loop (drop cur (ba_root ba)) cur pos
                          (sub64 (n_size (ba_root ba ! cur)) pos) len of
                     Inl e \<Rightarrow> Inl e
                   | Inr iovs \<Rightarrow> Inr (iovs, len)))"

definition get_enable_write_buffers :: "nat \<Rightarrow> (bytearray, ba_error, iovec list \<times> nat) se" where
  "get_enable_write_buffers len ba =
     (if len = 0 then (Inr ([], 0), ba)
      else if ba_base_size ba = 0 then (Inl DivisionByZero, ba)
      else
        let ba1 = add_free_capacity_to len ba;
            npos = ba_position ba1 mod ba_base_size ba1
        in if ba_cur ba1 \<ge> length (ba_root ba1) then (Inl NullDeref, ba1)
           else case iovec_loop (drop (ba_cur ba1) (ba_root ba1)) (ba_cur ba1) npos
                       (sub64 (n_size (ba_root ba1 ! ba_cur ba1)) npos) len of
             Inl e \<Rightarrow> (Inl e, ba1)
           | Inr iovs \<Rightarrow> (Inr (iovs, len), ba1))"

section \<open>Files and strings\<close>

text \<open>
  A file is its contents; \<open>None\<close> stands for a stream that cannot be opened.
  \<open>write_to_file\<close> returns what it puts in the file.
\<close>

definition write_to_file :: "bool \<Rightarrow> bytearray \<Rightarrow> ba_error + byte list option" where
  "write_to_file can_open ba =
     (if \<not> can_open then Inr None
      else if ba_base_size ba = 0 then Inl DivisionByZero
      else if ba_cur ba \<ge> length (ba_root ba) then Inl NullDeref
      else let npos = ba_position ba mod ba_base_size ba
           in case copy_out (drop (ba_cur ba) (ba_root ba)) npos
                     (sub64 (n_size (ba_root ba ! ba_cur ba)) npos) (get_enable_read_size ba) of
                Inl e \<Rightarrow> Inl e
              | Inr bs \<Rightarrow> Inr (Some bs))"

text \<open>
  The loop of \<open>read_from_file\<close>: a read that finds fewer bytes than asked for sets
  \<^verbatim>\<open>eof\<close>, a read that is filled does not, even when nothing is left. With blocks of
  size 0 the stream never reaches its end, so the loop is given fuel.
\<close>

fun read_from_file_loop :: "nat \<Rightarrow> byte list \<Rightarrow> bytearray \<Rightarrow> ((ba_error + unit) \<times> bytearray) option" where
  "read_from_file_loop 0 file ba = None"
| "read_from_file_loop (Suc fuel) file ba =
     (let n = ba_base_size ba
      in case ByteArray_write (take n file) ba of
           (Inl e, ba') \<Rightarrow> Some (Inl e, ba')
         | (Inr _, ba') \<Rightarrow>
             if length file < n then Some (Inr (), ba')
             else read_from_file_loop fuel (drop n file) ba')"

definition read_from_file ::
    "nat \<Rightarrow> byte list option \<Rightarrow> bytearray \<Rightarrow> ((ba_error + bool) \<times> bytearray) option" where
  "read_from_file fuel file ba =
     (case file of
        None \<Rightarrow> Some (Inr False, ba)
      | Some bs \<Rightarrow>
          (case read_from_file_loop fuel bs ba of
             None \<Rightarrow> None
           | Some (Inl e, ba') \<Rightarrow> Some (Inl e, ba')
           | Some (Inr _, ba') \<Rightarrow> Some (Inr True, ba')))"

definition ByteArray_to_string :: "bytearray \<Rightarrow> ba_error + byte list" where
  "ByteArray_to_string ba =
     (if get_enable_read_size ba = 0 then Inr []
      else ByteArray_read_at (get_enable_read_size ba) (ba_position ba) ba)"

definition is_little_endian :: "bytearray \<Rightarrow> bool" where
  "is_little_endian ba \<longleftrightarrow> ba_endian ba = TIGER_LITTLE_ENDIAN"

definition set_little_endian :: "bool \<Rightarrow> bytearray \<Rightarrow> bytearray" where
  "set_little_endian v ba = ba\<lparr>ba_endian := (if v then TIGER_LITTLE_ENDIAN else TIGER_BIG_ENDIAN)\<rparr>"

section \<open>Invariant\<close>

definition ba_mem :: "bytearray \<Rightarrow> byte list" where
  "ba_mem ba = concat (map n_ptr (ba_root ba))"

definition ba_total :: "bytearray \<Rightarrow> nat" where
  "ba_total ba = length (ba_root ba) * ba_base_size ba"

definition blocks_ok :: "bytearray \<Rightarrow> bool" where
  "blocks_ok ba \<longleftrightarrow> 0 < ba_base_size ba \<and> ba_root ba \<noteq> [] \<and> ba_total ba < 2 ^ 64 \<and>
     (\<forall>nd \<in> set (ba_root ba). n_size nd = ba_base_size ba \<and> length (n_ptr nd) = ba_base_size ba)"

text \<open>The block a position belongs to; the end of the last block belongs to it.\<close>

definition cur_of :: "bytearray \<Rightarrow> nat \<Rightarrow> nat" where
  "cur_of ba p = (if p = ba_total ba then length (ba_root ba) - 1 else p div ba_base_size ba)"

definition ba_inv :: "bytearray \<Rightarrow> bool" where
  "ba_inv ba \<longleftrightarrow> blocks_ok ba \<and>
     (ba_capacity ba = ba_total ba \<or> ba_capacity ba + ba_base_size ba = ba_total ba) \<and>
     ba_position ba \<le> ba_size ba \<and> ba_size ba \<le> ba_capacity ba \<and>
     ba_cur ba = cur_of ba (ba_position ba)"

lemma length_ba_mem: "blocks_ok ba \<Longrightarrow> length (ba_mem ba) = ba_total ba"
  by (simp add: blocks_ok_def ba_mem_def ba_total_def length_concat_uniform)

definition ba_contents :: "bytearray \<Rightarrow> byte list" where
  "ba_contents ba = take (ba_size ba) (ba_mem ba)"

text \<open>What the copy loops leave alone.\<close>

definition same_frame :: "bytearray \<Rightarrow> bytearray \<Rightarrow> bool" where
  "same_frame ba ba' \<longleftrightarrow> ba_base_size ba' = ba_base_size ba \<and> ba_capacity ba' = ba_capacity ba \<and>
     ba_size ba' = ba_size ba \<and> ba_endian ba' = ba_endian ba \<and> ba_fresh ba' = ba_fresh ba \<and>
     length (ba_root ba') = length (ba_root ba)"

lemma same_frame_total: "same_frame ba ba' \<Longrightarrow> ba_total ba' = ba_total ba"
  by (simp add: same_frame_def ba_total_def)

lemma same_frame_cur_of: "same_frame ba ba' \<Longrightarrow> cur_of ba' = cur_of ba"
  by (simp add: fun_eq_iff cur_of_def same_frame_total) (simp add: same_frame_def)

lemma same_frame_trans: "same_frame a b \<Longrightarrow> same_frame b c \<Longrightarrow> same_frame a c"
  by (simp add: same_frame_def)

lemma cur_of_in_block:
  assumes "ba_base_size ba = b" "c < length (ba_root ba)" "j \<le> b" "0 < b"
  shows "cur_of ba (c * b + j) =
     (if j = b \<and> Suc c < length (ba_root ba) then Suc c else c)"
proof (cases "j = b")
  case True
  have eq: "c * b + b = Suc c * b" by simp
  show ?thesis
  proof (cases "Suc c < length (ba_root ba)")
    case True
    with assms have "c * b + b \<noteq> ba_total ba" unfolding eq ba_total_def by (simp del: mult_Suc)
    with True \<open>j = b\<close> assms show ?thesis by (simp add: cur_of_def)
  next
    case False
    with assms(2) have l: "length (ba_root ba) = Suc c" by simp
    then have "c * b + b = ba_total ba" using assms(1) by (simp add: ba_total_def)
    with l \<open>j = b\<close> show ?thesis by (simp add: cur_of_def)
  qed
next
  case False
  with assms have "j < b" by simp
  then have "c * b + j < Suc c * b" by simp
  also have "\<dots> \<le> ba_total ba" unfolding ba_total_def using assms by (intro mult_le_mono) auto
  finally have "c * b + j \<noteq> ba_total ba" by simp
  with \<open>j < b\<close> False assms(1) show ?thesis by (simp add: cur_of_def)
qed

text \<open>\<open>wrote ba buf ba'\<close>: from \<open>ba\<close> to \<open>ba'\<close> exactly the bytes \<open>buf\<close> were stored at the position.\<close>

definition wrote :: "bytearray \<Rightarrow> byte list \<Rightarrow> bytearray \<Rightarrow> bool" where
  "wrote ba buf ba' \<longleftrightarrow> same_frame ba ba' \<and> blocks_ok ba' \<and>
     ba_mem ba' = patch (ba_mem ba) (ba_position ba) buf \<and>
     ba_position ba' = ba_position ba + length buf \<and>
     ba_cur ba' = cur_of ba (ba_position ba + length buf)"

lemma wrote_trans:
  assumes "wrote ba xs ba1" "wrote ba1 ys ba2" "blocks_ok ba"
    and "ba_position ba + length xs \<le> ba_total ba"
  shows "wrote ba (xs @ ys) ba2"
  using assms same_frame_trans [of ba ba1 ba2] same_frame_cur_of [of ba ba1]
  by (simp add: wrote_def patch_append length_ba_mem add.assoc)

lemma poke_wrote:
  assumes ok: "blocks_ok ba" and c: "ba_cur ba < length (ba_root ba)"
    and j: "npos + length buf \<le> ba_base_size ba"
    and pos: "ba_position ba = ba_cur ba * ba_base_size ba + npos"
    and fr: "same_frame ba ba'" and root: "ba_root ba' = (ba_root ba)[ba_cur ba := poke (ba_root ba ! ba_cur ba) npos buf]"
    and pos': "ba_position ba' = ba_position ba + length buf"
    and cur': "ba_cur ba' = (if ba_base_size ba = npos + length buf \<and> Suc (ba_cur ba) < length (ba_root ba)
                 then Suc (ba_cur ba) else ba_cur ba)"
  shows "wrote ba buf ba'"
proof -
  let ?b = "ba_base_size ba" and ?nd = "ba_root ba ! ba_cur ba"
  have nd: "n_size ?nd = ?b" "length (n_ptr ?nd) = ?b"
    using ok c by (simp_all add: blocks_ok_def)
  have "blocks_ok ba'"
    using ok nd j c fr
    by (auto simp: root same_frame_def blocks_ok_def ba_total_def poke_def length_patch dest!: set_update_subset_insert [THEN subsetD])
  moreover have "ba_mem ba' = patch (ba_mem ba) (ba_position ba) buf"
    unfolding ba_mem_def pos root using ok c j
    by (intro concat_uniform_update) (simp_all add: blocks_ok_def poke_def)
  moreover have "ba_cur ba' = cur_of ba (ba_position ba + length buf)"
    using ok c j cur_of_in_block [of ba ?b "ba_cur ba" "npos + length buf"]
    by (auto simp: pos cur' blocks_ok_def add.assoc)
  ultimately show ?thesis using fr pos' by (simp add: wrote_def)
qed

text \<open>A loop that has more to copy than the block holds finds another block.\<close>

lemma next_block:
  assumes "ba_position ba = ba_cur ba * ba_base_size ba + npos" "ba_position ba + n \<le> ba_total ba"
    "\<not> n \<le> ba_base_size ba - npos"
  shows "Suc (ba_cur ba) < length (ba_root ba)"
proof -
  have "Suc (ba_cur ba) * ba_base_size ba < length (ba_root ba) * ba_base_size ba"
    using assms by (simp add: ba_total_def)
  then show ?thesis by (simp only: mult_less_cancel2)
qed

lemma write_loop_spec:
  assumes "blocks_ok ba" "ba_cur ba < length (ba_root ba)" "npos < ba_base_size ba"
    "ncap = ba_base_size ba - npos" "ba_position ba = ba_cur ba * ba_base_size ba + npos"
    "ba_position ba + length buf \<le> ba_total ba"
  shows "\<exists>ba'. write_loop npos ncap buf ba = (Inr (), ba') \<and> wrote ba buf ba'"
  using assms
proof (induction npos ncap buf ba rule: write_loop.induct)
  case (1 npos ncap buf ba)
  let ?b = "ba_base_size ba" and ?c = "ba_cur ba" and ?nd = "ba_root ba ! ba_cur ba"
  have nd: "n_size ?nd = ?b" using "1.prems" by (simp add: blocks_ok_def)
  consider "buf = []" | "buf \<noteq> []" "length buf \<le> ncap" | "buf \<noteq> []" "\<not> length buf \<le> ncap" by blast
  then show ?case
  proof cases
    case 1
    then show ?thesis using "1.prems" cur_of_in_block [of ba ?b ?c npos]
      by (simp add: write_loop.simps [of npos] wrote_def same_frame_def)
  next
    case 2
    with "1.prems" have "npos + length buf \<le> ?b" by simp
    with "1.prems" 2 nd show ?thesis
      by (auto simp: write_loop.simps [of npos] Let_def same_frame_def intro!: poke_wrote)
  next
    case 3
    have nx: "Suc ?c < length (ba_root ba)" using next_block [of ba npos "length buf"] "1.prems" 3 by simp
    define ba1 where "ba1 = ba\<lparr>ba_root := (ba_root ba)[?c := poke ?nd npos (take ncap buf)],
        ba_position := ba_position ba + ncap, ba_cur := ?c + 1\<rparr>"
    have w1: "wrote ba (take ncap buf) ba1"
      using "1.prems" 3 nx by (intro poke_wrote [of ba npos]) (simp_all add: ba1_def min_def same_frame_def)
    then have ok1: "blocks_ok ba1" "ba_total ba1 = ba_total ba"
      by (simp_all add: wrote_def same_frame_total)
    have "n_size (ba_root ba ! Suc ?c) = ?b" using "1.prems"(1) nx by (simp add: blocks_ok_def)
    then obtain ba' where ba': "write_loop 0 ?b (drop ncap buf) ba1 = (Inr (), ba')" "wrote ba1 (drop ncap buf) ba'"
      using "1.IH" [OF 3(1) _ refl 3(2) ba1_def _ ok1(1)] "1.prems" 3 nx ok1(2) by (auto simp: ba1_def)
    have "wrote ba buf ba'"
      using wrote_trans [OF w1 ba'(2) "1.prems"(1)] "1.prems" 3 by (simp add: min_def)
    then show ?thesis
      using "1.prems" 3 nx ba'(1) \<open>n_size (ba_root ba ! Suc ?c) = ?b\<close>
      by (simp add: write_loop.simps [of npos] Let_def ba1_def)
  qed
qed

lemma read_loop_spec:
  assumes "blocks_ok ba" "ba_cur ba < length (ba_root ba)" "npos < ba_base_size ba"
    "ncap = ba_base_size ba - npos" "ba_position ba = ba_cur ba * ba_base_size ba + npos"
    "ba_position ba + n \<le> ba_total ba"
  shows "read_loop npos ncap n ba = (Inr (take n (drop (ba_position ba) (ba_mem ba))),
     ba\<lparr>ba_position := ba_position ba + n, ba_cur := cur_of ba (ba_position ba + n)\<rparr>)"
  using assms
proof (induction npos ncap n ba rule: read_loop.induct)
  case (1 npos ncap n ba)
  let ?b = "ba_base_size ba" and ?c = "ba_cur ba" and ?nd = "ba_root ba ! ba_cur ba"
  have nd: "n_size ?nd = ?b" using "1.prems" by (simp add: blocks_ok_def)
  have seg: "peek ?nd npos k = take k (drop (ba_position ba) (ba_mem ba))" if "npos + k \<le> ?b" for k
    using concat_uniform_segment [of "ba_root ba" n_ptr ?b ?c npos k] that "1.prems"
    by (simp add: peek_def ba_mem_def blocks_ok_def)
  consider "n = 0" | "n \<noteq> 0" "n \<le> ncap" | "n \<noteq> 0" "\<not> n \<le> ncap" by blast
  then show ?case
  proof cases
    case 1
    then show ?thesis using "1.prems" cur_of_in_block [of ba ?b ?c npos]
      by (simp add: read_loop.simps [of npos])
  next
    case 2
    with "1.prems" have "npos + n \<le> ?b" by simp
    with "1.prems" 2 show ?thesis using nd seg [of n] cur_of_in_block [of ba ?b ?c "npos + n"]
      by (auto simp: read_loop.simps [of npos] Let_def add.assoc)
  next
    case 3
    have nx: "Suc ?c < length (ba_root ba)" using next_block [of ba npos n] "1.prems" 3 by simp
    define ba1 where "ba1 = ba\<lparr>ba_position := ba_position ba + ncap, ba_cur := ?c + 1\<rparr>"
    have same: "blocks_ok ba1" "ba_total ba1 = ba_total ba" "ba_mem ba1 = ba_mem ba" "cur_of ba1 = cur_of ba"
      using "1.prems"(1) by (simp_all add: ba1_def blocks_ok_def ba_total_def ba_mem_def cur_of_def fun_eq_iff)
    have sz: "n_size (ba_root ba ! Suc ?c) = ?b" using "1.prems"(1) nx by (simp add: blocks_ok_def)
    have IH: "read_loop 0 ?b (n - ncap) ba1 = (Inr (take (n - ncap) (drop (ba_position ba + ncap) (ba_mem ba))),
        ba\<lparr>ba_position := ba_position ba + n, ba_cur := cur_of ba (ba_position ba + n)\<rparr>)"
      using "1.IH" [OF 3(1) _ refl 3(2) ba1_def _ same(1)] "1.prems" 3 nx same sz by (simp add: ba1_def ac_simps)
    have "take ncap (drop (ba_position ba) (ba_mem ba)) @ take (n - ncap) (drop (ba_position ba + ncap) (ba_mem ba))
        = take n (drop (ba_position ba) (ba_mem ba))"
      using 3 take_add [of ncap "n - ncap" "drop (ba_position ba) (ba_mem ba)"] by (simp add: add.commute)
    then show ?thesis
      using "1.prems" 3 nx IH sz seg [of ncap] by (simp add: read_loop.simps [of npos] Let_def ba1_def ac_simps)
  qed
qed

section \<open>Growing\<close>

definition with_blocks :: "nat \<Rightarrow> bytearray \<Rightarrow> bytearray" where
  "with_blocks k ba = ba\<lparr>ba_root := ba_root ba @ replicate k (new_node (ba_fresh ba) (ba_base_size ba)),
     ba_capacity := ba_capacity ba + k * ba_base_size ba\<rparr>"

lemma append_nodes_eq: "append_nodes k ba = (0, with_blocks k ba)"
proof (induction k arbitrary: ba)
  case 0
  show ?case by (simp add: with_blocks_def)
next
  case (Suc k)
  then show ?case by (simp add: with_blocks_def replicate_append_same [symmetric] algebra_simps)
qed

text \<open>How many blocks \<open>add_free_capacity_to\<close> adds.\<close>

definition missing_blocks :: "nat \<Rightarrow> bytearray \<Rightarrow> nat" where
  "missing_blocks n ba =
     (if get_free_capacity ba > n then 0
      else ceil_div (n - get_free_capacity ba) (ba_base_size ba) + 1)"

lemma add_free_capacity_to_eq: "add_free_capacity_to n ba = with_blocks (missing_blocks n ba) ba"
  by (simp add: add_free_capacity_to_def missing_blocks_def append_nodes_eq Let_def with_blocks_def)

lemma ceil_div_bounds: "0 < b \<Longrightarrow> a \<le> ceil_div a b * b \<and> ceil_div a b * b < a + b"
proof -
  assume b: "0 < b"
  have "(a + b - 1) div b * b + (a + b - 1) mod b = a + b - 1" by (rule div_mult_mod_eq)
  moreover have "(a + b - 1) mod b < b" using b by simp
  ultimately show ?thesis unfolding ceil_div_def using b by linarith
qed

definition ba_fits :: "bytearray \<Rightarrow> nat \<Rightarrow> bool" where
  "ba_fits ba n \<longleftrightarrow> ba_position ba + n + 3 * ba_base_size ba \<le> 2 ^ 64"

lemma get_free_capacity_eq: "ba_inv ba \<Longrightarrow> get_free_capacity ba = ba_capacity ba - ba_position ba"
  by (auto simp: get_free_capacity_def ba_inv_def blocks_ok_def intro!: sub64_le)

lemma get_enable_read_size_eq: "ba_inv ba \<Longrightarrow> get_enable_read_size ba = ba_size ba - ba_position ba"
  by (auto simp: get_enable_read_size_def ba_inv_def blocks_ok_def intro!: sub64_le)

lemma missing_blocks_enough:
  assumes "ba_inv ba"
  shows "ba_position ba + n < ba_capacity ba + missing_blocks n ba * ba_base_size ba"
  using assms ceil_div_bounds [of "ba_base_size ba" "n - get_free_capacity ba"]
  by (auto simp: missing_blocks_def get_free_capacity_eq ba_inv_def blocks_ok_def)

lemma missing_blocks_bound:
  assumes "ba_inv ba" "ba_fits ba n"
  shows "ba_total ba + missing_blocks n ba * ba_base_size ba < 2 ^ 64"
  using assms ceil_div_bounds [of "ba_base_size ba" "n - get_free_capacity ba"]
  by (auto simp: missing_blocks_def get_free_capacity_eq ba_inv_def blocks_ok_def ba_fits_def)

lemma with_blocks_inv:
  assumes "ba_inv ba" "ba_total ba + k * ba_base_size ba < 2 ^ 64"
    and "k = 0 \<or> ba_position ba < ba_total ba"
  shows "ba_inv (with_blocks k ba)"
proof (cases "k = 0")
  case True
  then show ?thesis using assms(1) by (simp add: with_blocks_def)
next
  case False
  have tot: "ba_total (with_blocks k ba) = ba_total ba + k * ba_base_size ba"
    by (simp add: with_blocks_def ba_total_def algebra_simps)
  have "blocks_ok (with_blocks k ba)"
    using assms(1,2) tot by (auto simp: blocks_ok_def ba_inv_def) (auto simp: with_blocks_def new_node_def)
  moreover have "cur_of (with_blocks k ba) (ba_position ba) = cur_of ba (ba_position ba)"
    using assms(3) False by (simp add: cur_of_def tot) (simp add: with_blocks_def)
  ultimately show ?thesis using assms(1) tot by (auto simp: ba_inv_def) (auto simp: with_blocks_def)
qed

lemma with_blocks_contents:
  "ba_inv ba \<Longrightarrow> ba_contents (with_blocks k ba) = ba_contents ba"
  using length_ba_mem [of ba] by (auto simp: ba_contents_def ba_inv_def with_blocks_def ba_mem_def)

section \<open>Specifications of the operations\<close>

lemma cur_valid:
  assumes "ba_inv ba"
  shows "ba_cur ba < length (ba_root ba)"
proof (cases "ba_position ba = ba_total ba")
  case True
  then show ?thesis using assms by (simp add: ba_inv_def cur_of_def blocks_ok_def)
next
  case False
  with assms have "ba_position ba < length (ba_root ba) * ba_base_size ba"
    by (auto simp: ba_inv_def ba_total_def)
  then have "ba_position ba div ba_base_size ba < length (ba_root ba)" by (rule less_mult_imp_div_less)
  with False assms show ?thesis by (simp add: ba_inv_def cur_of_def)
qed

text \<open>Away from the end of the last block, the cursor is a block and an offset in it.\<close>

lemma cursor_split:
  assumes "ba_inv ba" "ba_position ba < ba_total ba"
  defines "npos \<equiv> ba_position ba mod ba_base_size ba"
  shows "npos < ba_base_size ba" "ba_position ba = ba_cur ba * ba_base_size ba + npos"
    "sub64 (n_size (ba_root ba ! ba_cur ba)) npos = ba_base_size ba - npos"
proof -
  have b: "0 < ba_base_size ba" and s: "n_size (ba_root ba ! ba_cur ba) = ba_base_size ba"
    using assms(1) cur_valid [of ba] by (auto simp: ba_inv_def blocks_ok_def)
  then show n: "npos < ba_base_size ba" by (simp add: npos_def)
  show "ba_position ba = ba_cur ba * ba_base_size ba + npos"
    using assms(1,2) by (simp add: npos_def ba_inv_def cur_of_def)
  have "ba_base_size ba * 1 \<le> ba_total ba"
    unfolding ba_total_def using assms(1) by (simp add: ba_inv_def blocks_ok_def Suc_le_eq)
  then have "ba_base_size ba < 2 ^ 64" using assms(1) by (simp add: ba_inv_def blocks_ok_def)
  with n s show "sub64 (n_size (ba_root ba ! ba_cur ba)) npos = ba_base_size ba - npos"
    by (simp add: sub64_le)
qed

lemma add_free_capacity_to_spec:
  assumes inv: "ba_inv ba" and room: "ba_position ba < ba_total ba" and fits: "ba_fits ba n"
  defines "ba1 \<equiv> add_free_capacity_to n ba"
  shows "ba_inv ba1" "ba_position ba1 + n < ba_capacity ba1" "ba_capacity ba1 \<le> ba_total ba1"
    "ba_contents ba1 = ba_contents ba" "ba_position ba1 = ba_position ba" "ba_size ba1 = ba_size ba"
    "ba_base_size ba1 = ba_base_size ba" "ba_endian ba1 = ba_endian ba" "ba_total ba \<le> ba_total ba1"
proof -
  have ba1: "ba1 = with_blocks (missing_blocks n ba) ba"
    by (simp add: ba1_def add_free_capacity_to_eq)
  show "ba_position ba1 = ba_position ba" "ba_size ba1 = ba_size ba"
      "ba_base_size ba1 = ba_base_size ba" "ba_endian ba1 = ba_endian ba" "ba_total ba \<le> ba_total ba1"
    by (simp_all add: ba1 with_blocks_def ba_total_def)
  show inv1: "ba_inv ba1"
    unfolding ba1 using missing_blocks_bound [OF inv fits] room inv by (intro with_blocks_inv) auto
  show "ba_position ba1 + n < ba_capacity ba1"
    using missing_blocks_enough [OF inv, of n] by (simp add: ba1 with_blocks_def)
  show "ba_capacity ba1 \<le> ba_total ba1" using inv1 by (auto simp: ba_inv_def)
  show "ba_contents ba1 = ba_contents ba" using inv by (simp add: ba1 with_blocks_contents)
qed

text \<open>The two copy loops, started at the cursor.\<close>

lemma write_loop_at_cursor:
  assumes inv: "ba_inv ba" and "ba_position ba < ba_total ba" "ba_position ba + length buf \<le> ba_total ba"
  shows "\<exists>ba'. write_loop (ba_position ba mod ba_base_size ba)
     (sub64 (n_size (ba_root ba ! ba_cur ba)) (ba_position ba mod ba_base_size ba)) buf ba = (Inr (), ba') \<and>
     wrote ba buf ba'"
  using assms cursor_split [OF assms(1,2)] cur_valid [OF inv]
  by (intro write_loop_spec) (simp_all add: ba_inv_def)

lemma read_loop_at_cursor:
  assumes inv: "ba_inv ba" and "ba_position ba + n \<le> ba_size ba"
  shows "read_loop (ba_position ba mod ba_base_size ba)
     (sub64 (n_size (ba_root ba ! ba_cur ba)) (ba_position ba mod ba_base_size ba)) n ba =
     (Inr (take n (drop (ba_position ba) (ba_mem ba))),
      ba\<lparr>ba_position := ba_position ba + n, ba_cur := cur_of ba (ba_position ba + n)\<rparr>)"
proof (cases "ba_position ba < ba_total ba")
  case True
  have "ba_size ba \<le> ba_total ba" using inv by (auto simp: ba_inv_def)
  with True assms cursor_split [OF inv True] cur_valid [OF inv] show ?thesis
    by (intro read_loop_spec) (simp_all add: ba_inv_def)
next
  case False
  with assms have "n = 0" by (auto simp: ba_inv_def)
  with inv show ?thesis by (simp add: read_loop.simps [of "ba_position ba mod _"] ba_inv_def)
qed

lemma wrote_inv:
  assumes "ba_inv ba" "wrote ba buf ba1" "ba_position ba + length buf < ba_capacity ba"
  defines "ba2 \<equiv> ba1\<lparr>ba_size := max (ba_size ba) (ba_position ba1)\<rparr>"
  shows "ba_inv ba2" "ba_position ba2 < ba_total ba2"
    "ba_contents ba2 = patch (ba_contents ba) (ba_position ba) buf"
proof -
  have tot: "ba_total ba2 = ba_total ba" and cur: "cur_of ba2 = cur_of ba"
    using assms(2) by (simp_all add: ba2_def wrote_def same_frame_def ba_total_def cur_of_def fun_eq_iff)
  show "ba_inv ba2"
    using assms(1-3) tot cur by (auto simp: ba2_def ba_inv_def wrote_def same_frame_def blocks_ok_def)
  show "ba_position ba2 < ba_total ba2"
    using assms(1-3) tot by (auto simp: ba2_def ba_inv_def wrote_def)
  have "length (ba_mem ba) = ba_total ba" using assms(1) by (simp add: ba_inv_def length_ba_mem)
  with assms(1-3) show "ba_contents ba2 = patch (ba_contents ba) (ba_position ba) buf"
    by (auto simp: ba2_def ba_contents_def wrote_def ba_inv_def ba_mem_def intro!: take_patch_max)
qed

lemma ByteArray_write_spec:
  assumes "ba_inv ba" "ba_position ba < ba_total ba" "ba_fits ba (length buf)"
  shows "\<exists>ba'. ByteArray_write buf ba = (Inr (), ba') \<and> ba_inv ba' \<and> ba_position ba' < ba_total ba' \<and>
     ba_contents ba' = patch (ba_contents ba) (ba_position ba) buf \<and>
     ba_position ba' = ba_position ba + length buf \<and>
     ba_base_size ba' = ba_base_size ba \<and> ba_endian ba' = ba_endian ba \<and> ba_total ba \<le> ba_total ba'"
proof (cases "buf = []")
  case True
  then show ?thesis using assms by (simp add: ByteArray_write_def)
next
  case False
  define ba1 where "ba1 = add_free_capacity_to (length buf) ba"
  note g = add_free_capacity_to_spec [OF assms, folded ba1_def]
  obtain ba2 where wl: "write_loop (ba_position ba1 mod ba_base_size ba1)
        (sub64 (n_size (ba_root ba1 ! ba_cur ba1)) (ba_position ba1 mod ba_base_size ba1)) buf ba1 = (Inr (), ba2)"
      and w: "wrote ba1 buf ba2"
    using write_loop_at_cursor [of ba1 buf] g by auto
  have "ba_size ba2 = ba_size ba1" using w by (simp add: wrote_def same_frame_def)
  then have "ByteArray_write buf ba = (Inr (), ba2\<lparr>ba_size := max (ba_size ba1) (ba_position ba2)\<rparr>)"
    using False wl cur_valid [OF g(1)] g(1,7)
    by (auto simp: ByteArray_write_def ba1_def [symmetric] Let_def ba_inv_def blocks_ok_def max_def)
  moreover have "ba_total ba \<le> ba_total (ba2\<lparr>ba_size := max (ba_size ba1) (ba_position ba2)\<rparr>)"
    using g(9) w same_frame_total [of ba1 ba2] by (simp add: wrote_def ba_total_def)
  ultimately show ?thesis using wrote_inv [OF g(1) w g(2)] g w by (simp add: wrote_def same_frame_def)
qed

lemma ByteArray_read_spec:
  assumes "ba_inv ba" "ba_position ba + n \<le> ba_size ba"
  shows "ByteArray_read n ba = (Inr (take n (drop (ba_position ba) (ba_contents ba))),
     ba\<lparr>ba_position := ba_position ba + n, ba_cur := cur_of ba (ba_position ba + n)\<rparr>)"
proof -
  have "n \<le> get_enable_read_size ba" using assms by (auto simp: get_enable_read_size_eq)
  moreover have "take n (drop (ba_position ba) (ba_contents ba)) = take n (drop (ba_position ba) (ba_mem ba))"
    using assms by (simp add: ba_contents_def take_drop min_def)
  ultimately show ?thesis
    using assms cur_valid [of ba] read_loop_at_cursor [of ba n]
    by (auto simp: ByteArray_read_def ba_inv_def blocks_ok_def)
qed

lemma ByteArray_read_out_of_range:
  "ba_inv ba \<Longrightarrow> ba_size ba < ba_position ba + n \<Longrightarrow>
     ByteArray_read n ba = (Inl (OutOfRange ''[read out of range]''), ba)"
  using get_enable_read_size_eq [of ba] by (auto simp: ByteArray_read_def ba_inv_def)

text \<open>Moving the cursor inside the stored bytes keeps the invariant and the contents.\<close>

lemma moved_inv:
  assumes "ba_inv ba" "p \<le> sz" "sz \<le> ba_capacity ba"
  defines "ba' \<equiv> ba\<lparr>ba_position := p, ba_size := sz, ba_cur := cur_of ba p\<rparr>"
  shows "ba_inv ba'" "ba_contents ba' = take sz (ba_mem ba)"
proof -
  have "ba_total ba' = ba_total ba" "cur_of ba' = cur_of ba" "ba_mem ba' = ba_mem ba"
    by (simp_all add: ba'_def ba_total_def cur_of_def ba_mem_def fun_eq_iff)
  with assms show "ba_inv ba'" "ba_contents ba' = take sz (ba_mem ba)"
    by (auto simp: ba'_def ba_inv_def blocks_ok_def ba_contents_def)
qed

lemma position_loop_eq:
  assumes "\<forall>nd \<in> set nds. n_size nd = b" "0 < b" "nds \<noteq> []" "v \<le> length nds * b"
  shows "position_loop nds c v = Some (c + (if v = length nds * b then length nds - 1 else v div b))"
  using assms
proof (induction nds arbitrary: c v)
  case (Cons nd nds)
  show ?case
  proof (cases "b < v")
    case True
    then have "nds \<noteq> []" using Cons.prems by auto
    with True Cons show ?thesis by (auto simp: le_div_geq Suc_diff_le)
  next
    case False
    with Cons.prems show ?thesis by (cases nds) (auto simp: div_if)
  qed
qed simp

lemma set_position_spec:
  assumes "ba_inv ba" "v \<le> ba_capacity ba"
  shows "set_position v ba = (Inr (), ba\<lparr>ba_position := v, ba_size := max (ba_size ba) v, ba_cur := cur_of ba v\<rparr>)"
proof -
  have "v \<le> length (ba_root ba) * ba_base_size ba" using assms by (auto simp: ba_inv_def ba_total_def)
  then have "position_loop (ba_root ba) 0 v = Some (cur_of ba v)"
    using assms(1) position_loop_eq [of "ba_root ba" "ba_base_size ba" v 0]
    by (auto simp: ba_inv_def blocks_ok_def cur_of_def ba_total_def)
  with assms(2) show ?thesis by (simp add: set_position_def max_def)
qed

section \<open>Reading at a position\<close>

lemma seek_node_eq:
  assumes "\<forall>nd \<in> set nds. n_size nd = b" "0 < b" "p < length nds * b"
  shows "seek_node nds c p = Some (c + p div b, p mod b)"
  using assms
proof (induction nds arbitrary: c p)
  case (Cons nd nds)
  then show ?case by (auto simp: le_div_geq le_mod_geq)
qed simp

lemma copy_out_eq:
  assumes "\<forall>nd \<in> set nds. n_size nd = b \<and> length (n_ptr nd) = b" "npos < b" "npos + n \<le> length nds * b"
  shows "copy_out nds npos (b - npos) n = Inr (take n (drop npos (concat (map n_ptr nds))))"
  using assms
proof (induction nds arbitrary: npos n)
  case (Cons nd nds)
  show ?case
  proof (cases "n \<le> b - npos")
    case True
    then show ?thesis using Cons.prems by (simp add: peek_def)
  next
    case False
    then obtain nd' nds' where nds: "nds = nd' # nds'" using Cons.prems by (cases nds) auto
    have "copy_out nds 0 (b - 0) (n - (b - npos)) = Inr (take (n - (b - npos)) (drop 0 (concat (map n_ptr nds))))"
      using Cons.prems False by (intro Cons.IH) auto
    then show ?thesis using Cons.prems False by (simp add: nds peek_def)
  qed
qed simp

lemma block_of:
  assumes "blocks_ok ba" "p < ba_total ba"
  defines "c \<equiv> p div ba_base_size ba" and "npos \<equiv> p mod ba_base_size ba"
  shows "c < length (ba_root ba)" "npos < ba_base_size ba" "p = c * ba_base_size ba + npos"
    "seek_node (ba_root ba) 0 p = Some (c, npos)"
    "sub64 (n_size (ba_root ba ! c)) npos = ba_base_size ba - npos"
    "drop p (ba_mem ba) = drop npos (concat (map n_ptr (drop c (ba_root ba))))"
proof -
  let ?b = "ba_base_size ba"
  show c: "c < length (ba_root ba)" unfolding c_def
    using assms(2) by (intro less_mult_imp_div_less) (simp add: ba_total_def)
  show n: "npos < ?b" using assms(1) by (simp add: npos_def blocks_ok_def)
  show p: "p = c * ?b + npos" by (simp add: c_def npos_def)
  show "seek_node (ba_root ba) 0 p = Some (c, npos)"
    using assms seek_node_eq [of "ba_root ba" ?b p 0] by (simp add: blocks_ok_def ba_total_def)
  have "?b * 1 \<le> ba_total ba" unfolding ba_total_def using assms(1) by (simp add: blocks_ok_def Suc_le_eq)
  then have "?b < 2 ^ 64" using assms(1) by (simp add: blocks_ok_def)
  then show "sub64 (n_size (ba_root ba ! c)) npos = ?b - npos"
    using assms(1) c n by (simp add: sub64_le blocks_ok_def)
  have "drop (c * ?b) (ba_mem ba) = concat (map n_ptr (drop c (ba_root ba)))"
    unfolding ba_mem_def using assms(1) c by (intro concat_uniform_drop) (auto simp: blocks_ok_def)
  then show "drop p (ba_mem ba) = drop npos (concat (map n_ptr (drop c (ba_root ba))))"
    unfolding p by (metis drop_drop add.commute)
qed

lemma copy_out_at:
  assumes ok: "blocks_ok ba" and p: "p < ba_total ba" and n: "p + n \<le> ba_total ba"
  shows "copy_out (drop (p div ba_base_size ba) (ba_root ba)) (p mod ba_base_size ba)
     (ba_base_size ba - p mod ba_base_size ba) n = Inr (take n (drop p (ba_mem ba)))"
proof -
  let ?c = "p div ba_base_size ba"
  have "p mod ba_base_size ba + n \<le> (length (ba_root ba) - ?c) * ba_base_size ba"
    using n div_mult_mod_eq [of p "ba_base_size ba"] unfolding ba_total_def diff_mult_distrib by linarith
  then show ?thesis
    using ok block_of [OF ok p]
    by (subst copy_out_eq) (auto simp: blocks_ok_def dest: in_set_dropD)
qed

lemma ByteArray_read_at_mem:
  assumes "blocks_ok ba" "p < ba_total ba" "p + n \<le> ba_total ba" "n \<le> sub64 (ba_size ba) p"
  shows "ByteArray_read_at n p ba = Inr (take n (drop p (ba_mem ba)))"
  using assms block_of [OF assms(1,2)] copy_out_at [OF assms(1-3)]
  by (simp add: ByteArray_read_at_def Let_def blocks_ok_def)

lemma ByteArray_read_at_spec:
  assumes "ba_inv ba" "p < ba_total ba" "p + n \<le> ba_size ba"
  shows "ByteArray_read_at n p ba = Inr (take n (drop p (ba_contents ba)))"
proof -
  have le: "ba_size ba \<le> ba_total ba" "ba_total ba < 2 ^ 64" using assms(1) by (auto simp: ba_inv_def blocks_ok_def)
  then have "sub64 (ba_size ba) p = ba_size ba - p" using assms by (simp add: sub64_le)
  then have "ByteArray_read_at n p ba = Inr (take n (drop p (ba_mem ba)))"
    using assms le by (intro ByteArray_read_at_mem) (auto simp: ba_inv_def)
  then show ?thesis using assms(3) by (simp add: ba_contents_def take_drop min_def)
qed

lemma ByteArray_read_at_out_of_range:
  assumes "ba_inv ba" "p \<le> ba_size ba" "ba_size ba < p + n"
  shows "ByteArray_read_at n p ba = Inl (OutOfRange ''[read not of range]'')"
  using assms by (auto simp: ByteArray_read_at_def sub64_le ba_inv_def blocks_ok_def)

text \<open>Beyond \<^verbatim>\<open>m_size\<close> the difference wraps around and the check lets the read through.\<close>

lemma ByteArray_read_at_beyond:
  assumes "ba_inv ba" "ba_size ba < p" "p < ba_total ba" "p + n \<le> ba_total ba"
  shows "ByteArray_read_at n p ba = Inr (take n (drop p (ba_mem ba)))"
proof -
  have "ba_total ba < 2 ^ 64" using assms(1) by (auto simp: ba_inv_def blocks_ok_def)
  then have "n \<le> sub64 (ba_size ba) p" using assms by (simp add: sub64_wraps)
  then show ?thesis using assms by (intro ByteArray_read_at_mem) (auto simp: ba_inv_def)
qed

lemma ByteArray_to_string_spec:
  assumes "ba_inv ba"
  shows "ByteArray_to_string ba = Inr (drop (ba_position ba) (ba_contents ba))"
proof (cases "ba_position ba = ba_size ba")
  case True
  then show ?thesis using assms by (simp add: ByteArray_to_string_def get_enable_read_size_eq ba_contents_def)
next
  case False
  with assms have "ba_position ba < ba_size ba" "ba_size ba \<le> ba_total ba" by (auto simp: ba_inv_def)
  with assms show ?thesis
    using ByteArray_read_at_spec [of ba "ba_position ba" "ba_size ba - ba_position ba"]
    by (simp add: ByteArray_to_string_def get_enable_read_size_eq ba_contents_def)
qed

section \<open>Construction and reset\<close>

lemma ByteArray_new_inv:
  assumes "0 < b" "b < 2 ^ 64"
  shows "ba_inv (ByteArray_new f b)" "ba_total (ByteArray_new f b) = b"
  using assms by (simp_all add: ByteArray_new_def ba_inv_def blocks_ok_def ba_total_def cur_of_def new_node_def)

lemma ByteArray_clear_inv:
  assumes "ba_inv ba"
  shows "ba_inv (ByteArray_clear ba)" "ba_total (ByteArray_clear ba) = ba_base_size ba"
    "ba_contents (ByteArray_clear ba) = []"
proof -
  obtain nd nds where r: "ba_root ba = nd # nds" using assms by (cases "ba_root ba") (auto simp: ba_inv_def blocks_ok_def)
  show t: "ba_total (ByteArray_clear ba) = ba_base_size ba" "ba_contents (ByteArray_clear ba) = []"
    by (simp_all add: ByteArray_clear_def r ba_total_def ba_contents_def)
  have "ba_base_size ba \<le> ba_total ba" by (simp add: ba_total_def r)
  with assms t show "ba_inv (ByteArray_clear ba)"
    by (auto simp: ByteArray_clear_def r ba_inv_def blocks_ok_def ba_total_def cur_of_def)
qed

section \<open>Gathering and scattering\<close>

definition iov_bytes :: "bytearray \<Rightarrow> iovec \<Rightarrow> byte list" where
  "iov_bytes ba v = peek (ba_root ba ! iov_node v) (iov_off v) (iov_len v)"

text \<open>The buffers handed out are those the copying loop walks over.\<close>

lemma iovec_loop_gather:
  "copy_out nds npos ncap n = Inr bs \<Longrightarrow> nds = drop c (ba_root ba) \<Longrightarrow> c < length (ba_root ba) \<Longrightarrow>
     \<exists>iovs. iovec_loop nds c npos ncap n = Inr iovs \<and> concat (map (iov_bytes ba) iovs) = bs"
proof (induction nds arbitrary: c npos ncap n bs)
  case (Cons nd nds)
  have nd: "nd = ba_root ba ! c" and nds: "nds = drop (Suc c) (ba_root ba)"
    using Cons.prems(2,3) by (simp_all add: Cons_nth_drop_Suc [symmetric])
  show ?case
  proof (cases "n = 0 \<or> n \<le> ncap")
    case True
    then show ?thesis using Cons.prems(1) nd by (auto simp: iov_bytes_def)
  next
    case False
    with Cons.prems(1) obtain nd' nds' where s1: "nds = nd' # nds'" by (cases nds) auto
    with False Cons.prems(1) obtain bs' where
      s: "copy_out nds 0 (n_size nd') (n - ncap) = Inr bs'" "bs = peek nd npos ncap @ bs'"
      by (cases "copy_out nds 0 (n_size nd') (n - ncap)") (auto simp: copy_out.simps(2) [of nd] simp del: copy_out.simps)
    have "Suc c < length (ba_root ba)" using nds s1 by (metis drop_all list.distinct(1) not_le)
    with Cons.IH [OF s(1) nds] obtain iovs where
      "iovec_loop nds (Suc c) 0 (n_size nd') (n - ncap) = Inr iovs" "concat (map (iov_bytes ba) iovs) = bs'" by auto
    moreover have "iov_bytes ba \<lparr>iov_node = c, iov_off = npos, iov_len = ncap\<rparr> = peek nd npos ncap"
      by (simp add: iov_bytes_def nd)
    ultimately show ?thesis using s s1 False by simp
  qed
qed simp

lemma get_enable_read_buffers_spec:
  assumes "ba_inv ba" and n_def: "n = min len (ba_size ba - ba_position ba)"
  shows "\<exists>iovs. get_enable_read_buffers len ba = Inr (iovs, n) \<and>
     concat (map (iov_bytes ba) iovs) = take n (drop (ba_position ba) (ba_contents ba))"
proof (cases "n = 0")
  case True
  then show ?thesis using assms by (auto simp: get_enable_read_buffers_def get_enable_read_size_eq min_def Let_def)
next
  case False
  let ?b = "ba_base_size ba" and ?p = "ba_position ba"
  have ok: "blocks_ok ba" and le: "?p + n \<le> ba_size ba" "ba_size ba \<le> ba_total ba"
    using assms False by (auto simp: ba_inv_def)
  then have p: "?p < ba_total ba" using False by simp
  then have cur: "ba_cur ba = ?p div ?b" using assms(1) by (simp add: ba_inv_def cur_of_def)
  have "copy_out (drop (ba_cur ba) (ba_root ba)) (?p mod ?b) (?b - ?p mod ?b) n = Inr (take n (drop ?p (ba_mem ba)))"
    using copy_out_at [OF ok p, of n] le by (simp add: cur)
  from iovec_loop_gather [OF this refl cur_valid [OF assms(1)]] obtain iovs where
    "iovec_loop (drop (ba_cur ba) (ba_root ba)) (ba_cur ba) (?p mod ?b) (?b - ?p mod ?b) n = Inr iovs"
    "concat (map (iov_bytes ba) iovs) = take n (drop ?p (ba_mem ba))" by blast
  moreover have "take n (drop ?p (ba_contents ba)) = take n (drop ?p (ba_mem ba))"
    using le by (simp add: ba_contents_def take_drop min_def)
  moreover have L: "(if len > get_enable_read_size ba then get_enable_read_size ba else len) = n"
    by (simp add: n_def get_enable_read_size_eq [OF assms(1)] min_def)
  ultimately show ?thesis
    using False ok cur_valid [OF assms(1)] cursor_split(3) [OF assms(1) p]
    unfolding get_enable_read_buffers_def Let_def L by (simp add: blocks_ok_def)
qed

lemma get_enable_read_buffers_at_spec:
  assumes "ba_inv ba" "p < ba_size ba" and n_def: "n = min len (ba_size ba - p)"
  shows "\<exists>iovs. get_enable_read_buffers_at len p ba = Inr (iovs, n) \<and>
     concat (map (iov_bytes ba) iovs) = take n (drop p (ba_contents ba))"
proof -
  let ?b = "ba_base_size ba"
  have ok: "blocks_ok ba" and le: "p + n \<le> ba_size ba" "ba_size ba \<le> ba_total ba"
    using assms by (auto simp: ba_inv_def)
  then have p: "p < ba_total ba" using assms by simp
  have sub: "sub64 (ba_size ba) p = ba_size ba - p" using assms ok le by (simp add: sub64_le blocks_ok_def)
  have "copy_out (drop (p div ?b) (ba_root ba)) (p mod ?b) (?b - p mod ?b) n = Inr (take n (drop p (ba_mem ba)))"
    using copy_out_at [OF ok p, of n] le by simp
  from iovec_loop_gather [OF this refl block_of(1) [OF ok p]] obtain iovs where
    "iovec_loop (drop (p div ?b) (ba_root ba)) (p div ?b) (p mod ?b) (?b - p mod ?b) n = Inr iovs"
    "concat (map (iov_bytes ba) iovs) = take n (drop p (ba_mem ba))" by blast
  moreover have "take n (drop p (ba_contents ba)) = take n (drop p (ba_mem ba))"
    using le by (simp add: ba_contents_def take_drop min_def)
  moreover have L: "(if len > sub64 (ba_size ba) p then sub64 (ba_size ba) p else len) = n"
    by (simp add: n_def sub min_def)
  ultimately show ?thesis
    using block_of(4,5) [OF ok p] assms(2)
    unfolding get_enable_read_buffers_at_def Let_def L by (cases "n = 0") simp_all
qed

text \<open>
  The environment's part of a vectored read: \<^verbatim>\<open>readv\<close> fills the buffers in order with
  the bytes it received.
\<close>

fun scatter :: "iovec list \<Rightarrow> byte list \<Rightarrow> node list \<Rightarrow> node list" where
  "scatter [] data root = root"
| "scatter (v # vs) data root =
     scatter vs (drop (iov_len v) data)
       (root[iov_node v := poke (root ! iov_node v) (iov_off v) (take (iov_len v) data)])"

lemma iovec_loop_scatter:
  assumes "iovec_loop (drop c root) c npos (b - npos) n = Inr iovs"
    "\<forall>nd \<in> set root. n_size nd = b \<and> length (n_ptr nd) = b" "0 < b" "npos \<le> b" "c < length root"
    "length data \<le> n" "c * b + npos + n \<le> length root * b"
  shows "concat (map n_ptr (scatter iovs data root)) = patch (concat (map n_ptr root)) (c * b + npos) data \<and>
    map n_size (scatter iovs data root) = map n_size root \<and>
    (\<forall>nd \<in> set (scatter iovs data root). length (n_ptr nd) = b)"
  using assms
proof (induction "length root - c" arbitrary: c npos n iovs data root)
  case (Suc m)
  let ?nd = "root ! c"
  have nds: "drop c root = ?nd # drop (Suc c) root" using Suc.prems(5) by (simp add: Cons_nth_drop_Suc)
  define r1 where "r1 = root[c := poke ?nd npos (take (b - npos) data)]"
  have sz: "map n_size r1 = map n_size root" using Suc.prems(5) by (simp add: r1_def poke_def map_update list_update_same_conv)
  have blk: "\<forall>nd \<in> set r1. n_size nd = b \<and> length (n_ptr nd) = b"
    using Suc.prems(2,4,5) set_update_subset_insert [of root c] unfolding r1_def
    by (fastforce simp: poke_def patch_def)
  have mem: "concat (map n_ptr r1) = patch (concat (map n_ptr root)) (c * b + npos) (take (b - npos) data)"
    unfolding r1_def using Suc.prems by (intro concat_uniform_update) (auto simp: poke_def)
  show ?case
  proof (cases "n \<le> b - npos")
    case True
    then have d: "take n data = data" "take (b - npos) data = data" using Suc.prems(6) by auto
    then show ?thesis using True Suc.prems nds mem sz blk by (cases "n = 0") (auto simp: r1_def split: if_splits)
  next
    case False
    then have "(Suc c) * b < length root * b" using Suc.prems(7) by simp
    then have c': "Suc c < length root" by (simp only: mult_less_cancel2)
    have nx: "n_size (root ! Suc c) = b" using Suc.prems(2) c' by simp
    with False Suc.prems(1) nds c' obtain iovs' where i: "iovs = \<lparr>iov_node = c, iov_off = npos, iov_len = b - npos\<rparr> # iovs'"
        "iovec_loop (drop (Suc c) root) (Suc c) 0 b (n - (b - npos)) = Inr iovs'"
      by (auto simp: Cons_nth_drop_Suc [symmetric] split: sum.splits if_splits)
    have dr: "drop (Suc c) r1 = drop (Suc c) root" by (simp add: r1_def)
    have IH: "concat (map n_ptr (scatter iovs' (drop (b - npos) data) r1)) =
          patch (concat (map n_ptr r1)) (Suc c * b + 0) (drop (b - npos) data) \<and>
        map n_size (scatter iovs' (drop (b - npos) data) r1) = map n_size r1 \<and>
        (\<forall>nd \<in> set (scatter iovs' (drop (b - npos) data) r1). length (n_ptr nd) = b)"
    proof (rule Suc.hyps(1))
      show "m = length r1 - Suc c" using Suc.hyps(2) by (simp add: r1_def)
      show "iovec_loop (drop (Suc c) r1) (Suc c) 0 (b - 0) (n - (b - npos)) = Inr iovs'" using i(2) dr by simp
      show "length (drop (b - npos) data) \<le> n - (b - npos)" using Suc.prems(6) by simp
      show "Suc c * b + 0 + (n - (b - npos)) \<le> length r1 * b" using Suc.prems(4,7) False by (simp add: r1_def)
    qed (use blk Suc.prems c' in \<open>auto simp: r1_def\<close>)
    have "concat (map n_ptr (scatter iovs data root)) = patch (concat (map n_ptr root)) (c * b + npos) data"
    proof (cases "length data \<le> b - npos")
      case True
      with IH i mem show ?thesis by (simp add: r1_def)
    next
      case False
      then have "Suc c * b = c * b + npos + length (take (b - npos) data)" using Suc.prems(4) by simp
      moreover have "c * b + npos + length (take (b - npos) data) \<le> length (concat (map n_ptr root))"
        using Suc.prems(2,6,7) length_concat_uniform [of root n_ptr b] by simp
      ultimately have "patch (concat (map n_ptr r1)) (Suc c * b) (drop (b - npos) data) =
          patch (concat (map n_ptr root)) (c * b + npos) data"
        by (simp only: mem patch_append append_take_drop_id)
      then show ?thesis using IH i by (simp add: r1_def)
    qed
    with IH i sz show ?thesis by (simp add: r1_def)
  qed
qed simp

text \<open>
  Handing out write buffers, letting the environment fill them and moving the position
  over what was filled stores the same bytes as \<open>ByteArray_write\<close>.
\<close>

lemma get_enable_write_buffers_spec:
  assumes "ba_inv ba" "ba_position ba < ba_total ba" "ba_fits ba n"
  shows "\<exists>iovs ba1. get_enable_write_buffers n ba = (Inr (iovs, n), ba1) \<and> ba_inv ba1 \<and>
     ba_contents ba1 = ba_contents ba \<and> ba_position ba1 = ba_position ba \<and>
     (\<forall>data. length data \<le> n \<longrightarrow>
        wrote ba1 data (ba1\<lparr>ba_root := scatter iovs data (ba_root ba1),
          ba_position := ba_position ba1 + length data, ba_cur := cur_of ba1 (ba_position ba1 + length data)\<rparr>) \<and>
        ba_position ba1 + length data \<le> ba_capacity ba1)"
proof (cases "n = 0")
  case True
  have cap: "ba_position ba \<le> ba_capacity ba" using assms(1) by (simp add: ba_inv_def)
  from True assms cap show ?thesis
    by (auto simp: get_enable_write_buffers_def wrote_def same_frame_def ba_inv_def blocks_ok_def ba_total_def ba_mem_def)
next
  case False
  define ba1 where "ba1 = add_free_capacity_to n ba"
  note g = add_free_capacity_to_spec [OF assms, folded ba1_def]
  let ?b = "ba_base_size ba1" and ?p = "ba_position ba1"
  have ok: "blocks_ok ba1" and p: "?p < ba_total ba1" and pn: "?p + n \<le> ba_total ba1" using g by (auto simp: ba_inv_def)
  then have cur: "ba_cur ba1 = ?p div ?b" using g(1) by (simp add: ba_inv_def cur_of_def)
  note cp = copy_out_at [OF ok p pn, folded cur]
  from iovec_loop_gather [OF cp refl cur_valid [OF g(1)]] obtain iovs where
    iv: "iovec_loop (drop (ba_cur ba1) (ba_root ba1)) (ba_cur ba1) (?p mod ?b) (?b - ?p mod ?b) n = Inr iovs" by blast
  have "get_enable_write_buffers n ba = (Inr (iovs, n), ba1)"
    using False iv cur_valid [OF g(1)] cursor_split(3) [OF g(1) p] ok g(7)
    by (simp add: get_enable_write_buffers_def ba1_def [symmetric] Let_def blocks_ok_def)
  moreover have "wrote ba1 data (ba1\<lparr>ba_root := scatter iovs data (ba_root ba1),
          ba_position := ?p + length data, ba_cur := cur_of ba1 (?p + length data)\<rparr>)" if d: "length data \<le> n" for data
  proof -
    let ?r = "scatter iovs data (ba_root ba1)"
    have "concat (map n_ptr ?r) = patch (ba_mem ba1) ?p data \<and> map n_size ?r = map n_size (ba_root ba1) \<and>
        (\<forall>nd \<in> set ?r. length (n_ptr nd) = ?b)"
      using iovec_loop_scatter [OF iv _ _ _ cur_valid [OF g(1)] d] ok pn cursor_split [OF g(1) p]
      by (simp add: blocks_ok_def ba_mem_def ba_total_def)
    note sc = this
    have len: "length ?r = length (ba_root ba1)" using sc map_eq_imp_length_eq by blast
    have "n_size ` set ?r = n_size ` set (ba_root ba1)" using sc by (metis set_map)
    then have "\<forall>nd \<in> set ?r. n_size nd = ?b" using ok by (force simp: blocks_ok_def)
    moreover have "?r \<noteq> []" using len ok by (metis blocks_ok_def length_0_conv)
    ultimately show ?thesis using sc len ok
      by (simp add: wrote_def same_frame_def blocks_ok_def ba_total_def ba_mem_def)
  qed
  ultimately show ?thesis using g by auto
qed

lemma scattered_position:
  assumes inv: "ba_inv ba" and cap: "ba_position ba + length data \<le> ba_capacity ba"
    and w: "wrote ba data (ba\<lparr>ba_root := r, ba_position := ba_position ba + length data,
        ba_cur := cur_of ba (ba_position ba + length data)\<rparr>)" (is "wrote ba data ?w")
  shows "\<exists>ba'. set_position (ba_position ba + length data) (ba\<lparr>ba_root := r\<rparr>) = (Inr (), ba') \<and> ba_inv ba' \<and>
     ba_contents ba' = patch (ba_contents ba) (ba_position ba) data \<and> ba_position ba' = ba_position ba + length data"
proof -
  let ?p = "ba_position ba + length data" and ?ba = "ba\<lparr>ba_root := r\<rparr>"
  have len: "length r = length (ba_root ba)" and ok: "blocks_ok ?w" and mem: "concat (map n_ptr r) = patch (ba_mem ba) (ba_position ba) data"
    using w by (simp_all add: wrote_def same_frame_def ba_mem_def)
  have same: "ba_total ?ba = ba_total ba" "cur_of ?ba = cur_of ba" using len by (simp_all add: ba_total_def cur_of_def fun_eq_iff)
  have inv': "ba_inv ?ba" using inv ok same by (auto simp: ba_inv_def blocks_ok_def ba_total_def)
  have "set_position ?p ?ba = (Inr (), ?ba\<lparr>ba_position := ?p, ba_size := max (ba_size ba) ?p, ba_cur := cur_of ?ba ?p\<rparr>)"
    using set_position_spec [OF inv', of ?p] cap by simp
  moreover note moved_inv [OF inv', of ?p "max (ba_size ba) ?p"]
  moreover have "take (max (ba_size ba) ?p) (ba_mem ?ba) = patch (ba_contents ba) (ba_position ba) data"
    using inv cap length_ba_mem [of ba] mem
    by (auto simp: ba_contents_def ba_mem_def ba_inv_def intro!: take_patch_max)
  ultimately show ?thesis using cap inv by (auto simp: ba_inv_def)
qed

section \<open>Files\<close>

lemma write_to_file_spec:
  assumes "ba_inv ba" "ba_position ba < ba_total ba"
  shows "write_to_file True ba = Inr (Some (drop (ba_position ba) (ba_contents ba)))"
proof -
  have ok: "blocks_ok ba" and sz: "ba_position ba \<le> ba_size ba" "ba_size ba \<le> ba_total ba" using assms(1) by (auto simp: ba_inv_def)
  have cur: "ba_cur ba = ba_position ba div ba_base_size ba" using assms by (simp add: ba_inv_def cur_of_def)
  show ?thesis
    using copy_out_at [OF ok assms(2), of "ba_size ba - ba_position ba", folded cur] sz ok
      cur_valid [OF assms(1)] cursor_split(3) [OF assms]
    by (simp add: write_to_file_def get_enable_read_size_eq [OF assms(1)] Let_def blocks_ok_def ba_contents_def drop_take)
qed

lemma read_from_file_loop_spec:
  assumes "ba_inv ba" "ba_position ba < ba_total ba" "ba_fits ba (length bs)"
    "length bs < fuel"
  shows "\<exists>ba'. read_from_file_loop fuel bs ba = Some (Inr (), ba') \<and> ba_inv ba' \<and> ba_position ba' < ba_total ba' \<and>
     ba_contents ba' = patch (ba_contents ba) (ba_position ba) bs \<and>
     ba_position ba' = ba_position ba + length bs \<and>
     ba_base_size ba' = ba_base_size ba \<and> ba_endian ba' = ba_endian ba"
  using assms
proof (induction fuel bs ba rule: read_from_file_loop.induct)
  case (2 fuel bs ba)
  let ?b = "ba_base_size ba"
  have b: "0 < ?b" using "2.prems"(1) by (simp add: ba_inv_def blocks_ok_def)
  have "ba_fits ba (length (take ?b bs))" using "2.prems"(3) by (simp add: ba_fits_def)
  from ByteArray_write_spec [OF "2.prems"(1,2) this] obtain ba1 where
    w: "ByteArray_write (take ?b bs) ba = (Inr (), ba1)" "ba_inv ba1" "ba_position ba1 < ba_total ba1"
      "ba_contents ba1 = patch (ba_contents ba) (ba_position ba) (take ?b bs)"
      "ba_position ba1 = ba_position ba + length (take ?b bs)" "ba_base_size ba1 = ?b" "ba_endian ba1 = ba_endian ba"
    by blast
  show ?case
  proof (cases "length bs < ?b")
    case True
    with w show ?thesis by (simp add: Let_def)
  next
    case False
    have pl: "ba_position ba \<le> length (ba_contents ba)"
      using "2.prems"(1) length_ba_mem [of ba] by (auto simp: ba_contents_def ba_inv_def)
    have f: "ba_fits ba1 (length (drop ?b bs))" "length (drop ?b bs) < fuel"
      using "2.prems"(3,4) w False b by (auto simp: ba_fits_def)
    from "2.IH" [OF refl w(1) [symmetric] refl False w(2,3) f] obtain ba2 where
      r: "read_from_file_loop fuel (drop ?b bs) ba1 = Some (Inr (), ba2)" "ba_inv ba2" "ba_position ba2 < ba_total ba2"
        "ba_contents ba2 = patch (ba_contents ba1) (ba_position ba1) (drop ?b bs)"
        "ba_position ba2 = ba_position ba1 + length (drop ?b bs)" "ba_base_size ba2 = ba_base_size ba1"
        "ba_endian ba2 = ba_endian ba1"
      by blast
    moreover have "ba_contents ba2 = patch (ba_contents ba) (ba_position ba) bs"
      unfolding r(4) w(4,5) by (subst patch_append_grow [OF pl]) simp
    ultimately show ?thesis using w False by (simp add: Let_def)
  qed
qed simp

lemma read_from_file_spec:
  assumes "ba_inv ba" "ba_position ba < ba_total ba" "ba_fits ba (length bs)" "length bs < fuel"
  shows "\<exists>ba'. read_from_file fuel (Some bs) ba = Some (Inr True, ba') \<and> ba_inv ba' \<and> ba_position ba' < ba_total ba' \<and>
     ba_contents ba' = patch (ba_contents ba) (ba_position ba) bs \<and> ba_position ba' = ba_position ba + length bs"
  using read_from_file_loop_spec [OF assms] by (auto simp: read_from_file_def)

section \<open>The byte array as a buffer\<close>

text \<open>
  The state in which every operation succeeds: the invariant, and room for the cursor
  in front of the end of the last block. Only \<open>set_position\<close> to the full capacity leaves it.
\<close>

definition ba_wf :: "bytearray \<Rightarrow> bool" where
  "ba_wf ba \<longleftrightarrow> ba_inv ba \<and> ba_size ba < ba_total ba"

lemma ba_wfD:
  assumes "ba_wf ba"
  shows "ba_inv ba" "ba_position ba < ba_total ba" "length (ba_contents ba) = ba_size ba"
    "ba_position ba \<le> ba_size ba" "ba_size ba \<le> ba_capacity ba"
  using assms length_ba_mem [of ba] by (auto simp: ba_wf_def ba_inv_def ba_contents_def)

lemma ba_inv_length: "ba_inv ba \<Longrightarrow> length (ba_contents ba) = ba_size ba"
  using length_ba_mem [of ba] by (auto simp: ba_inv_def ba_contents_def)

definition ba_limit :: "bytearray \<Rightarrow> nat" where
  "ba_limit ba = 2 ^ 64 - 3 * ba_base_size ba"

lemma ByteArray_write_wf:
  assumes "ba_wf ba" "ba_position ba + length buf \<le> ba_limit ba"
  shows "\<exists>ba'. ByteArray_write buf ba = (Inr (), ba') \<and> ba_wf ba' \<and> ba_endian ba' = ba_endian ba \<and>
     ba_limit ba' = ba_limit ba \<and> ba_contents ba' = patch (ba_contents ba) (ba_position ba) buf \<and>
     ba_position ba' = ba_position ba + length buf"
proof (cases "buf = []")
  case True
  then show ?thesis using assms by (simp add: ByteArray_write_def)
next
  case False
  then have "ba_fits ba (length buf)" using assms(2) by (cases buf) (auto simp: ba_fits_def ba_limit_def)
  note wf = ba_wfD [OF assms(1)]
  obtain ba' where w: "ByteArray_write buf ba = (Inr (), ba')" "ba_inv ba'" "ba_position ba' < ba_total ba'"
      "ba_contents ba' = patch (ba_contents ba) (ba_position ba) buf"
      "ba_position ba' = ba_position ba + length buf"
      "ba_base_size ba' = ba_base_size ba" "ba_endian ba' = ba_endian ba" "ba_total ba \<le> ba_total ba'"
    using ByteArray_write_spec [OF wf(1,2) \<open>ba_fits ba (length buf)\<close>] by blast
  have "ba_size ba' = max (ba_size ba) (ba_position ba')"
    using ba_inv_length [OF w(2)] w(4,5) wf by (simp add: length_patch_grow)
  then have "ba_wf ba'" using w(2,3,8) assms(1) by (auto simp: ba_wf_def)
  with w show ?thesis by (auto simp: ba_limit_def)
qed

lemma moved_wf:
  assumes "ba_wf ba" "p \<le> ba_size ba"
  defines "ba' \<equiv> ba\<lparr>ba_position := p, ba_cur := cur_of ba p\<rparr>"
  shows "ba_wf ba'" "ba_contents ba' = ba_contents ba"
proof -
  have e: "ba' = ba\<lparr>ba_position := p, ba_size := ba_size ba, ba_cur := cur_of ba p\<rparr>" by (simp add: ba'_def)
  show "ba_wf ba'" using moved_inv(1) [of ba p "ba_size ba"] assms(1,2) ba_wfD [OF assms(1)]
    unfolding e by (simp add: ba_wf_def ba_total_def)
  show "ba_contents ba' = ba_contents ba" by (simp add: ba'_def ba_contents_def ba_mem_def)
qed

interpretation ba: byte_buffer ba_wf ba_contents ba_position ba_endian ba_limit ByteArray_write ByteArray_read
  set_position "OutOfRange ''[read out of range]''"
proof
  fix ba :: bytearray and n p :: nat and bs :: "byte list"
  show "ba_position ba \<le> length (ba_contents ba)" if "ba_wf ba"
    using ba_wfD [OF that] by simp
  show "ByteArray_read n ba = (Inl (OutOfRange ''[read out of range]''), ba)"
    if "ba_wf ba" "length (ba_contents ba) < ba_position ba + n"
    using ba_wfD [OF that(1)] that(2) by (simp add: ByteArray_read_out_of_range)
  show "\<exists>ba'. ByteArray_read n ba = (Inr (take n (drop (ba_position ba) (ba_contents ba))), ba') \<and> ba_wf ba' \<and>
      ba_endian ba' = ba_endian ba \<and> ba_limit ba' = ba_limit ba \<and> ba_contents ba' = ba_contents ba \<and> ba_position ba' = ba_position ba + n"
    if "ba_wf ba" "ba_position ba + n \<le> length (ba_contents ba)"
    using ba_wfD [OF that(1)] moved_wf [OF that(1)] that(2) by (simp add: ByteArray_read_spec ba_limit_def)
  show "\<exists>ba'. set_position p ba = (Inr (), ba') \<and> ba_wf ba' \<and> ba_endian ba' = ba_endian ba \<and>
      ba_limit ba' = ba_limit ba \<and> ba_contents ba' = ba_contents ba \<and> ba_position ba' = p"
    if "ba_wf ba" "p \<le> length (ba_contents ba)"
    using ba_wfD [OF that(1)] moved_wf [OF that(1), of p] that(2) by (simp add: set_position_spec max_def ba_limit_def)
qed (fact ByteArray_write_wf)

lemma ByteArray_new_wf:
  assumes "0 < b" "b < 2 ^ 64"
  shows "ba_wf (ByteArray_new f b)" "ba_contents (ByteArray_new f b) = []" "ba_position (ByteArray_new f b) = 0"
    "ba_limit (ByteArray_new f b) = 2 ^ 64 - 3 * b" "ba_endian (ByteArray_new f b) = TIGER_BIG_ENDIAN"
  using ByteArray_new_inv [OF assms, of f] assms(1)
  by (simp_all add: ba_wf_def) (simp_all add: ByteArray_new_def ba_contents_def ba_limit_def)

lemma patch_at_front: "patch [] 0 xs = xs"
  by (simp add: patch_def)

text \<open>A byte array with given contents.\<close>

lemma bytearray_holding:
  assumes "0 < b" "length bs + 3 * b \<le> 2 ^ 64"
  shows "\<exists>ba. ba_wf ba \<and> ba_contents ba = bs \<and> ba_position ba = 0 \<and> ba_endian ba = TIGER_BIG_ENDIAN \<and>
     ba_limit ba = 2 ^ 64 - 3 * b"
proof -
  note new = ByteArray_new_wf [of b "\<lambda>_. 0"]
  have "b < 2 ^ 64" "length bs \<le> 2 ^ 64 - 3 * b" using assms by simp_all
  with new assms ByteArray_write_wf [of "ByteArray_new (\<lambda>_. 0) b" bs] obtain ba where
    w: "ba_wf ba" "ba_contents ba = bs" "ba_endian ba = TIGER_BIG_ENDIAN" "ba_limit ba = 2 ^ 64 - 3 * b"
    by (auto simp: patch_at_front)
  from moved_wf [OF w(1), of 0] w show ?thesis
    by (intro exI [of _ "ba\<lparr>ba_position := 0, ba_cur := cur_of ba 0\<rparr>"]) (simp add: ba_limit_def)
qed

section \<open>The end of the last block\<close>

text \<open>
  With the position at the end of the last block, \<open>add_free_capacity_to\<close> appends blocks but
  its counter is 0 when it decides whether to advance the current block, so the next
  write starts over in the block that is full.
\<close>

lemma write_at_end_of_last_block:
  assumes inv: "ba_inv ba" and pos: "ba_position ba = ba_total ba" and buf: "buf \<noteq> []" "length buf \<le> ba_base_size ba"
    and small: "ba_base_size ba < 2 ^ 64"
  shows "\<exists>ba'. ByteArray_write buf ba = (Inr (), ba') \<and> ba_position ba' = ba_total ba + length buf \<and>
     take (ba_total ba) (ba_contents ba') = patch (ba_contents ba) (ba_total ba - ba_base_size ba) buf"
proof -
  let ?b = "ba_base_size ba" and ?c = "length (ba_root ba) - 1"
  define ba1 where "ba1 = add_free_capacity_to (length buf) ba"
  have cap: "ba_capacity ba = ba_total ba" "ba_size ba = ba_total ba" and b: "0 < ?b" and c: "ba_cur ba = ?c"
    and root: "ba_root ba \<noteq> []"
    using inv pos by (auto simp: ba_inv_def cur_of_def blocks_ok_def)
  have blk: "\<forall>nd \<in> set (ba_root ba). n_size nd = ?b \<and> length (n_ptr nd) = ?b" using inv by (auto simp: ba_inv_def blocks_ok_def)
  obtain k where ba1: "ba1 = with_blocks (Suc k) ba"
    using get_free_capacity_eq [OF inv] cap pos by (auto simp: ba1_def add_free_capacity_to_eq missing_blocks_def)
  have nd: "ba_root ba1 ! ?c = ba_root ba ! ?c" "n_size (ba_root ba ! ?c) = ?b" "?c < length (ba_root ba1)"
      "Suc ?c < length (ba_root ba1)"
    using root blk by (simp_all add: ba1 with_blocks_def nth_append)
  have fr: "ba_base_size ba1 = ?b" "ba_position ba1 = ba_total ba" "ba_size ba1 = ba_total ba" "ba_cur ba1 = ?c"
    using cap pos c by (simp_all add: ba1 with_blocks_def)
  have m: "ba_total ba mod ?b = 0" by (simp add: ba_total_def)
  let ?r = "(ba_root ba1)[?c := poke (ba_root ba ! ?c) 0 buf]"
  have wl: "\<exists>ba2. write_loop 0 ?b buf ba1 = (Inr (), ba2) \<and> ba_root ba2 = ?r \<and>
      ba_position ba2 = ba_total ba + length buf \<and> ba_size ba2 = ba_total ba"
    using buf nd fr by (simp add: write_loop.simps [of 0 ?b] Let_def)
  have "take (ba_total ba) (concat (map n_ptr ?r)) = patch (ba_mem ba) (?c * ?b + 0) buf"
  proof -
    have "?r = (ba_root ba)[?c := poke (ba_root ba ! ?c) 0 buf] @ replicate (Suc k) (new_node (ba_fresh ba) ?b)"
      using root by (simp add: ba1 with_blocks_def list_update_append)
    moreover have "concat (map n_ptr ((ba_root ba)[?c := poke (ba_root ba ! ?c) 0 buf])) = patch (ba_mem ba) (?c * ?b + 0) buf"
      unfolding ba_mem_def using blk buf root by (intro concat_uniform_update) (auto simp: poke_def)
    moreover have "?c * ?b + 0 + length buf \<le> ba_total ba"
      using buf(2) root by (cases "ba_root ba") (simp_all add: ba_total_def)
    then have "length (patch (ba_mem ba) (?c * ?b + 0) buf) = ba_total ba"
      using length_ba_mem [of ba] inv by (subst length_patch) (simp_all add: ba_inv_def)
    ultimately show ?thesis by simp
  qed
  moreover have "?c * ?b + 0 = ba_total ba - ?b" by (simp add: ba_total_def diff_mult_distrib)
  moreover have "ba_contents ba = ba_mem ba" using length_ba_mem [of ba] inv cap by (simp add: ba_contents_def ba_inv_def)
  ultimately show ?thesis
    using wl buf b nd fr m small sub64_le [of 0 ?b]
    by (auto simp: ByteArray_write_def ba1_def [symmetric] Let_def ba_contents_def ba_mem_def)
qed

section \<open>Properties\<close>

text \<open>
  C1: a byte array behaves like a flat buffer with a cursor. Whatever sequence of
  writes, reads and seeks is run, block boundaries are invisible: the results, the stored
  bytes and the position are those of the abstract buffer, a read past the end fails and
  changes nothing, and the invariant holds at the end.
\<close>

theorem bytearray_refines_flat_buffer:
  assumes "ba_wf ba" "ops_allowed (ba_limit ba) ops (ba_contents ba, ba_position ba)"
  shows "\<exists>outs ba'. run_steps (buf_step ByteArray_write ByteArray_read set_position) ops ba = (outs, ba') \<and>
     ba_wf ba' \<and>
     run_steps flat_step ops (ba_contents ba, ba_position ba) = (outs, (ba_contents ba', ba_position ba'))"
  using assms by (rule ba.run_refines)

theorem bytearray_refines_flat_buffer_witness:
  "\<exists>ba'. run_steps (buf_step ByteArray_write ByteArray_read set_position)
      [BWrite [1, 2, 3, 4, 5, 6], BSeek 1, BRead 4, BRead 9] (ByteArray_new (\<lambda>_. 0) 4) =
      ([BDone, BDone, BGot [2, 3, 4, 5], BFailed], ba') \<and> ba_wf ba' \<and> ba_contents ba' = [1, 2, 3, 4, 5, 6]"
  using bytearray_refines_flat_buffer [of "ByteArray_new (\<lambda>_. 0) 4"
      "[BWrite [1, 2, 3, 4, 5, 6], BSeek 1, BRead 4, BRead 9]"]
  by (auto simp: ByteArray_new_wf patch_at_front)

text \<open>
  C10: filling the buffers that \<open>get_enable_write_buffers\<close> hands out and then moving the
  position with \<open>set_position\<close>, as the stream layer does around \<^verbatim>\<open>recvmsg\<close>, stores the received
  bytes exactly as \<open>ByteArray_write\<close> would, however many blocks they span and however
  short the transfer was.
\<close>

theorem vectored_write_stores:
  assumes "ba_wf ba" "ba_position ba + n \<le> ba_limit ba" "length data \<le> n" "0 < n"
  shows "\<exists>iovs ba1 ba'. get_enable_write_buffers n ba = (Inr (iovs, n), ba1) \<and>
     set_position (ba_position ba + length data) (ba1\<lparr>ba_root := scatter iovs data (ba_root ba1)\<rparr>) = (Inr (), ba') \<and>
     ba_inv ba' \<and> ba_contents ba' = patch (ba_contents ba) (ba_position ba) data \<and>
     ba_position ba' = ba_position ba + length data"
proof -
  note wf = ba_wfD [OF assms(1)]
  have "ba_fits ba n" using assms(2,4) by (auto simp: ba_fits_def ba_limit_def)
  from get_enable_write_buffers_spec [OF wf(1,2) this] assms(3) obtain iovs ba1 where
    g: "get_enable_write_buffers n ba = (Inr (iovs, n), ba1)" "ba_inv ba1" "ba_contents ba1 = ba_contents ba"
      "ba_position ba1 = ba_position ba" and
    w: "wrote ba1 data (ba1\<lparr>ba_root := scatter iovs data (ba_root ba1),
          ba_position := ba_position ba1 + length data, ba_cur := cur_of ba1 (ba_position ba1 + length data)\<rparr>)" and
    cap: "ba_position ba1 + length data \<le> ba_capacity ba1"
    by blast
  from scattered_position [OF g(2) cap w] g show ?thesis by auto
qed

theorem vectored_write_stores_witness:
  "\<exists>iovs ba1 ba'. get_enable_write_buffers 6 (ByteArray_new (\<lambda>_. 0) 4) = (Inr (iovs, 6), ba1) \<and>
     set_position 5 (ba1\<lparr>ba_root := scatter iovs [1, 2, 3, 4, 5] (ba_root ba1)\<rparr>) = (Inr (), ba') \<and>
     ba_inv ba' \<and> ba_contents ba' = [1, 2, 3, 4, 5] \<and> ba_position ba' = 5"
proof -
  have "length [1, 2, 3, 4, 5 :: byte] = 5" by simp
  from vectored_write_stores [of "ByteArray_new (\<lambda>_. 0) 4" 6 "[1, 2, 3, 4, 5]", unfolded this]
  show ?thesis by (simp add: ByteArray_new_wf patch_at_front)
qed

text \<open>
  the buffers handed out for reading, by either overload, gather exactly the stored
  bytes from the given position on, at most as many as were asked for.
\<close>

theorem read_buffers_gather:
  assumes "ba_inv ba"
  shows "(\<exists>iovs. get_enable_read_buffers len ba = Inr (iovs, min len (ba_size ba - ba_position ba)) \<and>
        concat (map (iov_bytes ba) iovs) = take len (drop (ba_position ba) (ba_contents ba))) \<and>
     (\<exists>iovs. get_enable_read_buffers_at len p ba = Inr (iovs, min len (ba_size ba - p)) \<and>
        concat (map (iov_bytes ba) iovs) = take len (drop p (ba_contents ba)))"
proof -
  have cut: "take (min len (ba_size ba - q)) (drop q (ba_contents ba)) = take len (drop q (ba_contents ba))" for q
    using ba_inv_length [OF assms] by (cases "len \<le> ba_size ba - q") (simp_all add: min_def)
  have "\<exists>iovs. get_enable_read_buffers_at len p ba = Inr (iovs, min len (ba_size ba - p)) \<and>
      concat (map (iov_bytes ba) iovs) = take len (drop p (ba_contents ba))"
  proof (cases "p < ba_size ba")
    case True
    then show ?thesis using get_enable_read_buffers_at_spec [OF assms _ refl, of p len] by (simp add: cut)
  next
    case False
    then show ?thesis using ba_inv_length [OF assms] by (simp add: get_enable_read_buffers_at_def)
  qed
  then show ?thesis using get_enable_read_buffers_spec [OF assms refl, of len] by (simp add: cut)
qed

theorem read_buffers_gather_witness:
  "\<exists>ba iovs. ba_contents ba = [1, 2, 3, 4, 5, 6] \<and> get_enable_read_buffers_at 3 2 ba = Inr (iovs, 3) \<and>
     concat (map (iov_bytes ba) iovs) = [3, 4, 5]"
proof -
  obtain ba where ba: "ba_wf ba" "ba_contents ba = [1, 2, 3, 4, 5, 6]"
    using bytearray_holding [of 4 "[1, 2, 3, 4, 5, 6]"] by auto
  with ba_wfD [OF ba(1)] read_buffers_gather [of ba 3 2] show ?thesis by auto
qed

text \<open>
  writing the unread part of one byte array to a file and reading that file into
  another reproduces it: \<open>read_from_file\<close> ends (the file's length bounds its iterations)
  and the second array holds the bytes, ready to be read back with \<open>to_string\<close> after a seek.
\<close>

theorem file_round_trip:
  assumes "ba_wf ba" "0 < b" "length (drop (ba_position ba) (ba_contents ba)) + 3 * b \<le> 2 ^ 64"
  shows "\<exists>bs ba1 ba2. write_to_file True ba = Inr (Some bs) \<and>
     read_from_file (length bs + 1) (Some bs) (ByteArray_new f b) = Some (Inr True, ba1) \<and>
     set_position 0 ba1 = (Inr (), ba2) \<and>
     ByteArray_to_string ba2 = Inr (drop (ba_position ba) (ba_contents ba))"
proof -
  let ?bs = "drop (ba_position ba) (ba_contents ba)"
  have b: "b < 2 ^ 64" using assms(2,3) by simp
  note new = ByteArray_new_wf [OF assms(2) b, of f]
  have "ba_fits (ByteArray_new f b) (length ?bs)" using assms(3) by (simp add: ba_fits_def new) (simp add: ByteArray_new_def)
  with read_from_file_spec [OF ba_wfD(1,2) [OF new(1)], of ?bs "length ?bs + 1"] obtain ba1 where
    r: "read_from_file (length ?bs + 1) (Some ?bs) (ByteArray_new f b) = Some (Inr True, ba1)" "ba_inv ba1"
      "ba_contents ba1 = ?bs" using new by (auto simp: patch_at_front)
  let ?ba2 = "ba1\<lparr>ba_position := 0, ba_size := max (ba_size ba1) 0, ba_cur := cur_of ba1 0\<rparr>"
  have "set_position 0 ba1 = (Inr (), ?ba2)" using r(2) by (intro set_position_spec) auto
  moreover have "ByteArray_to_string ?ba2 = Inr ?bs"
    using moved_inv [OF r(2), of 0 "max (ba_size ba1) 0"] r(2,3)
    by (simp add: ByteArray_to_string_spec ba_inv_def) (simp add: ba_contents_def)
  ultimately show ?thesis using write_to_file_spec [OF ba_wfD(1,2) [OF assms(1)]] r(1) by auto
qed

theorem file_round_trip_witness:
  "\<exists>bs ba1 ba2. write_to_file True (ByteArray_new (\<lambda>_. 0) 4) = Inr (Some bs) \<and>
     read_from_file (length bs + 1) (Some bs) (ByteArray_new (\<lambda>_. 7) 2) = Some (Inr True, ba1) \<and>
     set_position 0 ba1 = (Inr (), ba2) \<and> ByteArray_to_string ba2 = Inr []"
  using file_round_trip [of "ByteArray_new (\<lambda>_. 0) 4" 2 "\<lambda>_. 7"] by (simp add: ByteArray_new_wf)

text \<open>
  the bounds check of the \<^verbatim>\<open>const\<close> read is exact up to the size: inside the stored
  bytes it returns them, a request that crosses the end throws. From a position beyond
  the size the \<^verbatim>\<open>size_t\<close> difference wraps around, the check passes, and bytes of the blocks
  that were never written are returned.
\<close>

theorem const_read_bounds:
  assumes "ba_inv ba" "p < ba_total ba" "p + n \<le> ba_total ba"
  shows "ByteArray_read_at n p ba =
     (if ba_size ba < p then Inr (take n (drop p (ba_mem ba)))
      else if ba_size ba < p + n then Inl (OutOfRange ''[read not of range]'')
      else Inr (take n (drop p (ba_contents ba))))"
  using assms ByteArray_read_at_beyond [of ba p n] ByteArray_read_at_out_of_range [of ba p n]
    ByteArray_read_at_spec [of ba p n]
  by auto

theorem const_read_bounds_witness:
  "ByteArray_read_at 2 1 (ByteArray_new (\<lambda>_. 9) 4) = Inr [9, 9]"
proof -
  let ?ba = "ByteArray_new (\<lambda>_. 9) 4"
  have "take 2 (drop 1 (ba_mem ?ba)) = [9, 9]" "ba_size ?ba < 1" by code_simp+
  with const_read_bounds [of ?ba 1 2] ByteArray_new_inv [of 4 "\<lambda>_. 9"] show ?thesis by simp
qed


text \<open>
  the block a write goes to when the position is at the end of the last block. After
  \<open>ByteArray_clear\<close> and \<open>set_position\<close> to the capacity, a write succeeds and moves the
  position on, but the bytes land at the start of the block that was already full: what
  was stored there is overwritten.
\<close>

theorem write_at_capacity_overwrites:
  assumes "ba_inv ba" "buf \<noteq> []" "length buf \<le> ba_base_size ba"
  shows "\<exists>ba1 ba2. set_position (ba_base_size ba) (ByteArray_clear ba) = (Inr (), ba1) \<and>
     ByteArray_write buf ba1 = (Inr (), ba2) \<and> ba_position ba2 = ba_base_size ba + length buf \<and>
     take (length buf) (ba_contents ba2) = buf"
proof -
  let ?ba = "ByteArray_clear ba" and ?b = "ba_base_size ba"
  note cl = ByteArray_clear_inv [OF assms(1)]
  have f: "ba_capacity ?ba = ?b" "ba_base_size ?ba = ?b" "ba_size ?ba = 0" by (simp_all add: ByteArray_clear_def)
  define ba1 where "ba1 = ?ba\<lparr>ba_position := ?b, ba_size := ?b, ba_cur := cur_of ?ba ?b\<rparr>"
  have s: "set_position ?b ?ba = (Inr (), ba1)" using set_position_spec [OF cl(1), of ?b] f by (simp add: ba1_def)
  have i: "ba_inv ba1" "ba_total ba1 = ?b" "ba_base_size ba1 = ?b" "ba_position ba1 = ?b"
    using moved_inv(1) [OF cl(1), of ?b ?b] f cl(2) by (simp_all add: ba1_def ba_total_def)
  then have "?b < 2 ^ 64" by (simp add: ba_inv_def blocks_ok_def)
  with write_at_end_of_last_block [of ba1 buf] i assms(2,3) obtain ba2 where
    w: "ByteArray_write buf ba1 = (Inr (), ba2)" "ba_position ba2 = ?b + length buf"
      "take ?b (ba_contents ba2) = patch (ba_contents ba1) 0 buf" by auto
  have "take (length buf) (ba_contents ba2) = take (length buf) (take ?b (ba_contents ba2))"
    using assms(3) by (simp add: min_def)
  also have "\<dots> = buf" unfolding w(3) by (simp add: patch_def)
  finally show ?thesis using s w by blast
qed

theorem write_at_capacity_overwrites_witness:
  "\<exists>ba1 ba2. set_position 4 (ByteArray_clear (ByteArray_new (\<lambda>_. 0) 4)) = (Inr (), ba1) \<and>
     ByteArray_write [1, 2] ba1 = (Inr (), ba2) \<and> ba_position ba2 = 6 \<and> take 2 (ba_contents ba2) = [1, 2]"
proof -
  have "ba_base_size (ByteArray_new (\<lambda>_. 0) 4) = 4" by (simp add: ByteArray_new_def)
  moreover have "length [1, 2 :: byte] = 2" by simp
  moreover have "ba_inv (ByteArray_new (\<lambda>_. 0) 4)" by (rule ByteArray_new_inv) simp_all
  ultimately show ?thesis
    using write_at_capacity_overwrites [of "ByteArray_new (\<lambda>_. 0) 4" "[1, 2]"] by (simp del: list.size)
qed

end
