(* ===== verification/ByteCodec.thy ===== *)
theory ByteCodec
  imports ByteArray
begin

text \<open>
  The typed accessors of \<^verbatim>\<open>src/bytearray.cc\<close>: fixed-width integers in the array's byte
  order, variable-length and zigzag integers, floating point numbers, and strings with a
  length in front. A signed integer is the word with its bit pattern, a \<^verbatim>\<open>float\<close> or
  \<^verbatim>\<open>double\<close> is the word that \<^verbatim>\<open>memcpy\<close> copies, a \<^verbatim>\<open>std::string\<close> is its bytes. The byte
  order of the host is an argument.

  The lemmas give each writer the bytes it stores and each reader the bytes it consumes
  (\<open>ba.stores\<close>, \<open>ba.loads\<close> of the interface \<open>byte_buffer\<close>), from which the round trips follow.
\<close>

type_synonym 'a ba_op = "(bytearray, ba_error, 'a) se"

section \<open>Zigzag\<close>

definition Encode_Zigzag32 :: "u32 \<Rightarrow> u32" where
  "Encode_Zigzag32 v = (if v <s 0 then push_bit 1 (- v) - 1 else push_bit 1 v)"

definition Encode_Zigzag64 :: "u64 \<Rightarrow> u64" where
  "Encode_Zigzag64 v = (if v <s 0 then push_bit 1 (- v) - 1 else push_bit 1 v)"

definition Decode_Zigzag32 :: "u32 \<Rightarrow> u32" where
  "Decode_Zigzag32 v = drop_bit 1 v XOR - (v AND 1)"

definition Decode_Zigzag64 :: "u64 \<Rightarrow> u64" where
  "Decode_Zigzag64 v = drop_bit 1 v XOR - (v AND 1)"

section \<open>Writers\<close>

definition write_fixed_int8 :: "endian \<Rightarrow> byte \<Rightarrow> unit ba_op" where
  "write_fixed_int8 host v = ByteArray_write (mem_bytes host v)"

definition write_fixed_uint8 :: "endian \<Rightarrow> byte \<Rightarrow> unit ba_op" where
  "write_fixed_uint8 host v = ByteArray_write (mem_bytes host v)"

definition write_fixed_int16 :: "endian \<Rightarrow> u16 \<Rightarrow> unit ba_op" where
  "write_fixed_int16 host v ba =
     ByteArray_write (mem_bytes host (if ba_endian ba \<noteq> host then byteswap16 v else v)) ba"

definition write_fixed_uint16 :: "endian \<Rightarrow> u16 \<Rightarrow> unit ba_op" where
  "write_fixed_uint16 host v ba =
     ByteArray_write (mem_bytes host (if ba_endian ba \<noteq> host then byteswap16 v else v)) ba"

definition write_fixed_int32 :: "endian \<Rightarrow> u32 \<Rightarrow> unit ba_op" where
  "write_fixed_int32 host v ba =
     ByteArray_write (mem_bytes host (if ba_endian ba \<noteq> host then byteswap32 v else v)) ba"

definition write_fixed_uint32 :: "endian \<Rightarrow> u32 \<Rightarrow> unit ba_op" where
  "write_fixed_uint32 host v ba =
     ByteArray_write (mem_bytes host (if ba_endian ba \<noteq> host then byteswap32 v else v)) ba"

definition write_fixed_int64 :: "endian \<Rightarrow> u64 \<Rightarrow> unit ba_op" where
  "write_fixed_int64 host v ba =
     ByteArray_write (mem_bytes host (if ba_endian ba \<noteq> host then byteswap64 v else v)) ba"

definition write_fixed_uint64 :: "endian \<Rightarrow> u64 \<Rightarrow> unit ba_op" where
  "write_fixed_uint64 host v ba =
     ByteArray_write (mem_bytes host (if ba_endian ba \<noteq> host then byteswap64 v else v)) ba"

text \<open>The loops that fill \<^verbatim>\<open>tmp\<close> with groups of seven bits.\<close>

lemma drop_bit_less:
  fixes v :: "'a::len word"
  assumes "v \<noteq> 0"
  shows "unat (drop_bit 7 v) < unat v"
  unfolding unat_drop_bit_eq using assms by (simp add: drop_bit_eq_div unat_gt_0)

function write_uint32_tmp :: "u32 \<Rightarrow> byte list" where
  "write_uint32_tmp v =
     (if v \<ge> 0x80 then ucast ((v AND 0x7F) OR 0x80) # write_uint32_tmp (drop_bit 7 v)
      else [ucast v])"
  by pat_completeness auto
termination
  by (relation "measure unat") (auto intro!: drop_bit_less)

function write_uint64_tmp :: "u64 \<Rightarrow> byte list" where
  "write_uint64_tmp v =
     (if v \<ge> 0x80 then ucast ((v AND 0x7F) OR 0x80) # write_uint64_tmp (drop_bit 7 v)
      else [ucast v])"
  by pat_completeness auto
termination
  by (relation "measure unat") (auto intro!: drop_bit_less)

declare write_uint32_tmp.simps [simp del] write_uint64_tmp.simps [simp del]

definition write_uint32 :: "u32 \<Rightarrow> unit ba_op" where
  "write_uint32 v = ByteArray_write (write_uint32_tmp v)"

definition write_int32 :: "u32 \<Rightarrow> unit ba_op" where
  "write_int32 v = write_uint32 (Encode_Zigzag32 v)"

definition write_uint64 :: "u64 \<Rightarrow> unit ba_op" where
  "write_uint64 v = ByteArray_write (write_uint64_tmp v)"

definition write_int64 :: "u64 \<Rightarrow> unit ba_op" where
  "write_int64 v = write_uint64 (Encode_Zigzag64 v)"

definition write_float :: "endian \<Rightarrow> u32 \<Rightarrow> unit ba_op" where
  "write_float host v = write_fixed_uint32 host v"

definition write_double :: "endian \<Rightarrow> u64 \<Rightarrow> unit ba_op" where
  "write_double host v = write_fixed_uint64 host v"

definition write_fixed_str16 :: "endian \<Rightarrow> byte list \<Rightarrow> unit ba_op" where
  "write_fixed_str16 host v =
     se_bind (write_fixed_uint16 host (of_nat (length v))) (\<lambda>_. ByteArray_write v)"

definition write_fixed_str32 :: "endian \<Rightarrow> byte list \<Rightarrow> unit ba_op" where
  "write_fixed_str32 host v =
     se_bind (write_fixed_uint32 host (of_nat (length v))) (\<lambda>_. ByteArray_write v)"

definition write_fixed_str64 :: "endian \<Rightarrow> byte list \<Rightarrow> unit ba_op" where
  "write_fixed_str64 host v =
     se_bind (write_fixed_uint64 host (of_nat (length v))) (\<lambda>_. ByteArray_write v)"

definition write_str :: "byte list \<Rightarrow> unit ba_op" where
  "write_str v = se_bind (write_uint64 (of_nat (length v))) (\<lambda>_. ByteArray_write v)"

definition write_str_without_len :: "byte list \<Rightarrow> unit ba_op" where
  "write_str_without_len v = ByteArray_write v"

section \<open>Readers\<close>

definition read_fixed_int8 :: "endian \<Rightarrow> byte ba_op" where
  "read_fixed_int8 host = se_bind (ByteArray_read 1) (\<lambda>bs. se_return (mem_word host bs))"

definition read_fixed_uint8 :: "endian \<Rightarrow> byte ba_op" where
  "read_fixed_uint8 host = se_bind (ByteArray_read 1) (\<lambda>bs. se_return (mem_word host bs))"

definition read_fixed_int16 :: "endian \<Rightarrow> u16 ba_op" where
  "read_fixed_int16 host ba =
     se_bind (ByteArray_read 2) (\<lambda>bs. se_return
       (if ba_endian ba = host then mem_word host bs else byteswap16 (mem_word host bs))) ba"

definition read_fixed_uint16 :: "endian \<Rightarrow> u16 ba_op" where
  "read_fixed_uint16 host ba =
     se_bind (ByteArray_read 2) (\<lambda>bs. se_return
       (if ba_endian ba = host then mem_word host bs else byteswap16 (mem_word host bs))) ba"

definition read_fixed_int32 :: "endian \<Rightarrow> u32 ba_op" where
  "read_fixed_int32 host ba =
     se_bind (ByteArray_read 4) (\<lambda>bs. se_return
       (if ba_endian ba = host then mem_word host bs else byteswap32 (mem_word host bs))) ba"

definition read_fixed_uint32 :: "endian \<Rightarrow> u32 ba_op" where
  "read_fixed_uint32 host ba =
     se_bind (ByteArray_read 4) (\<lambda>bs. se_return
       (if ba_endian ba = host then mem_word host bs else byteswap32 (mem_word host bs))) ba"

definition read_fixed_int64 :: "endian \<Rightarrow> u64 ba_op" where
  "read_fixed_int64 host ba =
     se_bind (ByteArray_read 8) (\<lambda>bs. se_return
       (if ba_endian ba = host then mem_word host bs else byteswap64 (mem_word host bs))) ba"

definition read_fixed_uint64 :: "endian \<Rightarrow> u64 ba_op" where
  "read_fixed_uint64 host ba =
     se_bind (ByteArray_read 8) (\<lambda>bs. se_return
       (if ba_endian ba = host then mem_word host bs else byteswap64 (mem_word host bs))) ba"

function read_uint32_loop :: "endian \<Rightarrow> nat \<Rightarrow> u32 \<Rightarrow> u32 ba_op" where
  "read_uint32_loop host i v =
     (if i < 32 then
        se_bind (read_fixed_uint8 host) (\<lambda>b.
          if b < 0x80 then se_return (v OR push_bit i (ucast b))
          else read_uint32_loop host (i + 7) (v OR push_bit i (ucast (b AND 0x7f))))
      else se_return v)"
  by pat_completeness auto
termination by (relation "measure (\<lambda>(host, i, v). 32 - i)") auto

function read_uint64_loop :: "endian \<Rightarrow> nat \<Rightarrow> u64 \<Rightarrow> u64 ba_op" where
  "read_uint64_loop host i v =
     (if i < 64 then
        se_bind (read_fixed_int8 host) (\<lambda>b.
          if b < 0x80 then se_return (v OR push_bit i (ucast b))
          else read_uint64_loop host (i + 7) (v OR push_bit i (ucast (b AND 0x7f))))
      else se_return v)"
  by pat_completeness auto
termination by (relation "measure (\<lambda>(host, i, v). 64 - i)") auto

declare read_uint32_loop.simps [simp del] read_uint64_loop.simps [simp del]

definition read_uint32 :: "endian \<Rightarrow> u32 ba_op" where
  "read_uint32 host = read_uint32_loop host 0 0"

definition read_int32 :: "endian \<Rightarrow> u32 ba_op" where
  "read_int32 host = se_bind (read_uint32 host) (\<lambda>v. se_return (Decode_Zigzag32 v))"

definition read_uint64 :: "endian \<Rightarrow> u64 ba_op" where
  "read_uint64 host = read_uint64_loop host 0 0"

definition read_int64 :: "endian \<Rightarrow> u64 ba_op" where
  "read_int64 host = se_bind (read_uint64 host) (\<lambda>v. se_return (Decode_Zigzag64 v))"

definition read_float :: "endian \<Rightarrow> u32 ba_op" where
  "read_float host = read_fixed_uint32 host"

definition read_double :: "endian \<Rightarrow> u64 ba_op" where
  "read_double host = read_fixed_uint64 host"

text \<open>\<^verbatim>\<open>buff.resize(len)\<close> throws when the length exceeds \<^verbatim>\<open>max_size()\<close>.\<close>

definition string_max_size :: nat where
  "string_max_size = 2 ^ 63 - 1"

definition read_bytes :: "nat \<Rightarrow> byte list ba_op" where
  "read_bytes len = (if len > string_max_size then se_throw LengthError else ByteArray_read len)"

definition read_fixed_str16 :: "endian \<Rightarrow> byte list ba_op" where
  "read_fixed_str16 host = se_bind (read_fixed_uint16 host) (\<lambda>len. read_bytes (unat len))"

definition read_fixed_str32 :: "endian \<Rightarrow> byte list ba_op" where
  "read_fixed_str32 host = se_bind (read_fixed_uint32 host) (\<lambda>len. read_bytes (unat len))"

definition read_fixed_str64 :: "endian \<Rightarrow> byte list ba_op" where
  "read_fixed_str64 host = se_bind (read_fixed_uint64 host) (\<lambda>len. read_bytes (unat len))"

definition read_str :: "endian \<Rightarrow> byte list ba_op" where
  "read_str host = se_bind (read_uint64 host) (\<lambda>len. read_bytes (unat len))"

section \<open>Hexadecimal dump\<close>

definition hex_digit :: "nat \<Rightarrow> char" where
  "hex_digit n = ''0123456789abcdef'' ! n"

definition hex_byte :: "byte \<Rightarrow> string" where
  "hex_byte b = [hex_digit (unat b div 16), hex_digit (unat b mod 16)]"

fun hex_loop :: "nat \<Rightarrow> byte list \<Rightarrow> string" where
  "hex_loop i [] = []"
| "hex_loop i (b # bs) =
     (if i > 0 \<and> i mod 32 = 0 then [CHR 0x0A] else []) @ hex_byte b @ '' '' @ hex_loop (i + 1) bs"

definition to_hex_string :: "bytearray \<Rightarrow> ba_error + string" where
  "to_hex_string ba = (case ByteArray_to_string ba of Inl e \<Rightarrow> Inl e | Inr str \<Rightarrow> Inr (hex_loop 0 str))"

section \<open>Bytes written and bytes read\<close>

lemma stores_swapped:
  fixes swap :: "'a::len word \<Rightarrow> 'a word"
  assumes "\<And>x. le_bytes (swap x) = rev (le_bytes x)"
  shows "ba.stores (\<lambda>ba. ByteArray_write (mem_bytes host (if ba_endian ba \<noteq> host then swap v else v)) ba)
    m (in_order m (le_bytes v))"
proof (rule ba.stores_mode)
  show "ba.stores (ByteArray_write (mem_bytes host (if m \<noteq> host then swap v else v))) m (in_order m (le_bytes v))"
    using ba.stores_write [of "in_order m (le_bytes v)" m] mem_bytes_swap [OF assms, of host m v] by simp
qed

lemma loads_swapped:
  fixes swap :: "'a::len word \<Rightarrow> 'a word"
  assumes "8 dvd LENGTH('a)" "\<And>x. le_bytes (swap x) = rev (le_bytes x)" "n = LENGTH('a) div 8"
  shows "ba.loads (\<lambda>ba. se_bind (ByteArray_read n) (\<lambda>bs. se_return
      (if ba_endian ba = host then mem_word host bs else swap (mem_word host bs))) ba)
    m (in_order m (le_bytes v)) (v :: 'a word)"
proof (rule ba.loads_mode [where r = "\<lambda>e. se_bind (ByteArray_read n) (\<lambda>bs. se_return
      (if e = host then mem_word host bs else swap (mem_word host bs)))"])
  have "(if m = host then mem_word host bs else swap (mem_word host bs)) = v" if "bs = in_order m (le_bytes v)" for bs
    using mem_word_swap [OF assms(1,2), of bs m host] that assms(1) by (simp add: le_word_le_bytes)
  then show "ba.loads (se_bind (ByteArray_read n) (\<lambda>bs. se_return
      (if m = host then mem_word host bs else swap (mem_word host bs)))) m (in_order m (le_bytes v)) v"
    using assms(3) by (intro ba.loads_map [OF ba.loads_read]) simp_all
qed

named_theorems codec_stores "the bytes each writer stores"
named_theorems codec_loads "the bytes each reader consumes"

lemma fixed8_stores [codec_stores]:
  "ba.stores (write_fixed_int8 host v) m [v]" "ba.stores (write_fixed_uint8 host v) m [v]"
  using ba.stores_write [of "[v]" m] by (simp_all add: write_fixed_int8_def write_fixed_uint8_def mem_bytes_def in_order_def)

lemma fixed16_stores [codec_stores]:
  "ba.stores (write_fixed_int16 host v) m (in_order m (le_bytes v))"
  "ba.stores (write_fixed_uint16 host v) m (in_order m (le_bytes v))"
  using stores_swapped [OF byteswap_le_bytes(1)] by (simp_all add: write_fixed_int16_def [abs_def] write_fixed_uint16_def [abs_def])

lemma fixed32_stores [codec_stores]:
  "ba.stores (write_fixed_int32 host v) m (in_order m (le_bytes v))"
  "ba.stores (write_fixed_uint32 host v) m (in_order m (le_bytes v))"
  using stores_swapped [OF byteswap_le_bytes(2)] by (simp_all add: write_fixed_int32_def [abs_def] write_fixed_uint32_def [abs_def])

lemma fixed64_stores [codec_stores]:
  "ba.stores (write_fixed_int64 host v) m (in_order m (le_bytes v))"
  "ba.stores (write_fixed_uint64 host v) m (in_order m (le_bytes v))"
  using stores_swapped [OF byteswap_le_bytes(3)] by (simp_all add: write_fixed_int64_def [abs_def] write_fixed_uint64_def [abs_def])

lemma fixed8_loads [codec_loads]:
  "ba.loads (read_fixed_int8 host) m [v] v" "ba.loads (read_fixed_uint8 host) m [v] v"
proof -
  have "ba.loads (se_bind (ByteArray_read 1) (\<lambda>bs. se_return (mem_word host bs))) m [v] v"
    by (rule ba.loads_map, rule ba.loads_read) (simp_all add: mem_word_def in_order_def le_word_def)
  then show "ba.loads (read_fixed_int8 host) m [v] v" "ba.loads (read_fixed_uint8 host) m [v] v"
    by (simp_all add: read_fixed_int8_def read_fixed_uint8_def)
qed

lemma fixed16_loads [codec_loads]:
  "ba.loads (read_fixed_int16 host) m (in_order m (le_bytes v)) v"
  "ba.loads (read_fixed_uint16 host) m (in_order m (le_bytes v)) v"
  unfolding read_fixed_int16_def [abs_def] read_fixed_uint16_def [abs_def]
  by (rule loads_swapped; simp add: byteswap_le_bytes)+

lemma fixed32_loads [codec_loads]:
  "ba.loads (read_fixed_int32 host) m (in_order m (le_bytes v)) v"
  "ba.loads (read_fixed_uint32 host) m (in_order m (le_bytes v)) v"
  unfolding read_fixed_int32_def [abs_def] read_fixed_uint32_def [abs_def]
  by (rule loads_swapped; simp add: byteswap_le_bytes)+

lemma fixed64_loads [codec_loads]:
  "ba.loads (read_fixed_int64 host) m (in_order m (le_bytes v)) v"
  "ba.loads (read_fixed_uint64 host) m (in_order m (le_bytes v)) v"
  unfolding read_fixed_int64_def [abs_def] read_fixed_uint64_def [abs_def]
  by (rule loads_swapped; simp add: byteswap_le_bytes)+

section \<open>Variable-length integers\<close>

lemma bit_0x7F: "bit (0x7F :: 'a::len word) n \<longleftrightarrow> n < 7 \<and> n < LENGTH('a)"
proof -
  have "(0x7F :: 'a word) = mask 7" by (simp add: mask_eq_exp_minus_1)
  then show ?thesis by (simp only: bit_mask_iff) auto
qed

lemma bit_0x80: "bit (0x80 :: 'a::len word) n \<longleftrightarrow> n = 7 \<and> n < LENGTH('a)"
proof -
  have "(0x80 :: 'a word) = push_bit 7 1" by simp
  then show ?thesis by (simp only: bit_push_bit_iff bit_1_iff) auto
qed

lemma bit_int_masks: "bit (0x7F :: int) n \<longleftrightarrow> n < 7" "bit (0x80 :: int) n \<longleftrightarrow> n = 7"
proof -
  have m: "(0x7F :: int) = mask 7" "(0x80 :: int) = push_bit 7 1" by (simp_all add: mask_eq_exp_minus_1)
  show "bit (0x7F :: int) n \<longleftrightarrow> n < 7" unfolding m by (simp only: bit_mask_iff) simp
  show "bit (0x80 :: int) n \<longleftrightarrow> n = 7" unfolding m by (simp only: bit_push_bit_iff bit_1_iff) auto
qed

lemmas bit_masks = bit_0x7F bit_0x80 bit_int_masks

lemma byte_less_0x80: "b < 0x80 \<longleftrightarrow> \<not> bit (b :: byte) 7"
proof -
  have "unat b < 2 ^ LENGTH(8)" by (rule unsigned_less)
  then have "\<not> unat b < 128 \<Longrightarrow> unat b div 128 = 1" by (intro div_nat_eqI) simp_all
  then have "bit (unat b) 7 \<longleftrightarrow> \<not> unat b < 128" by (cases "unat b < 128") (simp_all add: bit_iff_odd)
  then show ?thesis by (simp add: bit_unsigned_iff word_less_nat_alt)
qed

lemma group_low:
  assumes "8 \<le> LENGTH('a)"
  shows "ucast ((ucast ((v AND 0x7F) OR 0x80) :: byte) AND 0x7F) = (v AND 0x7F :: 'a::len word)"
  using assms by (intro bit_word_eqI) (auto simp: bit_simps bit_masks)

lemma group_high:
  assumes "8 \<le> LENGTH('a)"
  shows "bit (ucast ((v AND 0x7F) OR 0x80 :: 'a::len word) :: byte) 7"
  using assms by (simp add: bit_simps bit_masks)

lemma group_join:
  "(w OR push_bit i (v AND 0x7F)) OR push_bit (i + 7) (drop_bit 7 v) = w OR push_bit i (v :: 'a::len word)"
proof (rule bit_word_eqI)
  fix n assume n: "n < LENGTH('a)"
  then have "i + 7 \<le> n \<Longrightarrow> 7 + (n - (i + 7)) = n - i" by simp
  with n show "bit ((w OR push_bit i (v AND 0x7F)) OR push_bit (i + 7) (drop_bit 7 v)) n = bit (w OR push_bit i v) n"
    by (cases "i + 7 \<le> n") (auto simp: bit_simps bit_masks)
qed

lemma last_group:
  fixes v :: "'a::len word"
  assumes "unat v < 128"
  shows "ucast (ucast v :: byte) = v" "(ucast v :: byte) < 0x80"
proof -
  have u: "unat (ucast v :: byte) = unat v" using assms by (simp add: unsigned_ucast_eq take_bit_nat_eq_self)
  then show "(ucast v :: byte) < 0x80" using assms by (simp add: word_less_nat_alt)
  have "take_bit 8 v = v"
    using assms by (intro unsigned_word_eqI [where ?'a = nat]) (simp add: unsigned_take_bit_eq take_bit_nat_eq_self)
  moreover have "ucast (ucast v :: byte) = take_bit 8 v" by (intro bit_word_eqI) (auto simp: bit_simps)
  ultimately show "ucast (ucast v :: byte) = v" by simp
qed

lemma eight_32: "8 \<le> LENGTH(32)" and eight_64: "8 \<le> LENGTH(64)"
  by simp_all

lemma next_group:
  fixes v :: "'a::len word"
  assumes "2 ^ 7 \<le> unat v" "unat v < 2 ^ (n - i)"
  shows "i + 7 < n" "unat (drop_bit 7 v) < 2 ^ (n - (i + 7))"
proof -
  have "(2::nat) ^ 7 < 2 ^ (n - i)" using assms by linarith
  then have "7 < n - i" by (simp only: power_strict_increasing_iff)
  then show "i + 7 < n" by simp
  then have "n - i = 7 + (n - (i + 7))" by simp
  then have "(2::nat) ^ (n - i) = 2 ^ 7 * 2 ^ (n - (i + 7))" by (metis power_add)
  then show "unat (drop_bit 7 v) < 2 ^ (n - (i + 7))"
    using assms(2) unfolding unat_drop_bit_eq by (simp add: drop_bit_eq_div less_mult_imp_div_less mult.commute)
qed

lemma read_uint32_step:
  assumes "i < 32"
    and "ba.loads (if b < 0x80 then se_return (w OR push_bit i (ucast b))
      else read_uint32_loop host (i + 7) (w OR push_bit i (ucast (b AND 0x7F)))) m bs y"
  shows "ba.loads (read_uint32_loop host i w) m (b # bs) y"
  using assms ba.loads_bind [OF fixed8_loads(2) [of host m b], where ?b2.0 = bs and y = y and f = "\<lambda>b.
      if b < 0x80 then se_return (w OR push_bit i (ucast b))
      else read_uint32_loop host (i + 7) (w OR push_bit i (ucast (b AND 0x7F)))"]
  by (simp add: read_uint32_loop.simps [of host i w])

lemma read_uint32_loop_loads:
  "i < 32 \<Longrightarrow> unat v < 2 ^ (32 - i) \<Longrightarrow>
     ba.loads (read_uint32_loop host i w) m (write_uint32_tmp v) (w OR push_bit i v)"
proof (induction v arbitrary: i w rule: write_uint32_tmp.induct)
  case (1 v)
  show ?case
  proof (cases "v \<ge> 0x80")
    case True
    let ?b = "ucast ((v AND 0x7F) OR 0x80) :: byte"
    have "2 ^ 7 \<le> unat v" using True by (simp add: word_le_nat_alt)
    from next_group [OF this "1.prems"(2)] have i: "i + 7 < 32" "unat (drop_bit 7 v) < 2 ^ (32 - (i + 7))" by simp_all
    from "1.IH" [OF True i, of "w OR push_bit i (ucast (?b AND 0x7F))"]
    have "ba.loads (read_uint32_loop host (i + 7) (w OR push_bit i (ucast (?b AND 0x7F)))) m
        (write_uint32_tmp (drop_bit 7 v)) (w OR push_bit i v)"
      by (simp only: group_low [OF eight_32] group_join)
    moreover have "\<not> ?b < 0x80" by (simp add: byte_less_0x80 group_high)
    ultimately show ?thesis
      using read_uint32_step [OF "1.prems"(1), of ?b] True by (simp add: write_uint32_tmp.simps [of v])
  next
    case False
    then have b: "ucast (ucast v :: byte) = v" "(ucast v :: byte) < 0x80"
      using last_group [of v] by (simp_all add: word_less_nat_alt not_le)
    have "ba.loads (if (ucast v :: byte) < 0x80 then se_return (w OR push_bit i (ucast (ucast v :: byte)))
          else read_uint32_loop host (i + 7) (w OR push_bit i (ucast (ucast v AND (0x7F :: byte))))) m [] (w OR push_bit i v)"
      unfolding b(1) using b(2) by (simp add: ba.loads_return)
    from read_uint32_step [OF "1.prems"(1) this] False show ?thesis by (simp add: write_uint32_tmp.simps [of v])
  qed
qed

lemma read_uint64_step:
  assumes "i < 64"
    and "ba.loads (if b < 0x80 then se_return (w OR push_bit i (ucast b))
      else read_uint64_loop host (i + 7) (w OR push_bit i (ucast (b AND 0x7F)))) m bs y"
  shows "ba.loads (read_uint64_loop host i w) m (b # bs) y"
  using assms ba.loads_bind [OF fixed8_loads(1) [of host m b], where ?b2.0 = bs and y = y and f = "\<lambda>b.
      if b < 0x80 then se_return (w OR push_bit i (ucast b))
      else read_uint64_loop host (i + 7) (w OR push_bit i (ucast (b AND 0x7F)))"]
  by (simp add: read_uint64_loop.simps [of host i w])

lemma read_uint64_loop_loads:
  "i < 64 \<Longrightarrow> unat v < 2 ^ (64 - i) \<Longrightarrow>
     ba.loads (read_uint64_loop host i w) m (write_uint64_tmp v) (w OR push_bit i v)"
proof (induction v arbitrary: i w rule: write_uint64_tmp.induct)
  case (1 v)
  show ?case
  proof (cases "v \<ge> 0x80")
    case True
    let ?b = "ucast ((v AND 0x7F) OR 0x80) :: byte"
    have "2 ^ 7 \<le> unat v" using True by (simp add: word_le_nat_alt)
    from next_group [OF this "1.prems"(2)] have i: "i + 7 < 64" "unat (drop_bit 7 v) < 2 ^ (64 - (i + 7))" by simp_all
    from "1.IH" [OF True i, of "w OR push_bit i (ucast (?b AND 0x7F))"]
    have "ba.loads (read_uint64_loop host (i + 7) (w OR push_bit i (ucast (?b AND 0x7F)))) m
        (write_uint64_tmp (drop_bit 7 v)) (w OR push_bit i v)"
      by (simp only: group_low [OF eight_64] group_join)
    moreover have "\<not> ?b < 0x80" by (simp add: byte_less_0x80 group_high)
    ultimately show ?thesis
      using read_uint64_step [OF "1.prems"(1), of ?b] True by (simp add: write_uint64_tmp.simps [of v])
  next
    case False
    then have b: "ucast (ucast v :: byte) = v" "(ucast v :: byte) < 0x80"
      using last_group [of v] by (simp_all add: word_less_nat_alt not_le)
    have "ba.loads (if (ucast v :: byte) < 0x80 then se_return (w OR push_bit i (ucast (ucast v :: byte)))
          else read_uint64_loop host (i + 7) (w OR push_bit i (ucast (ucast v AND (0x7F :: byte))))) m [] (w OR push_bit i v)"
      unfolding b(1) using b(2) by (simp add: ba.loads_return)
    from read_uint64_step [OF "1.prems"(1) this] False show ?thesis by (simp add: write_uint64_tmp.simps [of v])
  qed
qed

lemma negative_msb: "v <s 0 \<longleftrightarrow> bit v (LENGTH('a) - Suc 0)" for v :: "'a::len word"
  by (simp add: word_sless_alt bit_last_iff)

lemma zigzag_bits:
  fixes v e :: "'a::len word"
  assumes e: "\<And>n. n < LENGTH('a) \<Longrightarrow> bit e n \<longleftrightarrow> (if n = 0 then s else bit v (n - 1) \<noteq> s)"
    and s: "s \<longleftrightarrow> bit v (LENGTH('a) - Suc 0)"
  shows "drop_bit 1 e XOR - (e AND 1) = v"
proof (rule bit_word_eqI)
  fix n assume n: "n < LENGTH('a)"
  have "odd e \<longleftrightarrow> s" using e [of 0] by (simp add: bit_0)
  then have m: "- (e AND 1) = (if s then - 1 else 0)" by (simp add: and_one_eq mod_2_eq_odd)
  have "bit (drop_bit 1 e) n \<longleftrightarrow> (if Suc n < LENGTH('a) then bit v n \<noteq> s else False)"
    using e [of "Suc n"] by (auto simp: bit_drop_bit_eq dest: bit_imp_le_length)
  moreover have "\<not> Suc n < LENGTH('a) \<Longrightarrow> n = LENGTH('a) - Suc 0" using n by simp
  ultimately show "bit (drop_bit 1 e XOR - (e AND 1)) n = bit v n"
    unfolding m using s n by (cases "Suc n < LENGTH('a)") (auto simp: bit_xor_iff)
qed

lemma zigzag_encoded:
  fixes v :: "'a::len word"
  assumes "n < LENGTH('a)"
  shows "bit (if v <s 0 then push_bit 1 (- v) - 1 else push_bit 1 v) n \<longleftrightarrow>
    (if n = 0 then v <s 0 else bit v (n - 1) \<noteq> (v <s 0))"
proof -
  have neg: "push_bit 1 (- v) - 1 = NOT (push_bit 1 v)" by (simp add: push_bit_eq_mult not_eq_complement)
  have "bit (push_bit 1 v) n \<longleftrightarrow> 0 < n \<and> bit v (n - 1)" using assms by (simp only: bit_push_bit_iff) auto
  then show ?thesis unfolding neg using assms by (cases "v <s 0"; simp only: if_True if_False bit_not_iff) auto
qed

lemma zigzag_uint:
  fixes v :: "'a::len word"
  shows "uint (if v <s 0 then push_bit 1 (- v) - 1 else push_bit 1 v) = (if sint v < 0 then - 2 * sint v - 1 else 2 * sint v)"
proof -
  let ?N = "LENGTH('a)"
  have b: "- (2 ^ (?N - 1)) \<le> sint v" "sint v < 2 ^ (?N - 1)"
    using sint_greater_eq [of v] sint_less [of v] by simp_all
  have p: "(2::int) ^ ?N = 2 * 2 ^ (?N - 1)" by (metis len_gt_0 power_eq_if not_gr_zero)
  have e: "(if v <s 0 then push_bit 1 (- v) - 1 else push_bit 1 v) =
      word_of_int (if sint v < 0 then - 2 * sint v - 1 else 2 * sint v)"
    by (simp add: word_sless_alt push_bit_eq_mult mult.commute)
  have "0 \<le> (if sint v < 0 then - 2 * sint v - 1 else 2 * sint v)"
      "(if sint v < 0 then - 2 * sint v - 1 else 2 * sint v) < 2 ^ ?N" using b p by (auto split: if_splits)
  then show ?thesis unfolding e by (simp add: uint_word_of_int)
qed

lemma zigzag32: "Decode_Zigzag32 (Encode_Zigzag32 v) = v"
  unfolding Decode_Zigzag32_def Encode_Zigzag32_def
  by (rule zigzag_bits [where s = "v <s 0"], erule zigzag_encoded) (rule negative_msb)

lemma zigzag64: "Decode_Zigzag64 (Encode_Zigzag64 v) = v"
  unfolding Decode_Zigzag64_def Encode_Zigzag64_def
  by (rule zigzag_bits [where s = "v <s 0"], erule zigzag_encoded) (rule negative_msb)

lemma varint_stores [codec_stores]:
  "ba.stores (write_uint32 u) m (write_uint32_tmp u)"
  "ba.stores (write_uint64 v) m (write_uint64_tmp v)"
  "ba.stores (write_int32 u) m (write_uint32_tmp (Encode_Zigzag32 u))"
  "ba.stores (write_int64 v) m (write_uint64_tmp (Encode_Zigzag64 v))"
  by (simp_all add: write_uint32_def write_uint64_def write_int32_def write_int64_def ba.stores_write)

lemma varint_loads [codec_loads]:
  "ba.loads (read_uint32 host) m (write_uint32_tmp u) u"
  "ba.loads (read_uint64 host) m (write_uint64_tmp v) v"
proof -
  have "unat u < 2 ^ LENGTH(32)" "unat v < 2 ^ LENGTH(64)" by (rule unsigned_less)+
  then show "ba.loads (read_uint32 host) m (write_uint32_tmp u) u" "ba.loads (read_uint64 host) m (write_uint64_tmp v) v"
    using read_uint32_loop_loads [of 0 u host 0 m] read_uint64_loop_loads [of 0 v host 0 m]
    by (simp_all add: read_uint32_def read_uint64_def)
qed

lemma zigzag_loads [codec_loads]:
  "ba.loads (read_int32 host) m (write_uint32_tmp (Encode_Zigzag32 u)) u"
  "ba.loads (read_int64 host) m (write_uint64_tmp (Encode_Zigzag64 v)) v"
  unfolding read_int32_def read_int64_def
  by (rule ba.loads_map, rule varint_loads, rule zigzag32) (rule ba.loads_map, rule varint_loads, rule zigzag64)

section \<open>Strings\<close>

lemma read_bytes_loads: "length v \<le> string_max_size \<Longrightarrow> n = length v \<Longrightarrow> ba.loads (read_bytes n) m v v"
  by (simp add: read_bytes_def ba.loads_read)

lemma str_stores [codec_stores]:
  "ba.stores (write_fixed_str16 host v) m (in_order m (le_bytes (of_nat (length v) :: u16)) @ v)"
  "ba.stores (write_fixed_str32 host v) m (in_order m (le_bytes (of_nat (length v) :: u32)) @ v)"
  "ba.stores (write_fixed_str64 host v) m (in_order m (le_bytes (of_nat (length v) :: u64)) @ v)"
  "ba.stores (write_str v) m (write_uint64_tmp (of_nat (length v)) @ v)"
  "ba.stores (write_str_without_len v) m v"
  unfolding write_fixed_str16_def write_fixed_str32_def write_fixed_str64_def write_str_def write_str_without_len_def
  by (intro ba.stores_bind ba.stores_write codec_stores)+

lemma unat_length: "length v < 2 ^ LENGTH('a) \<Longrightarrow> unat (of_nat (length v) :: 'a::len word) = length v"
  by (simp add: unat_of_nat take_bit_nat_eq_self)

lemma str_loads [codec_loads]:
  "length v < 2 ^ 16 \<Longrightarrow> ba.loads (read_fixed_str16 host) m (in_order m (le_bytes (of_nat (length v) :: u16)) @ v) v"
  "length v < 2 ^ 32 \<Longrightarrow> ba.loads (read_fixed_str32 host) m (in_order m (le_bytes (of_nat (length v) :: u32)) @ v) v"
  "length v < 2 ^ 63 \<Longrightarrow> ba.loads (read_fixed_str64 host) m (in_order m (le_bytes (of_nat (length v) :: u64)) @ v) v"
  "length v < 2 ^ 63 \<Longrightarrow> ba.loads (read_str host) m (write_uint64_tmp (of_nat (length v)) @ v) v"
  unfolding read_fixed_str16_def read_fixed_str32_def read_fixed_str64_def read_str_def
  by (rule ba.loads_bind, rule codec_loads, rule read_bytes_loads; simp add: unat_length string_max_size_def)+

section \<open>Sequences of typed values\<close>

text \<open>A value together with the accessor that writes and reads it.\<close>

datatype field =
    FInt8 byte | FUint8 byte | FInt16 u16 | FUint16 u16 | FInt32 u32 | FUint32 u32 | FInt64 u64 | FUint64 u64
  | VInt32 u32 | VUint32 u32 | VInt64 u64 | VUint64 u64 | Float u32 | Double u64
  | Str16 "byte list" | Str32 "byte list" | Str64 "byte list" | VStr "byte list"

fun write_field :: "endian \<Rightarrow> field \<Rightarrow> unit ba_op" where
  "write_field host (FInt8 v) = write_fixed_int8 host v"
| "write_field host (FUint8 v) = write_fixed_uint8 host v"
| "write_field host (FInt16 v) = write_fixed_int16 host v"
| "write_field host (FUint16 v) = write_fixed_uint16 host v"
| "write_field host (FInt32 v) = write_fixed_int32 host v"
| "write_field host (FUint32 v) = write_fixed_uint32 host v"
| "write_field host (FInt64 v) = write_fixed_int64 host v"
| "write_field host (FUint64 v) = write_fixed_uint64 host v"
| "write_field host (VInt32 v) = write_int32 v"
| "write_field host (VUint32 v) = write_uint32 v"
| "write_field host (VInt64 v) = write_int64 v"
| "write_field host (VUint64 v) = write_uint64 v"
| "write_field host (Float v) = write_float host v"
| "write_field host (Double v) = write_double host v"
| "write_field host (Str16 v) = write_fixed_str16 host v"
| "write_field host (Str32 v) = write_fixed_str32 host v"
| "write_field host (Str64 v) = write_fixed_str64 host v"
| "write_field host (VStr v) = write_str v"

text \<open>Reading with the accessor of a field; the field's value is not looked at.\<close>

definition se_map :: "('a \<Rightarrow> 'b) \<Rightarrow> ('s, 'e, 'a) se \<Rightarrow> ('s, 'e, 'b) se" where
  "se_map f r = se_bind r (\<lambda>x. se_return (f x))"

fun read_field :: "endian \<Rightarrow> field \<Rightarrow> field ba_op" where
  "read_field host (FInt8 _) = se_map FInt8 (read_fixed_int8 host)"
| "read_field host (FUint8 _) = se_map FUint8 (read_fixed_uint8 host)"
| "read_field host (FInt16 _) = se_map FInt16 (read_fixed_int16 host)"
| "read_field host (FUint16 _) = se_map FUint16 (read_fixed_uint16 host)"
| "read_field host (FInt32 _) = se_map FInt32 (read_fixed_int32 host)"
| "read_field host (FUint32 _) = se_map FUint32 (read_fixed_uint32 host)"
| "read_field host (FInt64 _) = se_map FInt64 (read_fixed_int64 host)"
| "read_field host (FUint64 _) = se_map FUint64 (read_fixed_uint64 host)"
| "read_field host (VInt32 _) = se_map VInt32 (read_int32 host)"
| "read_field host (VUint32 _) = se_map VUint32 (read_uint32 host)"
| "read_field host (VInt64 _) = se_map VInt64 (read_int64 host)"
| "read_field host (VUint64 _) = se_map VUint64 (read_uint64 host)"
| "read_field host (Float _) = se_map Float (read_float host)"
| "read_field host (Double _) = se_map Double (read_double host)"
| "read_field host (Str16 _) = se_map Str16 (read_fixed_str16 host)"
| "read_field host (Str32 _) = se_map Str32 (read_fixed_str32 host)"
| "read_field host (Str64 _) = se_map Str64 (read_fixed_str64 host)"
| "read_field host (VStr _) = se_map VStr (read_str host)"

text \<open>The wire format: byte order of the array, seven-bit groups, length in front.\<close>

fun field_bytes :: "endian \<Rightarrow> field \<Rightarrow> byte list" where
  "field_bytes e (FInt8 v) = [v]"
| "field_bytes e (FUint8 v) = [v]"
| "field_bytes e (FInt16 v) = in_order e (le_bytes v)"
| "field_bytes e (FUint16 v) = in_order e (le_bytes v)"
| "field_bytes e (FInt32 v) = in_order e (le_bytes v)"
| "field_bytes e (FUint32 v) = in_order e (le_bytes v)"
| "field_bytes e (FInt64 v) = in_order e (le_bytes v)"
| "field_bytes e (FUint64 v) = in_order e (le_bytes v)"
| "field_bytes e (VInt32 v) = write_uint32_tmp (Encode_Zigzag32 v)"
| "field_bytes e (VUint32 v) = write_uint32_tmp v"
| "field_bytes e (VInt64 v) = write_uint64_tmp (Encode_Zigzag64 v)"
| "field_bytes e (VUint64 v) = write_uint64_tmp v"
| "field_bytes e (Float v) = in_order e (le_bytes v)"
| "field_bytes e (Double v) = in_order e (le_bytes v)"
| "field_bytes e (Str16 v) = in_order e (le_bytes (of_nat (length v) :: u16)) @ v"
| "field_bytes e (Str32 v) = in_order e (le_bytes (of_nat (length v) :: u32)) @ v"
| "field_bytes e (Str64 v) = in_order e (le_bytes (of_nat (length v) :: u64)) @ v"
| "field_bytes e (VStr v) = write_uint64_tmp (of_nat (length v)) @ v"

fun field_ok :: "field \<Rightarrow> bool" where
  "field_ok (Str16 v) \<longleftrightarrow> length v < 2 ^ 16"
| "field_ok (Str32 v) \<longleftrightarrow> length v < 2 ^ 32"
| "field_ok (Str64 v) \<longleftrightarrow> length v < 2 ^ 63"
| "field_ok (VStr v) \<longleftrightarrow> length v < 2 ^ 63"
| "field_ok _ \<longleftrightarrow> True"

fun write_fields :: "endian \<Rightarrow> field list \<Rightarrow> unit ba_op" where
  "write_fields host [] = se_return ()"
| "write_fields host (f # fs) = se_bind (write_field host f) (\<lambda>_. write_fields host fs)"

fun read_fields :: "endian \<Rightarrow> field list \<Rightarrow> field list ba_op" where
  "read_fields host [] = se_return []"
| "read_fields host (f # fs) = se_bind (read_field host f) (\<lambda>x. se_map (Cons x) (read_fields host fs))"

lemma se_map_loads: "ba.loads r m bs x \<Longrightarrow> ba.loads (se_map g r) m bs (g x)"
  by (simp add: se_map_def ba.loads_map)

lemma write_field_stores: "ba.stores (write_field host f) m (field_bytes m f)"
  by (cases f) (simp_all add: codec_stores write_float_def write_double_def)

lemma read_field_loads: "field_ok f \<Longrightarrow> ba.loads (read_field host f) m (field_bytes m f) f"
  by (cases f) (simp_all add: codec_loads se_map_loads read_float_def read_double_def)

lemma write_fields_stores: "ba.stores (write_fields host fs) m (concat (map (field_bytes m) fs))"
proof (induction fs)
  case Nil
  show ?case using ba.stores_return by (simp only: write_fields.simps list.map concat.simps)
qed (simp add: ba.stores_bind write_field_stores)

lemma read_fields_loads:
  "list_all field_ok fs \<Longrightarrow> ba.loads (read_fields host fs) m (concat (map (field_bytes m) fs)) fs"
proof (induction fs)
  case (Cons f fs)
  then have "ba.loads (se_map (Cons f) (read_fields host fs)) m (concat (map (field_bytes m) fs)) (f # fs)"
    by (simp add: se_map_loads)
  from ba.loads_bind [OF read_field_loads [of f host m], where f = "\<lambda>x. se_map (Cons x) (read_fields host fs)", OF _ this]
  show ?case using Cons.prems by simp
qed (simp add: ba.loads_return)

section \<open>Lengths\<close>

lemma write_uint32_tmp_length:
  "unat v < 2 ^ (7 * n) \<Longrightarrow> 0 < n \<Longrightarrow> 0 < length (write_uint32_tmp v) \<and> length (write_uint32_tmp v) \<le> n"
proof (induction v arbitrary: n rule: write_uint32_tmp.induct)
  case (1 v)
  show ?case
  proof (cases "v \<ge> 0x80")
    case True
    have "2 ^ 7 \<le> unat v" using True by (simp add: word_le_nat_alt)
    from next_group [OF this, of "7 * n" 0] "1.prems" have "7 < 7 * n" "unat (drop_bit 7 v) < 2 ^ (7 * (n - 1))"
      by (simp_all add: diff_mult_distrib2)
    with "1.IH" [OF True, of "n - 1"] True show ?thesis by (cases n) (simp_all add: write_uint32_tmp.simps [of v])
  qed (use "1.prems" in \<open>simp add: write_uint32_tmp.simps [of v]\<close>)
qed

lemma write_uint64_tmp_length:
  "unat v < 2 ^ (7 * n) \<Longrightarrow> 0 < n \<Longrightarrow> 0 < length (write_uint64_tmp v) \<and> length (write_uint64_tmp v) \<le> n"
proof (induction v arbitrary: n rule: write_uint64_tmp.induct)
  case (1 v)
  show ?case
  proof (cases "v \<ge> 0x80")
    case True
    have "2 ^ 7 \<le> unat v" using True by (simp add: word_le_nat_alt)
    from next_group [OF this, of "7 * n" 0] "1.prems" have "7 < 7 * n" "unat (drop_bit 7 v) < 2 ^ (7 * (n - 1))"
      by (simp_all add: diff_mult_distrib2)
    with "1.IH" [OF True, of "n - 1"] True show ?thesis by (cases n) (simp_all add: write_uint64_tmp.simps [of v])
  qed (use "1.prems" in \<open>simp add: write_uint64_tmp.simps [of v]\<close>)
qed

lemma length_hex_loop: "length (hex_loop i bs) = 3 * length bs + card {k. i \<le> k \<and> k < i + length bs \<and> 0 < k \<and> k mod 32 = 0}"
proof (induction bs arbitrary: i)
  case (Cons b bs)
  let ?S = "\<lambda>j n. {k. j \<le> k \<and> k < j + n \<and> 0 < k \<and> k mod 32 = 0}"
  have "?S i (length (b # bs)) = (if i > 0 \<and> i mod 32 = 0 then insert i (?S (i + 1) (length bs)) else ?S (i + 1) (length bs))"
    by (auto simp: Suc_le_eq le_less)
  moreover have "finite (?S (i + 1) (length bs))" by simp
  moreover have "i \<notin> ?S (i + 1) (length bs)" by simp
  ultimately show ?case using Cons.IH [of "i + 1"] by (simp add: hex_byte_def)
qed simp

section \<open>Properties\<close>

text \<open>
  C2: any sequence of typed values written one after the other and read back with the
  same accessors gives the same values, for every byte order of the array and of the host.
  The bytes stored are the wire format \<open>field_bytes\<close>, which does not depend on the host.
\<close>

theorem packet_round_trip:
  assumes "ba_wf ba" "list_all field_ok fs"
    and "ba_position ba + length (concat (map (field_bytes (ba_endian ba)) fs)) \<le> ba_limit ba"
  shows "\<exists>ba'. se_bind (write_fields host fs) (\<lambda>_. se_bind (set_position (ba_position ba)) (\<lambda>_. read_fields host' fs)) ba
       = (Inr fs, ba') \<and> ba_wf ba' \<and>
     ba_contents ba' = patch (ba_contents ba) (ba_position ba) (concat (map (field_bytes (ba_endian ba)) fs))"
  using ba.round_trip [OF write_fields_stores read_fields_loads [OF assms(2)] assms(1) refl assms(3), of host host']
  by blast

theorem packet_round_trip_witness:
  "\<exists>ba'. se_bind (write_fields TIGER_LITTLE_ENDIAN [FUint16 0x0102, VInt32 (- 3), VStr [7, 8]])
      (\<lambda>_. se_bind (set_position 0) (\<lambda>_. read_fields TIGER_LITTLE_ENDIAN [FUint16 0x0102, VInt32 (- 3), VStr [7, 8]]))
      (ByteArray_new (\<lambda>_. 0) 4) = (Inr [FUint16 0x0102, VInt32 (- 3), VStr [7, 8]], ba') \<and>
     ba_contents ba' = [1, 2, 5, 2, 7, 8]"
proof -
  let ?fs = "[FUint16 0x0102, VInt32 (- 3), VStr [7, 8]]" and ?ba = "ByteArray_new (\<lambda>_. 0) 4"
  have e: "concat (map (field_bytes TIGER_BIG_ENDIAN) ?fs) = [1, 2, 5, 2, 7, 8]" by code_simp
  have new: "ba_wf ?ba" "ba_contents ?ba = []" "ba_position ?ba = 0" "ba_endian ?ba = TIGER_BIG_ENDIAN"
    and ok: "list_all field_ok ?fs" and room: "0 + length [1, 2, 5, 2, 7, 8 :: byte] \<le> ba_limit ?ba"
    by (simp_all add: ByteArray_new_wf)
  from packet_round_trip [OF new(1) ok, unfolded new e, OF room] show ?thesis by (auto simp only: patch_at_front)
qed

text \<open>
  the loops that encode variable-length integers stay inside their buffers, 5 bytes
  for \<open>write_uint32\<close> and 10 for \<open>write_uint64\<close>, and write at least one byte.
\<close>

theorem varint_tmp_bounds:
  "0 < length (write_uint32_tmp u) \<and> length (write_uint32_tmp u) \<le> 5 \<and>
   0 < length (write_uint64_tmp v) \<and> length (write_uint64_tmp v) \<le> 10"
proof -
  have "unat u < 2 ^ LENGTH(32)" "unat v < 2 ^ LENGTH(64)" by (rule unsigned_less)+
  then show ?thesis using write_uint32_tmp_length [of u 5] write_uint64_tmp_length [of v 10] by simp
qed

text \<open>
  \<open>write_fixed_str16\<close> stores the length modulo 65536 in front of the whole string, so
  reading it back returns only that many bytes: the round trip holds exactly for the
  strings shorter than 65536 bytes.
\<close>

theorem str16_keeps_length_mod_65536:
  assumes "ba_wf ba" "ba_position ba + 2 + length v \<le> ba_limit ba"
  shows "\<exists>ba'. se_bind (write_fixed_str16 host v)
      (\<lambda>_. se_bind (set_position (ba_position ba)) (\<lambda>_. read_fixed_str16 host)) ba = (Inr (take (length v mod 65536) v), ba')"
proof -
  let ?n = "length v mod 65536" and ?h = "in_order (ba_endian ba) (le_bytes (of_nat (length v) :: u16))"
  have n: "length (take ?n v) = ?n" by simp
  have w: "(of_nat (length (take ?n v)) :: u16) = of_nat (length v)"
    unfolding n by (rule unsigned_word_eqI [where ?'a = nat]) (simp add: unat_of_nat take_bit_eq_mod)
  have "?n < 2 ^ 16" by simp
  then have l: "ba.loads (read_fixed_str16 host) (ba_endian ba) (?h @ take ?n v) (take ?n v)"
    using str_loads(1) [of "take ?n v" host "ba_endian ba"] w by simp
  have "?h @ v = (?h @ take ?n v) @ drop ?n v" by simp
  with str_stores(1) have st: "ba.stores (write_fixed_str16 host v) (ba_endian ba) ((?h @ take ?n v) @ drop ?n v)" by metis
  have "length ((?h @ take ?n v) @ drop ?n v) = 2 + length v" by simp
  with ba.round_trip_prefix [OF st l assms(1) refl] assms(2) show ?thesis by (auto simp: add.assoc)
qed

theorem str16_keeps_length_mod_65536_witness:
  "\<exists>ba'. se_bind (write_fixed_str16 TIGER_LITTLE_ENDIAN (replicate 65537 7))
      (\<lambda>_. se_bind (set_position 0) (\<lambda>_. read_fixed_str16 TIGER_LITTLE_ENDIAN)) (ByteArray_new (\<lambda>_. 0) 4096) = (Inr [7], ba')"
  using str16_keeps_length_mod_65536 [of "ByteArray_new (\<lambda>_. 0) 4096" "replicate 65537 7" TIGER_LITTLE_ENDIAN]
  by (simp add: ByteArray_new_wf)

text \<open>
  zigzag numbers the integers by magnitude: a non-negative \<open>x\<close> becomes \<open>2 * x\<close>, a negative
  one \<open>- 2 * x - 1\<close>, the smallest value included, and decoding inverts it. Small magnitudes
  therefore take few bytes.
\<close>

theorem zigzag_functional:
  "uint (Encode_Zigzag32 u) = (if sint u < 0 then - 2 * sint u - 1 else 2 * sint u) \<and>
   Decode_Zigzag32 (Encode_Zigzag32 u) = u \<and>
   uint (Encode_Zigzag64 v) = (if sint v < 0 then - 2 * sint v - 1 else 2 * sint v) \<and>
   Decode_Zigzag64 (Encode_Zigzag64 v) = v"
  unfolding zigzag32 zigzag64 unfolding Encode_Zigzag32_def Encode_Zigzag64_def zigzag_uint by simp

text \<open>
  an accessor that finds too few bytes throws and leaves the array as it was, so the
  caller can go on after the exception; shown for the fixed-width readers.
\<close>

theorem fixed_read_fails_cleanly:
  assumes "ba_wf ba" "length (ba_contents ba) < ba_position ba + 4"
  shows "read_fixed_uint32 host ba = (Inl (OutOfRange ''[read out of range]''), ba) \<and>
     read_fixed_int32 host ba = (Inl (OutOfRange ''[read out of range]''), ba) \<and>
     read_float host ba = (Inl (OutOfRange ''[read out of range]''), ba)"
  using ba.bread_eof [OF assms] by (simp add: read_fixed_uint32_def read_fixed_int32_def read_float_def)

theorem fixed_read_fails_cleanly_witness:
  "read_fixed_uint32 TIGER_LITTLE_ENDIAN (ByteArray_new (\<lambda>_. 0) 4) =
     (Inl (OutOfRange ''[read out of range]''), ByteArray_new (\<lambda>_. 0) 4)"
  using fixed_read_fails_cleanly [of "ByteArray_new (\<lambda>_. 0) 4"] by (simp add: ByteArray_new_wf)

end
