(* ===== verification/Hash.thy ===== *)
theory Hash
  imports ByteCodec
begin

text \<open>
  The functions of \<^verbatim>\<open>src/hash.cc\<close>: Base64 in both directions, and the digests. A
  \<^verbatim>\<open>std::string\<close> is a list of characters. The digest algorithms of OpenSSL are parameters;
  \<open>evp s\<close> stands for the bytes that \<^verbatim>\<open>EVP_DigestFinal_ex\<close> writes for the message \<open>s\<close>.
\<close>

section \<open>Digests\<close>

definition message_digest :: "(string \<Rightarrow> byte list) \<Rightarrow> nat \<Rightarrow> string \<Rightarrow> string" where
  "message_digest evp digest_length s =
     concat (map hex_byte (patch (replicate digest_length 0) 0 (evp s)))"

definition MD5 :: "(string \<Rightarrow> byte list) \<Rightarrow> string \<Rightarrow> string" where
  "MD5 evp_md5 s = message_digest evp_md5 16 s"

definition SHA256 :: "(string \<Rightarrow> byte list) \<Rightarrow> string \<Rightarrow> string" where
  "SHA256 evp_sha256 s = message_digest evp_sha256 32 s"

definition SHA512 :: "(string \<Rightarrow> byte list) \<Rightarrow> string \<Rightarrow> string" where
  "SHA512 evp_sha512 s = message_digest evp_sha512 64 s"

text \<open>
  \<^verbatim>\<open>SHA1\<close> makes a string from \<^verbatim>\<open>out\<close>, an array of 1024 bytes that is not initialised
  (\<open>stack\<close>), up to its first zero byte; without one the construction reads past the array.
\<close>

definition SHA1 :: "(string \<Rightarrow> byte list) \<Rightarrow> byte list \<Rightarrow> string \<Rightarrow> string option" where
  "SHA1 sha1 stack s =
     (let out = patch stack 0 (sha1 s)
      in if 0 \<in> set out then Some (map byte_char (takeWhile (\<lambda>b. b \<noteq> 0) out)) else None)"

section \<open>Base64\<close>

definition base64 :: string where
  "base64 = ''ABCDEFGHIJKLMNOPQRSTUVWXYZabcdefghijklmnopqrstuvwxyz0123456789+/''"

text \<open>The inner loop of the encoder packs up to three bytes.\<close>

fun pack_loop :: "nat \<Rightarrow> u32 \<Rightarrow> string \<Rightarrow> u32 \<times> nat \<times> string" where
  "pack_loop i packed [] = (packed, i, [])"
| "pack_loop i packed (c # cs) =
     (if i < 3 then pack_loop (i + 1) (push_bit 8 packed OR ucast (char_byte c)) cs
      else (packed, i, c # cs))"

definition encode_group :: "u32 \<Rightarrow> nat \<Rightarrow> string" where
  "encode_group packed0 i =
     (let padding = (if i = 2 then 1 else if i = 1 then 2 else 0);
          packed = (push_bit 8 ^^ (3 - i)) packed0
      in [base64 ! unat (drop_bit 18 packed), base64 ! unat (drop_bit 12 packed AND 0x3f)] @
         (if padding \<noteq> 2 then [base64 ! unat (drop_bit 6 packed AND 0x3f)] else []) @
         (if padding = 0 then [base64 ! unat (packed AND 0x3f)] else []) @
         replicate padding CHR ''='')"

lemma pack_loop_length: "pack_loop i packed cs = (p, j, rest) \<Longrightarrow> length rest \<le> length cs"
  by (induction i packed cs rule: pack_loop.induct) (auto split: if_splits intro: le_SucI)

function Base64Encode :: "string \<Rightarrow> string" where
  "Base64Encode data =
     (if data = [] then []
      else case pack_loop 0 0 data of (packed, i, rest) \<Rightarrow> encode_group packed i @ Base64Encode rest)"
  by pat_completeness auto
termination
proof (relation "measure length")
  fix data packed i_rest i rest
  assume "data \<noteq> []" "(packed, i_rest) = pack_loop 0 0 data" "(i, rest) = i_rest"
  then show "(rest, data) \<in> measure length"
    by (cases data) (auto dest: pack_loop_length [OF sym] simp: less_Suc_eq_le)
qed simp

declare Base64Encode.simps [simp del]

text \<open>The value of a character, \<open>None\<close> for one outside of the alphabet.\<close>

definition base64_val :: "char \<Rightarrow> nat option" where
  "base64_val c =
     (let n = (of_char c :: nat) in
      if of_char CHR ''A'' \<le> n \<and> n \<le> of_char CHR ''Z'' then Some (n - of_char CHR ''A'')
      else if of_char CHR ''a'' \<le> n \<and> n \<le> of_char CHR ''z'' then Some (n - of_char CHR ''a'' + 26)
      else if of_char CHR ''0'' \<le> n \<and> n \<le> of_char CHR ''9'' then Some (n - of_char CHR ''0'' + 52)
      else if c = CHR ''+'' then Some 62
      else if c = CHR ''/'' then Some 63
      else None)"

text \<open>The inner loop of the decoder; \<open>None\<close> where the function returns the empty string.\<close>

fun unpack_loop :: "nat \<Rightarrow> nat \<Rightarrow> u32 \<Rightarrow> string \<Rightarrow> (nat \<times> nat \<times> u32 \<times> string) option" where
  "unpack_loop i padding packed [] = Some (i, padding, packed, [])"
| "unpack_loop i padding packed (c # cs) =
     (if i < 4 then
        if c = CHR ''='' then unpack_loop (i + 1) (padding + 1) (push_bit 6 packed) cs
        else if padding > 0 then None
        else case base64_val c of
          None \<Rightarrow> None
        | Some val \<Rightarrow> unpack_loop (i + 1) padding (push_bit 6 packed OR of_nat val) cs
      else Some (i, padding, packed, c # cs))"

definition decode_group :: "nat \<Rightarrow> u32 \<Rightarrow> string" where
  "decode_group padding packed =
     [byte_char (ucast (drop_bit 16 packed AND 0xff))] @
     (if padding \<noteq> 2 then [byte_char (ucast (drop_bit 8 packed AND 0xff))] else []) @
     (if padding = 0 then [byte_char (ucast (packed AND 0xff))] else [])"

lemma unpack_loop_length:
  "unpack_loop i padding packed cs = Some (j, p, w, rest) \<Longrightarrow> length rest + j = length cs + i"
  by (induction i padding packed cs rule: unpack_loop.induct) (auto split: if_splits option.splits)

function decode_loop :: "string \<Rightarrow> string option" where
  "decode_loop src =
     (if src = [] then Some []
      else case unpack_loop 0 0 0 src of
        None \<Rightarrow> None
      | Some (i, padding, packed, rest) \<Rightarrow>
          if i \<noteq> 4 then None
          else if padding > 0 \<and> rest \<noteq> [] then None
          else if padding > 2 then None
          else map_option (append (decode_group padding packed)) (decode_loop rest))"
  by pat_completeness auto
termination
proof (relation "measure length")
  fix src x i y padding z packed rest
  assume "src \<noteq> []" "unpack_loop 0 0 0 src = Some x" "(i, y) = x" "(padding, z) = y" "(packed, rest) = z" "\<not> i \<noteq> 4"
  then show "(rest, src) \<in> measure length" using unpack_loop_length [of 0 0 0 src i padding packed rest] by auto
qed simp

declare decode_loop.simps [simp del]

definition Base64Decode :: "string \<Rightarrow> string" where
  "Base64Decode src = (case decode_loop src of None \<Rightarrow> [] | Some result \<Rightarrow> result)"

section \<open>Groups\<close>

lemma base64_table: "map base64_val base64 = map Some [0..<64]"
  by (simp add: base64_def base64_val_def upt_rec)

lemma base64_val_base64: "k < 64 \<Longrightarrow> base64_val (base64 ! k) = Some k \<and> base64 ! k \<noteq> CHR ''=''"
proof -
  assume k: "k < 64"
  have len: "length base64 = 64" by (simp add: base64_def)
  have "map base64_val base64 ! k = map Some [0..<64] ! k" by (simp only: base64_table)
  moreover have "CHR ''='' \<notin> set base64" by (simp add: base64_def)
  ultimately show ?thesis using k len by (metis nth_map nth_mem nth_upt add_0 length_upt minus_nat.diff_0)
qed

lemma base64_val_word:
  fixes w :: u32
  assumes "unat w < 64"
  shows "base64_val (base64 ! unat w) = Some (unat w)" "base64 ! unat w \<noteq> CHR ''=''"
  using base64_val_base64 [OF assms] by simp_all

lemma and_0x3f: "(w AND 0x3f :: u32) = take_bit 6 w" and and_0xff: "(w AND 0xff :: u32) = take_bit 8 w"
proof -
  have m: "(0x3f :: u32) = mask 6" "(0xff :: u32) = mask 8" by (simp_all add: mask_eq_exp_minus_1)
  show "(w AND 0x3f :: u32) = take_bit 6 w" "(w AND 0xff :: u32) = take_bit 8 w" unfolding m by (simp_all only: take_bit_eq_mask)
qed

lemma sextet_less: "unat (w AND 0x3f :: u32) < 64"
proof -
  have "unat (take_bit 6 w) < 2 ^ 6" by (metis unsigned_take_bit_eq take_bit_nat_less_exp)
  then show ?thesis unfolding and_0x3f by simp
qed

lemma top_sextet_less: "take_bit 24 w = w \<Longrightarrow> unat (drop_bit 18 w :: u32) < 64"
proof -
  assume "take_bit 24 w = w"
  then have "unat w < 2 ^ 24" by (metis unsigned_take_bit_eq take_bit_nat_less_exp)
  then show ?thesis unfolding unat_drop_bit_eq by (simp add: drop_bit_eq_div less_mult_imp_div_less)
qed

lemma glue: "push_bit k (drop_bit (m + k) w) OR take_bit k (drop_bit m w) = drop_bit m (w :: 'a::len word)"
proof (rule bit_word_eqI)
  fix n assume "n < LENGTH('a)"
  then show "bit (push_bit k (drop_bit (m + k) w) OR take_bit k (drop_bit m w)) n = bit (drop_bit m w) n"
    by (cases "k \<le> n") (auto simp: bit_or_iff bit_push_bit_iff bit_drop_bit_eq bit_take_bit_iff ac_simps)
qed

lemma recombine:
  fixes w :: u32
  shows "push_bit 6 (push_bit 6 (push_bit 6 (drop_bit 18 w) OR (drop_bit 12 w AND 0x3f)) OR (drop_bit 6 w AND 0x3f)) OR (w AND 0x3f) = w"
  unfolding and_0x3f using glue [of 6 12 w] glue [of 6 6 w] glue [of 6 0 w] by simp

section \<open>Round trip\<close>

lemma induct_list012_3 [case_names 1 2 3 4]:
  assumes "P []" "\<And>a. P [a]" "\<And>a b. P [a, b]" "\<And>a b c xs. P xs \<Longrightarrow> P (a # b # c # xs)"
  shows "P xs"
proof (induction xs rule: length_induct)
  case (1 xs)
  consider "xs = []" | a where "xs = [a]" | a b where "xs = [a, b]" | a b c ys where "xs = a # b # c # ys"
    by (metis list.exhaust)
  then show ?case using 1 assms by cases auto
qed

lemma pack_loop_3 [simp]: "pack_loop 3 p cs = (p, 3, cs)" "pack_loop (Suc (Suc (Suc 0))) p cs = (p, 3, cs)"
  by (cases cs; simp)+

definition pack3 :: "byte \<Rightarrow> byte \<Rightarrow> byte \<Rightarrow> u32" where
  "pack3 a b c = push_bit 8 (push_bit 8 (ucast a) OR ucast b) OR ucast c"

lemma Base64Encode_Nil [simp]: "Base64Encode [] = []"
  by (simp add: Base64Encode.simps)

lemma Base64Encode_3: "Base64Encode (a # b # c # rest) =
    encode_group (pack3 (char_byte a) (char_byte b) (char_byte c)) 3 @ Base64Encode rest"
  by (simp add: Base64Encode.simps [of "a # b # c # rest"] pack3_def)

lemma Base64Encode_2: "Base64Encode [a, b] = encode_group (push_bit 8 (ucast (char_byte a)) OR ucast (char_byte b)) 2"
  by (simp add: Base64Encode.simps [of "[a, b]"] numeral_2_eq_2)

lemma Base64Encode_1: "Base64Encode [a] = encode_group (ucast (char_byte a)) (Suc 0)"
  by (simp add: Base64Encode.simps [of "[a]"])

lemma byte_bit: "bit (x :: byte) n \<Longrightarrow> n < 8"
  using bit_imp_le_length [of x n] by simp

lemma pack3_small: "take_bit 24 (pack3 a b c) = pack3 a b c"
  by (intro bit_word_eqI) (auto simp: pack3_def bit_simps dest: byte_bit)

lemma pack3_bytes:
  "ucast (drop_bit 16 (pack3 a b c) AND 0xff) = a" "ucast (drop_bit 8 (pack3 a b c) AND 0xff) = b"
  "ucast (pack3 a b c AND 0xff) = c"
  unfolding and_0xff pack3_def by (rule bit_word_eqI, auto simp: bit_simps dest: byte_bit)+

lemma encode_groups:
  "encode_group w 3 = map (\<lambda>k. base64 ! unat k) [drop_bit 18 w, drop_bit 12 w AND 0x3f, drop_bit 6 w AND 0x3f, w AND 0x3f]"
  "encode_group (push_bit 8 (ucast a) OR ucast b) 2 =
     map (\<lambda>k. base64 ! unat k) [drop_bit 18 (pack3 a b 0), drop_bit 12 (pack3 a b 0) AND 0x3f, drop_bit 6 (pack3 a b 0) AND 0x3f] @ ''=''"
  "encode_group (ucast a) (Suc 0) = map (\<lambda>k. base64 ! unat k) [drop_bit 18 (pack3 a 0 0), drop_bit 12 (pack3 a 0 0) AND 0x3f] @ ''==''"
  by (simp_all add: encode_group_def Let_def pack3_def numeral_2_eq_2)

lemma unpack_step:
  "i < 4 \<Longrightarrow> unat w < 64 \<Longrightarrow>
     unpack_loop i 0 packed (base64 ! unat w # cs) = unpack_loop (Suc i) 0 (push_bit 6 packed OR w) cs"
  using base64_val_word [of w] by simp

lemma unpack_4 [simp]: "unpack_loop 4 p w cs = Some (4, p, w, cs)"
    "unpack_loop (Suc (Suc (Suc (Suc 0)))) p w cs = Some (4, p, w, cs)"
  by (cases cs; simp)+

lemma unpack_pad: "i < 4 \<Longrightarrow> unpack_loop i p w (CHR ''='' # cs) = unpack_loop (Suc i) (Suc p) (push_bit 6 w) cs"
  by simp

lemma pack3_low: "take_bit 6 (pack3 a b 0) = 0" "take_bit 6 (drop_bit 6 (pack3 a 0 0)) = 0"
  by (rule bit_word_eqI, auto simp: pack3_def bit_simps dest: byte_bit)+

lemma decode_loop_step:
  assumes "unpack_loop 0 0 0 src = Some (4, p, w, rest)" "p > 0 \<Longrightarrow> rest = []" "p \<le> 2"
  shows "decode_loop src = map_option (append (decode_group p w)) (decode_loop rest)"
  using assms by (cases "src = []") (auto simp: decode_loop.simps [of src])

lemma decode_loop_Nil [simp]: "decode_loop [] = Some []"
  by (simp add: decode_loop.simps)

lemma decode_3:
  "decode_loop (encode_group (pack3 a b c) 3 @ rest) = map_option (append (map byte_char [a, b, c])) (decode_loop rest)"
proof -
  let ?w = "pack3 a b c"
  have "unpack_loop 0 0 0 (encode_group ?w 3 @ rest) = Some (4, 0, ?w, rest)"
    using top_sextet_less [OF pack3_small] recombine [of ?w]
    by (simp add: encode_groups unpack_step sextet_less del: unpack_loop.simps)
  from decode_loop_step [OF this] show ?thesis by (simp add: decode_group_def pack3_bytes)
qed

lemma decode_2:
  "decode_loop (encode_group (push_bit 8 (ucast a) OR ucast b) 2) = Some (map byte_char [a, b])"
proof -
  let ?w = "pack3 a b 0"
  have "push_bit 6 (push_bit 6 (push_bit 6 (drop_bit 18 ?w) OR (drop_bit 12 ?w AND 0x3f)) OR (drop_bit 6 ?w AND 0x3f)) = ?w"
    using recombine [of ?w] by (simp add: and_0x3f pack3_low)
  then have "unpack_loop 0 0 0 (encode_group (push_bit 8 (ucast a) OR ucast b) 2) = Some (4, 1, ?w, [])"
    using top_sextet_less [OF pack3_small [of a b 0]]
    by (simp add: encode_groups unpack_step sextet_less unpack_pad del: unpack_loop.simps(2))
  from decode_loop_step [OF this] show ?thesis by (simp add: decode_group_def pack3_bytes)
qed

lemma decode_1: "decode_loop (encode_group (ucast a) (Suc 0)) = Some [byte_char a]"
proof -
  let ?w = "pack3 a 0 0"
  have "push_bit 6 (push_bit 6 (push_bit 6 (drop_bit 18 ?w) OR (drop_bit 12 ?w AND 0x3f))) = ?w"
    using recombine [of ?w] by (simp add: and_0x3f pack3_low)
  then have "unpack_loop 0 0 0 (encode_group (ucast a) (Suc 0)) = Some (4, 2, ?w, [])"
    using top_sextet_less [OF pack3_small [of a 0 0]]
    by (simp add: encode_groups unpack_step sextet_less unpack_pad numeral_2_eq_2 del: unpack_loop.simps(2))
  from decode_loop_step [OF this] show ?thesis by (simp add: decode_group_def pack3_bytes)
qed

lemma decode_encode: "decode_loop (Base64Encode s) = Some s"
proof (induction s rule: induct_list012_3)
  case (4 a b c s)
  then show ?case by (simp add: Base64Encode_3 decode_3)
qed (simp_all add: Base64Encode_1 Base64Encode_2 decode_1 decode_2)

text \<open>The decoder never writes past the \<^verbatim>\<open>src.size() * 3 / 4\<close> bytes it reserved.\<close>

lemma decode_loop_length: "decode_loop src = Some r \<Longrightarrow> 4 * length r \<le> 3 * length src"
proof (induction src arbitrary: r rule: decode_loop.induct)
  case (1 src)
  show ?case
  proof (cases "src = []")
    case False
    with "1.prems" obtain p w rest r' where u: "unpack_loop 0 0 0 src = Some (4, p, w, rest)" "p > 0 \<longrightarrow> rest = []" "p \<le> 2"
        "decode_loop rest = Some r'" "r = decode_group p w @ r'"
      by (auto simp: decode_loop.simps [of src] split: option.splits if_splits prod.splits)
    moreover have "4 * length r' \<le> 3 * length rest" using "1.IH" [OF False u(1) refl refl refl] u by auto
    moreover have "length (decode_group p w) \<le> 3" by (simp add: decode_group_def)
    ultimately show ?thesis using unpack_loop_length [OF u(1)] by simp
  qed (use "1.prems" in simp)
qed

lemma Base64Encode_length: "length (Base64Encode s) = 4 * ((length s + 2) div 3)"
proof (induction s rule: induct_list012_3)
  case (4 a b c s)
  have "(length (a # b # c # s) + 2) div 3 = Suc ((length s + 2) div 3)" by simp
  with 4 show ?case by (simp only: Base64Encode_3 encode_groups length_append) simp
qed (simp_all add: Base64Encode_1 Base64Encode_2 encode_groups)

section \<open>Hexadecimal text\<close>

lemma nibbles: "unat (b :: byte) div 16 < 16" "unat b mod 16 < 16"
proof -
  have "unat b < 2 ^ LENGTH(8)" by (rule unsigned_less)
  then show "unat b div 16 < 16" "unat b mod 16 < 16" by simp_all
qed

lemma hex_digit_inject: "m < 16 \<Longrightarrow> n < 16 \<Longrightarrow> hex_digit m = hex_digit n \<longleftrightarrow> m = n"
  unfolding hex_digit_def by (intro nth_eq_iff_index_eq) simp_all

lemma hex_byte_inject: "hex_byte a = hex_byte b \<longleftrightarrow> a = b"
proof
  assume "hex_byte a = hex_byte b"
  then have "unat a div 16 = unat b div 16" "unat a mod 16 = unat b mod 16"
    using nibbles [of a] nibbles [of b] by (simp_all add: hex_byte_def hex_digit_inject)
  then have "unat a = unat b" by (metis div_mult_mod_eq)
  then show "a = b" by (rule unsigned_word_eqI)
qed simp

lemma length_hex: "length (concat (map hex_byte bs)) = 2 * length bs"
  by (induction bs) (simp_all add: hex_byte_def)

lemma hex_alphabet: "set (concat (map hex_byte bs)) \<subseteq> set ''0123456789abcdef''"
proof -
  have "hex_digit n \<in> set ''0123456789abcdef''" if "n < 16" for n
    unfolding hex_digit_def using that by (intro nth_mem) simp
  then have "set (hex_byte b) \<subseteq> set ''0123456789abcdef''" for b
    unfolding hex_byte_def using nibbles [of b] by (simp only: list.set insert_subset empty_subsetI simp_thms)
  then show ?thesis unfolding set_concat by (simp only: UN_subset_iff set_map ball_simps) blast
qed

lemma hex_inject: "concat (map hex_byte as) = concat (map hex_byte bs) \<longleftrightarrow> as = bs"
proof
  assume "concat (map hex_byte as) = concat (map hex_byte bs)"
  moreover have "length as = length bs" using length_hex calculation by (metis mult_left_cancel zero_neq_numeral)
  moreover have "\<forall>(x, y) \<in> set (zip (map hex_byte as) (map hex_byte bs)). length x = length y"
    by (auto simp: set_zip hex_byte_def)
  ultimately have "map hex_byte as = map hex_byte bs" using concat_eq_concat_iff by (metis length_map)
  then show "as = bs" using hex_byte_inject by (metis inj_map_eq_map injI)
qed simp

section \<open>Properties\<close>

text \<open>
  C15: decoding inverts encoding for every string, whatever bytes it holds and
  however its length falls modulo three.
\<close>

theorem base64_round_trip: "Base64Decode (Base64Encode s) = s"
  by (simp add: Base64Decode_def decode_encode)

text \<open>
  sizes of the Base64 buffers. An encoding has four characters per group of three
  bytes, started groups included, and a decoding fits into the \<^verbatim>\<open>src.size() * 3 / 4\<close> bytes
  that the decoder reserves before it writes through a raw pointer.
\<close>

theorem base64_sizes:
  "length (Base64Encode s) = 4 * ((length s + 2) div 3) \<and> length (Base64Decode src) \<le> length src * 3 div 4"
  using decode_loop_length [of src] by (auto simp: Base64Encode_length Base64Decode_def split: option.split)

text \<open>
  the digests of messages. When the algorithm yields exactly the digest length it is
  asked for, \<open>message_digest\<close> renders every byte as two lower case hexadecimal digits, so
  the text has twice that length and distinct digests have distinct texts.
\<close>

theorem message_digest_hex:
  assumes "\<And>m. length (evp m) = n"
  shows "length (message_digest evp n s) = 2 * n \<and>
     set (message_digest evp n s) \<subseteq> set ''0123456789abcdef'' \<and>
     (message_digest evp n s = message_digest evp n t \<longleftrightarrow> evp s = evp t)"
proof -
  have md: "message_digest evp n u = concat (map hex_byte (evp u))" for u
    using assms by (simp add: message_digest_def patch_def)
  show ?thesis unfolding md using length_hex [of "evp s"] hex_alphabet [of "evp s"] hex_inject [of "evp s" "evp t"] assms by auto
qed

theorem message_digest_hex_witness:
  "length (MD5 (\<lambda>_. replicate 16 0xAB) ''tiger'') = 32"
  using message_digest_hex [of "\<lambda>_. replicate 16 0xAB" 16 "''tiger''"] by (simp add: MD5_def)

text \<open>
  what \<open>SHA1\<close> returns. The 20 bytes of the digest are read as a C string: a digest that
  contains a zero byte is cut off there, and one that does not is followed by whatever the
  uninitialised array holds behind it.
\<close>

theorem sha1_is_cut_at_zero:
  assumes "length (sha1 s) = 20" "length stack = 1024"
  shows "SHA1 sha1 stack s =
     (if 0 \<in> set (sha1 s) then Some (map byte_char (takeWhile (\<lambda>b. b \<noteq> 0) (sha1 s)))
      else if 0 \<in> set (drop 20 stack) then Some (map byte_char (sha1 s @ takeWhile (\<lambda>b. b \<noteq> 0) (drop 20 stack)))
      else None)"
proof (cases "0 \<in> set (sha1 s)")
  case True
  then have "takeWhile (\<lambda>b. b \<noteq> 0) (sha1 s @ drop 20 stack) = takeWhile (\<lambda>b. b \<noteq> 0) (sha1 s)"
    by (intro takeWhile_append1) auto
  with True assms show ?thesis by (simp add: SHA1_def patch_def)
next
  case False
  then have "takeWhile (\<lambda>b. b \<noteq> 0) (sha1 s @ drop 20 stack) = sha1 s @ takeWhile (\<lambda>b. b \<noteq> 0) (drop 20 stack)"
    by (intro takeWhile_append2) auto
  with False assms show ?thesis by (simp add: SHA1_def patch_def)
qed

theorem sha1_is_cut_at_zero_witness:
  "SHA1 (\<lambda>_. 0x41 # 0 # replicate 18 0x42) (replicate 1024 7) '''' = Some ''A''"
proof -
  let ?sha1 = "\<lambda>_. 0x41 # 0 # replicate 18 0x42"
  have "map byte_char (takeWhile (\<lambda>b. b \<noteq> 0) (?sha1 [])) = ''A''" by code_simp
  then show ?thesis using sha1_is_cut_at_zero [of ?sha1 "[]" "replicate 1024 7"] by simp
qed

end
