(* ===== verification/Util.thy ===== *)
theory Util
  imports Prelude
begin

text \<open>
  The string utilities of \<^verbatim>\<open>src/util.cc\<close>: percent encoding and decoding with their
  tables, trimming, name validation and random strings. The encoders allocate their result
  only when the first character that changes is met; the model keeps that (\<^verbatim>\<open>ss\<close> is an
  option) and the lemmas show that it makes no difference.
\<close>

section \<open>Names and random strings\<close>

text \<open>\<open>find_first_not_of\<close> and \<open>find_last_not_of\<close> of \<^verbatim>\<open>std::string\<close>; \<open>None\<close> is \<^verbatim>\<open>npos\<close>.\<close>

fun find_first_not_of :: "string \<Rightarrow> string \<Rightarrow> nat option" where
  "find_first_not_of delimit [] = None"
| "find_first_not_of delimit (c # cs) =
     (if c \<in> set delimit then map_option Suc (find_first_not_of delimit cs) else Some 0)"

definition find_last_not_of :: "string \<Rightarrow> string \<Rightarrow> nat option" where
  "find_last_not_of delimit str =
     map_option (\<lambda>i. length str - 1 - i) (find_first_not_of delimit (rev str))"

definition substr :: "string \<Rightarrow> nat \<Rightarrow> nat \<Rightarrow> string" where
  "substr str p n = take n (drop p str)"

definition IsValidName :: "string \<Rightarrow> bool" where
  "IsValidName name \<longleftrightarrow>
     find_first_not_of ''abcdefghijklmnopqrstuvwxyzABCDEFGHIJKLMNOPQRSTUVWXYZ_0123456789.'' name = None"

text \<open>\<open>rands i\<close> is what the \<open>i\<close>-th call of \<^verbatim>\<open>rand()\<close> returns.\<close>

definition Random :: "(nat \<Rightarrow> nat) \<Rightarrow> nat \<Rightarrow> string \<Rightarrow> string" where
  "Random rands len chars =
     (if len = 0 \<or> chars = [] then [] else map (\<lambda>i. chars ! (rands i mod length chars)) [0..<len])"

section \<open>Percent encoding\<close>

definition uri_chars :: "nat list" where
  "uri_chars =
     [0, 0, 0, 0, 0, 0, 0, 0, 0, 0, 0, 0, 0, 0, 0, 0, 0, 0, 0, 0, 0, 0, 0, 0, 0, 0, 0, 0, 0, 0, 0, 0,
      0, 0, 0, 0, 0, 0, 0, 0, 0, 0, 0, 0, 0, 1, 1, 0, 1, 1, 1, 1, 1, 1, 1, 1, 1, 1, 0, 0, 0, 1, 0, 0,
      0, 1, 1, 1, 1, 1, 1, 1, 1, 1, 1, 1, 1, 1, 1, 1, 1, 1, 1, 1, 1, 1, 1, 1, 1, 1, 1, 0, 0, 0, 0, 1,
      0, 1, 1, 1, 1, 1, 1, 1, 1, 1, 1, 1, 1, 1, 1, 1, 1, 1, 1, 1, 1, 1, 1, 1, 1, 1, 1, 0, 0, 0, 1, 0,
      0, 0, 0, 0, 0, 0, 0, 0, 0, 0, 0, 0, 0, 0, 0, 0, 0, 0, 0, 0, 0, 0, 0, 0, 0, 0, 0, 0, 0, 0, 0, 0,
      0, 0, 0, 0, 0, 0, 0, 0, 0, 0, 0, 0, 0, 0, 0, 0, 0, 0, 0, 0, 0, 0, 0, 0, 0, 0, 0, 0, 0, 0, 0, 0,
      0, 0, 0, 0, 0, 0, 0, 0, 0, 0, 0, 0, 0, 0, 0, 0, 0, 0, 0, 0, 0, 0, 0, 0, 0, 0, 0, 0, 0, 0, 0, 0,
      0, 0, 0, 0, 0, 0, 0, 0, 0, 0, 0, 0, 0, 0, 0, 0, 0, 0, 0, 0, 0, 0, 0, 0, 0, 0, 0, 0, 0, 0, 0, 0]"

definition xdigit_chars :: "nat list" where
  "xdigit_chars =
     [0, 0, 0, 0, 0, 0, 0, 0, 0, 0, 0, 0, 0, 0, 0, 0, 0, 0, 0, 0, 0, 0, 0, 0, 0, 0, 0, 0, 0, 0, 0, 0,
      0, 0, 0, 0, 0, 0, 0, 0, 0, 0, 0, 0, 0, 0, 0, 0, 0, 1, 2, 3, 4, 5, 6, 7, 8, 9, 0, 0, 0, 0, 0, 0,
      0, 10, 11, 12, 13, 14, 15, 0, 0, 0, 0, 0, 0, 0, 0, 0, 0, 0, 0, 0, 0, 0, 0, 0, 0, 0, 0, 0, 0, 0, 0, 0,
      0, 10, 11, 12, 13, 14, 15, 0, 0, 0, 0, 0, 0, 0, 0, 0, 0, 0, 0, 0, 0, 0, 0, 0, 0, 0, 0, 0, 0, 0, 0, 0,
      0, 0, 0, 0, 0, 0, 0, 0, 0, 0, 0, 0, 0, 0, 0, 0, 0, 0, 0, 0, 0, 0, 0, 0, 0, 0, 0, 0, 0, 0, 0, 0,
      0, 0, 0, 0, 0, 0, 0, 0, 0, 0, 0, 0, 0, 0, 0, 0, 0, 0, 0, 0, 0, 0, 0, 0, 0, 0, 0, 0, 0, 0, 0, 0,
      0, 0, 0, 0, 0, 0, 0, 0, 0, 0, 0, 0, 0, 0, 0, 0, 0, 0, 0, 0, 0, 0, 0, 0, 0, 0, 0, 0, 0, 0, 0, 0,
      0, 0, 0, 0, 0, 0, 0, 0, 0, 0, 0, 0, 0, 0, 0, 0, 0, 0, 0, 0, 0, 0, 0, 0, 0, 0, 0, 0, 0, 0, 0, 0]"

definition CHAR_IS_UNRESERVED :: "char \<Rightarrow> bool" where
  "CHAR_IS_UNRESERVED c \<longleftrightarrow> uri_chars ! of_char c \<noteq> 0"

definition hexdigits :: string where
  "hexdigits = ''0123456789ABCDEF''"

definition percent :: "char \<Rightarrow> string" where
  "percent c = [CHR ''%'', hexdigits ! (of_char c div 16), hexdigits ! (of_char c mod 16)]"

fun UrlEncode_loop :: "bool \<Rightarrow> string \<Rightarrow> string option \<Rightarrow> string \<Rightarrow> string option" where
  "UrlEncode_loop space_as_plus seen ss [] = ss"
| "UrlEncode_loop space_as_plus seen ss (c # cs) =
     UrlEncode_loop space_as_plus (seen @ [c])
       (if \<not> CHAR_IS_UNRESERVED c then
          let s = (case ss of None \<Rightarrow> seen | Some s \<Rightarrow> s)
          in Some (s @ (if c = CHR '' '' \<and> space_as_plus then ''+'' else percent c))
        else map_option (\<lambda>s. s @ [c]) ss) cs"

definition UrlEncode :: "bool \<Rightarrow> string \<Rightarrow> string" where
  "UrlEncode space_as_plus str =
     (case UrlEncode_loop space_as_plus [] None str of None \<Rightarrow> str | Some rt \<Rightarrow> rt)"

definition isdigit :: "char \<Rightarrow> bool" where
  "isdigit c \<longleftrightarrow> of_char CHR ''0'' \<le> (of_char c :: nat) \<and> (of_char c :: nat) \<le> of_char CHR ''9''"

definition isxdigit :: "char \<Rightarrow> bool" where
  "isxdigit c \<longleftrightarrow> isdigit c \<or>
     of_char CHR ''A'' \<le> (of_char c :: nat) \<and> (of_char c :: nat) \<le> of_char CHR ''F'' \<or>
     of_char CHR ''a'' \<le> (of_char c :: nat) \<and> (of_char c :: nat) \<le> of_char CHR ''f''"

text \<open>The condition of the second branch, with \<^verbatim>\<open>(c + 2) < end\<close> first.\<close>

fun escape_at :: "string \<Rightarrow> bool" where
  "escape_at (a # b # cs) \<longleftrightarrow> isxdigit a \<and> isdigit b"
| "escape_at _ \<longleftrightarrow> False"

definition unescape :: "string \<Rightarrow> char" where
  "unescape cs =
     char_of (push_bit 4 (xdigit_chars ! of_char (cs ! 0)) OR xdigit_chars ! of_char (cs ! 1))"

fun UrlDecode_loop :: "bool \<Rightarrow> string \<Rightarrow> string option \<Rightarrow> string \<Rightarrow> string option" where
  "UrlDecode_loop space_as_plus seen ss [] = ss"
| "UrlDecode_loop space_as_plus seen ss (c # cs) =
     (let s = (case ss of None \<Rightarrow> seen | Some s \<Rightarrow> s) in
      if c = CHR ''+'' \<and> space_as_plus then
        UrlDecode_loop space_as_plus (seen @ [c]) (Some (s @ '' '')) cs
      else if c = CHR ''%'' \<and> escape_at cs then
        UrlDecode_loop space_as_plus (seen @ [c] @ take 2 cs) (Some (s @ [unescape cs])) (drop 2 cs)
      else UrlDecode_loop space_as_plus (seen @ [c]) (map_option (\<lambda>s. s @ [c]) ss) cs)"

definition UrlDecode :: "bool \<Rightarrow> string \<Rightarrow> string" where
  "UrlDecode space_as_plus str =
     (case UrlDecode_loop space_as_plus [] None str of None \<Rightarrow> str | Some rt \<Rightarrow> rt)"

section \<open>Trimming\<close>

definition Trim :: "string \<Rightarrow> string \<Rightarrow> string" where
  "Trim str delimit =
     (case find_first_not_of delimit str of
        None \<Rightarrow> []
      | Some b \<Rightarrow>
          (case find_last_not_of delimit str of
             None \<Rightarrow> substr str b (length str)
           | Some e \<Rightarrow> substr str b (e - b + 1)))"

definition TrimLeft :: "string \<Rightarrow> string \<Rightarrow> string" where
  "TrimLeft str delimit =
     (case find_first_not_of delimit str of None \<Rightarrow> [] | Some b \<Rightarrow> drop b str)"

definition TrimRight :: "string \<Rightarrow> string \<Rightarrow> string" where
  "TrimRight str delimit =
     (case find_last_not_of delimit str of None \<Rightarrow> [] | Some e \<Rightarrow> substr str 0 e)"

section \<open>The encoder as a map over the characters\<close>

definition encode_char :: "bool \<Rightarrow> char \<Rightarrow> string" where
  "encode_char space_as_plus c =
     (if CHAR_IS_UNRESERVED c then [c]
      else if c = CHR '' '' \<and> space_as_plus then ''+'' else percent c)"

lemma UrlEncode_loop_Some:
  "UrlEncode_loop p seen (Some s) cs = Some (s @ concat (map (encode_char p) cs))"
  by (induction p seen "Some s" cs arbitrary: s rule: UrlEncode_loop.induct) (auto simp: encode_char_def)

lemma UrlEncode_loop_None:
  "(case UrlEncode_loop p seen None cs of None \<Rightarrow> seen @ cs | Some rt \<Rightarrow> rt) = seen @ concat (map (encode_char p) cs)"
proof (induction cs arbitrary: seen)
  case (Cons c cs)
  show ?case using Cons.IH [of "seen @ [c]"]
    by (cases "CHAR_IS_UNRESERVED c") (simp_all add: UrlEncode_loop_Some Let_def encode_char_def [of p c] split: option.splits)
qed simp

lemma UrlEncode_eq: "UrlEncode p str = concat (map (encode_char p) str)"
  using UrlEncode_loop_None [of "[]" str p] by (simp add: UrlEncode_def split: option.splits)

section \<open>The decoder as a recursion\<close>

fun decode_spec :: "bool \<Rightarrow> string \<Rightarrow> string" where
  "decode_spec p [] = []"
| "decode_spec p (c # cs) =
     (if c = CHR ''+'' \<and> p then CHR '' '' # decode_spec p cs
      else if c = CHR ''%'' \<and> escape_at cs then unescape cs # decode_spec p (drop 2 cs)
      else c # decode_spec p cs)"

lemma UrlDecode_loop_Some: "UrlDecode_loop p seen (Some s) cs = Some (s @ decode_spec p cs)"
  by (induction p seen "Some s" cs arbitrary: s rule: UrlDecode_loop.induct) (auto simp: Let_def)

lemma UrlDecode_loop_None:
  "(case UrlDecode_loop p seen None cs of None \<Rightarrow> seen @ cs | Some rt \<Rightarrow> rt) = seen @ decode_spec p cs"
proof (induction cs arbitrary: seen)
  case (Cons c cs)
  show ?case using Cons.IH [of "seen @ [c]"] by (simp add: UrlDecode_loop_Some Let_def split: option.splits)
qed simp

lemma UrlDecode_eq: "UrlDecode p str = decode_spec p str"
  using UrlDecode_loop_None [of "[]" str p] by (simp add: UrlDecode_def split: option.splits)

section \<open>Decoding what was encoded\<close>

lemma hexdigit_table:
  "map (\<lambda>k. xdigit_chars ! of_char (hexdigits ! k)) [0..<16] = [0..<16]"
  "list_all (\<lambda>k. isxdigit (hexdigits ! k) \<and> (isdigit (hexdigits ! k) \<longleftrightarrow> k < 10) \<and>
     hexdigits ! k \<noteq> CHR ''%'' \<and> hexdigits ! k \<noteq> CHR ''+'') [0..<16]"
  by code_simp+

lemma hexdigit_facts:
  assumes "k < 16"
  shows "xdigit_chars ! of_char (hexdigits ! k) = k" "isxdigit (hexdigits ! k)" "isdigit (hexdigits ! k) \<longleftrightarrow> k < 10"
    "hexdigits ! k \<noteq> CHR ''%''" "hexdigits ! k \<noteq> CHR ''+''"
proof -
  have "map (\<lambda>k. xdigit_chars ! of_char (hexdigits ! k)) [0..<16] ! k = [0..<16] ! k" by (simp only: hexdigit_table(1))
  then show "xdigit_chars ! of_char (hexdigits ! k) = k" using assms by simp
  show "isxdigit (hexdigits ! k)" "isdigit (hexdigits ! k) \<longleftrightarrow> k < 10"
      "hexdigits ! k \<noteq> CHR ''%''" "hexdigits ! k \<noteq> CHR ''+''"
    using hexdigit_table(2) assms by (auto simp: list_all_iff)
qed

lemma nibbles_join: "l < 16 \<Longrightarrow> push_bit 4 h OR l = h * 16 + (l :: nat)"
proof -
  assume "l < 16"
  then have l: "take_bit 4 l = l" by (simp add: take_bit_nat_eq_self)
  have "push_bit 4 h AND take_bit 4 l = 0" by (auto simp: bit_eq_iff bit_simps)
  from disjunctive_add_eq_or [OF this] show ?thesis by (simp add: l push_bit_eq_mult)
qed

lemma reserved: "\<not> CHAR_IS_UNRESERVED CHR ''%''" "\<not> CHAR_IS_UNRESERVED CHR ''+''" "\<not> CHAR_IS_UNRESERVED CHR '' ''"
  by (simp_all add: CHAR_IS_UNRESERVED_def uri_chars_def)

text \<open>Whether a character survives: it is not escaped, or the second digit of its escape is decimal.\<close>

definition survives :: "bool \<Rightarrow> char \<Rightarrow> bool" where
  "survives p c \<longleftrightarrow> CHAR_IS_UNRESERVED c \<or> c = CHR '' '' \<and> p \<or> (of_char c :: nat) mod 16 < 10"

lemma decode_percent:
  "decode_spec p (percent c @ cs) =
     (if (of_char c :: nat) mod 16 < 10 then c # decode_spec p cs else percent c @ decode_spec p cs)"
proof -
  have h: "(of_char c :: nat) div 16 < 16" "(of_char c :: nat) mod 16 < 16" by (simp_all add: less_mult_imp_div_less)
  then show ?thesis
    using hexdigit_facts [OF h(1)] hexdigit_facts [OF h(2)]
    by (simp add: percent_def unescape_def nibbles_join numeral_2_eq_2)
qed

lemma decode_encode_char:
  "decode_spec p (encode_char p c @ cs) = (if survives p c then [c] else percent c) @ decode_spec p cs"
  using reserved by (cases "CHAR_IS_UNRESERVED c") (auto simp: encode_char_def survives_def decode_percent)

lemma url_decode_encode:
  "decode_spec p (concat (map (encode_char p) str)) = concat (map (\<lambda>c. if survives p c then [c] else percent c) str)"
  by (induction str) (simp_all add: decode_encode_char)

section \<open>Trimming as dropping at the ends\<close>

lemma find_first_not_of_spec:
  "find_first_not_of d s =
     (if dropWhile (\<lambda>c. c \<in> set d) s = [] then None else Some (length s - length (dropWhile (\<lambda>c. c \<in> set d) s)))"
proof (induction s)
  case (Cons c s)
  then show ?case using length_dropWhile_le [of "\<lambda>c. c \<in> set d" s] by (auto simp: Suc_diff_le)
qed simp

lemma drop_first: "drop (length s - length (dropWhile P s)) s = dropWhile P s"
  by (metis append_eq_conv_conj length_append add_diff_cancel_right' takeWhile_dropWhile_id)

definition rtrim :: "string \<Rightarrow> string \<Rightarrow> string" where
  "rtrim d s = rev (dropWhile (\<lambda>c. c \<in> set d) (rev s))"

lemma find_last_not_of_spec:
  "find_last_not_of d s = (if rtrim d s = [] then None else Some (length (rtrim d s) - 1))"
proof -
  have "length (dropWhile (\<lambda>c. c \<in> set d) (rev s)) \<le> length s" using length_dropWhile_le by (metis length_rev)
  then show ?thesis by (simp add: find_last_not_of_def find_first_not_of_spec rtrim_def)
qed

lemma rtrim_prefix: "take (length (rtrim d s)) s = rtrim d s"
proof -
  have "s = rtrim d s @ rev (takeWhile (\<lambda>c. c \<in> set d) (rev s))"
    unfolding rtrim_def by (metis rev_append rev_rev_ident takeWhile_dropWhile_id)
  then show ?thesis by (metis append_eq_conv_conj)
qed

lemma TrimLeft_eq: "TrimLeft s d = dropWhile (\<lambda>c. c \<in> set d) s"
  by (cases "dropWhile (\<lambda>c. c \<in> set d) s = []") (simp_all only: TrimLeft_def find_first_not_of_spec drop_first if_True if_False option.case simp_thms)

lemma TrimRight_eq: "TrimRight s d = butlast (rtrim d s)"
proof (cases "rtrim d s = []")
  case False
  let ?n = "length (rtrim d s)"
  have "take (?n - 1) s = take (?n - 1) (take ?n s)" by simp
  also have "\<dots> = butlast (rtrim d s)" by (simp only: rtrim_prefix butlast_conv_take)
  finally show ?thesis using False by (simp add: TrimRight_def find_last_not_of_spec substr_def)
qed (simp add: TrimRight_def find_last_not_of_spec)

lemma rtrim_append: "rtrim d ys \<noteq> [] \<Longrightarrow> rtrim d (xs @ ys) = xs @ rtrim d ys"
  by (auto simp: rtrim_def dropWhile_append)

lemma Trim_eq: "Trim s d = rtrim d (TrimLeft s d)"
proof (cases "TrimLeft s d = []")
  case True
  then have "find_first_not_of d s = None" by (simp only: TrimLeft_eq find_first_not_of_spec if_True simp_thms)
  with True show ?thesis by (simp add: Trim_def rtrim_def)
next
  case False
  define t where "t = TrimLeft s d"
  let ?P = "\<lambda>c. c \<in> set d"
  have s: "s = takeWhile ?P s @ t" and b: "length s - length t = length (takeWhile ?P s)"
    unfolding t_def TrimLeft_eq by simp (metis add_diff_cancel_right' length_append takeWhile_dropWhile_id)
  have "hd t \<notin> set d" "t \<noteq> []" using False hd_dropWhile [of ?P s] by (auto simp: t_def TrimLeft_eq)
  then have "rtrim d t \<noteq> []" by (auto simp: rtrim_def intro!: bexI [of _ "hd t"])
  then have len: "length (rtrim d s) = length (takeWhile ?P s) + length (rtrim d t)" "rtrim d s \<noteq> []" "0 < length (rtrim d t)"
    using rtrim_append [of d t "takeWhile ?P s"] s by auto
  have "find_first_not_of d s = Some (length (takeWhile ?P s))" "find_last_not_of d s = Some (length (rtrim d s) - 1)"
    using False b len(2) by (simp_all add: find_first_not_of_spec find_last_not_of_spec t_def TrimLeft_eq)
  then have "Trim s d = take (length (rtrim d s) - 1 - length (takeWhile ?P s) + 1) (drop (length (takeWhile ?P s)) s)"
    by (simp add: Trim_def substr_def)
  also have "\<dots> = take (length (rtrim d t)) t"
  proof -
    have "drop (length (takeWhile ?P s)) s = t" using s by (metis append_eq_conv_conj)
    moreover have "length (rtrim d s) - 1 - length (takeWhile ?P s) + 1 = length (rtrim d t)" using len(1,3) by linarith
    ultimately show ?thesis by simp
  qed
  finally show ?thesis by (simp add: rtrim_prefix t_def)
qed

section \<open>Properties\<close>

text \<open>
  percent encoding works character by character: the lazily allocated result is the
  concatenation of the encodings of the characters, and only characters that the table
  \<open>uri_chars\<close> marks, the percent sign, the plus sign and hexadecimal digits occur in it.
\<close>

theorem url_encode_charwise:
  "UrlEncode p str = concat (map (encode_char p) str) \<and>
   list_all (\<lambda>c. CHAR_IS_UNRESERVED c \<or> c \<in> set ''%+0123456789ABCDEF'') (UrlEncode p str)"
proof -
  have h: "hexdigits ! k \<in> set ''%+0123456789ABCDEF''" if "k < 16" for k
  proof -
    have "hexdigits ! k \<in> set hexdigits" using that by (intro nth_mem) (simp add: hexdigits_def)
    then show ?thesis by (simp add: hexdigits_def)
  qed
  have "x \<in> set ''%+0123456789ABCDEF''" if "x \<in> set (percent c)" for x c
    using that h [of "of_char c div 16"] h [of "of_char c mod 16"] unfolding percent_def
    by (simp only: list.set insert_iff empty_iff) (auto simp: less_mult_imp_div_less)
  then have "\<forall>x \<in> set (encode_char p c). CHAR_IS_UNRESERVED x \<or> x \<in> set ''%+0123456789ABCDEF''" for c
    unfolding encode_char_def by (auto split: if_splits)
  then show ?thesis by (simp only: list_all_iff UrlEncode_eq set_concat set_map) blast
qed

text \<open>
  C16: what decoding makes of an encoded string, exactly. A character survives when it is
  not escaped, or when the second hexadecimal digit of its escape is a decimal digit; all
  others (such as the slash, whose escape ends in F) stay escaped, because the decoder tests
  the second digit with \<^verbatim>\<open>isdigit\<close>.
\<close>

theorem url_round_trip:
  "UrlDecode p (UrlEncode p str) = concat (map (\<lambda>c. if survives p c then [c] else percent c) str) \<and>
   (list_all (survives p) str \<longrightarrow> UrlDecode p (UrlEncode p str) = str)"
proof -
  have "list_all (survives p) str \<Longrightarrow> concat (map (\<lambda>c. if survives p c then [c] else percent c) str) = str"
    by (induction str) auto
  then show ?thesis by (simp add: UrlDecode_eq UrlEncode_eq url_decode_encode)
qed

theorem url_round_trip_witness:
  "UrlDecode True (UrlEncode True ''a b/c'') = ''a b%2Fc'' \<and> UrlDecode True (UrlEncode True ''a &b'') = ''a &b''"
proof -
  have "list_all (survives True) ''a &b''"
      "concat (map (\<lambda>c. if survives True c then [c] else percent c) ''a b/c'') = ''a b%2Fc''" by code_simp+
  then show ?thesis using url_round_trip [of True "''a b/c''"] url_round_trip [of True "''a &b''"] by simp
qed

text \<open>
  \<open>Trim\<close> and \<open>TrimLeft\<close> drop the delimiters at the ends and nothing else; \<open>TrimRight\<close>
  drops one character more than the delimiters at the right end, because it passes the
  index of the last character to keep as the length.
\<close>

theorem trim_functions:
  "Trim s d = rev (dropWhile (\<lambda>c. c \<in> set d) (rev (dropWhile (\<lambda>c. c \<in> set d) s))) \<and>
   TrimLeft s d = dropWhile (\<lambda>c. c \<in> set d) s \<and>
   TrimRight s d = butlast (rev (dropWhile (\<lambda>c. c \<in> set d) (rev s)))"
  by (simp add: Trim_eq TrimLeft_eq TrimRight_eq rtrim_def)

end
