(* ===== verification/StdSet.thy ===== *)
theory StdSet
  imports Prelude
begin

text \<open>
  The ordered containers of the C++ library as the sources use them: \<^verbatim>\<open>std::set\<close> and
  \<^verbatim>\<open>std::map\<close> with a comparator. A container is the list of its elements in iteration
  order. Searching compares with the comparator only, as the red-black tree does, so that
  two elements are the same when neither is less than the other.

  The locale \<open>comparator\<close> states what the library requires of a comparator (a strict weak
  order) and derives what the operations then promise; \<open>total_comparator\<close> extends it with
  totality, under which equivalent elements are equal.
\<close>

section \<open>Operations\<close>

fun set_find :: "('a \<Rightarrow> 'a \<Rightarrow> bool) \<Rightarrow> 'a \<Rightarrow> 'a list \<Rightarrow> 'a option" where
  "set_find lt x [] = None"
| "set_find lt x (y # ys) =
     (if lt y x then set_find lt x ys else if lt x y then None else Some y)"

fun set_insert :: "('a \<Rightarrow> 'a \<Rightarrow> bool) \<Rightarrow> 'a \<Rightarrow> 'a list \<Rightarrow> 'a list" where
  "set_insert lt x [] = [x]"
| "set_insert lt x (y # ys) =
     (if lt y x then y # set_insert lt x ys else if lt x y then x # y # ys else y # ys)"

fun set_erase :: "('a \<Rightarrow> 'a \<Rightarrow> bool) \<Rightarrow> 'a \<Rightarrow> 'a list \<Rightarrow> 'a list" where
  "set_erase lt x [] = []"
| "set_erase lt x (y # ys) =
     (if lt y x then y # set_erase lt x ys else if lt x y then y # ys else ys)"

text \<open>A \<^verbatim>\<open>std::map\<close> is a set of pairs compared by their keys; \<open>map_put\<close> is \<^verbatim>\<open>m[k] = v\<close>.\<close>

definition key_less :: "('k \<Rightarrow> 'k \<Rightarrow> bool) \<Rightarrow> 'k \<times> 'v \<Rightarrow> 'k \<times> 'v \<Rightarrow> bool" where
  "key_less lt p q = lt (fst p) (fst q)"

fun map_find :: "('k \<Rightarrow> 'k \<Rightarrow> bool) \<Rightarrow> 'k \<Rightarrow> ('k \<times> 'v) list \<Rightarrow> 'v option" where
  "map_find lt k [] = None"
| "map_find lt k ((k', v) # m) =
     (if lt k' k then map_find lt k m else if lt k k' then None else Some v)"

fun map_put :: "('k \<Rightarrow> 'k \<Rightarrow> bool) \<Rightarrow> 'k \<Rightarrow> 'v \<Rightarrow> ('k \<times> 'v) list \<Rightarrow> ('k \<times> 'v) list" where
  "map_put lt k v [] = [(k, v)]"
| "map_put lt k v ((k', v') # m) =
     (if lt k' k then (k', v') # map_put lt k v m
      else if lt k k' then (k, v) # (k', v') # m else (k', v) # m)"

fun map_erase :: "('k \<Rightarrow> 'k \<Rightarrow> bool) \<Rightarrow> 'k \<Rightarrow> ('k \<times> 'v) list \<Rightarrow> ('k \<times> 'v) list" where
  "map_erase lt k [] = []"
| "map_erase lt k ((k', v') # m) =
     (if lt k' k then (k', v') # map_erase lt k m
      else if lt k k' then (k', v') # m else m)"

text \<open>\<^verbatim>\<open>m.insert(std::make_pair(k, v))\<close> leaves an entry with an equivalent key as it is.\<close>

definition map_insert :: "('k \<Rightarrow> 'k \<Rightarrow> bool) \<Rightarrow> 'k \<Rightarrow> 'v \<Rightarrow> ('k \<times> 'v) list \<Rightarrow> ('k \<times> 'v) list" where
  "map_insert lt k v m = (if map_find lt k m = None then map_put lt k v m else m)"

section \<open>Strict weak orders\<close>

locale comparator =
  fixes lt :: "'a \<Rightarrow> 'a \<Rightarrow> bool"
  assumes irrefl: "\<not> lt x x"
    and trans: "lt x y \<Longrightarrow> lt y z \<Longrightarrow> lt x z"
    and separates: "lt x y \<Longrightarrow> lt x z \<or> lt z y"
begin

definition equiv :: "'a \<Rightarrow> 'a \<Rightarrow> bool" where
  "equiv x y \<longleftrightarrow> \<not> lt x y \<and> \<not> lt y x"

lemma equiv_refl: "equiv x x"
  by (simp add: equiv_def irrefl)

lemma equiv_sym: "equiv x y \<Longrightarrow> equiv y x"
  by (simp add: equiv_def)

lemma equiv_trans: "equiv x y \<Longrightarrow> equiv y z \<Longrightarrow> equiv x z"
  using separates by (meson equiv_def)

lemma equiv_less: "equiv x y \<Longrightarrow> lt x z \<longleftrightarrow> lt y z" "equiv x y \<Longrightarrow> lt z x \<longleftrightarrow> lt z y"
  using separates trans by (meson equiv_def)+

lemma asym: "lt x y \<Longrightarrow> \<not> lt y x"
  using irrefl trans by blast

lemma set_find_iff:
  "sorted_wrt lt xs \<Longrightarrow> set_find lt x xs = Some y \<longleftrightarrow> y \<in> set xs \<and> equiv x y"
proof (induction xs)
  case (Cons z zs)
  consider "lt z x" | "lt x z" | "equiv x z" by (auto simp: equiv_def)
  then show ?case
  proof cases
    case 1
    then show ?thesis using Cons equiv_def by auto
  next
    case 2
    then have "\<forall>w \<in> set zs. lt x w" using Cons.prems trans by auto
    with 2 show ?thesis using asym by (auto simp: equiv_def)
  next
    case 3
    then have "\<forall>w \<in> set zs. lt x w" using Cons.prems equiv_less by auto
    with 3 show ?thesis by (auto simp: equiv_def)
  qed
qed simp

lemma set_find_None: "sorted_wrt lt xs \<Longrightarrow> set_find lt x xs = None \<longleftrightarrow> (\<forall>y \<in> set xs. \<not> equiv x y)"
  using set_find_iff [of xs x] by (metis not_None_eq option.distinct(1))

lemma set_insert_set:
  "set (set_insert lt x xs) = (if set_find lt x xs = None then insert x (set xs) else set xs)"
  by (induction xs) auto

lemma sorted_set_insert: "sorted_wrt lt xs \<Longrightarrow> sorted_wrt lt (set_insert lt x xs)"
proof (induction xs)
  case (Cons y ys)
  show ?case
  proof (cases "lt y x")
    case True
    then show ?thesis using Cons by (auto simp: set_insert_set)
  next
    case False
    then show ?thesis using Cons.prems trans by auto
  qed
qed simp

lemma set_erase_set: "sorted_wrt lt xs \<Longrightarrow> set (set_erase lt x xs) = {y \<in> set xs. \<not> equiv x y}"
proof (induction xs)
  case (Cons z zs)
  consider "lt z x" | "lt x z" | "equiv x z" by (auto simp: equiv_def)
  then show ?case
  proof cases
    case 1
    then show ?thesis using Cons by (auto simp: equiv_def)
  next
    case 2
    then have "\<forall>w \<in> set zs. lt x w" using Cons.prems trans by auto
    with 2 show ?thesis using asym by (auto simp: equiv_def)
  next
    case 3
    then have "\<forall>w \<in> set zs. lt x w" using Cons.prems equiv_less by auto
    with 3 show ?thesis by (auto simp: equiv_def)
  qed
qed simp

lemma sorted_set_erase: "sorted_wrt lt xs \<Longrightarrow> sorted_wrt lt (set_erase lt x xs)"
proof (induction xs)
  case (Cons y ys)
  then show ?case using set_erase_set [of ys x] by auto
qed simp

lemma map_find_put:
  "sorted_wrt (key_less lt) m \<Longrightarrow> map_find lt k (map_put lt l v m) = (if equiv l k then Some v else map_find lt k m)"
proof (induction m)
  case Nil
  then show ?case by (auto simp: equiv_def)
next
  case (Cons p m)
  obtain a b where p: "p = (a, b)" by force
  have s: "sorted_wrt (key_less lt) m" using Cons.prems by simp
  consider "lt a l" | "lt l a" | "equiv l a" by (auto simp: equiv_def)
  then show ?case
  proof cases
    case 1
    then have "equiv l k \<Longrightarrow> lt a k" using equiv_less(2) by blast
    with 1 show ?thesis by (cases "lt a k") (auto simp: p Cons.IH [OF s])
  next
    case 2
    then have "lt k l \<Longrightarrow> lt k a \<and> \<not> lt a k" using trans asym by blast
    with 2 asym [of l a] asym [of l k] show ?thesis by (auto simp: p equiv_def)
  next
    case 3
    then show ?thesis using equiv_less [OF 3, of k] by (auto simp: p equiv_def)
  qed
qed

lemma map_put_keys: "set (map fst (map_put lt k v m)) \<subseteq> insert k (set (map fst m))"
  by (induction lt k v m rule: map_put.induct) auto

lemma sorted_map_put: "sorted_wrt (key_less lt) m \<Longrightarrow> sorted_wrt (key_less lt) (map_put lt k v m)"
proof (induction m)
  case (Cons p m)
  obtain a b where p: "p = (a, b)" by force
  have above: "\<forall>q \<in> set m. lt a (fst q)" and s: "sorted_wrt (key_less lt) m"
    using Cons.prems by (auto simp: p key_less_def [abs_def])
  show ?case
  proof (cases "lt a k")
    case True
    then have "\<forall>q \<in> set (map_put lt k v m). lt a (fst q)" using above map_put_keys [of k v m] by fastforce
    with True Cons.IH [OF s] show ?thesis by (simp add: p key_less_def [abs_def])
  next
    case False
    then show ?thesis using above s trans by (auto simp: p key_less_def [abs_def])
  qed
qed (simp add: key_less_def)

lemma map_find_above: "\<forall>q \<in> set m. lt k (fst q) \<Longrightarrow> map_find lt k m = None"
  using asym by (cases m) auto

lemma map_find_equiv: "equiv k l \<Longrightarrow> map_find lt k m = map_find lt l m"
proof (induction m)
  case (Cons p m)
  then show ?case using equiv_less [OF Cons.prems, of "fst p"] by (cases p) simp
qed simp

lemma map_find_erase:
  "sorted_wrt (key_less lt) m \<Longrightarrow> map_find lt k (map_erase lt l m) = (if equiv l k then None else map_find lt k m)"
proof (induction m)
  case (Cons p m)
  obtain a b where p: "p = (a, b)" by force
  have above: "\<forall>q \<in> set m. lt a (fst q)" and s: "sorted_wrt (key_less lt) m"
    using Cons.prems by (auto simp: p key_less_def [abs_def])
  consider "lt a l" | "lt l a" | "equiv l a" by (auto simp: equiv_def)
  then show ?case
  proof cases
    case 1
    then have "equiv l k \<Longrightarrow> lt a k" using equiv_less(2) by blast
    with 1 show ?thesis by (cases "lt a k") (auto simp: p Cons.IH [OF s])
  next
    case 2
    then have "equiv l k \<Longrightarrow> lt k a \<and> \<not> lt a k" using equiv_less(1) asym by blast
    with 2 asym [OF 2] show ?thesis by (auto simp: p)
  next
    case 3
    then have "lt k a \<Longrightarrow> map_find lt k m = None" "equiv l k \<Longrightarrow> map_find lt k m = None"
      using above trans equiv_less(1) [OF equiv_trans [OF equiv_sym [of l k] 3]] by (auto intro!: map_find_above)
    with 3 equiv_less [OF 3, of k] show ?thesis by (auto simp: p equiv_def)
  qed
qed simp

lemma map_erase_subset: "set (map_erase lt k m) \<subseteq> set m"
  by (induction lt k m rule: map_erase.induct) auto

lemma sorted_map_erase: "sorted_wrt (key_less lt) m \<Longrightarrow> sorted_wrt (key_less lt) (map_erase lt k m)"
proof (induction m)
  case (Cons p m)
  then show ?case using map_erase_subset [of k m] by (cases p) auto
qed simp

lemma map_find_insert:
  "sorted_wrt (key_less lt) m \<Longrightarrow>
     map_find lt k (map_insert lt l v m) = (case map_find lt k m of Some w \<Rightarrow> Some w | None \<Rightarrow> if equiv l k then Some v else None)"
  by (auto simp: map_insert_def map_find_put map_find_equiv split: option.splits)

lemma sorted_map_insert: "sorted_wrt (key_less lt) m \<Longrightarrow> sorted_wrt (key_less lt) (map_insert lt k v m)"
  by (simp add: map_insert_def sorted_map_put)

end

text \<open>A comparator that tells all elements apart: the container is a set of values.\<close>

locale total_comparator = comparator +
  assumes total: "\<not> lt x y \<Longrightarrow> \<not> lt y x \<Longrightarrow> x = y"
begin

lemma equiv_eq: "equiv x y \<longleftrightarrow> x = y"
  using total irrefl by (auto simp: equiv_def)

lemma set_find_mem: "sorted_wrt lt xs \<Longrightarrow> set_find lt x xs = (if x \<in> set xs then Some x else None)"
  using set_find_iff [of xs x x] set_find_None [of xs x] by (auto simp: equiv_eq)

lemma set_insert_mem: "sorted_wrt lt xs \<Longrightarrow> set (set_insert lt x xs) = insert x (set xs)"
  by (auto simp: set_insert_set set_find_mem)

lemma set_erase_mem: "sorted_wrt lt xs \<Longrightarrow> set (set_erase lt x xs) = set xs - {x}"
  by (auto simp: set_erase_set equiv_eq)

lemma sorted_distinct: "sorted_wrt lt xs \<Longrightarrow> distinct xs"
  using irrefl by (induction xs) auto

text \<open>The first element is the least one.\<close>

lemma hd_least: "sorted_wrt lt (x # xs) \<Longrightarrow> y \<in> set (x # xs) \<Longrightarrow> \<not> lt y x"
  using asym irrefl by auto

text \<open>The iteration order is determined by the elements.\<close>

lemma sorted_unique: "sorted_wrt lt xs \<Longrightarrow> sorted_wrt lt ys \<Longrightarrow> set xs = set ys \<Longrightarrow> xs = ys"
proof (induction xs arbitrary: ys)
  case (Cons x xs)
  then obtain y ys' where ys: "ys = y # ys'" by (cases ys) auto
  have "\<not> lt x y" "\<not> lt y x"
    using hd_least [of x xs y] hd_least [of y ys' x] Cons.prems by (auto simp: ys)
  then have "x = y" by (rule total)
  moreover have "x \<notin> set xs" "y \<notin> set ys'" using Cons.prems irrefl by (auto simp: ys)
  then have "set xs = set ys'" using Cons.prems(3) \<open>x = y\<close> by (auto simp: ys)
  ultimately show ?case using Cons by (simp add: ys)
qed simp

text \<open>An order that agrees on the elements sorts the same lists.\<close>

lemma sorted_agree:
  assumes "sorted_wrt lt xs" "\<And>x y. x \<in> set xs \<Longrightarrow> y \<in> set xs \<Longrightarrow> lt x y \<Longrightarrow> lt' x y"
  shows "sorted_wrt lt' xs"
  using assms by (induction xs) auto

end

end
