(* ===== verification/Http.thy ===== *)
theory Http
  imports Util StdSet
begin

text \<open>
  Messages of HTTP, \<^verbatim>\<open>src/servers/http/http.h\<close> and \<^verbatim>\<open>http.cc\<close>: the tables of methods and
  status codes, header fields, parameters and cookies in maps that compare keys without regard
  to case, lazy parsing of parameters, and the text a message is sent as. The records hold the
  data members of the classes; the inline getters and setters of \<^verbatim>\<open>http.h\<close> are the selectors
  and updates of the records. \<^verbatim>\<open>boost::lexical_cast\<close>, \<^verbatim>\<open>localtime_r\<close> and \<^verbatim>\<open>strftime\<close> are
  parameters.

  The locale \<open>field_store\<close> is the contract of a set of named fields; it is interpreted for the
  headers of responses and of requests, for parameters and for cookies.
\<close>

section \<open>C strings\<close>

definition c_str :: "string \<Rightarrow> string" where
  "c_str s = takeWhile (\<lambda>c. c \<noteq> CHR 0x00) s"

definition tolower :: "char \<Rightarrow> nat" where
  "tolower c = (let n = of_char c in if 65 \<le> n \<and> n \<le> 90 then n + 32 else n)"

text \<open>The difference of the first characters that differ; the end of a string counts as zero.\<close>

fun cmp :: "nat list \<Rightarrow> nat list \<Rightarrow> int" where
  "cmp [] [] = 0"
| "cmp [] (y # ys) = - int y"
| "cmp (x # xs) [] = int x"
| "cmp (x # xs) (y # ys) = (if x = y then cmp xs ys else int x - int y)"

definition folded :: "string \<Rightarrow> nat list" where
  "folded s = map tolower (c_str s)"

definition strcasecmp :: "string \<Rightarrow> string \<Rightarrow> int" where
  "strcasecmp lhs rhs = cmp (folded lhs) (folded rhs)"

text \<open>\<^verbatim>\<open>strcasestr(haystack, needle) != nullptr\<close>.\<close>

definition strcasestr :: "string \<Rightarrow> string \<Rightarrow> bool" where
  "strcasestr haystack needle \<longleftrightarrow>
     list_ex (\<lambda>i. take (length (folded needle)) (drop i (folded haystack)) = folded needle)
       [0..<Suc (length (folded haystack))]"

definition crlf :: string where
  "crlf = [CHR 0x0D, CHR 0x0A]"

section \<open>Methods and status codes\<close>

text \<open>
  The third component is the text the preprocessor makes of the macro argument: \<^verbatim>\<open>M - SEARCH\<close>
  keeps its spaces.
\<close>

datatype HTTPMethod =
    DELETE | GET | HEAD | POST | PUT | CONNECT | OPTIONS | TRACE | COPY | LOCK | MKCOL | MOVE | PROPFIND |
    PROPPATCH | SEARCH | UNLOCK | BIND | REBIND | UNBIND | ACL | REPORT | MKACTIVITY | CHECKOUT | MERGE |
    MSEARCH | NOTIFY | SUBSCRIBE | UNSUBSCRIBE | PATCH | PURGE | MKCALENDAR | LINK | UNLINK | SOURCE |
    INVALID_METHOD

definition HTTP_METHOD_MAP :: "(nat \<times> HTTPMethod \<times> string) list" where
  "HTTP_METHOD_MAP =
     [(0, DELETE, ''DELETE''), (1, GET, ''GET''), (2, HEAD, ''HEAD''), (3, POST, ''POST''), (4, PUT, ''PUT''),
      (5, CONNECT, ''CONNECT''), (6, OPTIONS, ''OPTIONS''), (7, TRACE, ''TRACE''), (8, COPY, ''COPY''),
      (9, LOCK, ''LOCK''), (10, MKCOL, ''MKCOL''), (11, MOVE, ''MOVE''), (12, PROPFIND, ''PROPFIND''),
      (13, PROPPATCH, ''PROPPATCH''), (14, SEARCH, ''SEARCH''), (15, UNLOCK, ''UNLOCK''), (16, BIND, ''BIND''),
      (17, REBIND, ''REBIND''), (18, UNBIND, ''UNBIND''), (19, ACL, ''ACL''), (20, REPORT, ''REPORT''),
      (21, MKACTIVITY, ''MKACTIVITY''), (22, CHECKOUT, ''CHECKOUT''), (23, MERGE, ''MERGE''),
      (24, MSEARCH, ''M - SEARCH''), (25, NOTIFY, ''NOTIFY''), (26, SUBSCRIBE, ''SUBSCRIBE''),
      (27, UNSUBSCRIBE, ''UNSUBSCRIBE''), (28, PATCH, ''PATCH''), (29, PURGE, ''PURGE''),
      (30, MKCALENDAR, ''MKCALENDAR''), (31, LINK, ''LINK''), (32, UNLINK, ''UNLINK''), (33, SOURCE, ''SOURCE'')]"

text \<open>A status is the integer of the enumeration; the parser casts any integer to it.\<close>

type_synonym HTTPStatus = int

definition HTTP_STATUS_MAP :: "(HTTPStatus \<times> string \<times> string) list" where
  "HTTP_STATUS_MAP =
     [(100, ''CONTINUE'', ''Continue''), (101, ''SWITCHING_PROTOCOLS'', ''Switching Protocols''),
      (102, ''PROCESSING'', ''Processing''), (200, ''OK'', ''OK''), (201, ''CREATED'', ''Created''),
      (202, ''ACCEPTED'', ''Accepted''),
      (203, ''NON_AUTHORITATIVE_INFORMATION'', ''Non - Authoritative Information''),
      (204, ''NO_CONTENT'', ''No Content''), (205, ''RESET_CONTENT'', ''Reset Content''),
      (206, ''PARTIAL_CONTENT'', ''Partial Content''), (207, ''MULTI_STATUS'', ''Multi - Status''),
      (208, ''ALREADY_REPORTED'', ''Already Reported''), (226, ''IM_USED'', ''IM Used''),
      (300, ''MULTIPLE_CHOICES'', ''Multiple Choices''), (301, ''MOVED_PERMANENTLY'', ''Moved Permanently''),
      (302, ''FOUND'', ''Found''), (303, ''SEE_OTHER'', ''See Other''), (304, ''NOT_MODIFIED'', ''Not Modified''),
      (305, ''USE_PROXY'', ''Use Proxy''), (307, ''TEMPORARY_REDIRECT'', ''Temporary Redirect''),
      (308, ''PERMANENT_REDIRECT'', ''Permanent Redirect''), (400, ''BAD_REQUEST'', ''Bad Request''),
      (401, ''UNAUTHORIZED'', ''Unauthorized''), (402, ''PAYMENT_REQUIRED'', ''Payment Required''),
      (403, ''FORBIDDEN'', ''Forbidden''), (404, ''NOT_FOUND'', ''Not Found''),
      (405, ''METHOD_NOT_ALLOWED'', ''Method Not Allowed''), (406, ''NOT_ACCEPTABLE'', ''Not Acceptable''),
      (407, ''PROXY_AUTHENTICATION_REQUIRED'', ''Proxy Authentication Required''),
      (408, ''REQUEST_TIMEOUT'', ''Request Timeout''), (409, ''CONFLICT'', ''Conflict''),
      (410, ''GONE'', ''Gone''), (411, ''LENGTH_REQUIRED'', ''Length Required''),
      (412, ''PRECONDITION_FAILED'', ''Precondition Failed''), (413, ''PAYLOAD_TOO_LARGE'', ''Payload Too Large''),
      (414, ''URI_TOO_LONG'', ''URI Too Long''), (415, ''UNSUPPORTED_MEDIA_TYPE'', ''Unsupported Media Type''),
      (416, ''RANGE_NOT_SATISFIABLE'', ''Range Not Satisfiable''),
      (417, ''EXPECTATION_FAILED'', ''Expectation Failed''),
      (421, ''MISDIRECTED_REQUEST'', ''Misdirected Request''),
      (422, ''UNPROCESSABLE_ENTITY'', ''Unprocessable Entity''), (423, ''LOCKED'', ''Locked''),
      (424, ''FAILED_DEPENDENCY'', ''Failed Dependency''), (426, ''UPGRADE_REQUIRED'', ''Upgrade Required''),
      (428, ''PRECONDITION_REQUIRED'', ''Precondition Required''),
      (429, ''TOO_MANY_REQUESTS'', ''Too Many Requests''),
      (431, ''REQUEST_HEADER_FIELDS_TOO_LARGE'', ''Request Header Fields Too Large''),
      (451, ''UNAVAILABLE_FOR_LEGAL_REASONS'', ''Unavailable For Legal Reasons''),
      (500, ''INTERNAL_SERVER_ERROR'', ''Internal Server Error''), (501, ''NOT_IMPLEMENTED'', ''Not Implemented''),
      (502, ''BAD_GATEWAY'', ''Bad Gateway''), (503, ''SERVICE_UNAVAILABLE'', ''Service Unavailable''),
      (504, ''GATEWAY_TIMEOUT'', ''Gateway Timeout''),
      (505, ''HTTP_VERSION_NOT_SUPPORTED'', ''HTTP Version Not Supported''),
      (506, ''VARIANT_ALSO_NEGOTIATES'', ''Variant Also Negotiates''),
      (507, ''INSUFFICIENT_STORAGE'', ''Insufficient Storage''), (508, ''LOOP_DETECTED'', ''Loop Detected''),
      (510, ''NOT_EXTENDED'', ''Not Extended''),
      (511, ''NETWORK_AUTHENTICATION_REQUIRED'', ''Network Authentication Required'')]"

definition first_method :: "(string \<Rightarrow> bool) \<Rightarrow> HTTPMethod" where
  "first_method matches =
     (case filter (\<lambda>(num, name, str). matches str) HTTP_METHOD_MAP of [] \<Rightarrow> INVALID_METHOD | (num, name, str) # _ \<Rightarrow> name)"

definition StringToHTTPMethod :: "string \<Rightarrow> HTTPMethod" where
  "StringToHTTPMethod m = first_method (\<lambda>str. str = c_str m)"

text \<open>\<^verbatim>\<open>strncmp(#string, m, strlen(#string)) == 0\<close>: the argument starts with the name.\<close>

definition CharsToHTTPMethod :: "string \<Rightarrow> HTTPMethod" where
  "CharsToHTTPMethod m = first_method (\<lambda>str. take (length str) (c_str m) = str)"

definition method_code :: "HTTPMethod \<Rightarrow> nat" where
  "method_code m =
     (case filter (\<lambda>(num, name, str). name = m) HTTP_METHOD_MAP of [] \<Rightarrow> length HTTP_METHOD_MAP | (num, _) # _ \<Rightarrow> num)"

text \<open>\<open>None\<close> is a read past the end of the array.\<close>

definition HTTPMethodToString :: "HTTPMethod \<Rightarrow> string option" where
  "HTTPMethodToString m =
     (let idx = method_code m in
      if idx > length HTTP_METHOD_MAP then Some ''UNKNOWN''
      else if idx < length HTTP_METHOD_MAP then Some (snd (snd (HTTP_METHOD_MAP ! idx))) else None)"

definition HTTPStatusToString :: "HTTPStatus \<Rightarrow> string" where
  "HTTPStatusToString s =
     (case filter (\<lambda>(code, name, desc). code = s) HTTP_STATUS_MAP of [] \<Rightarrow> ''UNKNOWN'' | (code, name, desc) # _ \<Rightarrow> desc)"

section \<open>Maps of fields\<close>

definition CaseInsensitiveLess :: "string \<Rightarrow> string \<Rightarrow> bool" where
  "CaseInsensitiveLess lhs rhs \<longleftrightarrow> strcasecmp lhs rhs < 0"

type_synonym fields = "(string \<times> string) list"

abbreviation field :: "string \<Rightarrow> fields \<Rightarrow> string option" where
  "field \<equiv> map_find CaseInsensitiveLess"

text \<open>\<open>cast\<close> is \<^verbatim>\<open>boost::lexical_cast\<close>, \<open>None\<close> when it throws. The result is what is returned and what is left in \<^verbatim>\<open>val\<close>.\<close>

definition CheckGetAs :: "(string \<Rightarrow> 'a option) \<Rightarrow> fields \<Rightarrow> string \<Rightarrow> 'a \<Rightarrow> bool \<times> 'a" where
  "CheckGetAs cast m key dflt =
     (case field key m of
        None \<Rightarrow> (False, dflt)
      | Some v \<Rightarrow> (case cast v of Some x \<Rightarrow> (False, x) | None \<Rightarrow> (False, dflt)))"

definition GetAs :: "(string \<Rightarrow> 'a option) \<Rightarrow> fields \<Rightarrow> string \<Rightarrow> 'a \<Rightarrow> 'a" where
  "GetAs cast m key dflt =
     (case field key m of
        None \<Rightarrow> dflt
      | Some v \<Rightarrow> (case cast v of Some x \<Rightarrow> x | None \<Rightarrow> dflt))"

section \<open>Responses\<close>

record HTTPResponse =
  m_status :: HTTPStatus
  m_version_rsp :: byte
  m_close_rsp :: bool
  m_websocket_rsp :: bool
  m_body_rsp :: string
  m_reason :: string
  m_headers_rsp :: fields
  m_cookies_rsp :: "string list"

definition HTTPResponse_new :: "byte \<Rightarrow> bool \<Rightarrow> HTTPResponse" where
  "HTTPResponse_new version close =
     \<lparr>m_status = 200, m_version_rsp = version, m_close_rsp = close, m_websocket_rsp = False, m_body_rsp = [],
      m_reason = [], m_headers_rsp = [], m_cookies_rsp = []\<rparr>"

definition HTTPResponse_del_header :: "string \<Rightarrow> HTTPResponse \<Rightarrow> HTTPResponse" where
  "HTTPResponse_del_header key r =
     (if field key (m_headers_rsp r) \<noteq> None
      then r\<lparr>m_headers_rsp := map_erase CaseInsensitiveLess key (m_headers_rsp r)\<rparr> else r)"

definition HTTPResponse_set_header :: "string \<Rightarrow> string \<Rightarrow> HTTPResponse \<Rightarrow> HTTPResponse" where
  "HTTPResponse_set_header key val r =
     r\<lparr>m_headers_rsp := map_put CaseInsensitiveLess key val (m_headers_rsp r)\<rparr>"

definition set_redirect :: "string \<Rightarrow> HTTPResponse \<Rightarrow> HTTPResponse" where
  "set_redirect uri r = HTTPResponse_set_header ''Location'' uri (r\<lparr>m_status := 302\<rparr>)"

definition HTTPResponse_get_header :: "string \<Rightarrow> string \<Rightarrow> HTTPResponse \<Rightarrow> string" where
  "HTTPResponse_get_header key dflt r = (case field key (m_headers_rsp r) of None \<Rightarrow> dflt | Some v \<Rightarrow> v)"

text \<open>\<open>localtime\<close> breaks a time down, \<open>strftime n format tm\<close> is the text it writes to a buffer of \<open>n\<close> bytes.\<close>

definition Time2Str :: "(int \<Rightarrow> 'tm) \<Rightarrow> (nat \<Rightarrow> string \<Rightarrow> 'tm \<Rightarrow> string) \<Rightarrow> int \<Rightarrow> string \<Rightarrow> string" where
  "Time2Str localtime strftime ts format = c_str (strftime 64 (c_str format) (localtime ts))"

definition set_cookies ::
  "(int \<Rightarrow> 'tm) \<Rightarrow> (nat \<Rightarrow> string \<Rightarrow> 'tm \<Rightarrow> string) \<Rightarrow> string \<Rightarrow> string \<Rightarrow> int \<Rightarrow> string \<Rightarrow> string \<Rightarrow> bool \<Rightarrow>
     HTTPResponse \<Rightarrow> HTTPResponse" where
  "set_cookies localtime strftime key val expired path domain secure r =
     r\<lparr>m_cookies_rsp := m_cookies_rsp r @
        [key @ ''='' @ val @
         (if expired > 0 then '';expires='' @ Time2Str localtime strftime expired ''%a, %d %b %Y %H:%M:%S'' @ '' GMT'' else []) @
         (if domain \<noteq> [] then '';dlomain='' @ domain else []) @
         (if path \<noteq> [] then '';path='' @ path else []) @
         (if secure then '';secure'' else [])]\<rparr>"

text \<open>The loop over the headers, shared by both messages, and the part after the headers.\<close>

definition dump_headers :: "bool \<Rightarrow> fields \<Rightarrow> string" where
  "dump_headers websocket headers =
     concat (map (\<lambda>(k, v). if \<not> websocket \<and> strcasecmp k ''connection'' = 0 then [] else k @ '': '' @ v @ crlf) headers)"

definition dump_body :: "string \<Rightarrow> string" where
  "dump_body body =
     (if body \<noteq> [] then ''content-length: '' @ show_base 10 (length body) @ crlf @ crlf @ body else crlf)"

definition dump_version :: "byte \<Rightarrow> string" where
  "dump_version v = ''HTTP/'' @ show_base 10 (unat (drop_bit 4 v)) @ ''.'' @ show_base 10 (unat (v AND 0x0F))"

definition HTTPResponse_dump :: "HTTPResponse \<Rightarrow> string" where
  "HTTPResponse_dump r =
     dump_version (m_version_rsp r) @ '' '' @ show_base 10 (nat (m_status r mod 2 ^ 32)) @ '' '' @
     (if m_reason r = [] then HTTPStatusToString (m_status r) else m_reason r) @ crlf @
     dump_headers (m_websocket_rsp r) (m_headers_rsp r) @
     concat (map (\<lambda>c. ''Set-Cookie: '' @ c @ crlf) (m_cookies_rsp r)) @
     (if \<not> m_websocket_rsp r then ''connection: '' @ (if m_close_rsp r then ''close'' else ''keep-alive'') @ crlf else []) @
     dump_body (m_body_rsp r)"

section \<open>Requests\<close>

record HTTPRequest =
  m_method :: HTTPMethod
  m_version :: byte
  m_close :: bool
  m_websocket :: bool
  m_parser_param_flag :: byte
  m_path :: string
  m_query :: string
  m_fragment :: string
  m_body :: string
  m_headers :: fields
  m_params :: fields
  m_cookies :: fields

definition HTTPRequest_new :: "byte \<Rightarrow> bool \<Rightarrow> HTTPRequest" where
  "HTTPRequest_new version close =
     \<lparr>m_method = GET, m_version = version, m_close = close, m_websocket = False, m_parser_param_flag = 0,
      m_path = ''/'', m_query = [], m_fragment = [], m_body = [], m_headers = [], m_params = [], m_cookies = []\<rparr>"

definition HTTPRequest_get_header :: "string \<Rightarrow> string \<Rightarrow> HTTPRequest \<Rightarrow> string" where
  "HTTPRequest_get_header key dflt r = (case field key (m_headers r) of None \<Rightarrow> dflt | Some v \<Rightarrow> v)"

definition HTTPRequest_init :: "HTTPRequest \<Rightarrow> HTTPRequest" where
  "HTTPRequest_init r =
     (let conn = HTTPRequest_get_header ''connection'' [] r in
      if conn \<noteq> [] then
        if strcasecmp conn ''keep-alive'' = 0 then r\<lparr>m_close := False\<rparr> else r\<lparr>m_close := True\<rparr>
      else r)"

text \<open>\<^verbatim>\<open>str.find(c, pos)\<close>; \<open>None\<close> is \<^verbatim>\<open>npos\<close>.\<close>

fun find_char :: "char \<Rightarrow> string \<Rightarrow> nat option" where
  "find_char c [] = None"
| "find_char c (x # xs) = (if x = c then Some 0 else map_option Suc (find_char c xs))"

definition find_from :: "char \<Rightarrow> string \<Rightarrow> nat \<Rightarrow> nat option" where
  "find_from c str pos = map_option (\<lambda>i. pos + i) (find_char c (drop pos str))"

lemma find_char_less: "find_char c xs = Some i \<Longrightarrow> i < length xs"
  by (induction xs arbitrary: i) (auto split: if_splits)

lemma find_from_bounds: "find_from c str pos = Some i \<Longrightarrow> pos \<le> i \<and> i < length str"
  by (auto simp: find_from_def dest: find_char_less)

function PARSE_PARAM :: "(string \<Rightarrow> string) \<Rightarrow> char \<Rightarrow> string \<Rightarrow> nat \<Rightarrow> fields \<Rightarrow> fields" where
  "PARSE_PARAM trim flag str pos m =
     (case find_from CHR ''='' str pos of
        None \<Rightarrow> m
      | Some key \<Rightarrow>
          (case find_from flag str key of
             None \<Rightarrow>
               map_insert CaseInsensitiveLess (trim (substr str pos (key - pos)))
                 (UrlEncode True (substr str (key + 1) (length str))) m
           | Some e \<Rightarrow>
               PARSE_PARAM trim flag str (e + 1)
                 (map_insert CaseInsensitiveLess (trim (substr str pos (key - pos)))
                    (UrlEncode True (substr str (key + 1) (e - key - 1))) m)))"
  by pat_completeness auto
termination
  by (relation "measure (\<lambda>(trim, flag, str, pos, m). length str - pos)") (auto dest!: find_from_bounds)

declare PARSE_PARAM.simps [simp del]

definition init_query_param :: "HTTPRequest \<Rightarrow> HTTPRequest" where
  "init_query_param r =
     (if m_parser_param_flag r AND 0x1 \<noteq> 0 then r
      else r\<lparr>m_params := PARSE_PARAM id CHR ''&'' (m_query r) 0 (m_params r),
             m_parser_param_flag := m_parser_param_flag r OR 0x1\<rparr>)"

definition init_body_param :: "HTTPRequest \<Rightarrow> HTTPRequest" where
  "init_body_param r =
     (if m_parser_param_flag r AND 0x2 \<noteq> 0 then r
      else
        let content_type = HTTPRequest_get_header ''content-type'' [] r in
        if \<not> strcasestr content_type ''application/x-www-form-urlencoded''
        then r\<lparr>m_parser_param_flag := m_parser_param_flag r OR 0x2\<rparr>
        else r\<lparr>m_params := PARSE_PARAM id CHR ''&'' (m_body r) 0 (m_params r),
               m_parser_param_flag := m_parser_param_flag r OR 0x2\<rparr>)"

definition blanks :: string where
  "blanks = [CHR '' '', CHR 0x09, CHR 0x0D, CHR 0x0A]"

definition init_cookies :: "HTTPRequest \<Rightarrow> HTTPRequest" where
  "init_cookies r =
     (if m_parser_param_flag r AND 0x4 \<noteq> 0 then r
      else
        let cookie = HTTPRequest_get_header ''cookie'' [] r in
        if cookie = [] then r\<lparr>m_parser_param_flag := m_parser_param_flag r OR 0x4\<rparr>
        else r\<lparr>m_cookies := PARSE_PARAM (\<lambda>s. Trim s blanks) CHR '';'' cookie 0 (m_cookies r),
               m_parser_param_flag := m_parser_param_flag r OR 0x4\<rparr>)"

definition init_param :: "HTTPRequest \<Rightarrow> HTTPRequest" where
  "init_param r = init_cookies (init_body_param (init_query_param r))"

definition HTTPRequest_has_header :: "string \<Rightarrow> HTTPRequest \<Rightarrow> bool" where
  "HTTPRequest_has_header key r \<longleftrightarrow> field key (m_headers r) \<noteq> None"

definition HTTPRequest_del_header :: "string \<Rightarrow> HTTPRequest \<Rightarrow> HTTPRequest" where
  "HTTPRequest_del_header key r = r\<lparr>m_headers := map_erase CaseInsensitiveLess key (m_headers r)\<rparr>"

definition HTTPRequest_set_header :: "string \<Rightarrow> string \<Rightarrow> HTTPRequest \<Rightarrow> HTTPRequest" where
  "HTTPRequest_set_header key val r = r\<lparr>m_headers := map_put CaseInsensitiveLess key val (m_headers r)\<rparr>"

definition get_params :: "HTTPRequest \<Rightarrow> fields \<times> HTTPRequest" where
  "get_params r = (let r' = init_body_param (init_query_param r) in (m_params r', r'))"

definition get_param :: "string \<Rightarrow> string \<Rightarrow> HTTPRequest \<Rightarrow> string \<times> HTTPRequest" where
  "get_param key dflt r =
     (let r' = init_body_param (init_query_param r)
      in (case field key (m_params r') of None \<Rightarrow> dflt | Some v \<Rightarrow> v, r'))"

definition has_param :: "string \<Rightarrow> HTTPRequest \<Rightarrow> bool \<times> HTTPRequest" where
  "has_param key r = (let r' = init_body_param (init_query_param r) in (field key (m_params r') \<noteq> None, r'))"

definition del_param :: "string \<Rightarrow> HTTPRequest \<Rightarrow> HTTPRequest" where
  "del_param key r = r\<lparr>m_params := map_erase CaseInsensitiveLess key (m_params r)\<rparr>"

definition set_param :: "string \<Rightarrow> string \<Rightarrow> HTTPRequest \<Rightarrow> HTTPRequest" where
  "set_param key val r = r\<lparr>m_params := map_put CaseInsensitiveLess key val (m_params r)\<rparr>"

definition get_cookies :: "HTTPRequest \<Rightarrow> fields \<times> HTTPRequest" where
  "get_cookies r = (let r' = init_cookies r in (m_cookies r', r'))"

definition get_cookie :: "string \<Rightarrow> string \<Rightarrow> HTTPRequest \<Rightarrow> string \<times> HTTPRequest" where
  "get_cookie key dflt r =
     (let r' = init_cookies r in (case field key (m_cookies r') of None \<Rightarrow> dflt | Some v \<Rightarrow> v, r'))"

definition has_cookie :: "string \<Rightarrow> HTTPRequest \<Rightarrow> bool \<times> HTTPRequest" where
  "has_cookie key r = (let r' = init_cookies r in (field key (m_cookies r') \<noteq> None, r'))"

definition del_cookie :: "string \<Rightarrow> HTTPRequest \<Rightarrow> HTTPRequest" where
  "del_cookie key r =
     (if field key (m_cookies r) = None
      then r\<lparr>m_cookies := map_erase CaseInsensitiveLess key (m_cookies r)\<rparr> else r)"

definition set_cookie :: "string \<Rightarrow> string \<Rightarrow> HTTPRequest \<Rightarrow> HTTPRequest" where
  "set_cookie key val r = r\<lparr>m_cookies := map_put CaseInsensitiveLess key val (m_cookies r)\<rparr>"

definition dump_cookies :: "fields \<Rightarrow> string" where
  "dump_cookies cookies =
     (if length cookies > 0
      then ''Set-Cookie: '' @ [CHR 0x0A] @
           concat (map (\<lambda>(k, v). [CHR 0x09] @ k @ '':'' @ v @ [CHR 0x0A]) cookies)
      else [])"

text \<open>\<open>None\<close> when the method has no name to print.\<close>

definition HTTPRequest_dump :: "HTTPRequest \<Rightarrow> string option" where
  "HTTPRequest_dump r =
     map_option (\<lambda>meth.
       meth @ '' '' @ m_path r @ (if m_query r = [] then [] else ''?'') @ m_query r @
       (if m_fragment r = [] then [] else ''#'') @ m_fragment r @ '' '' @ dump_version (m_version r) @ crlf @
       (if \<not> m_websocket r then ''Connection: '' @ (if m_close r then ''close'' else ''keep-alive'') @ crlf else []) @
       dump_headers (m_websocket r) (m_headers r) @
       dump_cookies (m_cookies r) @
       dump_body (m_body r)) (HTTPMethodToString (m_method r))"

section \<open>The order of field names\<close>

lemma tolower_pos: "c \<noteq> CHR 0x00 \<Longrightarrow> 0 < tolower c"
proof -
  assume "c \<noteq> CHR 0x00"
  then have "(of_char c :: nat) \<noteq> of_char CHR 0x00" by (metis char_of_char)
  then show ?thesis by (simp add: tolower_def Let_def)
qed

lemma folded_pos: "\<forall>x \<in> set (folded s). 0 < x"
  by (auto simp: folded_def c_str_def tolower_pos dest: set_takeWhileD)

lemma cmp_swap: "cmp xs ys = - cmp ys xs"
  by (induction xs ys rule: cmp.induct) auto

lemma cmp_refl [simp]: "cmp xs xs = 0"
  by (induction xs) auto

lemma cmp_zero: "\<forall>x \<in> set xs. 0 < x \<Longrightarrow> \<forall>y \<in> set ys. 0 < y \<Longrightarrow> cmp xs ys = 0 \<longleftrightarrow> xs = ys"
  by (induction xs ys rule: cmp.induct) auto

lemma cmp_trans: "cmp xs ys < 0 \<Longrightarrow> cmp ys zs < 0 \<Longrightarrow> cmp xs zs < 0"
proof (induction xs ys arbitrary: zs rule: cmp.induct)
  case (2 y ys)
  then show ?case by (cases zs) (auto split: if_splits)
next
  case (4 x xs y ys)
  then show ?case by (cases zs) (auto split: if_splits)
qed auto

lemma strcasecmp_zero: "strcasecmp s t = 0 \<longleftrightarrow> folded s = folded t"
  by (simp add: strcasecmp_def cmp_zero folded_pos)

interpretation ci: comparator CaseInsensitiveLess
proof
  show "\<not> CaseInsensitiveLess x x" for x
    by (simp add: CaseInsensitiveLess_def strcasecmp_def)
  show "CaseInsensitiveLess x y \<Longrightarrow> CaseInsensitiveLess y z \<Longrightarrow> CaseInsensitiveLess x z" for x y z
    unfolding CaseInsensitiveLess_def strcasecmp_def by (rule cmp_trans)
  show "CaseInsensitiveLess x y \<Longrightarrow> CaseInsensitiveLess x z \<or> CaseInsensitiveLess z y" for x y z
    unfolding CaseInsensitiveLess_def strcasecmp_def
    using cmp_trans [of "folded z" "folded x" "folded y"] cmp_swap [of "folded x" "folded z"]
      cmp_zero [OF folded_pos folded_pos, of x z] by fastforce
qed

lemma ci_equiv: "ci.equiv s t \<longleftrightarrow> folded s = folded t"
proof -
  have "ci.equiv s t \<longleftrightarrow> strcasecmp s t = 0"
    using cmp_swap [of "folded s" "folded t"] by (auto simp: ci.equiv_def CaseInsensitiveLess_def strcasecmp_def)
  then show ?thesis by (simp add: strcasecmp_zero)
qed

abbreviation wf_fields :: "fields \<Rightarrow> bool" where
  "wf_fields \<equiv> sorted_wrt (key_less CaseInsensitiveLess)"

lemmas fields_simps = ci.map_find_put [unfolded ci_equiv] ci.map_find_erase [unfolded ci_equiv]
  ci.map_find_insert [unfolded ci_equiv] ci.sorted_map_put ci.sorted_map_erase ci.sorted_map_insert

section \<open>The contract of named fields\<close>

datatype edit = Put string string | Del string

primrec run_edit :: "(string \<Rightarrow> string \<Rightarrow> 'r \<Rightarrow> 'r) \<Rightarrow> (string \<Rightarrow> 'r \<Rightarrow> 'r) \<Rightarrow> edit \<Rightarrow> 'r \<Rightarrow> 'r" where
  "run_edit put del (Put k v) = put k v"
| "run_edit put del (Del k) = del k"

text \<open>The same edits on a map from names without case.\<close>

primrec spec_edit :: "edit \<Rightarrow> (nat list \<rightharpoonup> string) \<Rightarrow> (nat list \<rightharpoonup> string)" where
  "spec_edit (Put k v) f = f(folded k \<mapsto> v)"
| "spec_edit (Del k) f = f(folded k := None)"

locale field_store =
  fixes get :: "string \<Rightarrow> 'r \<Rightarrow> string option"
    and put :: "string \<Rightarrow> string \<Rightarrow> 'r \<Rightarrow> 'r"
    and ok :: "'r \<Rightarrow> bool"
  assumes ok_put: "ok r \<Longrightarrow> ok (put k v r)"
    and get_put: "ok r \<Longrightarrow> get k (put l v r) = (if folded l = folded k then Some v else get k r)"
begin

lemma put_last: "ok r \<Longrightarrow> get k (put k w (put k v r)) = Some w"
  by (simp add: get_put ok_put)

lemma put_commute:
  "ok r \<Longrightarrow> folded k \<noteq> folded l \<Longrightarrow> get x (put k v (put l w r)) = get x (put l w (put k v r))"
  by (auto simp: get_put ok_put)

lemma put_list:
  "ok r \<Longrightarrow> ok (fold (\<lambda>(k, v). put k v) kvs r) \<and>
     get k (fold (\<lambda>(k, v). put k v) kvs r) =
       (case find (\<lambda>(l, v). folded l = folded k) (rev kvs) of Some (l, v) \<Rightarrow> Some v | None \<Rightarrow> get k r)"
proof (induction kvs rule: rev_induct)
  case (snoc kv kvs)
  then show ?case by (cases kv) (auto simp: get_put ok_put)
qed simp

end

locale field_store_del = field_store +
  fixes del :: "string \<Rightarrow> 'r \<Rightarrow> 'r"
  assumes ok_del: "ok r \<Longrightarrow> ok (del k r)"
    and get_del: "ok r \<Longrightarrow> get k (del l r) = (if folded l = folded k then None else get k r)"
begin

definition represents :: "'r \<Rightarrow> (nat list \<rightharpoonup> string) \<Rightarrow> bool" where
  "represents r f \<longleftrightarrow> ok r \<and> (\<forall>k. get k r = f (folded k))"

lemma edit_refines: "represents r f \<Longrightarrow> represents (run_edit put del e r) (spec_edit e f)"
  by (cases e) (auto simp: represents_def ok_put ok_del get_put get_del)

lemma edits_refine: "represents r f \<Longrightarrow> represents (fold (run_edit put del) es r) (fold spec_edit es f)"
  by (induction es arbitrary: r f) (auto simp: edit_refines)

end

interpretation rsp: field_store_del "\<lambda>k r. field k (m_headers_rsp r)" HTTPResponse_set_header
  "\<lambda>r. wf_fields (m_headers_rsp r)" HTTPResponse_del_header
proof
  show "field k (m_headers_rsp (HTTPResponse_del_header l r)) = (if folded l = folded k then None else field k (m_headers_rsp r))"
    if "wf_fields (m_headers_rsp r)" for r k l
    using that ci.map_find_equiv [of l k "m_headers_rsp r"] by (auto simp: HTTPResponse_del_header_def fields_simps ci_equiv)
qed (auto simp: HTTPResponse_set_header_def HTTPResponse_del_header_def fields_simps)

interpretation req: field_store_del "\<lambda>k r. field k (m_headers r)" HTTPRequest_set_header
  "\<lambda>r. wf_fields (m_headers r)" HTTPRequest_del_header
  by unfold_locales (auto simp: HTTPRequest_set_header_def HTTPRequest_del_header_def fields_simps)

section \<open>Parsing parameters\<close>

abbreviation insert_all :: "fields \<Rightarrow> fields \<Rightarrow> fields" where
  "insert_all \<equiv> fold (\<lambda>(k, v). map_insert CaseInsensitiveLess k v)"

lemma PARSE_PARAM_inserts: "\<exists>ps. \<forall>m. PARSE_PARAM trim flag str pos m = insert_all ps m"
proof (induction "length str - pos" arbitrary: pos rule: less_induct)
  case less
  show ?case
  proof (cases "find_from CHR ''='' str pos")
    case None
    then have "\<forall>m. PARSE_PARAM trim flag str pos m = insert_all [] m" by (simp add: PARSE_PARAM.simps [of _ _ _ pos])
    then show ?thesis by blast
  next
    case key: (Some key)
    show ?thesis
    proof (cases "find_from flag str key")
      case None
      then have "\<forall>m. PARSE_PARAM trim flag str pos m =
          insert_all [(trim (substr str pos (key - pos)), UrlEncode True (substr str (key + 1) (length str)))] m"
        by (simp add: PARSE_PARAM.simps [of _ _ _ pos] key)
      then show ?thesis by blast
    next
      case (Some e)
      then have "length str - (e + 1) < length str - pos"
        using find_from_bounds [OF key] find_from_bounds [OF Some] by auto
      then obtain ps where "\<forall>m. PARSE_PARAM trim flag str (e + 1) m = insert_all ps m" using less by blast
      then have "\<forall>m. PARSE_PARAM trim flag str pos m =
          insert_all ((trim (substr str pos (key - pos)), UrlEncode True (substr str (key + 1) (e - key - 1))) # ps) m"
        by (simp add: PARSE_PARAM.simps [of _ _ _ pos] key Some)
      then show ?thesis by blast
    qed
  qed
qed

lemma insert_all_wf: "wf_fields m \<Longrightarrow> wf_fields (insert_all ps m)"
  by (induction ps arbitrary: m) (auto simp: fields_simps)

lemma field_insert_all:
  "wf_fields m \<Longrightarrow> field k (insert_all ps m) =
     (case field k m of Some w \<Rightarrow> Some w
      | None \<Rightarrow> map_option snd (find (\<lambda>(l, v). folded l = folded k) ps))"
  by (induction ps arbitrary: m) (auto simp: fields_simps split: option.splits)

lemma PARSE_PARAM_wf: "wf_fields m \<Longrightarrow> wf_fields (PARSE_PARAM trim flag str pos m)"
  using PARSE_PARAM_inserts insert_all_wf by metis

text \<open>What was set before parsing is kept, and parsing does not mix up names.\<close>

lemma field_PARSE_PARAM_put:
  assumes "wf_fields m"
  shows "field k (PARSE_PARAM trim flag str pos (map_put CaseInsensitiveLess l v m)) =
    (if folded l = folded k then Some v else field k (PARSE_PARAM trim flag str pos m))"
proof -
  obtain ps where "\<forall>m. PARSE_PARAM trim flag str pos m = insert_all ps m" using PARSE_PARAM_inserts by blast
  then show ?thesis using assms by (auto simp: field_insert_all fields_simps)
qed

lemma field_PARSE_PARAM_put_twice:
  assumes "wf_fields m"
  shows "field k (PARSE_PARAM trim flag str' pos (PARSE_PARAM trim flag str pos (map_put CaseInsensitiveLess l v m))) =
    (if folded l = folded k then Some v else field k (PARSE_PARAM trim flag str' pos (PARSE_PARAM trim flag str pos m)))"
proof -
  obtain ps ps' where "\<forall>m. PARSE_PARAM trim flag str pos m = insert_all ps m"
    "\<forall>m. PARSE_PARAM trim flag str' pos m = insert_all ps' m" using PARSE_PARAM_inserts by metis
  then show ?thesis using assms field_insert_all [of _ k "ps @ ps'"] by (auto simp: fields_simps)
qed

lemma map_erase_absent: "map_find lt k m = None \<Longrightarrow> map_erase lt k m = m"
  by (induction lt k m rule: map_find.induct) (auto split: if_splits)

definition params_of :: "HTTPRequest \<Rightarrow> fields" where
  "params_of r = m_params (init_body_param (init_query_param r))"

definition cookies_of :: "HTTPRequest \<Rightarrow> fields" where
  "cookies_of r = m_cookies (init_cookies r)"

lemmas param_defs = init_query_param_def init_body_param_def init_cookies_def HTTPRequest_get_header_def Let_def

interpretation prm: field_store "\<lambda>k r. field k (params_of r)" set_param "\<lambda>r. wf_fields (m_params r)"
  by unfold_locales (auto simp: params_of_def set_param_def param_defs fields_simps field_PARSE_PARAM_put field_PARSE_PARAM_put_twice)

text \<open>Once the parameters are parsed they can be deleted, too.\<close>

interpretation prs: field_store_del "\<lambda>k r. field k (params_of r)" set_param
  "\<lambda>r. wf_fields (m_params r) \<and> m_parser_param_flag r AND 1 \<noteq> 0 \<and> m_parser_param_flag r AND 2 \<noteq> 0" del_param
  by unfold_locales (auto simp: params_of_def set_param_def del_param_def param_defs fields_simps)

interpretation cks: field_store "\<lambda>k r. field k (cookies_of r)" set_cookie "\<lambda>r. wf_fields (m_cookies r)"
  by unfold_locales (auto simp: cookies_of_def set_cookie_def param_defs fields_simps field_PARSE_PARAM_put)

text \<open>A query string as a client writes it.\<close>

fun join :: "char \<Rightarrow> (string \<times> string) list \<Rightarrow> string" where
  "join flag [] = []"
| "join flag [(k, v)] = k @ ''='' @ v"
| "join flag ((k, v) # kv # kvs) = k @ ''='' @ v @ [flag] @ join flag (kv # kvs)"

definition printable :: "char \<Rightarrow> string \<times> string \<Rightarrow> bool" where
  "printable flag kv \<longleftrightarrow> CHR ''='' \<notin> set (fst kv) \<and> flag \<notin> set (snd kv)"

lemma find_char_append: "c \<notin> set xs \<Longrightarrow> find_char c (xs @ ys) = map_option (\<lambda>i. length xs + i) (find_char c ys)"
  by (induction xs) (cases "find_char c ys"; auto)+

lemma find_char_none: "c \<notin> set xs \<Longrightarrow> find_char c xs = None"
  by (induction xs) auto

lemma find_from_append:
  "c \<notin> set xs \<Longrightarrow> find_from c (pre @ xs @ c # ys) (length pre) = Some (length pre + length xs)"
  by (simp add: find_from_def find_char_append)

lemma PARSE_PARAM_join:
  assumes "list_all (printable flag) kvs" "flag \<noteq> CHR ''=''"
  shows "PARSE_PARAM trim flag (pre @ join flag kvs) (length pre) m =
    insert_all (map (\<lambda>(k, v). (trim k, UrlEncode True v)) kvs) m"
  using assms
proof (induction flag kvs arbitrary: pre m rule: join.induct)
  case (1 flag)
  then show ?case by (simp add: PARSE_PARAM.simps [of _ _ pre] find_from_def)
next
  case (2 flag k v)
  then have kv: "CHR ''='' \<notin> set k" "flag \<notin> set (CHR ''='' # v)" by (auto simp: printable_def)
  let ?str = "pre @ k @ CHR ''='' # v"
  have "find_from CHR ''='' ?str (length pre) = Some (length pre + length k)" using kv(1) by (rule find_from_append)
  moreover have "find_from flag ?str (length pre + length k) = None" using find_char_none [OF kv(2)] by (simp add: find_from_def del: find_char.simps)
  ultimately show ?case by (simp add: PARSE_PARAM.simps [of _ _ _ "length pre"] substr_def)
next
  case (3 flag k v kv kvs)
  then have kv: "CHR ''='' \<notin> set k" "flag \<notin> set (CHR ''='' # v)" by (auto simp: printable_def)
  let ?rest = "join flag (kv # kvs)"
  let ?str = "pre @ k @ CHR ''='' # v @ flag # ?rest"
  let ?pre = "pre @ k @ CHR ''='' # v @ [flag]"
  have "find_from CHR ''='' ?str (length pre) = Some (length pre + length k)" using kv(1) by (rule find_from_append)
  moreover have "find_from flag ?str (length pre + length k) = Some (length pre + length k + Suc (length v))"
    using find_from_append [OF kv(2), of "pre @ k" ?rest] by simp
  ultimately have "PARSE_PARAM trim flag ?str (length pre) m =
      PARSE_PARAM trim flag (?pre @ ?rest) (length ?pre) (map_insert CaseInsensitiveLess (trim k) (UrlEncode True v) m)"
    by (simp add: PARSE_PARAM.simps [of _ _ ?str "length pre"] substr_def add.assoc)
  also have "\<dots> = insert_all (map (\<lambda>(k, v). (trim k, UrlEncode True v)) (kv # kvs))
      (map_insert CaseInsensitiveLess (trim k) (UrlEncode True v) m)"
    using "3.prems" by (intro "3.IH") simp_all
  finally show ?case by simp
qed

section \<open>Framing\<close>

text \<open>
  A reader of messages: lines end with CR LF, the head ends with an empty line, what follows is
  the body.
\<close>

fun read_line :: "string \<Rightarrow> (string \<times> string) option" where
  "read_line [] = None"
| "read_line (c # cs) =
     (if c = CHR 0x0D \<and> cs \<noteq> [] \<and> hd cs = CHR 0x0A then Some ([], tl cs)
      else map_option (\<lambda>(l, rest). (c # l, rest)) (read_line cs))"

lemma read_line_shorter: "read_line s = Some (l, rest) \<Longrightarrow> length rest < length s"
  by (induction s arbitrary: l rest) (auto split: if_splits)

function read_head :: "string \<Rightarrow> (string list \<times> string) option" where
  "read_head s =
     (case read_line s of
        None \<Rightarrow> None
      | Some (l, rest) \<Rightarrow>
          if l = [] then Some ([], rest) else map_option (\<lambda>(ls, body). (l # ls, body)) (read_head rest))"
  by pat_completeness auto
termination by (relation "measure length") (auto dest: read_line_shorter)

declare read_head.simps [simp del]

definition clean :: "string \<Rightarrow> bool" where
  "clean s \<longleftrightarrow> CHR 0x0D \<notin> set s"

lemma clean_simps [simp]: "clean []" "clean (c # s) \<longleftrightarrow> c \<noteq> CHR 0x0D \<and> clean s" "clean (s @ t) \<longleftrightarrow> clean s \<and> clean t"
  by (auto simp: clean_def)

lemma read_line_crlf: "clean l \<Longrightarrow> read_line (l @ crlf @ s) = Some (l, s)"
  by (induction l) (auto simp: crlf_def)

lemma read_line_clean: "clean l \<Longrightarrow> read_line l = None"
  by (induction l) auto

definition lines :: "string list \<Rightarrow> string" where
  "lines ls = concat (map (\<lambda>l. l @ crlf) ls)"

lemma lines_simps [simp]: "lines [] = []" "lines (l # ls) = l @ crlf @ lines ls" "lines (ks @ ls) = lines ks @ lines ls"
  by (simp_all add: lines_def)

lemma read_head_lines:
  "list_all (\<lambda>l. clean l \<and> l \<noteq> []) ls \<Longrightarrow>
     read_head (lines ls @ s) = map_option (\<lambda>(ks, body). (ls @ ks, body)) (read_head s)"
proof (induction ls)
  case Nil
  then show ?case by (cases "read_head s") auto
next
  case (Cons l ls)
  then show ?case by (subst read_head.simps) (auto simp: read_line_crlf option.map_comp comp_def split_def)
qed

lemma read_head_crlf: "read_head (crlf @ s) = Some ([], s)"
  using read_line_crlf [of "[]" s] by (subst read_head.simps) simp

lemma digit_clean: "n < 16 \<Longrightarrow> ''0123456789abcdef'' ! n \<noteq> CHR 0x0D"
proof -
  have "list_all (\<lambda>n. ''0123456789abcdef'' ! n \<noteq> CHR 0x0D) [0..<16]" by code_simp
  then show "n < 16 \<Longrightarrow> ?thesis" by (simp add: list_all_iff)
qed

lemma show_base_clean: "clean (show_base 10 n)"
  by (induction "10 :: nat" n rule: show_base.induct)
    (subst show_base.simps, auto simp: digit_clean)

lemma status_clean: "clean (HTTPStatusToString s)"
proof -
  have "list_all (\<lambda>(code, name, desc). clean desc) HTTP_STATUS_MAP"
    by (simp add: HTTP_STATUS_MAP_def)
  then have "list_all (\<lambda>(code, name, desc). clean desc) (filter (\<lambda>(code, name, desc). code = s) HTTP_STATUS_MAP)"
    by (auto simp: list_all_iff)
  then show ?thesis by (auto simp: HTTPStatusToString_def split: list.splits)
qed

lemma method_clean: "HTTPMethodToString m = Some s \<Longrightarrow> clean s \<and> s \<noteq> []"
proof -
  have "list_all (\<lambda>(num, name, str). clean str \<and> str \<noteq> []) HTTP_METHOD_MAP"
    by (simp add: HTTP_METHOD_MAP_def)
  then have "\<forall>i < length HTTP_METHOD_MAP. clean (snd (snd (HTTP_METHOD_MAP ! i))) \<and> snd (snd (HTTP_METHOD_MAP ! i)) \<noteq> []"
    by (auto simp: list_all_length split_def)
  then show "HTTPMethodToString m = Some s \<Longrightarrow> ?thesis" by (auto simp: HTTPMethodToString_def Let_def split: if_splits)
qed

lemma version_clean: "clean (dump_version v)"
  by (simp add: dump_version_def show_base_clean)

definition header_lines :: "bool \<Rightarrow> fields \<Rightarrow> string list" where
  "header_lines websocket headers =
     map (\<lambda>(k, v). k @ '': '' @ v) (filter (\<lambda>(k, v). websocket \<or> folded k \<noteq> folded ''connection'') headers)"

definition length_lines :: "string \<Rightarrow> string list" where
  "length_lines body = (if body = [] then [] else [''content-length: '' @ show_base 10 (length body)])"

lemma dump_headers_lines: "dump_headers ws hs = lines (header_lines ws hs)"
  by (induction hs) (auto simp: dump_headers_def header_lines_def strcasecmp_zero)

lemma dump_body_lines: "dump_body body = lines (length_lines body) @ crlf @ body"
  by (simp add: dump_body_def length_lines_def)

definition clean_fields :: "fields \<Rightarrow> bool" where
  "clean_fields hs \<longleftrightarrow> list_all (\<lambda>(k, v). clean k \<and> clean v) hs"

lemma header_lines_clean: "clean_fields hs \<Longrightarrow> list_all (\<lambda>l. clean l \<and> l \<noteq> []) (header_lines ws hs)"
  by (auto simp: clean_fields_def header_lines_def list_all_iff)

lemma length_lines_clean: "list_all (\<lambda>l. clean l \<and> l \<noteq> []) (length_lines body)"
  by (simp add: length_lines_def show_base_clean)

definition response_head :: "HTTPResponse \<Rightarrow> string list" where
  "response_head r =
     (dump_version (m_version_rsp r) @ '' '' @ show_base 10 (nat (m_status r mod 2 ^ 32)) @ '' '' @
      (if m_reason r = [] then HTTPStatusToString (m_status r) else m_reason r)) #
     header_lines (m_websocket_rsp r) (m_headers_rsp r) @
     map (\<lambda>c. ''Set-Cookie: '' @ c) (m_cookies_rsp r) @
     (if m_websocket_rsp r then [] else [''connection: '' @ (if m_close_rsp r then ''close'' else ''keep-alive'')]) @
     length_lines (m_body_rsp r)"

lemma response_dump_lines: "HTTPResponse_dump r = lines (response_head r) @ crlf @ m_body_rsp r"
proof -
  have "concat (map (\<lambda>c. ''Set-Cookie: '' @ c @ crlf) cs) = lines (map (\<lambda>c. ''Set-Cookie: '' @ c) cs)" for cs
    by (induction cs) auto
  from this [of "m_cookies_rsp r"] show ?thesis
    by (simp add: HTTPResponse_dump_def response_head_def dump_headers_lines dump_body_lines)
qed

definition request_head :: "string \<Rightarrow> HTTPRequest \<Rightarrow> string list" where
  "request_head meth r =
     (meth @ '' '' @ m_path r @ (if m_query r = [] then [] else ''?'' @ m_query r) @
      (if m_fragment r = [] then [] else ''#'' @ m_fragment r) @ '' '' @ dump_version (m_version r)) #
     (if m_websocket r then [] else [''Connection: '' @ (if m_close r then ''close'' else ''keep-alive'')]) @
     header_lines (m_websocket r) (m_headers r)"

lemma request_dump_lines:
  "HTTPMethodToString (m_method r) = Some meth \<Longrightarrow>
     HTTPRequest_dump r = Some (lines (request_head meth r) @ dump_cookies (m_cookies r) @ dump_body (m_body r))"
  by (simp add: HTTPRequest_dump_def request_head_def dump_headers_lines)

section \<open>Properties\<close>

text \<open>
  Names and values of methods agree. Every method but \<open>INVALID_METHOD\<close> has a name, the
  name is read back as the method, exactly by \<open>StringToHTTPMethod\<close> and with anything behind it
  by \<open>CharsToHTTPMethod\<close>: no name is a prefix of another that comes later in the table. For
  \<open>INVALID_METHOD\<close> the lookup reads past the end of the array, and the name \<^verbatim>\<open>M-SEARCH\<close> of the
  protocol is not in the table.
\<close>

theorem method_names:
  "(case HTTPMethodToString m of
      Some s \<Rightarrow> m \<noteq> INVALID_METHOD \<and> StringToHTTPMethod s = m \<and> CharsToHTTPMethod (s @ rest) = m
    | None \<Rightarrow> m = INVALID_METHOD) \<and>
   StringToHTTPMethod ''M-SEARCH'' = INVALID_METHOD"
  by (cases m) (simp_all add: HTTPMethodToString_def method_code_def StringToHTTPMethod_def CharsToHTTPMethod_def
    first_method_def HTTP_METHOD_MAP_def c_str_def)

text \<open>
  C8: The headers of a message are a map whose keys are names without case. After any
  sequence of settings and deletions on a new message, a header reads as the map that
  underwent the same edits says, and as the default where the map has no entry.
\<close>

theorem header_edits:
  "HTTPRequest_get_header k d (fold (run_edit HTTPRequest_set_header HTTPRequest_del_header) es (HTTPRequest_new v c)) =
     (case fold spec_edit es Map.empty (folded k) of None \<Rightarrow> d | Some x \<Rightarrow> x) \<and>
   HTTPResponse_get_header k d (fold (run_edit HTTPResponse_set_header HTTPResponse_del_header) es (HTTPResponse_new v c)) =
     (case fold spec_edit es Map.empty (folded k) of None \<Rightarrow> d | Some x \<Rightarrow> x)"
proof -
  have "req.represents (HTTPRequest_new v c) Map.empty" "rsp.represents (HTTPResponse_new v c) Map.empty"
    by (simp_all add: req.represents_def rsp.represents_def HTTPRequest_new_def HTTPResponse_new_def)
  from req.edits_refine [OF this(1), of es] rsp.edits_refine [OF this(2), of es] show ?thesis
    by (simp add: req.represents_def rsp.represents_def HTTPRequest_get_header_def HTTPResponse_get_header_def)
qed

text \<open>
  Lazy parsing of parameters. For a request whose query is a list of pairs \<^verbatim>\<open>key=value\<close>
  separated by \<^verbatim>\<open>&\<close> (no \<^verbatim>\<open>=\<close> in a key, no \<^verbatim>\<open>&\<close> in a value) and whose body is not a form, a
  parameter is the value of the first pair whose key agrees with the name up to case, percent
  \<^emph>\<open>encoded\<close> again instead of decoded, and the default when there is none. Asking twice gives
  the same answer and parses once.
\<close>

theorem param_lookup:
  assumes "m_parser_param_flag r = 0" "m_params r = []"
    and "\<not> strcasestr (HTTPRequest_get_header ''content-type'' [] r) ''application/x-www-form-urlencoded''"
    and "m_query r = join CHR ''&'' kvs" "list_all (printable CHR ''&'') kvs"
  shows "fst (get_param key d r) =
      (case find (\<lambda>(k, v). folded k = folded key) kvs of None \<Rightarrow> d | Some (k, v) \<Rightarrow> UrlEncode True v) \<and>
    get_param key d (snd (get_param key d r)) = get_param key d r"
proof -
  let ?r = "init_body_param (init_query_param r)"
  have "m_params ?r = insert_all (map (\<lambda>(k, v). (k, UrlEncode True v)) kvs) []"
    using assms PARSE_PARAM_join [OF assms(5), of id "[]" "[]"] by (simp add: param_defs)
  moreover have "map_option snd (find (\<lambda>(l, v). folded l = folded key) (map (\<lambda>(k, v). (k, UrlEncode True v)) kvs)) =
      map_option (\<lambda>(k, v). UrlEncode True v) (find (\<lambda>(k, v). folded k = folded key) kvs)"
    by (induction kvs) auto
  ultimately have "field key (m_params ?r) =
      map_option (\<lambda>(k, v). UrlEncode True v) (find (\<lambda>(k, v). folded k = folded key) kvs)"
    by (simp add: field_insert_all)
  moreover have "init_body_param (init_query_param ?r) = ?r"
    using assms(1) by (simp add: param_defs)
  ultimately show ?thesis by (simp add: get_param_def Let_def split: option.splits prod.splits)
qed

theorem param_lookup_witness:
  "fst (get_param ''NAME'' [] ((HTTPRequest_new 0x11 True)\<lparr>m_query := ''id=7&Name=a/b&name=c''\<rparr>)) = ''a%2Fb''"
proof -
  let ?r = "(HTTPRequest_new 0x11 True)\<lparr>m_query := ''id=7&Name=a/b&name=c''\<rparr>"
  let ?kvs = "[(''id'', ''7''), (''Name'', ''a/b''), (''name'', ''c'')]"
  have q: "m_query ?r = join CHR ''&'' ?kvs" "list_all (printable CHR ''&'') ?kvs"
    "m_parser_param_flag ?r = 0" "m_params ?r = []"
    by (simp_all add: HTTPRequest_new_def printable_def)
  have c: "\<not> strcasestr (HTTPRequest_get_header ''content-type'' [] ?r) ''application/x-www-form-urlencoded''"
    by code_simp
  have "find (\<lambda>(k, v). folded k = folded ''NAME'') ?kvs = Some (''Name'', ''a/b'')" "UrlEncode True ''a/b'' = ''a%2Fb''"
    by code_simp+
  with param_lookup [OF q(3,4) c q(1,2), of "''NAME''" "[]"] show ?thesis by simp
qed

text \<open>
  Cookies that are set are read back, whether the cookie header has been parsed before or
  not, and other cookies are not touched. Deleting a cookie does nothing: the test whether the
  cookie is there is the wrong way round.
\<close>

theorem cookie_edits:
  assumes "wf_fields (m_cookies r)"
  shows "fst (get_cookie k d (set_cookie l v r)) = (if folded l = folded k then v else fst (get_cookie k d r)) \<and>
    del_cookie l r = r"
proof -
  have "fst (get_cookie k d x) = (case field k (cookies_of x) of None \<Rightarrow> d | Some y \<Rightarrow> y)" for x
    by (simp add: get_cookie_def cookies_of_def Let_def)
  then show ?thesis using cks.get_put [OF assms, of k l v] by (simp add: del_cookie_def map_erase_absent)
qed

theorem cookie_edits_witness:
  "fst (get_cookie ''SID'' [] (set_cookie ''sid'' ''1'' (HTTPRequest_new 0x11 True))) = ''1'' \<and>
   del_cookie ''sid'' (HTTPRequest_new 0x11 True) = HTTPRequest_new 0x11 True"
proof -
  have "wf_fields (m_cookies (HTTPRequest_new 0x11 True))" by (simp add: HTTPRequest_new_def)
  moreover have "folded ''sid'' = folded ''SID''" by code_simp
  ultimately show ?thesis using cookie_edits [of "HTTPRequest_new 0x11 True" "''SID''" "[]" "''sid''" "''1''"] by simp
qed

text \<open>
  C14: The text of a response is framed. Where no reason phrase, header or cookie contains a
  carriage return, a reader that takes lines up to the first empty one gets the status line,
  the headers (without those named \<^verbatim>\<open>connection\<close>, unless the response is a WebSocket
  handshake), the cookies, one \<^verbatim>\<open>connection\<close> line and the length of the body when there is one,
  and is left with exactly the body.
\<close>

theorem response_framing:
  assumes "clean (m_reason r)" "clean_fields (m_headers_rsp r)" "list_all clean (m_cookies_rsp r)"
  shows "read_head (HTTPResponse_dump r) = Some (response_head r, m_body_rsp r)"
proof -
  have cookies: "list_all (\<lambda>l. clean l \<and> l \<noteq> []) (map (\<lambda>c. ''Set-Cookie: '' @ c) (m_cookies_rsp r))"
    using assms(3) by (simp add: list_all_iff)
  have "list_all (\<lambda>l. clean l \<and> l \<noteq> []) (response_head r)"
    using assms(1) header_lines_clean [OF assms(2)] length_lines_clean cookies
    by (simp add: response_head_def version_clean show_base_clean status_clean)
  from read_head_lines [OF this, of "crlf @ m_body_rsp r"] show ?thesis
    by (simp add: response_dump_lines read_head_crlf)
qed

theorem response_framing_witness:
  "read_head (HTTPResponse_dump ((set_redirect ''/a'' (HTTPResponse_new 0x11 True))\<lparr>m_body_rsp := ''x''\<rparr>)) =
     Some ([''HTTP/1.1 302 Found'', ''Location: /a'', ''connection: close'', ''content-length: 1''], ''x'')"
proof -
  let ?r = "(set_redirect ''/a'' (HTTPResponse_new 0x11 True))\<lparr>m_body_rsp := ''x''\<rparr>"
  have "read_head (HTTPResponse_dump ?r) = Some (response_head ?r, m_body_rsp ?r)"
    by (rule response_framing)
      (simp_all add: set_redirect_def HTTPResponse_set_header_def HTTPResponse_new_def clean_fields_def)
  moreover have "response_head ?r = [''HTTP/1.1 302 Found'', ''Location: /a'', ''connection: close'', ''content-length: 1'']"
    by code_simp
  ultimately show ?thesis by simp
qed

text \<open>
  The text of a request is framed in the same way as long as it has no cookies. With
  cookies and no body it is not: the cookies are written on lines that end with a line feed
  only, so that the line end meant to finish the head only finishes the last of them, and a
  reader waits for the rest of the head.
\<close>

theorem request_framing:
  assumes "HTTPMethodToString (m_method r) = Some meth" "HTTPRequest_dump r = Some msg"
    and "clean (m_path r)" "clean (m_query r)" "clean (m_fragment r)" "clean_fields (m_headers r)" "clean_fields (m_cookies r)"
  shows "(m_cookies r = [] \<longrightarrow> read_head msg = Some (request_head meth r @ length_lines (m_body r), m_body r)) \<and>
    (m_cookies r \<noteq> [] \<and> m_body r = [] \<longrightarrow> read_head msg = None)"
proof -
  have msg: "msg = lines (request_head meth r) @ dump_cookies (m_cookies r) @ dump_body (m_body r)"
    using assms(1,2) request_dump_lines by simp
  have head: "list_all (\<lambda>l. clean l \<and> l \<noteq> []) (request_head meth r)"
    using assms method_clean [OF assms(1)] header_lines_clean by (auto simp: request_head_def version_clean)
  have cookies: "clean (dump_cookies (m_cookies r))"
    using assms(7) by (auto simp: dump_cookies_def clean_fields_def list_all_iff clean_def)
  have "read_head (dump_body (m_body r)) = Some (length_lines (m_body r), m_body r)"
    using read_head_lines [OF length_lines_clean, of "m_body r" "crlf @ m_body r"] by (simp add: dump_body_lines read_head_crlf)
  then have "m_cookies r = [] \<Longrightarrow> read_head msg = Some (request_head meth r @ length_lines (m_body r), m_body r)"
    using read_head_lines [OF head] by (simp add: msg dump_cookies_def)
  moreover have "read_head msg = None" if "m_cookies r \<noteq> []" "m_body r = []"
  proof -
    have "dump_cookies (m_cookies r) \<noteq> []" using that by (simp add: dump_cookies_def)
    then have "read_head (dump_cookies (m_cookies r) @ crlf) = None"
      using read_line_crlf [OF cookies, of "[]"]
      by (subst read_head.simps, simp) (subst read_head.simps, simp)
    then show ?thesis using read_head_lines [OF head] that by (simp add: msg dump_body_def)
  qed
  ultimately show ?thesis by blast
qed

theorem request_framing_witness:
  "HTTPRequest_dump (set_cookie ''a'' ''b'' (HTTPRequest_new 0x11 True)) \<noteq> None \<and>
   read_head (the (HTTPRequest_dump (set_cookie ''a'' ''b'' (HTTPRequest_new 0x11 True)))) = None"
proof -
  let ?r = "set_cookie ''a'' ''b'' (HTTPRequest_new 0x11 True)"
  have m: "HTTPMethodToString (m_method ?r) = Some ''GET''" by code_simp
  then obtain msg where t: "HTTPRequest_dump ?r = Some msg" by (simp add: HTTPRequest_dump_def)
  have "m_cookies ?r \<noteq> [] \<and> m_body ?r = []" by (simp add: set_cookie_def HTTPRequest_new_def)
  then show ?thesis using request_framing [OF m t] t
    by (simp add: set_cookie_def HTTPRequest_new_def clean_fields_def)
qed

end
