(* ===== verification/Servlet.thy ===== *)
theory Servlet
  imports Http
begin

text \<open>
  Servlets and their dispatch by path, \<^verbatim>\<open>servers/http/http_servlet.cc\<close> and \<^verbatim>\<open>ws_servlet.cc\<close>. A
  callback is a name of type \<open>'f\<close> and \<open>run\<close> says what it does to the request, the response and the
  session; \<open>fnm\<close> is \<^verbatim>\<open>fnmatch\<close> as a test. The loops over the glob patterns may not end, so they are
  partial functions whose value \<open>None\<close> is not returning; an iterator that is used after its
  element was erased is the value \<open>Erased\<close>.
\<close>

section \<open>Servlets\<close>

datatype 'f Servlet =
    NotFoundServlet
  | FunctionServlet 'f
  | FunctionWSServlet "'f option" "'f option" "'f option"

type_synonym 's exchange = "HTTPRequest \<times> HTTPResponse \<times> 's"

definition not_found_body :: string where
  "not_found_body = ''<html>'' @ replicate 12 CHR '' '' @ ''<head>'' @ replicate 16 CHR '' '' @ ''<title>'' @
     replicate 20 CHR '' '' @ ''404 Not Found'' @ replicate 16 CHR '' '' @ ''</title>'' @ replicate 12 CHR '' '' @ ''</head>'' @
     replicate 12 CHR '' '' @ ''<body>'' @ replicate 16 CHR '' '' @ ''<center>'' @ replicate 20 CHR '' '' @ ''<h1>404 Not Found</h1>'' @
     replicate 16 CHR '' '' @ ''</center>'' @ replicate 12 CHR '' '' @ ''</body>'' @ replicate 8 CHR '' '' @ ''</html>''"

definition NotFoundServlet_handle :: "'s exchange \<Rightarrow> int \<times> 's exchange" where
  "NotFoundServlet_handle = (\<lambda>(req, rsp, s).
     let rsp1 = rsp\<lparr>m_status := 404\<rparr>;
         rsp2 = HTTPResponse_set_header ''Content-Type'' ''text/html'' rsp1;
         rsp3 = HTTPResponse_set_header ''Server'' ''tigerkin/1.0.0'' rsp2
     in (0, (req, rsp3\<lparr>m_body_rsp := not_found_body\<rparr>, s)))"

fun Servlet_handle :: "('f \<Rightarrow> 's exchange \<Rightarrow> int \<times> 's exchange) \<Rightarrow> 'f Servlet \<Rightarrow> 's exchange \<Rightarrow> int \<times> 's exchange" where
  "Servlet_handle run NotFoundServlet x = NotFoundServlet_handle x"
| "Servlet_handle run (FunctionServlet cb) x = run cb x"
| "Servlet_handle run (FunctionWSServlet h c e) x = (0, x)"

text \<open>The callbacks of a WebSocket servlet: connected, a message, closed. Their result is ignored.\<close>

definition run_if :: "('f \<Rightarrow> 'x \<Rightarrow> int \<times> 'x) \<Rightarrow> 'f option \<Rightarrow> 'x \<Rightarrow> int \<times> 'x" where
  "run_if run cb x = (case cb of None \<Rightarrow> (0, x) | Some f \<Rightarrow> (0, snd (run f x)))"

fun on_connect :: "('f \<Rightarrow> 'x \<Rightarrow> int \<times> 'x) \<Rightarrow> 'f Servlet \<Rightarrow> 'x \<Rightarrow> int \<times> 'x" where
  "on_connect run (FunctionWSServlet h c e) x = run_if run c x"
| "on_connect run s x = (0, x)"

fun on_close :: "('f \<Rightarrow> 'x \<Rightarrow> int \<times> 'x) \<Rightarrow> 'f Servlet \<Rightarrow> 'x \<Rightarrow> int \<times> 'x" where
  "on_close run (FunctionWSServlet h c e) x = run_if run e x"
| "on_close run s x = (0, x)"

fun WSServlet_handle :: "('f \<Rightarrow> 'x \<Rightarrow> int \<times> 'x) \<Rightarrow> 'f Servlet \<Rightarrow> 'x \<Rightarrow> int \<times> 'x" where
  "WSServlet_handle run (FunctionWSServlet h c e) x = run_if run h x"
| "WSServlet_handle run s x = (0, x)"

section \<open>Dispatch\<close>

record 'f ServletDispatch =
  m_datas :: "string \<rightharpoonup> 'f Servlet"
  m_globs :: "(string \<times> 'f Servlet) list"
  m_default_servlet :: "'f Servlet option"

definition ServletDispatch_new :: "'f ServletDispatch" where
  "ServletDispatch_new = \<lparr>m_datas = Map.empty, m_globs = [], m_default_servlet = Some NotFoundServlet\<rparr>"

definition add_servlet :: "string \<Rightarrow> 'f Servlet \<Rightarrow> 'f ServletDispatch \<Rightarrow> 'f ServletDispatch" where
  "add_servlet path slt sd = sd\<lparr>m_datas := (m_datas sd)(path \<mapsto> slt)\<rparr>"

definition add_servlet_cb :: "string \<Rightarrow> 'f \<Rightarrow> 'f ServletDispatch \<Rightarrow> 'f ServletDispatch" where
  "add_servlet_cb path cb sd = add_servlet path (FunctionServlet cb) sd"

definition del_servlet :: "string \<Rightarrow> 'f ServletDispatch \<Rightarrow> 'f ServletDispatch" where
  "del_servlet path sd = sd\<lparr>m_datas := (m_datas sd)(path := None)\<rparr>"

datatype 'a iter = Erased | Value 'a

text \<open>The loop of \<^verbatim>\<open>add_glob_servlet\<close>, at the element \<open>it\<close>.\<close>

partial_function (option) add_glob_loop :: "string \<Rightarrow> nat \<Rightarrow> (string \<times> 'f Servlet) list \<Rightarrow> (string \<times> 'f Servlet) list iter option" where
  "add_glob_loop path it globs =
     (if it = length globs then Some (Value globs)
      else if fst (globs ! it) = path then Some Erased
      else add_glob_loop path it globs)"

definition add_glob_servlet :: "string \<Rightarrow> 'f Servlet \<Rightarrow> 'f ServletDispatch \<Rightarrow> 'f ServletDispatch iter option" where
  "add_glob_servlet path slt sd =
     (case add_glob_loop path 0 (m_globs sd) of
        None \<Rightarrow> None
      | Some Erased \<Rightarrow> Some Erased
      | Some (Value globs) \<Rightarrow> Some (Value (sd\<lparr>m_globs := globs @ [(path, slt)]\<rparr>)))"

partial_function (option) del_glob_loop :: "string \<Rightarrow> nat \<Rightarrow> (string \<times> 'f Servlet) list \<Rightarrow> (string \<times> 'f Servlet) list option" where
  "del_glob_loop path it globs =
     (if it = length globs then Some globs
      else if fst (globs ! it) = path then Some (take it globs @ drop (it + 1) globs)
      else del_glob_loop path it globs)"

definition del_glob_servlet :: "string \<Rightarrow> 'f ServletDispatch \<Rightarrow> 'f ServletDispatch option" where
  "del_glob_servlet path sd =
     (case del_glob_loop path 0 (m_globs sd) of None \<Rightarrow> None | Some globs \<Rightarrow> Some (sd\<lparr>m_globs := globs\<rparr>))"

definition set_default_servlet :: "'f Servlet option \<Rightarrow> 'f ServletDispatch \<Rightarrow> 'f ServletDispatch" where
  "set_default_servlet slt sd = sd\<lparr>m_default_servlet := slt\<rparr>"

definition get_servlet :: "string \<Rightarrow> 'f ServletDispatch \<Rightarrow> 'f Servlet option" where
  "get_servlet path sd = m_datas sd path"

text \<open>The loops of \<^verbatim>\<open>get_glob_servlet\<close> and \<^verbatim>\<open>get_matched_servlet\<close>, which differ in the test.\<close>

partial_function (option) find_glob_loop :: "(string \<Rightarrow> bool) \<Rightarrow> nat \<Rightarrow> (string \<times> 'f Servlet) list \<Rightarrow> 'f Servlet option option" where
  "find_glob_loop test it globs =
     (if it = length globs then Some None
      else if test (fst (globs ! it)) then Some (Some (snd (globs ! it)))
      else find_glob_loop test it globs)"

definition get_glob_servlet :: "string \<Rightarrow> 'f ServletDispatch \<Rightarrow> 'f Servlet option option" where
  "get_glob_servlet path sd = find_glob_loop (\<lambda>g. g = path) 0 (m_globs sd)"

definition get_matched_servlet :: "(string \<Rightarrow> string \<Rightarrow> bool) \<Rightarrow> string \<Rightarrow> 'f ServletDispatch \<Rightarrow> 'f Servlet option option" where
  "get_matched_servlet fnm path sd =
     (case m_datas sd path of
        Some slt \<Rightarrow> Some (Some slt)
      | None \<Rightarrow>
          (case find_glob_loop (\<lambda>g. fnm (c_str g) (c_str path)) 0 (m_globs sd) of
             None \<Rightarrow> None
           | Some None \<Rightarrow> Some (m_default_servlet sd)
           | Some (Some slt) \<Rightarrow> Some (Some slt)))"

definition ServletDispatch_handle ::
    "(string \<Rightarrow> string \<Rightarrow> bool) \<Rightarrow> ('f \<Rightarrow> 's exchange \<Rightarrow> int \<times> 's exchange) \<Rightarrow> 'f ServletDispatch \<Rightarrow> 's exchange \<Rightarrow> (int \<times> 's exchange) option" where
  "ServletDispatch_handle fnm run sd x =
     (case get_matched_servlet fnm (m_path (fst x)) sd of
        None \<Rightarrow> None
      | Some None \<Rightarrow> Some (0, x)
      | Some (Some slt) \<Rightarrow> Some (0, snd (Servlet_handle run slt x)))"

text \<open>The cast to a WebSocket servlet fails for other servlets.\<close>

definition get_ws_servlet :: "(string \<Rightarrow> string \<Rightarrow> bool) \<Rightarrow> string \<Rightarrow> 'f ServletDispatch \<Rightarrow> 'f Servlet option option" where
  "get_ws_servlet fnm url sd =
     (case get_matched_servlet fnm url sd of
        Some (Some (FunctionWSServlet h c e)) \<Rightarrow> Some (Some (FunctionWSServlet h c e))
      | None \<Rightarrow> None
      | _ \<Rightarrow> Some None)"

definition ws_add_servlet :: "string \<Rightarrow> 'f option \<Rightarrow> 'f option \<Rightarrow> 'f option \<Rightarrow> 'f ServletDispatch \<Rightarrow> 'f ServletDispatch" where
  "ws_add_servlet url cb connect_cb close_cb sd = add_servlet url (FunctionWSServlet cb connect_cb close_cb) sd"

definition ws_add_glob_servlet :: "string \<Rightarrow> 'f option \<Rightarrow> 'f option \<Rightarrow> 'f option \<Rightarrow> 'f ServletDispatch \<Rightarrow> 'f ServletDispatch iter option" where
  "ws_add_glob_servlet url cb connect_cb close_cb sd = add_glob_servlet url (FunctionWSServlet cb connect_cb close_cb) sd"

section \<open>The loops over the patterns\<close>

text \<open>None of them advances: they return at the first pattern or not at all.\<close>

lemma find_glob_stuck:
  assumes "find_glob_loop test it globs = Some r"
  shows "it \<noteq> length globs \<Longrightarrow> test (fst (globs ! it))"
  using assms
proof (induction rule: find_glob_loop.raw_induct [rotated, consumes 1, case_names step])
  case (step loop test it globs r)
  then show ?case by (auto split: if_splits)
qed

lemma add_glob_stuck:
  assumes "add_glob_loop path it globs = Some r"
  shows "it \<noteq> length globs \<Longrightarrow> fst (globs ! it) = path"
  using assms
proof (induction rule: add_glob_loop.raw_induct [rotated, consumes 1, case_names step])
  case (step loop path it globs r)
  then show ?case by (auto split: if_splits)
qed

lemma del_glob_stuck:
  assumes "del_glob_loop path it globs = Some r"
  shows "it \<noteq> length globs \<Longrightarrow> fst (globs ! it) = path"
  using assms
proof (induction rule: del_glob_loop.raw_induct [rotated, consumes 1, case_names step])
  case (step loop path it globs r)
  then show ?case by (auto split: if_splits)
qed

lemma find_glob_loop_eq:
  "find_glob_loop test 0 globs =
     (case globs of [] \<Rightarrow> Some None | (g, slt) # rest \<Rightarrow> if test g then Some (Some slt) else None)"
proof (cases globs)
  case (Cons p rest)
  show ?thesis
  proof (cases "test (fst p)")
    case False
    then have "find_glob_loop test 0 globs \<noteq> Some r" for r using find_glob_stuck [of test 0 globs r] Cons by auto
    then show ?thesis using Cons False by (cases p) auto
  qed (use Cons in \<open>cases p; subst find_glob_loop.simps; simp\<close>)
qed (subst find_glob_loop.simps, simp)

lemma add_glob_loop_eq:
  "add_glob_loop path 0 globs =
     (case globs of [] \<Rightarrow> Some (Value []) | (g, slt) # rest \<Rightarrow> if g = path then Some Erased else None)"
proof (cases globs)
  case (Cons p rest)
  show ?thesis
  proof (cases "fst p = path")
    case False
    then have "add_glob_loop path 0 globs \<noteq> Some r" for r using add_glob_stuck [of path 0 globs r] Cons by auto
    then show ?thesis using Cons False by (cases p) auto
  qed (use Cons in \<open>cases p; subst add_glob_loop.simps; simp\<close>)
qed (subst add_glob_loop.simps, simp)

lemma del_glob_loop_eq:
  "del_glob_loop path 0 globs =
     (case globs of [] \<Rightarrow> Some [] | (g, slt) # rest \<Rightarrow> if g = path then Some rest else None)"
proof (cases globs)
  case (Cons p rest)
  show ?thesis
  proof (cases "fst p = path")
    case False
    then have "del_glob_loop path 0 globs \<noteq> Some r" for r using del_glob_stuck [of path 0 globs r] Cons by auto
    then show ?thesis using Cons False by (cases p) auto
  qed (use Cons in \<open>cases p; subst del_glob_loop.simps; simp\<close>)
qed (subst del_glob_loop.simps, simp)

section \<open>Theorems\<close>

text \<open>
  C20: Dispatch with patterns looks at the first pattern only. A path that is registered exactly is
  found; otherwise, without patterns the default servlet is used, with patterns the servlet of
  the first one if that matches, and if it does not match the lookup never returns. Adding a
  pattern returns for the first pattern only: later it uses an erased iterator when the first
  pattern is the same, and never returns when it is another.
\<close>

theorem glob_dispatch:
  "get_matched_servlet fnm path sd =
     (case m_datas sd path of
        Some slt \<Rightarrow> Some (Some slt)
      | None \<Rightarrow> (case m_globs sd of
            [] \<Rightarrow> Some (m_default_servlet sd)
          | (g, slt) # rest \<Rightarrow> if fnm (c_str g) (c_str path) then Some (Some slt) else None)) \<and>
   add_glob_servlet path slt' sd =
     (case m_globs sd of
        [] \<Rightarrow> Some (Value (sd\<lparr>m_globs := [(path, slt')]\<rparr>))
      | (g, slt) # rest \<Rightarrow> if g = path then Some Erased else None) \<and>
   del_glob_servlet path sd =
     (case m_globs sd of
        [] \<Rightarrow> Some sd
      | (g, slt) # rest \<Rightarrow> if g = path then Some (sd\<lparr>m_globs := rest\<rparr>) else None)"
  by (auto simp: get_matched_servlet_def add_glob_servlet_def del_glob_servlet_def find_glob_loop_eq add_glob_loop_eq
      del_glob_loop_eq split: option.splits list.splits)

text \<open>Registration and removal of exact paths, and the same on a plain map of callbacks.\<close>

fun edit_route :: "string \<times> 'f option \<Rightarrow> 'f ServletDispatch \<Rightarrow> 'f ServletDispatch" where
  "edit_route (path, Some cb) sd = add_servlet_cb path cb sd"
| "edit_route (path, None) sd = del_servlet path sd"

abbreviation routes :: "(string \<times> 'f option) list \<Rightarrow> string \<rightharpoonup> 'f" where
  "routes es \<equiv> fold (\<lambda>(path, cb) m. m(path := cb)) es Map.empty"

lemma edit_route_simulates:
  "m_datas sd = map_option FunctionServlet \<circ> m \<Longrightarrow> m_globs sd = [] \<Longrightarrow> m_default_servlet sd = Some NotFoundServlet \<Longrightarrow>
   m_datas (fold edit_route es sd) = map_option FunctionServlet \<circ> fold (\<lambda>(path, cb) m. m(path := cb)) es m \<and>
   m_globs (fold edit_route es sd) = [] \<and> m_default_servlet (fold edit_route es sd) = Some NotFoundServlet"
proof (induction es arbitrary: sd m)
  case (Cons e es)
  obtain path cb where e: "e = (path, cb)" by fastforce
  have "m_datas (edit_route e sd) = map_option FunctionServlet \<circ> m(path := cb)" "m_globs (edit_route e sd) = []"
    "m_default_servlet (edit_route e sd) = Some NotFoundServlet"
    using Cons.prems by (cases cb; auto simp: e add_servlet_cb_def add_servlet_def del_servlet_def fun_eq_iff)+
  then show ?case using Cons.IH [of "edit_route e sd" "m(path := cb)"] by (simp add: e)
qed simp

text \<open>
  C19: Exact routes are a map. After any sequence of registrations and removals of exact paths, a
  request is handled by the callback that was registered last for its path and not removed since;
  without one, the client gets status 404 and the page that says so, as HTML.
\<close>

theorem exact_routes:
  "\<exists>rsp'. ServletDispatch_handle fnm run (fold edit_route es ServletDispatch_new) (req, HTTPResponse_new v cl, s) =
     Some (case routes es (m_path req) of
         Some cb \<Rightarrow> (0, snd (run cb (req, HTTPResponse_new v cl, s)))
       | None \<Rightarrow> (0, (req, rsp', s))) \<and>
     m_status rsp' = 404 \<and> m_body_rsp rsp' = not_found_body \<and>
     HTTPResponse_get_header ''content-type'' [] rsp' = ''text/html'' \<and> m_close_rsp rsp' = cl \<and> m_version_rsp rsp' = v"
proof -
  let ?sd = "fold edit_route es ServletDispatch_new"
  have sd: "m_datas ?sd = map_option FunctionServlet \<circ> routes es" "m_globs ?sd = []" "m_default_servlet ?sd = Some NotFoundServlet"
    using edit_route_simulates [of ServletDispatch_new Map.empty es] by (auto simp: ServletDispatch_new_def fun_eq_iff)
  have m: "get_matched_servlet fnm p ?sd = Some (case routes es p of Some cb \<Rightarrow> Some (FunctionServlet cb) | None \<Rightarrow> Some NotFoundServlet)" for p
    by (auto simp: get_matched_servlet_def sd find_glob_loop_eq split: option.splits)
  let ?r1 = "(HTTPResponse_new v cl)\<lparr>m_status := 404\<rparr>"
  let ?r2 = "HTTPResponse_set_header ''Content-Type'' ''text/html'' ?r1"
  let ?r = "(HTTPResponse_set_header ''Server'' ''tigerkin/1.0.0'' ?r2)\<lparr>m_body_rsp := not_found_body\<rparr>"
  have ok: "wf_fields (m_headers_rsp ?r1)" by (simp add: HTTPResponse_new_def)
  have "folded ''Content-Type'' = folded ''content-type''" "folded ''Server'' \<noteq> folded ''content-type''"
    by (simp_all add: folded_def c_str_def tolower_def)
  then have h: "HTTPResponse_get_header ''content-type'' [] ?r = ''text/html''"
    using rsp.get_put [OF ok] rsp.get_put [OF rsp.ok_put [OF ok]] by (simp add: HTTPResponse_get_header_def)
  have n: "NotFoundServlet_handle (req, HTTPResponse_new v cl, s) = (0, (req, ?r, s))"
    "m_status ?r = 404" "m_body_rsp ?r = not_found_body" "m_close_rsp ?r = cl" "m_version_rsp ?r = v"
    by (simp_all add: NotFoundServlet_handle_def Let_def HTTPResponse_set_header_def HTTPResponse_new_def)
  show ?thesis using n h by (intro exI [of _ ?r]) (auto simp: ServletDispatch_handle_def m split: option.splits)
qed

end
