(* ===== verification/Streams.thy ===== *)
theory Streams
  imports ByteArray
begin

text \<open>
  Streams, \<^verbatim>\<open>src/streams/stream.cc\<close> and \<^verbatim>\<open>socket_stream.cc\<close>, and the part of \<^verbatim>\<open>src/socket.cc\<close>
  they call. \<open>Stream\<close> holds the virtual functions of the class; the functions that transfer a
  fixed number of bytes call them, as the base class does. The system calls, as the hooked
  functions return, are the parameters of \<open>sys\<close>: each takes the state of the system \<open>'k\<close>.

  The locales \<open>byte_source\<close> and \<open>byte_sink\<close> state what is relied on: a read delivers a non-empty
  part of what is on its way, a write takes a non-empty part of what it is given.
\<close>

section \<open>Integers of C++\<close>

text \<open>Conversions to \<^verbatim>\<open>int\<close> and to \<^verbatim>\<open>int64_t\<close>.\<close>

definition to_int :: "int \<Rightarrow> int" where
  "to_int x = signed_take_bit 31 x"

definition to_int64 :: "int \<Rightarrow> int" where
  "to_int64 x = signed_take_bit 63 x"

lemma to_int_id: "- (2 ^ 31) \<le> x \<Longrightarrow> x < 2 ^ 31 \<Longrightarrow> to_int x = x"
  by (simp add: to_int_def signed_take_bit_int_eq_self)

lemma to_int64_id: "- (2 ^ 63) \<le> x \<Longrightarrow> x < 2 ^ 63 \<Longrightarrow> to_int64 x = x"
  by (simp add: to_int64_def signed_take_bit_int_eq_self)

section \<open>Sockets\<close>

text \<open>What a socket uses of an \<^verbatim>\<open>Address\<close>: the family, the bytes behind it, and the length.\<close>

record sock_address =
  a_family :: int
  a_data :: "byte list"
  a_len :: nat

record Socket =
  m_sock :: int
  m_family :: int
  m_type :: int
  m_protocol :: int
  m_is_connected :: bool
  m_local_addr :: "sock_address option"
  m_remote_addr :: "sock_address option"

text \<open>
  \<open>sys_recv\<close> and \<open>sys_recvmsg\<close> take the descriptor and how many bytes fit and return the
  result and the bytes stored; \<open>sys_send\<close> and \<open>sys_sendmsg\<close> take the bytes offered.
\<close>

record 'k sys =
  sys_recv :: "int \<Rightarrow> nat \<Rightarrow> 'k \<Rightarrow> (int \<times> byte list) \<times> 'k"
  sys_recvmsg :: "int \<Rightarrow> nat \<Rightarrow> 'k \<Rightarrow> (int \<times> byte list) \<times> 'k"
  sys_send :: "int \<Rightarrow> byte list \<Rightarrow> 'k \<Rightarrow> int \<times> 'k"
  sys_sendmsg :: "int \<Rightarrow> byte list \<Rightarrow> 'k \<Rightarrow> int \<times> 'k"
  sys_close :: "int \<Rightarrow> 'k \<Rightarrow> 'k"

definition Socket_new :: "int \<Rightarrow> int \<Rightarrow> int \<Rightarrow> Socket" where
  "Socket_new family type protocol =
     \<lparr>m_sock = -1, m_family = family, m_type = type, m_protocol = protocol, m_is_connected = False,
      m_local_addr = None, m_remote_addr = None\<rparr>"

definition is_valid :: "Socket \<Rightarrow> bool" where
  "is_valid s \<longleftrightarrow> m_sock s \<noteq> -1"

definition Socket_close :: "'k sys \<Rightarrow> Socket \<Rightarrow> 'k \<Rightarrow> bool \<times> Socket \<times> 'k" where
  "Socket_close sys s k =
     (if \<not> m_is_connected s \<and> m_sock s = -1 then (True, s, k)
      else
        let s1 = s\<lparr>m_is_connected := False\<rparr> in
        if m_sock s1 \<noteq> -1 then (True, s1\<lparr>m_sock := -1\<rparr>, sys_close sys (m_sock s1) k) else (True, s1, k))"

definition Socket_send :: "'k sys \<Rightarrow> Socket \<Rightarrow> byte list \<Rightarrow> 'k \<Rightarrow> int \<times> 'k" where
  "Socket_send sys s buffer k =
     (if m_is_connected s then map_prod to_int id (sys_send sys (m_sock s) buffer k) else (-1, k))"

definition Socket_send_iov :: "'k sys \<Rightarrow> Socket \<Rightarrow> byte list \<Rightarrow> 'k \<Rightarrow> int \<times> 'k" where
  "Socket_send_iov sys s buffers k =
     (if m_is_connected s then map_prod to_int id (sys_sendmsg sys (m_sock s) buffers k) else (-1, k))"

definition Socket_recv :: "'k sys \<Rightarrow> Socket \<Rightarrow> nat \<Rightarrow> 'k \<Rightarrow> (int \<times> byte list) \<times> 'k" where
  "Socket_recv sys s len k =
     (if m_is_connected s then map_prod (map_prod to_int id) id (sys_recv sys (m_sock s) len k) else ((-1, []), k))"

definition Socket_recv_iov :: "'k sys \<Rightarrow> Socket \<Rightarrow> nat \<Rightarrow> 'k \<Rightarrow> (int \<times> byte list) \<times> 'k" where
  "Socket_recv_iov sys s len k =
     (if m_is_connected s then map_prod (map_prod to_int id) id (sys_recvmsg sys (m_sock s) len k) else ((-1, []), k))"

section \<open>The stream interface\<close>

text \<open>
  The virtual functions on plain buffers. A read returns its result and the bytes it stored.
\<close>

record 's Stream =
  st_read :: "nat \<Rightarrow> 's \<Rightarrow> (int \<times> byte list) \<times> 's"
  st_write :: "byte list \<Rightarrow> 's \<Rightarrow> int \<times> 's"
  st_close :: "'s \<Rightarrow> 's"

text \<open>\<open>got\<close> is what is in the buffer already.\<close>

function read_fixed_loop ::
  "(nat \<Rightarrow> 's \<Rightarrow> (int \<times> byte list) \<times> 's) \<Rightarrow> nat \<Rightarrow> int \<Rightarrow> byte list \<Rightarrow> 's \<Rightarrow> (int \<times> byte list) \<times> 's" where
  "read_fixed_loop rd len left got s =
     (if left > 0 then
        case rd (nat left) s of
          ((read_len, bs), s') \<Rightarrow>
            if read_len \<le> 0 then ((to_int read_len, got @ bs), s')
            else read_fixed_loop rd len (left - read_len) (got @ bs) s'
      else ((to_int (int len), got), s))"
  by pat_completeness auto
termination by (relation "measure (\<lambda>(rd, len, left, got, s). nat left)") auto

declare read_fixed_loop.simps [simp del]

definition read_fixed_size :: "('s, 'x) Stream_scheme \<Rightarrow> nat \<Rightarrow> 's \<Rightarrow> (int \<times> byte list) \<times> 's" where
  "read_fixed_size st len s = read_fixed_loop (st_read st) len (to_int64 (int len)) [] s"

function write_fixed_loop ::
  "(byte list \<Rightarrow> 's \<Rightarrow> int \<times> 's) \<Rightarrow> byte list \<Rightarrow> nat \<Rightarrow> int \<Rightarrow> 's \<Rightarrow> int \<times> 's" where
  "write_fixed_loop wr buffer offset left s =
     (if left > 0 then
        case wr (take (nat left) (drop offset buffer)) s of
          (write_len, s') \<Rightarrow>
            if write_len \<le> 0 then (to_int write_len, s')
            else write_fixed_loop wr buffer (offset + nat write_len) (left - write_len) s'
      else (to_int (int (length buffer)), s))"
  by pat_completeness auto
termination by (relation "measure (\<lambda>(wr, buffer, offset, left, s). nat left)") auto

declare write_fixed_loop.simps [simp del]

text \<open>The length is that of the buffer.\<close>

definition write_fixed_size :: "('s, 'x) Stream_scheme \<Rightarrow> byte list \<Rightarrow> 's \<Rightarrow> int \<times> 's" where
  "write_fixed_size st buffer s = write_fixed_loop (st_write st) buffer 0 (to_int64 (int (length buffer))) s"

text \<open>
  On byte arrays, which may throw. The second loop compares \<^verbatim>\<open>len\<close>, not \<^verbatim>\<open>write_len\<close>, with
  zero and may run forever: \<open>None\<close>.
\<close>

function read_fixed_ba_loop :: "(nat \<Rightarrow> ('s, ba_error, int) se) \<Rightarrow> nat \<Rightarrow> int \<Rightarrow> ('s, ba_error, int) se" where
  "read_fixed_ba_loop rd len left s =
     (if left > 0 then
        case rd (nat left) s of
          (Inl e, s') \<Rightarrow> (Inl e, s')
        | (Inr read_len, s') \<Rightarrow>
            if read_len \<le> 0 then (Inr (to_int read_len), s')
            else read_fixed_ba_loop rd len (left - read_len) s'
      else (Inr (to_int (int len)), s))"
  by pat_completeness auto
termination by (relation "measure (\<lambda>(rd, len, left, s). nat left)") auto

declare read_fixed_ba_loop.simps [simp del]

definition read_fixed_size_ba :: "(nat \<Rightarrow> ('s, ba_error, int) se) \<Rightarrow> nat \<Rightarrow> ('s, ba_error, int) se" where
  "read_fixed_size_ba rd len = read_fixed_ba_loop rd len (to_int64 (int len))"

partial_function (option) write_fixed_ba_loop ::
  "(nat \<Rightarrow> ('s, ba_error, int) se) \<Rightarrow> nat \<Rightarrow> int \<Rightarrow> 's \<Rightarrow> ((ba_error + int) \<times> 's) option" where
  "write_fixed_ba_loop wr len left s =
     (if left > 0 then
        case wr (nat left) s of
          (Inl e, s') \<Rightarrow> Some (Inl e, s')
        | (Inr write_len, s') \<Rightarrow>
            if len \<le> 0 then Some (Inr (to_int write_len), s')
            else write_fixed_ba_loop wr len (left - write_len) s'
      else Some (Inr (to_int (int len)), s))"

definition write_fixed_size_ba ::
  "(nat \<Rightarrow> ('s, ba_error, int) se) \<Rightarrow> nat \<Rightarrow> 's \<Rightarrow> ((ba_error + int) \<times> 's) option" where
  "write_fixed_size_ba wr len s = write_fixed_ba_loop wr len (to_int64 (int len)) s"

section \<open>Streams on sockets\<close>

record SocketStream =
  m_socket :: "Socket option"
  m_owner :: bool

definition SocketStream_is_connected :: "SocketStream \<Rightarrow> bool" where
  "SocketStream_is_connected st \<longleftrightarrow> (case m_socket st of None \<Rightarrow> False | Some s \<Rightarrow> m_is_connected s)"

definition SocketStream_read ::
  "'k sys \<Rightarrow> nat \<Rightarrow> SocketStream \<times> 'k \<Rightarrow> (int \<times> byte list) \<times> (SocketStream \<times> 'k)" where
  "SocketStream_read sys len = (\<lambda>(st, k).
     if \<not> SocketStream_is_connected st then ((-1, []), (st, k))
     else case Socket_recv sys (the (m_socket st)) len k of (r, k') \<Rightarrow> (r, (st, k')))"

definition SocketStream_write ::
  "'k sys \<Rightarrow> byte list \<Rightarrow> SocketStream \<times> 'k \<Rightarrow> int \<times> (SocketStream \<times> 'k)" where
  "SocketStream_write sys buffer = (\<lambda>(st, k).
     if \<not> SocketStream_is_connected st then (-1, (st, k))
     else case Socket_send sys (the (m_socket st)) buffer k of (r, k') \<Rightarrow> (r, (st, k')))"

definition SocketStream_close :: "'k sys \<Rightarrow> SocketStream \<times> 'k \<Rightarrow> SocketStream \<times> 'k" where
  "SocketStream_close sys = (\<lambda>(st, k).
     case m_socket st of
       None \<Rightarrow> (st, k)
     | Some s \<Rightarrow> (case Socket_close sys s k of (b, s', k') \<Rightarrow> (st\<lparr>m_socket := Some s'\<rparr>, k')))"

definition SocketStream_destroy :: "'k sys \<Rightarrow> SocketStream \<times> 'k \<Rightarrow> SocketStream \<times> 'k" where
  "SocketStream_destroy sys = (\<lambda>(st, k).
     if m_owner st \<and> m_socket st \<noteq> None then SocketStream_close sys (st, k) else (st, k))"

definition SocketStream_ops :: "'k sys \<Rightarrow> (SocketStream \<times> 'k) Stream" where
  "SocketStream_ops sys =
     \<lparr>st_read = SocketStream_read sys, st_write = SocketStream_write sys, st_close = SocketStream_close sys\<rparr>"

type_synonym 'k ba_state = "bytearray \<times> SocketStream \<times> 'k"

definition SocketStream_read_ba :: "'k sys \<Rightarrow> nat \<Rightarrow> ('k ba_state, ba_error, int) se" where
  "SocketStream_read_ba sys len = (\<lambda>(ba, st, k).
     if \<not> SocketStream_is_connected st then (Inr (-1), (ba, st, k))
     else case get_enable_write_buffers len ba of
       (Inl e, ba1) \<Rightarrow> (Inl e, (ba1, st, k))
     | (Inr (iovs, _), ba1) \<Rightarrow>
         (case Socket_recv_iov sys (the (m_socket st)) (sum_list (map iov_len iovs)) k of
            ((rt, bs), k') \<Rightarrow>
              let ba2 = ba1\<lparr>ba_root := scatter iovs bs (ba_root ba1)\<rparr> in
              if rt > 0 then
                (case set_position (ba_position ba2 + nat rt) ba2 of
                   (Inl e, ba3) \<Rightarrow> (Inl e, (ba3, st, k'))
                 | (Inr _, ba3) \<Rightarrow> (Inr rt, (ba3, st, k')))
              else (Inr rt, (ba2, st, k'))))"

definition SocketStream_write_ba :: "'k sys \<Rightarrow> nat \<Rightarrow> ('k ba_state, ba_error, int) se" where
  "SocketStream_write_ba sys len = (\<lambda>(ba, st, k).
     if \<not> SocketStream_is_connected st then (Inr (-1), (ba, st, k))
     else case get_enable_read_buffers len ba of
       Inl e \<Rightarrow> (Inl e, (ba, st, k))
     | Inr (iovs, _) \<Rightarrow>
         (case Socket_send_iov sys (the (m_socket st)) (concat (map (iov_bytes ba) iovs)) k of
            (rt, k') \<Rightarrow>
              if rt > 0 then
                (case set_position (ba_position ba + nat rt) ba of
                   (Inl e, ba1) \<Rightarrow> (Inl e, (ba1, st, k'))
                 | (Inr _, ba1) \<Rightarrow> (Inr rt, (ba1, st, k')))
              else (Inr rt, (ba, st, k'))))"

section \<open>What is relied on\<close>

locale byte_source =
  fixes st :: "'s Stream" and pending :: "'s \<Rightarrow> byte list"
  assumes delivers: "0 < n \<Longrightarrow> n < 2 ^ 31 \<Longrightarrow> pending s \<noteq> [] \<Longrightarrow>
      \<exists>bs s'. st_read st n s = ((int (length bs), bs), s') \<and> bs \<noteq> [] \<and> length bs \<le> n \<and> pending s = bs @ pending s'"
    and ends: "0 < n \<Longrightarrow> pending s = [] \<Longrightarrow>
      \<exists>r s'. st_read st n s = ((r, []), s') \<and> - (2 ^ 31) \<le> r \<and> r \<le> 0 \<and> pending s' = []"
begin

lemma read_loop_exact:
  "n < 2 ^ 31 \<Longrightarrow> n \<le> length (pending s) \<Longrightarrow>
     \<exists>s'. read_fixed_loop (st_read st) len (int n) got s = ((to_int (int len), got @ take n (pending s)), s') \<and>
       pending s' = drop n (pending s)"
proof (induction n arbitrary: got s rule: less_induct)
  case (less n)
  show ?case
  proof (cases "n = 0")
    case True
    then show ?thesis by (simp add: read_fixed_loop.simps)
  next
    case False
    then obtain bs s1 where r: "st_read st n s = ((int (length bs), bs), s1)" "bs \<noteq> []" "length bs \<le> n"
      "pending s = bs @ pending s1" using delivers [of n s] less.prems by force
    then have "n - length bs < n" "n - length bs < 2 ^ 31" "n - length bs \<le> length (pending s1)"
      using False less.prems by auto
    from less.IH [OF this, of "got @ bs"] obtain s' where
      "read_fixed_loop (st_read st) len (int (n - length bs)) (got @ bs) s1 =
         ((to_int (int len), (got @ bs) @ take (n - length bs) (pending s1)), s')"
      "pending s' = drop (n - length bs) (pending s1)" by blast
    then show ?thesis using r False
      by (subst read_fixed_loop.simps) auto
  qed
qed

lemma read_exact:
  assumes "n < 2 ^ 31" "n \<le> length (pending s)"
  obtains s' where "read_fixed_size st n s = ((int n, take n (pending s)), s')" "pending s' = drop n (pending s)"
  using read_loop_exact [OF assms, of n "[]"] assms(1)
  by (auto simp: read_fixed_size_def to_int_id to_int64_id)

lemma read_loop_short:
  "n < 2 ^ 31 \<Longrightarrow> length (pending s) < n \<Longrightarrow>
     \<exists>r s'. read_fixed_loop (st_read st) len (int n) got s = ((r, got @ pending s), s') \<and> r \<le> 0 \<and> pending s' = []"
proof (induction n arbitrary: got s rule: less_induct)
  case (less n)
  then have n: "0 < n" by simp
  show ?case
  proof (cases "pending s = []")
    case True
    from ends [OF n this] obtain r s' where
      "st_read st n s = ((r, []), s')" "- (2 ^ 31) \<le> r" "r \<le> 0" "pending s' = []" by blast
    then show ?thesis using n True by (subst read_fixed_loop.simps) (simp add: to_int_id)
  next
    case False
    then obtain bs s1 where r: "st_read st n s = ((int (length bs), bs), s1)" "bs \<noteq> []" "length bs \<le> n"
      "pending s = bs @ pending s1" using delivers [of n s] less.prems n by force
    then have "n - length bs < n" "n - length bs < 2 ^ 31" "length (pending s1) < n - length bs"
      using n less.prems by auto
    from less.IH [OF this, of "got @ bs"] obtain r' s' where
      "read_fixed_loop (st_read st) len (int (n - length bs)) (got @ bs) s1 = ((r', (got @ bs) @ pending s1), s')"
      "r' \<le> 0" "pending s' = []" by blast
    then show ?thesis using r n by (subst read_fixed_loop.simps) auto
  qed
qed

lemma read_short:
  assumes "n < 2 ^ 31" "length (pending s) < n"
  obtains r s' where "read_fixed_size st n s = ((r, pending s), s')" "r \<le> 0" "pending s' = []"
  using read_loop_short [OF assms, of n "[]"] assms(1) by (auto simp: read_fixed_size_def to_int64_id)

end

locale byte_sink =
  fixes st :: "'s Stream" and sent :: "'s \<Rightarrow> byte list" and ready :: "'s \<Rightarrow> bool"
  assumes accepts: "ready s \<Longrightarrow> bs \<noteq> [] \<Longrightarrow> length bs < 2 ^ 31 \<Longrightarrow>
      \<exists>n s'. st_write st bs s = (int n, s') \<and> 0 < n \<and> n \<le> length bs \<and> sent s' = sent s @ take n bs \<and> ready s'"
begin

lemma write_loop_exact:
  "ready s \<Longrightarrow> length bs < 2 ^ 31 \<Longrightarrow> i \<le> length bs \<Longrightarrow>
     \<exists>s'. write_fixed_loop (st_write st) bs i (int (length bs - i)) s = (to_int (int (length bs)), s') \<and>
       sent s' = sent s @ drop i bs \<and> ready s'"
proof (induction "length bs - i" arbitrary: i s rule: less_induct)
  case less
  show ?case
  proof (cases "i = length bs")
    case True
    then show ?thesis using less.prems by (simp add: write_fixed_loop.simps)
  next
    case False
    then have "drop i bs \<noteq> []" "length (drop i bs) < 2 ^ 31" using less.prems by auto
    from accepts [OF less.prems(1) this] obtain n s1 where
      w: "st_write st (drop i bs) s = (int n, s1)" "0 < n" "n \<le> length (drop i bs)"
        "sent s1 = sent s @ take n (drop i bs)" "ready s1" by blast
    then have "length bs - (i + n) < length bs - i" "i + n \<le> length bs" using False less.prems by auto
    from less.hyps [OF this(1) w(5) less.prems(2) this(2)] obtain s' where
      s': "write_fixed_loop (st_write st) bs (i + n) (int (length bs - (i + n))) s1 = (to_int (int (length bs)), s')"
        "sent s' = sent s1 @ drop (i + n) bs" "ready s'" by blast
    have "take n (drop i bs) @ drop (i + n) bs = drop i bs"
      by (metis append_take_drop_id drop_drop add.commute)
    moreover have "write_fixed_loop (st_write st) bs i (int (length bs - i)) s =
        write_fixed_loop (st_write st) bs (i + n) (int (length bs - i) - int n) s1"
      using w(1,2) False less.prems(3) by (subst write_fixed_loop.simps) simp
    moreover have "int (length bs - i) - int n = int (length bs - (i + n))" using w(3) less.prems by simp
    ultimately show ?thesis using s' w(4) by simp
  qed
qed

lemma write_exact:
  assumes "ready s" "length bs < 2 ^ 31"
  obtains s' where "write_fixed_size st bs s = (int (length bs), s')" "sent s' = sent s @ bs" "ready s'"
  using write_loop_exact [OF assms, of 0] assms(2) by (auto simp: write_fixed_size_def to_int_id to_int64_id)

end

text \<open>Both directions do not disturb each other.\<close>

locale duplex = byte_source st pending + byte_sink st sent ready
  for st :: "'s Stream" and pending sent ready +
  assumes read_keeps: "st_read st n s = (r, s') \<Longrightarrow> sent s' = sent s \<and> (ready s \<longrightarrow> ready s')"
    and write_keeps: "st_write st bs s = (m, s') \<Longrightarrow> pending s' = pending s"
begin

lemma read_loop_keeps:
  "read_fixed_loop (st_read st) len left got s = (r, s') \<Longrightarrow> sent s' = sent s \<and> (ready s \<longrightarrow> ready s')"
proof (induction "st_read st" len left got s rule: read_fixed_loop.induct)
  case (1 len left got s)
  obtain n bs s1 where rd: "st_read st (nat left) s = ((n, bs), s1)" by (metis surj_pair)
  show ?case
  proof (cases "left > 0 \<and> n > 0")
    case True
    then show ?thesis using 1 rd read_keeps [OF rd] by (auto simp: read_fixed_loop.simps [of _ _ left])
  next
    case False
    then show ?thesis using 1(2) rd read_keeps [OF rd]
      by (auto simp: read_fixed_loop.simps [of _ _ left] split: if_splits)
  qed
qed

lemma read_fixed_keeps: "read_fixed_size st n s = (r, s') \<Longrightarrow> sent s' = sent s \<and> (ready s \<longrightarrow> ready s')"
  unfolding read_fixed_size_def by (rule read_loop_keeps)

lemma write_loop_keeps: "write_fixed_loop (st_write st) bs i left s = (m, s') \<Longrightarrow> pending s' = pending s"
proof (induction "st_write st" bs i left s rule: write_fixed_loop.induct)
  case (1 bs i left s)
  obtain n s1 where wr: "st_write st (take (nat left) (drop i bs)) s = (n, s1)" by (metis surj_pair)
  show ?case
  proof (cases "left > 0 \<and> n > 0")
    case True
    then show ?thesis using 1 wr write_keeps [OF wr] by (auto simp: write_fixed_loop.simps [of _ _ _ left])
  next
    case False
    then show ?thesis using 1(2) wr write_keeps [OF wr]
      by (auto simp: write_fixed_loop.simps [of _ _ _ left] split: if_splits)
  qed
qed

lemma write_fixed_keeps: "write_fixed_size st bs s = (m, s') \<Longrightarrow> pending s' = pending s"
  unfolding write_fixed_size_def by (rule write_loop_keeps)

end

section \<open>Sockets as streams\<close>

text \<open>
  What \<^verbatim>\<open>recv\<close> and \<^verbatim>\<open>send\<close> promise for a connected stream socket: bytes arrive in order and in
  pieces of the system's choice, a result of 0 or -1 only comes when nothing more will arrive,
  and a socket that stays writable takes some of the bytes offered.
\<close>

locale stream_socket =
  fixes sys :: "'k sys" and incoming :: "int \<Rightarrow> 'k \<Rightarrow> byte list" and outgoing :: "int \<Rightarrow> 'k \<Rightarrow> byte list"
    and writable :: "int \<Rightarrow> 'k \<Rightarrow> bool"
  assumes recv_delivers: "0 < n \<Longrightarrow> incoming fd k \<noteq> [] \<Longrightarrow>
      \<exists>bs k'. sys_recv sys fd n k = ((int (length bs), bs), k') \<and> bs \<noteq> [] \<and> length bs \<le> n \<and>
        incoming fd k = bs @ incoming fd k'"
    and recv_ends: "0 < n \<Longrightarrow> incoming fd k = [] \<Longrightarrow>
      \<exists>r k'. sys_recv sys fd n k = ((r, []), k') \<and> (r = 0 \<or> r = -1) \<and> incoming fd k' = []"
    and send_accepts: "writable fd k \<Longrightarrow> bs \<noteq> [] \<Longrightarrow>
      \<exists>n k'. sys_send sys fd bs k = (int n, k') \<and> 0 < n \<and> n \<le> length bs \<and>
        outgoing fd k' = outgoing fd k @ take n bs \<and> writable fd k'"
    and recv_keeps: "sys_recv sys fd n k = (r, k') \<Longrightarrow> outgoing fd k' = outgoing fd k \<and> (writable fd k \<longrightarrow> writable fd k')"
    and send_keeps: "sys_send sys fd bs k = (m, k') \<Longrightarrow> incoming fd k' = incoming fd k"

abbreviation ss_fd :: "SocketStream \<Rightarrow> int" where
  "ss_fd st \<equiv> m_sock (the (m_socket st))"

definition ss_pending :: "(int \<Rightarrow> 'k \<Rightarrow> byte list) \<Rightarrow> SocketStream \<times> 'k \<Rightarrow> byte list" where
  "ss_pending incoming = (\<lambda>(st, k). if SocketStream_is_connected st then incoming (ss_fd st) k else [])"

definition ss_sent :: "(int \<Rightarrow> 'k \<Rightarrow> byte list) \<Rightarrow> SocketStream \<times> 'k \<Rightarrow> byte list" where
  "ss_sent outgoing = (\<lambda>(st, k). if SocketStream_is_connected st then outgoing (ss_fd st) k else [])"

definition ss_ready :: "(int \<Rightarrow> 'k \<Rightarrow> bool) \<Rightarrow> SocketStream \<times> 'k \<Rightarrow> bool" where
  "ss_ready writable = (\<lambda>(st, k). SocketStream_is_connected st \<and> writable (ss_fd st) k)"

lemma connected_socket: "SocketStream_is_connected st \<Longrightarrow> m_is_connected (the (m_socket st))"
  by (auto simp: SocketStream_is_connected_def split: option.splits)

lemmas ss_defs = SocketStream_ops_def SocketStream_read_def SocketStream_write_def Socket_recv_def Socket_send_def
  ss_pending_def ss_sent_def ss_ready_def

sublocale stream_socket \<subseteq> ss: duplex "SocketStream_ops sys" "ss_pending incoming" "ss_sent outgoing" "ss_ready writable"
proof
  fix n :: nat and s :: "SocketStream \<times> 'k"
  obtain st k where s: "s = (st, k)" by force
  note c = connected_socket [of st]
  {
    assume "0 < n" "n < 2 ^ 31" "ss_pending incoming s \<noteq> []"
    then have p: "SocketStream_is_connected st" "incoming (ss_fd st) k \<noteq> []"
      by (auto simp: s ss_pending_def split: if_splits)
    from recv_delivers [OF \<open>0 < n\<close> p(2)] obtain bs k' where
      "sys_recv sys (ss_fd st) n k = ((int (length bs), bs), k')" "bs \<noteq> []" "length bs \<le> n"
      "incoming (ss_fd st) k = bs @ incoming (ss_fd st) k'" by blast
    then show "\<exists>bs s'. st_read (SocketStream_ops sys) n s = ((int (length bs), bs), s') \<and> bs \<noteq> [] \<and> length bs \<le> n \<and>
        ss_pending incoming s = bs @ ss_pending incoming s'"
      using p c \<open>n < 2 ^ 31\<close> by (simp add: ss_defs s to_int_id)
  next
    assume "0 < n" and e: "ss_pending incoming s = []"
    then show "\<exists>r s'. st_read (SocketStream_ops sys) n s = ((r, []), s') \<and> - (2 ^ 31) \<le> r \<and> r \<le> 0 \<and>
        ss_pending incoming s' = []"
    proof (cases "SocketStream_is_connected st")
      case True
      then have "incoming (ss_fd st) k = []" using e by (simp add: s ss_pending_def)
      from recv_ends [OF \<open>0 < n\<close> this] obtain r k' where
        "sys_recv sys (ss_fd st) n k = ((r, []), k')" "r = 0 \<or> r = -1" "incoming (ss_fd st) k' = []" by blast
      then have "st_read (SocketStream_ops sys) n s = ((r, []), (st, k'))" "- (2 ^ 31) \<le> r" "r \<le> 0"
          "ss_pending incoming (st, k') = []"
        using True c by (auto simp: ss_defs s to_int_id)
      then show ?thesis by blast
    qed (simp add: ss_defs s)
  next
    fix bs :: "byte list"
    assume "ss_ready writable s" "bs \<noteq> []" "length bs < 2 ^ 31"
    then have p: "SocketStream_is_connected st" "writable (ss_fd st) k" by (auto simp: s ss_ready_def)
    from send_accepts [OF p(2) \<open>bs \<noteq> []\<close>] p c \<open>length bs < 2 ^ 31\<close>
    show "\<exists>n s'. st_write (SocketStream_ops sys) bs s = (int n, s') \<and> 0 < n \<and> n \<le> length bs \<and>
        ss_sent outgoing s' = ss_sent outgoing s @ take n bs \<and> ss_ready writable s'"
      by (fastforce simp: ss_defs s to_int_id)
  next
    fix r s'
    assume "st_read (SocketStream_ops sys) n s = (r, s')"
    then show "ss_sent outgoing s' = ss_sent outgoing s \<and> (ss_ready writable s \<longrightarrow> ss_ready writable s')"
      using recv_keeps [of "ss_fd st" n k] c
      by (cases "sys_recv sys (ss_fd st) n k") (auto simp: ss_defs s split: if_splits)
  next
    fix bs m s'
    assume "st_write (SocketStream_ops sys) bs s = (m, s')"
    then show "ss_pending incoming s' = ss_pending incoming s"
      using send_keeps [of "ss_fd st" bs k] c
      by (cases "sys_send sys (ss_fd st) bs k") (auto simp: ss_defs s split: if_splits)
  }
qed

context stream_socket
begin

lemma transfers:
  assumes "n < 2 ^ 31" "length buffer < 2 ^ 31"
  shows "n \<le> length (ss_pending incoming s) \<Longrightarrow>
      \<exists>s'. read_fixed_size (SocketStream_ops sys) n s = ((int n, take n (ss_pending incoming s)), s') \<and>
        ss_pending incoming s' = drop n (ss_pending incoming s)"
    and "length (ss_pending incoming s) < n \<Longrightarrow> fst (fst (read_fixed_size (SocketStream_ops sys) n s)) \<le> 0"
    and "ss_ready writable s \<Longrightarrow>
      \<exists>s'. write_fixed_size (SocketStream_ops sys) buffer s = (int (length buffer), s') \<and>
        ss_sent outgoing s' = ss_sent outgoing s @ buffer"
  using ss.read_exact [OF assms(1), of s] ss.read_short [OF assms(1), of s] ss.write_exact [OF _ assms(2), of s]
  by (blast, metis fst_conv, blast)

end

text \<open>
  A system with one connection: what arrives comes in the given segments, and at most \<open>window\<close>
  bytes are taken at a time.
\<close>

record net =
  inbox :: "byte list list"
  outbox :: "byte list"
  window :: nat

fun take_segment :: "nat \<Rightarrow> byte list list \<Rightarrow> byte list \<times> byte list list" where
  "take_segment n [] = ([], [])"
| "take_segment n (x # xs) = (if x = [] then take_segment n xs else (take n x, drop n x # xs))"

definition net_recv :: "int \<Rightarrow> nat \<Rightarrow> net \<Rightarrow> (int \<times> byte list) \<times> net" where
  "net_recv fd n k = (let (bs, xs) = take_segment n (inbox k) in ((int (length bs), bs), k\<lparr>inbox := xs\<rparr>))"

definition net_send :: "int \<Rightarrow> byte list \<Rightarrow> net \<Rightarrow> int \<times> net" where
  "net_send fd bs k =
     (let n = min (length bs) (window k) in (int n, k\<lparr>outbox := outbox k @ take n bs\<rparr>))"

definition net_sys :: "net sys" where
  "net_sys = \<lparr>sys_recv = net_recv, sys_recvmsg = net_recv, sys_send = net_send, sys_sendmsg = net_send, sys_close = \<lambda>fd k. k\<rparr>"

lemma take_segment_spec:
  "0 < n \<Longrightarrow> take_segment n xs = (bs, ys) \<Longrightarrow> concat xs = bs @ concat ys \<and> length bs \<le> n \<and> (bs = [] \<longrightarrow> concat xs = [])"
  by (induction n xs rule: take_segment.induct) (auto split: if_splits)

interpretation net: stream_socket net_sys "\<lambda>fd k. concat (inbox k)" "\<lambda>fd k. outbox k" "\<lambda>fd k. 0 < window k"
proof
  fix n :: nat and fd :: int and k :: net
  assume n: "0 < n"
  obtain bs xs where t: "take_segment n (inbox k) = (bs, xs)" by force
  note spec = take_segment_spec [OF n t]
  show "\<exists>bs k'. sys_recv net_sys fd n k = ((int (length bs), bs), k') \<and> bs \<noteq> [] \<and> length bs \<le> n \<and>
      concat (inbox k) = bs @ concat (inbox k')" if "concat (inbox k) \<noteq> []"
    using that spec t by (auto simp: net_sys_def net_recv_def Let_def simp del: concat_eq_Nil_conv Nil_eq_concat_conv)
  show "\<exists>r k'. sys_recv net_sys fd n k = ((r, []), k') \<and> (r = 0 \<or> r = -1) \<and> concat (inbox k') = []"
    if "concat (inbox k) = []"
    using that spec t by (simp add: net_sys_def net_recv_def Let_def del: concat_eq_Nil_conv Nil_eq_concat_conv)
qed (auto simp: net_sys_def net_recv_def net_send_def Let_def min_def split: prod.splits)

lemma write_ba_stuck:
  "write_fixed_ba_loop wr len left s = Some y \<Longrightarrow>
     wr = SocketStream_write_ba sys \<and> \<not> SocketStream_is_connected (fst (snd s)) \<and> 0 < len \<longrightarrow> left \<le> 0"
proof (induction wr len left s y rule: write_fixed_ba_loop.raw_induct [rotated, consumes 1, case_names step])
  case step: (step f wr len left s y)
  show ?case
  proof (intro impI)
    assume a: "wr = SocketStream_write_ba sys \<and> \<not> SocketStream_is_connected (fst (snd s)) \<and> 0 < len"
    then have "wr n s = (Inr (-1), s)" for n by (cases s) (auto simp: SocketStream_write_ba_def)
    then show "left \<le> 0" using step(1) [of wr len "left + 1" s y] step(2) a by (auto split: if_splits)
  qed
qed

section \<open>Properties\<close>

text \<open>
  C12: Transfers of a fixed size. On a socket that keeps its promises, \<open>write_fixed_size\<close> on a
  writable connection hands over exactly the bytes of the buffer and returns their number,
  however the system cuts them up; \<open>read_fixed_size\<close> returns exactly the next \<open>n\<close> bytes when so
  many arrive and leaves the rest, and otherwise returns a result that is not positive.
\<close>

theorem fixed_size_transfers:
  assumes "stream_socket sys incoming outgoing writable" "n < 2 ^ 31" "length buffer < 2 ^ 31"
  shows "(n \<le> length (ss_pending incoming s) \<longrightarrow>
      (\<exists>s'. read_fixed_size (SocketStream_ops sys) n s = ((int n, take n (ss_pending incoming s)), s') \<and>
        ss_pending incoming s' = drop n (ss_pending incoming s))) \<and>
    (length (ss_pending incoming s) < n \<longrightarrow> fst (fst (read_fixed_size (SocketStream_ops sys) n s)) \<le> 0) \<and>
    (ss_ready writable s \<longrightarrow>
      (\<exists>s'. write_fixed_size (SocketStream_ops sys) buffer s = (int (length buffer), s') \<and>
        ss_sent outgoing s' = ss_sent outgoing s @ buffer))"
  using stream_socket.transfers [OF assms, of s] by blast

theorem fixed_size_transfers_witness:
  "\<exists>s'. read_fixed_size (SocketStream_ops net_sys) 4
      (\<lparr>m_socket = Some ((Socket_new 2 1 0)\<lparr>m_sock := 5, m_is_connected := True\<rparr>), m_owner = True\<rparr>,
       \<lparr>inbox = [[1, 2], [], [3, 4, 5]], outbox = [], window = 3\<rparr>) = ((4, [1, 2, 3, 4]), s')"
proof -
  let ?s = "(\<lparr>m_socket = Some ((Socket_new 2 1 0)\<lparr>m_sock := 5, m_is_connected := True\<rparr>), m_owner = True\<rparr>,
       \<lparr>inbox = [[1, 2], [], [3, 4, 5]], outbox = [], window = 3\<rparr>)"
  have "ss_pending (\<lambda>fd k. concat (inbox k)) ?s = [1, 2, 3, 4, 5]"
    by (simp add: ss_pending_def SocketStream_is_connected_def)
  with fixed_size_transfers [OF net.stream_socket_axioms, of 4 "[]" ?s] show ?thesis by auto
qed

text \<open>
  On a connection that is lost, \<open>read_fixed_size\<close> on a byte array returns -1, but
  \<open>write_fixed_size\<close> on a byte array never returns: its loop looks at the requested length
  where it should look at the result of the write.
\<close>

theorem write_fixed_ba_hangs:
  assumes "\<not> SocketStream_is_connected st" "0 < len" "len < 2 ^ 31"
  shows "write_fixed_size_ba (SocketStream_write_ba sys) len (ba, st, k) = None \<and>
    read_fixed_size_ba (SocketStream_read_ba sys) len (ba, st, k) = (Inr (-1), (ba, st, k))"
proof -
  have left: "to_int64 (int len) = int len" using assms(3) by (simp add: to_int64_id)
  have "write_fixed_ba_loop (SocketStream_write_ba sys) len (int len) (ba, st, k) = None"
    using write_ba_stuck [of "SocketStream_write_ba sys" len "int len" "(ba, st, k)" _ sys] assms(1,2)
    by (cases "write_fixed_ba_loop (SocketStream_write_ba sys) len (int len) (ba, st, k)") auto
  moreover have "read_fixed_ba_loop (SocketStream_read_ba sys) len (int len) (ba, st, k) = (Inr (-1), (ba, st, k))"
    using assms(1,2) by (subst read_fixed_ba_loop.simps) (simp add: SocketStream_read_ba_def to_int_id)
  ultimately show ?thesis by (simp add: write_fixed_size_ba_def read_fixed_size_ba_def left)
qed

theorem write_fixed_ba_hangs_witness:
  "write_fixed_size_ba (SocketStream_write_ba net_sys) 3
     (ByteArray_new (\<lambda>_. 0) 4, \<lparr>m_socket = Some (Socket_new 2 1 0), m_owner = True\<rparr>,
      \<lparr>inbox = [], outbox = [], window = 3\<rparr>) = None"
  using write_fixed_ba_hangs [of "\<lparr>m_socket = Some (Socket_new 2 1 0), m_owner = True\<rparr>" 3 net_sys]
  by (simp add: SocketStream_is_connected_def Socket_new_def)

end
