(* ===== verification/WebSocket.thy ===== *)
theory WebSocket
  imports Streams Hash Http
begin

text \<open>
  WebSocket frames, \<^verbatim>\<open>src/servers/http/ws_session.cc\<close> (the server's side) and
  \<^verbatim>\<open>ws_connection.cc\<close> (the client's side), on any stream. The bit fields of \<^verbatim>\<open>WSFrameHead\<close> are
  laid out as on little-endian hosts, which are assumed here, and so are the integers that hold
  the lengths. The receive loops may go on for as long as frames arrive; \<open>recv_loop\<close> is a partial
  function whose value \<open>None\<close> is not returning. \<open>rand\<close> is what \<^verbatim>\<open>rand()\<close> returned.
\<close>

abbreviation LE :: endian where "LE \<equiv> TIGER_LITTLE_ENDIAN"

section \<open>Frame heads\<close>

record WSFrameHead =
  ws_opcode :: nat
  ws_rsv3 :: bool
  ws_rsv2 :: bool
  ws_rsv1 :: bool
  ws_fin :: bool
  ws_payload :: nat
  ws_mask :: bool

definition CONTINUE :: nat where "CONTINUE = 0"
definition TEXT_FRAME :: nat where "TEXT_FRAME = 1"
definition BIN_FRAME :: nat where "BIN_FRAME = 2"
definition CLOSE :: nat where "CLOSE = 8"
definition PING :: nat where "PING = 9"
definition PONG :: nat where "PONG = 0xA"

lemmas opcode_defs = CONTINUE_def TEXT_FRAME_def BIN_FRAME_def CLOSE_def PING_def PONG_def

text \<open>The two bytes of the packed structure.\<close>

definition head_bytes :: "WSFrameHead \<Rightarrow> byte list" where
  "head_bytes h =
     [of_nat (ws_opcode h) OR (if ws_rsv3 h then 0x10 else 0) OR (if ws_rsv2 h then 0x20 else 0) OR
        (if ws_rsv1 h then 0x40 else 0) OR (if ws_fin h then 0x80 else 0),
      of_nat (ws_payload h) OR (if ws_mask h then 0x80 else 0)]"

definition bytes_head :: "byte list \<Rightarrow> WSFrameHead" where
  "bytes_head bs =
     \<lparr>ws_opcode = unat (bs ! 0 AND 0x0F), ws_rsv3 = (bs ! 0 AND 0x10 \<noteq> 0), ws_rsv2 = (bs ! 0 AND 0x20 \<noteq> 0),
      ws_rsv1 = (bs ! 0 AND 0x40 \<noteq> 0), ws_fin = (bs ! 0 AND 0x80 \<noteq> 0),
      ws_payload = unat (bs ! 1 AND 0x7F), ws_mask = (bs ! 1 AND 0x80 \<noteq> 0)\<rparr>"

text \<open>A head that was cleared and got an opcode and the final bit; four bits hold the opcode.\<close>

definition new_head :: "nat \<Rightarrow> bool \<Rightarrow> bool \<Rightarrow> nat \<Rightarrow> WSFrameHead" where
  "new_head opcode fin masked payload =
     \<lparr>ws_opcode = opcode mod 16, ws_rsv3 = False, ws_rsv2 = False, ws_rsv1 = False, ws_fin = fin,
      ws_payload = payload, ws_mask = masked\<rparr>"

definition payload_code :: "nat \<Rightarrow> nat" where
  "payload_code n = (if n < 126 then n else if n < 65536 then 126 else 127)"

section \<open>Sending\<close>

type_synonym WSFrameMessage = "nat \<times> byte list"

definition ws_ping :: "'s Stream \<Rightarrow> 's \<Rightarrow> int \<times> 's" where
  "ws_ping st s =
     (case write_fixed_size st (head_bytes (new_head PING True False 0)) s of
        (v, s') \<Rightarrow> (v, if v < 0 then st_close st s' else s'))"

definition ws_pong :: "'s Stream \<Rightarrow> 's \<Rightarrow> int \<times> 's" where
  "ws_pong st s =
     (case write_fixed_size st (head_bytes (new_head PONG True False 0)) s of
        (v, s') \<Rightarrow> (v, if v \<le> 0 then st_close st s' else s'))"

text \<open>The extended length, if any: whether it could be written.\<close>

definition write_length :: "'s Stream \<Rightarrow> nat \<Rightarrow> 's \<Rightarrow> bool \<times> 's" where
  "write_length st n s =
     (if payload_code n = 126 then
        case write_fixed_size st (mem_bytes LE (bswap_on_little_endian16 LE (of_nat n))) s of (r, s') \<Rightarrow> (0 < r, s')
      else if payload_code n = 127 then
        case write_fixed_size st (mem_bytes LE (bswap_on_big_endian64 LE (of_nat n))) s of (r, s') \<Rightarrow> (0 < r, s')
      else (True, s))"

definition xor_mask :: "byte list \<Rightarrow> byte list \<Rightarrow> byte list" where
  "xor_mask mk data = map (\<lambda>i. data ! i XOR mk ! (i mod 4)) [0..<length data]"

definition WSSession_send_message :: "'s Stream \<Rightarrow> WSFrameMessage \<Rightarrow> bool \<Rightarrow> 's \<Rightarrow> int \<times> 's" where
  "WSSession_send_message st msg fin s =
     (let n = length (snd msg) in
      case write_fixed_size st (head_bytes (new_head (fst msg) fin False (payload_code n))) s of
        (r1, s1) \<Rightarrow>
          if r1 \<le> 0 then (-1, st_close st s1)
          else case write_length st n s1 of
            (ok, s2) \<Rightarrow>
              if \<not> ok then (-1, st_close st s2)
              else case write_fixed_size st (snd msg) s2 of
                (r3, s3) \<Rightarrow> if r3 \<le> 0 then (-1, st_close st s3) else (to_int (int (n + 2)), s3))"

text \<open>The client masks the data in place: the message comes back masked.\<close>

definition WSConnection_send_message ::
  "'s Stream \<Rightarrow> u32 \<Rightarrow> WSFrameMessage \<Rightarrow> bool \<Rightarrow> 's \<Rightarrow> (int \<times> WSFrameMessage) \<times> 's" where
  "WSConnection_send_message st rand msg fin s =
     (let n = length (snd msg) in
      case write_fixed_size st (head_bytes (new_head (fst msg) fin True (payload_code n))) s of
        (r1, s1) \<Rightarrow>
          if r1 \<le> 0 then ((-1, msg), st_close st s1)
          else case write_length st n s1 of
            (ok, s2) \<Rightarrow>
              if \<not> ok then ((-1, msg), st_close st s2)
              else
                let mk = mem_bytes LE rand; data = xor_mask mk (snd msg); msg' = (fst msg, data) in
                case write_fixed_size st mk s2 of
                  (r3, s3) \<Rightarrow>
                    if r3 \<le> 0 then ((-1, msg'), st_close st s3)
                    else case write_fixed_size st data s3 of
                      (r4, s4) \<Rightarrow> if r4 \<le> 0 then ((-1, msg'), st_close st s4) else ((to_int (int (n + 2)), msg'), s4))"

section \<open>Receiving\<close>

definition read_length :: "'s Stream \<Rightarrow> WSFrameHead \<Rightarrow> 's \<Rightarrow> nat option \<times> 's" where
  "read_length st h s =
     (if ws_payload h = 126 then
        case read_fixed_size st 2 s of
          ((r, bs), s') \<Rightarrow> (if r \<le> 0 then None else Some (unat (bswap_on_little_endian16 LE (mem_word LE bs))), s')
      else if ws_payload h = 127 then
        case read_fixed_size st 8 s of
          ((r, bs), s') \<Rightarrow> (if r \<le> 0 then None else Some (unat (bswap_on_little_endian64 LE (mem_word LE bs))), s')
      else (Some (ws_payload h), s))"

text \<open>
  What one round of the loop does: leave it and close, go on with new values of \<^verbatim>\<open>opcode\<close>,
  \<^verbatim>\<open>data\<close> and \<^verbatim>\<open>cur_len\<close>, or return a message.
\<close>

datatype ws_step = Break | Next "nat \<times> byte list \<times> int" | Got WSFrameMessage

definition recv_data :: "'s Stream \<Rightarrow> nat \<Rightarrow> WSFrameHead \<Rightarrow> nat \<times> byte list \<times> int \<Rightarrow> 's \<Rightarrow> ws_step \<times> 's" where
  "recv_data st max_size h acc s =
     (let (opcode, data, cur_len) = acc in
      case read_length st h s of
        (None, s1) \<Rightarrow> (Break, s1)
      | (Some len, s1) \<Rightarrow>
          if (cur_len + int len) mod 2 ^ 64 \<ge> int max_size then (Break, s1)
          else case (if ws_mask h then read_fixed_size st 4 s1 else ((4, [0, 0, 0, 0]), s1)) of
            ((r2, mk), s2) \<Rightarrow>
              if r2 \<le> 0 then (Break, s2)
              else case read_fixed_size st len s2 of
                ((r3, bs), s3) \<Rightarrow>
                  if r3 \<le> 0 then (Break, s3)
                  else
                    let data' = data @ (if ws_mask h then xor_mask mk bs else bs);
                        opcode' = (if opcode = 0 \<and> ws_opcode h \<noteq> CONTINUE then ws_opcode h else opcode)
                    in if ws_fin h then (Got (opcode', data'), s3)
                       else (Next (opcode', data', to_int (cur_len + int len)), s3))"

definition recv_step ::
  "'s Stream \<Rightarrow> bool \<Rightarrow> nat \<Rightarrow> nat \<times> byte list \<times> int \<Rightarrow> 's \<Rightarrow> ws_step \<times> 's" where
  "recv_step st need_mask max_size acc s =
     (case read_fixed_size st 2 s of
        ((r, hb), s1) \<Rightarrow>
          if r \<le> 0 then (Break, s1)
          else
            let h = bytes_head hb in
            if ws_opcode h = PING then
              (case ws_pong st s1 of (v, s2) \<Rightarrow> if v \<le> 0 then (Break, s2) else (Next acc, s2))
            else if ws_opcode h = PONG then (Next acc, s1)
            else if ws_opcode h = CONTINUE \<or> ws_opcode h = TEXT_FRAME \<or> ws_opcode h = BIN_FRAME then
              if need_mask \<and> \<not> ws_mask h then (Break, s1) else recv_data st max_size h acc s1
            else if ws_opcode h = CLOSE then (Break, s1)
            else (Next acc, s1))"

partial_function (option) recv_loop ::
  "'s Stream \<Rightarrow> bool \<Rightarrow> nat \<Rightarrow> nat \<times> byte list \<times> int \<Rightarrow> 's \<Rightarrow> (WSFrameMessage option \<times> 's) option" where
  "recv_loop st need_mask max_size acc s =
     (case recv_step st need_mask max_size acc s of
        (Break, s') \<Rightarrow> Some (None, st_close st s')
      | (Next acc', s') \<Rightarrow> recv_loop st need_mask max_size acc' s'
      | (Got msg, s') \<Rightarrow> Some (Some msg, s'))"

definition WSSession_recv_message :: "'s Stream \<Rightarrow> nat \<Rightarrow> 's \<Rightarrow> (WSFrameMessage option \<times> 's) option" where
  "WSSession_recv_message st max_size s = recv_loop st True max_size (0, [], 0) s"

definition WSConnection_recv_message :: "'s Stream \<Rightarrow> nat \<Rightarrow> 's \<Rightarrow> (WSFrameMessage option \<times> 's) option" where
  "WSConnection_recv_message st max_size s = recv_loop st False max_size (0, [], 0) s"

section \<open>Handshake\<close>

text \<open>
  The server's answer to a request it received: the request marked as WebSocket and the response
  it sends, or \<open>None\<close> when a header is not as it must be. \<open>cast\<close> is \<^verbatim>\<open>lexical_cast<int>\<close>, \<open>sha1\<close> and
  \<open>stack\<close> are those of \<open>SHA1\<close>, whose undefined case is the outer \<open>None\<close>.
\<close>

definition handle_shake ::
  "(string \<Rightarrow> int option) \<Rightarrow> (string \<Rightarrow> byte list) \<Rightarrow> byte list \<Rightarrow> HTTPRequest option \<Rightarrow> (HTTPRequest \<times> HTTPResponse) option option" where
  "handle_shake cast sha1 stack received =
     (case received of
        None \<Rightarrow> Some None
      | Some req \<Rightarrow>
          if strcasecmp (HTTPRequest_get_header ''Upgrade'' [] req) ''websocket'' \<noteq> 0 then Some None
          else if strcasecmp (HTTPRequest_get_header ''Connection'' [] req) ''Upgrade'' \<noteq> 0 then Some None
          else if GetAs cast (m_headers req) ''Sec-WebSocket-Version'' 0 \<noteq> 13 then Some None
          else
            let key = HTTPRequest_get_header ''Sec-WebSocket-Key'' [] req in
            if key = [] then Some None
            else
              map_option (\<lambda>digest.
                let v = Base64Encode digest;
                    req' = req\<lparr>m_websocket := True\<rparr>;
                    rsp = (HTTPResponse_new (m_version req) (m_close req))
                      \<lparr>m_status := 101, m_websocket_rsp := True, m_reason := ''Websocket Protocol Handshake''\<rparr>
                in Some (req',
                     HTTPResponse_set_header ''Sec-WebSocket-Accept'' v
                       (HTTPResponse_set_header ''Connection'' ''Upgrade''
                         (HTTPResponse_set_header ''Upgrade'' ''WebSocket'' rsp))))
                (SHA1 sha1 stack (key @ ''258EAFA5-E914-47DA-95CA-C5AB0DC85B11'')))"

section \<open>Heads and masks\<close>

lemma flagged_low:
  assumes "n < 2 ^ k" "k < 8" "f AND mask k = 0"
  shows "unat ((of_nat n OR f) AND mask k :: byte) = n"
proof -
  have n: "n < 256" using assms(1,2) power_strict_increasing [of k 8 "2 :: nat"] by simp
  have "(of_nat n OR f) AND mask k = (of_nat n AND mask k) OR (f AND mask k)" by (rule bit.conj_disj_distrib2)
  also have "\<dots> = take_bit k (of_nat n)" by (simp add: assms(3) take_bit_eq_mask)
  also have "\<dots> = of_nat n" using assms(1) by (simp add: take_bit_of_nat take_bit_nat_eq_self)
  finally show ?thesis using n by (simp add: unat_of_nat take_bit_nat_eq_self)
qed

lemma flagged_high:
  assumes "n < 2 ^ k" "g AND mask k = 0"
  shows "(of_nat n OR f) AND g = (f AND g :: byte)"
proof -
  have "of_nat n = (take_bit k (of_nat n) :: byte)"
    using assms(1) by (simp add: take_bit_of_nat take_bit_nat_eq_self)
  then have "of_nat n AND g = of_nat n AND (g AND mask k)"
    by (metis take_bit_eq_mask and.assoc and.commute)
  then show ?thesis using assms(2) by (simp add: bit.conj_disj_distrib2)
qed

lemma byte_masks_values: "mask 4 = (0x0F :: byte)" "mask 7 = (0x7F :: byte)"
  by (simp_all add: mask_eq_exp_minus_1)

lemma bytes_new_head:
  assumes "p < 128"
  shows "bytes_head (head_bytes (new_head op fin masked p)) = new_head op fin masked p"
  using assms flagged_low [of "op mod 16" 4 "if fin then 0x80 else 0"] flagged_low [of p 7 "if masked then 0x80 else 0"]
    flagged_high [of "op mod 16" 4 "0x10" "if fin then 0x80 else 0"] flagged_high [of "op mod 16" 4 "0x20" "if fin then 0x80 else 0"]
    flagged_high [of "op mod 16" 4 "0x40" "if fin then 0x80 else 0"] flagged_high [of "op mod 16" 4 "0x80" "if fin then 0x80 else 0"]
    flagged_high [of p 7 "0x80" "if masked then 0x80 else 0"]
  by (simp add: byte_masks_values head_bytes_def bytes_head_def new_head_def)

lemma length_head_bytes [simp]: "length (head_bytes h) = 2"
  by (simp add: head_bytes_def)

lemma length_xor_mask [simp]: "length (xor_mask mk bs) = length bs"
  by (simp add: xor_mask_def)

lemma xor_mask_involution: "xor_mask mk (xor_mask mk bs) = bs"
  by (rule nth_equalityI) (simp_all add: xor_mask_def xor.assoc)

lemma payload_code_less: "payload_code n < 128"
  by (simp add: payload_code_def)

section \<open>The format on the wire\<close>

text \<open>A frame as the protocol prescribes it, with a masking key or without, and lengths in network order.\<close>

definition length_bytes :: "nat \<Rightarrow> byte list" where
  "length_bytes n =
     (if payload_code n = 126 then rev (le_bytes (of_nat n :: u16))
      else if payload_code n = 127 then rev (le_bytes (of_nat n :: u64)) else [])"

definition frame :: "nat \<Rightarrow> bool \<Rightarrow> byte list option \<Rightarrow> byte list \<Rightarrow> byte list" where
  "frame opcode fin mk d =
     head_bytes (new_head opcode fin (mk \<noteq> None) (payload_code (length d))) @ length_bytes (length d) @
     (case mk of None \<Rightarrow> d | Some m \<Rightarrow> m @ xor_mask m d)"

definition frame_ok :: "byte list option \<Rightarrow> byte list \<Rightarrow> bool" where
  "frame_ok mk d \<longleftrightarrow> d \<noteq> [] \<and> (case mk of None \<Rightarrow> True | Some m \<Rightarrow> length m = 4)"

text \<open>A message in fragments, with pings and pongs without payload between them.\<close>

datatype ws_item = Ping | Pong | Fragment "byte list option" "byte list"

fun wire :: "nat \<Rightarrow> ws_item list \<Rightarrow> byte list option \<Rightarrow> byte list \<Rightarrow> byte list" where
  "wire opcode [] mk d = frame opcode True mk d"
| "wire opcode (Ping # items) mk d = head_bytes (new_head PING True False 0) @ wire opcode items mk d"
| "wire opcode (Pong # items) mk d = head_bytes (new_head PONG True False 0) @ wire opcode items mk d"
| "wire opcode (Fragment k x # items) mk d = frame opcode False k x @ wire CONTINUE items mk d"

fun carried :: "ws_item list \<Rightarrow> byte list" where
  "carried [] = []"
| "carried (Fragment k x # items) = x @ carried items"
| "carried (_ # items) = carried items"

fun pongs :: "ws_item list \<Rightarrow> byte list" where
  "pongs [] = []"
| "pongs (Ping # items) = head_bytes (new_head PONG True False 0) @ pongs items"
| "pongs (_ # items) = pongs items"

fun item_ok :: "bool \<Rightarrow> ws_item \<Rightarrow> bool" where
  "item_ok need_mask (Fragment k x) \<longleftrightarrow> frame_ok k x \<and> (need_mask \<longrightarrow> k \<noteq> None)"
| "item_ok need_mask _ \<longleftrightarrow> True"

lemma network_word:
  "bswap_on_little_endian16 LE (mem_word LE (rev (le_bytes x))) = x"
  "bswap_on_little_endian64 LE (mem_word LE (rev (le_bytes z))) = z"
  unfolding network_order(1,3) [of LE, symmetric] by (simp_all add: bswap_on_little_endian_involution)

lemma unat_small: "n < 2 ^ LENGTH('a) \<Longrightarrow> unat (of_nat n :: 'a::len word) = n"
  by (simp add: unat_of_nat take_bit_nat_eq_self)

text \<open>The length as the senders write it: eight bytes of it come in the order of the host.\<close>

definition written_length :: "nat \<Rightarrow> byte list" where
  "written_length n =
     (if payload_code n = 126 then rev (le_bytes (of_nat n :: u16))
      else if payload_code n = 127 then le_bytes (of_nat n :: u64) else [])"

definition sent_frame :: "nat \<Rightarrow> bool \<Rightarrow> byte list option \<Rightarrow> byte list \<Rightarrow> byte list" where
  "sent_frame opcode fin mk d =
     head_bytes (new_head opcode fin (mk \<noteq> None) (payload_code (length d))) @ written_length (length d) @
     (case mk of None \<Rightarrow> d | Some m \<Rightarrow> m @ xor_mask m d)"

lemma sent_frame_small: "length d < 65536 \<Longrightarrow> sent_frame op fin mk d = frame op fin mk d"
  by (simp add: sent_frame_def frame_def written_length_def length_bytes_def payload_code_def)

lemma byteswap64_large:
  assumes "0 < n" "n < 2 ^ 32"
  shows "2 ^ 32 \<le> unat (byteswap64 (of_nat n))"
proof -
  let ?x = "of_nat n :: u64"
  have "take_bit 32 ?x = ?x" using assms(2) by (simp add: take_bit_of_nat take_bit_nat_eq_self)
  then have x: "drop_bit 32 ?x = 0" by (metis drop_bit_take_bit diff_self_eq_0 take_bit_0)
  then have "drop_bit (32 + k) ?x = 0" for k by (metis add.commute drop_bit_drop_bit drop_bit_of_0)
  from this [of 8] this [of 16] this [of 24] x have
    "le_bytes ?x = [ucast ?x, ucast (drop_bit 8 ?x), ucast (drop_bit 16 ?x), ucast (drop_bit 24 ?x), 0, 0, 0, 0]"
    by (simp add: le_bytes_def upt_bytes)
  then have "byteswap64 ?x = le_word [0, 0, 0, 0, ucast (drop_bit 24 ?x), ucast (drop_bit 16 ?x), ucast (drop_bit 8 ?x), ucast ?x]"
    using le_word_le_bytes [of "byteswap64 ?x"] by (simp add: byteswap_le_bytes)
  then have "take_bit 32 (byteswap64 ?x) = 0" by (simp add: le_word_def take_bit_push_bit)
  then have "unat (byteswap64 ?x) mod 2 ^ 32 = 0"
    by (metis take_bit_eq_mod unsigned_take_bit_eq unsigned_0)
  moreover have "byteswap64 ?x \<noteq> 0"
  proof
    assume "byteswap64 ?x = 0"
    then have "?x = byteswap64 0" by (metis byteswap_involution(3))
    then have "unat ?x = 0" by (simp add: byteswap64_def bswap_64_def)
    then show False using assms by (simp add: unat_small)
  qed
  ultimately show ?thesis by (metis mod_less not_le unat_eq_zero)
qed

context duplex
begin

text \<open>From \<open>s\<close> to \<open>s'\<close> something was read: \<open>rest\<close> is still to come and writing is not affected.\<close>

definition after :: "'s \<Rightarrow> byte list \<Rightarrow> 's \<Rightarrow> bool" where
  "after s rest s' \<longleftrightarrow> pending s' = rest \<and> sent s' = sent s \<and> (ready s \<longrightarrow> ready s')"

lemma after_trans: "after s r1 s1 \<Longrightarrow> after s1 r2 s2 \<Longrightarrow> after s r2 s2"
  by (auto simp: after_def)

lemma read_prefix:
  assumes "pending s = bs @ rest" "length bs = n" "n < 2 ^ 31"
  obtains s' where "read_fixed_size st n s = ((int n, bs), s')" "after s rest s'"
proof -
  have "n \<le> length (pending s)" using assms by simp
  from read_exact [OF assms(3) this] obtain s' where
    r: "read_fixed_size st n s = ((int n, take n (pending s)), s')" "pending s' = drop n (pending s)" by blast
  with read_fixed_keeps [OF r(1)] assms that show thesis by (auto simp: after_def)
qed

lemma read_length_frame:
  assumes "pending s = length_bytes n @ rest" "ws_payload h = payload_code n" "n < 2 ^ 64"
  obtains s' where "read_length st h s = (Some n, s')" "after s rest s'"
proof -
  consider "n < 126" | "126 \<le> n" "n < 65536" | "65536 \<le> n" by linarith
  then show thesis
  proof cases
    case 1
    then show thesis using assms(1,2) that [of s] by (simp add: read_length_def length_bytes_def payload_code_def after_def)
  next
    case 2
    then have "pending s = rev (le_bytes (of_nat n :: u16)) @ rest" using assms(1) by (simp add: length_bytes_def payload_code_def)
    from read_prefix [OF this, of 2] obtain s' where
      "read_fixed_size st 2 s = ((2, rev (le_bytes (of_nat n :: u16))), s')" "after s rest s'" by auto
    then show thesis using 2 assms(2) that [of s']
      by (simp add: read_length_def payload_code_def network_word unat_small)
  next
    case 3
    then have "pending s = rev (le_bytes (of_nat n :: u64)) @ rest" using assms(1) by (simp add: length_bytes_def payload_code_def)
    from read_prefix [OF this, of 8] obtain s' where
      "read_fixed_size st 8 s = ((8, rev (le_bytes (of_nat n :: u64))), s')" "after s rest s'" by auto
    then show thesis using 3 assms(2,3) that [of s']
      by (simp add: read_length_def payload_code_def network_word unat_small)
  qed
qed

lemma recv_data_frame:
  assumes p: "pending s = length_bytes (length d) @ (case mk of None \<Rightarrow> d | Some m \<Rightarrow> m @ xor_mask m d) @ rest"
    and ok: "frame_ok mk d" and h: "h = new_head op fin (mk \<noteq> None) (payload_code (length d))"
    and l: "length data + length d < max_size" "length data + length d < 2 ^ 31"
    and oc: "oc' = (if oc = 0 \<and> op mod 16 \<noteq> 0 then op mod 16 else oc)"
  obtains s' where "recv_data st max_size h (oc, data, int (length data)) s =
      (if fin then Got (oc', data @ d) else Next (oc', data @ d, int (length (data @ d))), s')" "after s rest s'"
proof -
  have fields: "ws_payload h = payload_code (length d)" "ws_mask h \<longleftrightarrow> mk \<noteq> None" "ws_fin h = fin" "ws_opcode h = op mod 16"
    by (simp_all add: h new_head_def)
  have "length d < 2 ^ 64" using l by simp
  from read_length_frame [OF p fields(1) this] obtain s1 where
    s1: "read_length st h s = (Some (length d), s1)" "after s ((case mk of None \<Rightarrow> d | Some m \<Rightarrow> m @ xor_mask m d) @ rest) s1"
    by blast
  define body where "body = (case mk of None \<Rightarrow> d | Some m \<Rightarrow> xor_mask m d)"
  obtain key s2 where
    s2: "(if ws_mask h then read_fixed_size st 4 s1 else ((4, [0, 0, 0, 0]), s1)) = ((4, key), s2)"
      "after s (body @ rest) s2" "(if ws_mask h then xor_mask key body else body) = d"
  proof (cases mk)
    case None
    then show thesis using that [of "[0, 0, 0, 0]" s1] s1 fields(2) by (simp add: body_def)
  next
    case (Some m)
    then have "pending s1 = m @ body @ rest" "length m = 4" using s1(2) ok by (simp_all add: after_def body_def frame_ok_def)
    from read_prefix [OF this] obtain s2 where "read_fixed_size st 4 s1 = ((4, m), s2)" "after s1 (body @ rest) s2" by auto
    then show thesis using that [of m s2] Some fields(2) s1(2) after_trans by (simp add: body_def xor_mask_involution)
  qed
  have "pending s2 = body @ rest" "length body = length d" using s2(2) by (simp_all add: after_def body_def split: option.split)
  from read_prefix [OF this] l obtain s3 where
    s3: "read_fixed_size st (length d) s2 = ((int (length d), body), s3)" "after s2 rest s3" by force
  have "(int (length data) + int (length d)) mod 2 ^ 64 = int (length data) + int (length d)"
    "to_int (int (length data) + int (length d)) = int (length data) + int (length d)"
    using l(2) by (simp_all add: to_int_id)
  then have "recv_data st max_size h (oc, data, int (length data)) s =
      (if fin then Got (oc', data @ d) else Next (oc', data @ d, int (length (data @ d))), s3)"
    using ok l(1) s1(1) s2(1,3) s3(1) fields(3,4)
    by (simp add: recv_data_def Let_def oc frame_ok_def CONTINUE_def)
  then show thesis using that after_trans [OF s2(2) s3(2)] by blast
qed

lemma read_head_bytes:
  assumes "pending s = head_bytes (new_head op fin masked p) @ rest" "p < 128"
  obtains s1 where "read_fixed_size st 2 s = ((2, head_bytes (new_head op fin masked p)), s1)" "after s rest s1"
    "bytes_head (head_bytes (new_head op fin masked p)) = new_head op fin masked p"
  using read_prefix [OF assms(1), of 2] bytes_new_head [OF assms(2)] by auto

lemma recv_step_frame:
  assumes p: "pending s = frame op fin mk d @ rest" and ok: "frame_ok mk d" "need_mask \<longrightarrow> mk \<noteq> None"
    and op: "op \<in> {CONTINUE, TEXT_FRAME, BIN_FRAME}"
    and l: "length data + length d < max_size" "length data + length d < 2 ^ 31"
    and oc: "oc' = (if oc = 0 \<and> op \<noteq> 0 then op else oc)"
  obtains s' where "recv_step st need_mask max_size (oc, data, int (length data)) s =
      (if fin then Got (oc', data @ d) else Next (oc', data @ d, int (length (data @ d))), s')" "after s rest s'"
proof -
  let ?h = "new_head op fin (mk \<noteq> None) (payload_code (length d))"
  let ?tail = "length_bytes (length d) @ (case mk of None \<Rightarrow> d | Some m \<Rightarrow> m @ xor_mask m d) @ rest"
  have "pending s = head_bytes ?h @ ?tail" using p by (simp add: frame_def)
  from read_head_bytes [OF this payload_code_less] obtain s1 where
    s1: "read_fixed_size st 2 s = ((2, head_bytes ?h), s1)" "after s ?tail s1" "bytes_head (head_bytes ?h) = ?h" by blast
  have "pending s1 = ?tail" using s1(2) by (simp add: after_def)
  moreover have "oc' = (if oc = 0 \<and> op mod 16 \<noteq> 0 then op mod 16 else oc)" using op oc by (auto simp: opcode_defs)
  ultimately obtain s2 where
    s2: "recv_data st max_size ?h (oc, data, int (length data)) s1 =
      (if fin then Got (oc', data @ d) else Next (oc', data @ d, int (length (data @ d))), s2)" "after s1 rest s2"
    using recv_data_frame [OF _ ok(1) refl l] by blast
  have "recv_step st need_mask max_size (oc, data, int (length data)) s = recv_data st max_size ?h (oc, data, int (length data)) s1"
    using s1(1,3) ok(2) op by (auto simp: recv_step_def Let_def new_head_def opcode_defs)
  with s2 that after_trans [OF s1(2) s2(2)] show thesis by simp
qed

lemma recv_step_ping:
  assumes "pending s = head_bytes (new_head PING True False 0) @ rest" "ready s"
  obtains s' where "recv_step st need_mask max_size acc s = (Next acc, s')" "pending s' = rest" "ready s'"
    "sent s' = sent s @ head_bytes (new_head PONG True False 0)"
proof -
  from read_head_bytes [OF assms(1)] obtain s1 where
    s1: "read_fixed_size st 2 s = ((2, head_bytes (new_head PING True False 0)), s1)" "after s rest s1"
      "bytes_head (head_bytes (new_head PING True False 0)) = new_head PING True False 0" by auto
  then have r: "ready s1" using assms(2) by (simp add: after_def)
  from write_exact [OF r, of "head_bytes (new_head PONG True False 0)"] obtain s2 where
    s2: "write_fixed_size st (head_bytes (new_head PONG True False 0)) s1 = (2, s2)"
      "sent s2 = sent s1 @ head_bytes (new_head PONG True False 0)" "ready s2" by auto
  show thesis
    by (rule that [of s2]) (use s1 s2 write_fixed_keeps [OF s2(1)] in
      \<open>simp_all add: recv_step_def Let_def ws_pong_def new_head_def opcode_defs after_def\<close>)
qed

lemma recv_step_pong:
  assumes "pending s = head_bytes (new_head PONG True False 0) @ rest"
  obtains s' where "recv_step st need_mask max_size acc s = (Next acc, s')" "after s rest s'"
proof -
  from read_head_bytes [OF assms] obtain s1 where
    s1: "read_fixed_size st 2 s = ((2, head_bytes (new_head PONG True False 0)), s1)" "after s rest s1"
      "bytes_head (head_bytes (new_head PONG True False 0)) = new_head PONG True False 0" by auto
  then show thesis using that [of s1] by (simp add: recv_step_def Let_def new_head_def opcode_defs)
qed

lemma recv_loop_wire:
  assumes "pending s = wire (if oc = 0 then op else CONTINUE) items mk d @ rest" "ready s"
    "list_all (item_ok need_mask) items" "frame_ok mk d" "need_mask \<longrightarrow> mk \<noteq> None"
    "length data + length (carried items) + length d < max_size" "length data + length (carried items) + length d < 2 ^ 31"
    "op \<in> {TEXT_FRAME, BIN_FRAME}" "oc \<in> {0, op}"
  shows "\<exists>s'. recv_loop st need_mask max_size (oc, data, int (length data)) s =
      Some (Some (op, data @ carried items @ d), s') \<and> pending s' = rest \<and> sent s' = sent s @ pongs items"
  using assms
proof (induction items arbitrary: oc data s)
  case Nil
  let ?w = "if oc = 0 then op else CONTINUE"
  have w: "?w \<in> {CONTINUE, TEXT_FRAME, BIN_FRAME}" "op = (if oc = 0 \<and> ?w \<noteq> 0 then ?w else oc)"
    using Nil.prems(8,9) by (auto simp: opcode_defs)
  obtain s' where "recv_step st need_mask max_size (oc, data, int (length data)) s = (Got (op, data @ d), s')" "after s rest s'"
    using recv_step_frame [OF _ Nil.prems(4,5) w(1) _ _ w(2), of s True rest data max_size] Nil.prems by auto
  then show ?case by (subst recv_loop.simps) (simp add: after_def)
next
  case (Cons item items)
  show ?case
  proof (cases item)
    case Ping
    then have "pending s = head_bytes (new_head PING True False 0) @ wire (if oc = 0 then op else CONTINUE) items mk d @ rest"
      using Cons.prems(1) by simp
    from recv_step_ping [OF this Cons.prems(2)] obtain s1 where
      s1: "recv_step st need_mask max_size (oc, data, int (length data)) s = (Next (oc, data, int (length data)), s1)"
        "pending s1 = wire (if oc = 0 then op else CONTINUE) items mk d @ rest" "ready s1"
        "sent s1 = sent s @ head_bytes (new_head PONG True False 0)" by blast
    from Cons.IH [OF s1(2,3)] Cons.prems Ping s1(1,4) show ?thesis by (subst recv_loop.simps) simp
  next
    case Pong
    then have "pending s = head_bytes (new_head PONG True False 0) @ wire (if oc = 0 then op else CONTINUE) items mk d @ rest"
      using Cons.prems(1) by simp
    from recv_step_pong [OF this] obtain s1 where
      s1: "recv_step st need_mask max_size (oc, data, int (length data)) s = (Next (oc, data, int (length data)), s1)"
        "after s (wire (if oc = 0 then op else CONTINUE) items mk d @ rest) s1" by blast
    from Cons.IH [of s1 oc data] Cons.prems Pong s1 show ?thesis by (subst recv_loop.simps) (simp add: after_def)
  next
    case (Fragment k x)
    let ?w = "if oc = 0 then op else CONTINUE"
    have w: "?w \<in> {CONTINUE, TEXT_FRAME, BIN_FRAME}" "op = (if oc = 0 \<and> ?w \<noteq> 0 then ?w else oc)" "op \<noteq> 0"
      using Cons.prems(8,9) by (auto simp: opcode_defs)
    obtain s1 where
      s1: "recv_step st need_mask max_size (oc, data, int (length data)) s = (Next (op, data @ x, int (length (data @ x))), s1)"
        "after s (wire CONTINUE items mk d @ rest) s1"
      using recv_step_frame [of s ?w False k x _ need_mask, OF _ _ _ w(1) _ _ w(2), of "wire CONTINUE items mk d @ rest" data max_size]
        Cons.prems Fragment by auto
    from Cons.IH [of s1 op "data @ x"] Cons.prems Fragment s1 w(3) show ?thesis
      by (subst recv_loop.simps) (simp add: after_def)
  qed
qed

lemma write_length_ok:
  assumes "ready s"
  obtains s' where "write_length st n s = (True, s')" "sent s' = sent s @ written_length n" "ready s'"
proof -
  have m: "mem_bytes LE (bswap_on_big_endian64 LE z) = le_bytes z" for z
    by (simp add: bswap_on_big_endian64_def mem_bytes_def in_order_def)
  consider "payload_code n < 126" | "payload_code n = 126" | "payload_code n = 127" using payload_code_less [of n] by linarith
  then show thesis
  proof cases
    case 1
    then show thesis using that [of s] assms by (simp add: write_length_def written_length_def)
  next
    case 2
    then show thesis using write_exact [OF assms, of "rev (le_bytes (of_nat n :: u16))"] that
      by (force simp: write_length_def written_length_def network_order)
  next
    case 3
    then show thesis using write_exact [OF assms, of "le_bytes (of_nat n :: u64)"] that
      by (force simp: write_length_def written_length_def m)
  qed
qed

lemma client_sends:
  assumes "ready s" "d \<noteq> []" "length d < 2 ^ 31 - 2"
  obtains s' where "WSConnection_send_message st rand (op, d) fin s =
      ((int (length d) + 2, (op, xor_mask (mem_bytes LE rand) d)), s')"
    "sent s' = sent s @ sent_frame op fin (Some (mem_bytes LE rand)) d" "ready s'"
proof -
  let ?h = "head_bytes (new_head op fin True (payload_code (length d)))" and ?m = "mem_bytes LE rand"
  obtain s1 where s1: "write_fixed_size st ?h s = (2, s1)" "sent s1 = sent s @ ?h" "ready s1"
    using write_exact [OF assms(1), of ?h] by auto
  obtain s2 where s2: "write_length st (length d) s1 = (True, s2)" "sent s2 = sent s1 @ written_length (length d)" "ready s2"
    using write_length_ok [OF s1(3)] by blast
  obtain s3 where s3: "write_fixed_size st ?m s2 = (4, s3)" "sent s3 = sent s2 @ ?m" "ready s3"
    using write_exact [OF s2(3), of ?m] by auto
  obtain s4 where s4: "write_fixed_size st (xor_mask ?m d) s3 = (int (length d), s4)" "sent s4 = sent s3 @ xor_mask ?m d" "ready s4"
    using write_exact [OF s3(3), of "xor_mask ?m d"] assms(3) by auto
  show thesis
    by (rule that [of s4]) (use s1 s2 s3 s4 assms(2,3) in
      \<open>simp_all add: WSConnection_send_message_def Let_def sent_frame_def to_int_id\<close>)
qed

lemma server_sends:
  assumes "ready s" "d \<noteq> []" "length d < 2 ^ 31 - 2"
  obtains s' where "WSSession_send_message st (op, d) fin s = (int (length d) + 2, s')"
    "sent s' = sent s @ sent_frame op fin None d" "ready s'"
proof -
  let ?h = "head_bytes (new_head op fin False (payload_code (length d)))"
  obtain s1 where s1: "write_fixed_size st ?h s = (2, s1)" "sent s1 = sent s @ ?h" "ready s1"
    using write_exact [OF assms(1), of ?h] by auto
  obtain s2 where s2: "write_length st (length d) s1 = (True, s2)" "sent s2 = sent s1 @ written_length (length d)" "ready s2"
    using write_length_ok [OF s1(3)] by blast
  obtain s3 where s3: "write_fixed_size st d s2 = (int (length d), s3)" "sent s3 = sent s2 @ d" "ready s3"
    using write_exact [OF s2(3), of d] assms(3) by auto
  show thesis
    by (rule that [of s3]) (use s1 s2 s3 assms(2,3) in
      \<open>simp_all add: WSSession_send_message_def Let_def sent_frame_def to_int_id\<close>)
qed

text \<open>Data frames the receivers give up on: lengths in the wrong byte order, and no payload.\<close>

lemma recv_large:
  assumes p: "pending s = sent_frame op fin mk d @ rest" and n: "65536 \<le> length d" "length d < 2 ^ 32" "max_size < 2 ^ 32"
    and op: "op \<in> {TEXT_FRAME, BIN_FRAME}"
  shows "\<exists>s'. recv_loop st need_mask max_size (0, [], 0) s = Some (None, st_close st s')"
proof -
  let ?h = "new_head op fin (mk \<noteq> None) (payload_code (length d))" and ?x = "of_nat (length d) :: u64"
  let ?tail = "(case mk of None \<Rightarrow> d | Some m \<Rightarrow> m @ xor_mask m d) @ rest"
  have code: "payload_code (length d) = 127" using n by (simp add: payload_code_def)
  have "pending s = head_bytes ?h @ le_bytes ?x @ ?tail" using p code by (simp add: sent_frame_def written_length_def)
  from read_head_bytes [OF this payload_code_less] obtain s1 where
    s1: "read_fixed_size st 2 s = ((2, head_bytes ?h), s1)" "pending s1 = le_bytes ?x @ ?tail" "bytes_head (head_bytes ?h) = ?h"
    by (auto simp: after_def)
  from read_prefix [OF s1(2), of 8] obtain s2 where "read_fixed_size st 8 s1 = ((8, le_bytes ?x), s2)" by auto
  moreover have "bswap_on_little_endian64 LE (mem_word LE (le_bytes ?x)) = byteswap64 ?x"
    by (simp add: mem_word_def in_order_def bswap_on_little_endian64_def le_word_le_bytes)
  ultimately have "read_length st ?h s1 = (Some (unat (byteswap64 ?x)), s2)"
    using code by (simp add: read_length_def new_head_def)
  moreover have "int max_size \<le> int v mod 2 ^ 64" if "2 ^ 32 \<le> v" "v < 2 ^ 64" for v :: nat
    using that n(3) by simp
  moreover have "0 < length d" "unat (byteswap64 ?x) < 2 ^ 64" using n(1) unsigned_less [of "byteswap64 ?x"] by auto
  ultimately have "int max_size \<le> int (unat (byteswap64 ?x)) mod 2 ^ 64" "read_length st ?h s1 = (Some (unat (byteswap64 ?x)), s2)"
    using byteswap64_large [of "length d"] n(2) by blast+
  then have "recv_data st max_size ?h (0, [], 0) s1 = (Break, s2)" by (simp add: recv_data_def)
  then have "\<exists>s'. recv_step st need_mask max_size (0, [], 0) s = (Break, s')"
    using s1(1,3) op by (auto simp: recv_step_def Let_def new_head_def opcode_defs)
  then show ?thesis by (subst recv_loop.simps) auto
qed

lemma recv_empty:
  assumes p: "pending s = frame op fin mk [] @ rest" and op: "op \<in> {TEXT_FRAME, BIN_FRAME}"
    and mk: "case mk of None \<Rightarrow> True | Some m \<Rightarrow> length m = 4"
  shows "\<exists>s'. recv_loop st need_mask max_size (0, [], 0) s = Some (None, st_close st s')"
proof -
  let ?h = "new_head op fin (mk \<noteq> None) 0"
  have c: "payload_code 0 = 0" by (simp add: payload_code_def)
  have "pending s = head_bytes ?h @ (case mk of None \<Rightarrow> [] | Some m \<Rightarrow> m) @ rest"
    using p c by (simp add: frame_def length_bytes_def xor_mask_def split: option.split)
  from read_head_bytes [OF this] obtain s1 where
    s1: "read_fixed_size st 2 s = ((2, head_bytes ?h), s1)" "after s ((case mk of None \<Rightarrow> [] | Some m \<Rightarrow> m) @ rest) s1"
      "bytes_head (head_bytes ?h) = ?h" by auto
  have "\<exists>key s2. (if ws_mask ?h then read_fixed_size st 4 s1 else ((4, [0, 0, 0, 0]), s1)) = ((4, key), s2)"
  proof (cases mk)
    case (Some m)
    then have "pending s1 = m @ rest" "length m = 4" using s1(2) mk by (simp_all add: after_def)
    from read_prefix [OF this] obtain s2 where "read_fixed_size st 4 s1 = ((4, m), s2)" by auto
    then show ?thesis using Some by (simp add: new_head_def)
  qed (simp add: new_head_def)
  moreover have "read_fixed_size st 0 s' = ((0, []), s')" for s'
    by (simp add: read_fixed_size_def read_fixed_loop.simps to_int64_id to_int_id)
  ultimately have "\<exists>s'. recv_data st max_size ?h (0, [], 0) s1 = (Break, s')"
    by (auto simp: recv_data_def read_length_def new_head_def)
  then have "\<exists>s'. recv_step st need_mask max_size (0, [], 0) s = (Break, s')"
    using s1(1,3) op by (auto simp: recv_step_def Let_def new_head_def opcode_defs)
  then show ?thesis by (subst recv_loop.simps) auto
qed

end

context stream_socket
begin

lemmas ws_recv_wire = ss.recv_loop_wire
lemmas ws_recv_large = ss.recv_large
lemmas ws_recv_empty = ss.recv_empty
lemmas ws_client_sends = ss.client_sends
lemmas ws_server_sends = ss.server_sends

end

section \<open>Properties\<close>

text \<open>
  C11: Receiving puts a message together. When a text or binary message arrives at the server in
  any number of masked fragments, with pings and pongs without payload between them, and is
  shorter than the limit, \<open>recv_message\<close> returns it with its opcode and the unmasked bytes of
  all fragments in order, has answered every ping with a pong, and leaves what follows on the
  connection.
\<close>

theorem ws_reassembles:
  assumes "stream_socket sys incoming outgoing writable" "ss_ready writable s"
    "ss_pending incoming s = wire op items mk d @ rest" "op \<in> {TEXT_FRAME, BIN_FRAME}"
    "list_all (item_ok True) items" "frame_ok mk d" "mk \<noteq> None"
    "length (carried items) + length d < max_size" "length (carried items) + length d < 2 ^ 31"
  shows "\<exists>s'. WSSession_recv_message (SocketStream_ops sys) max_size s = Some (Some (op, carried items @ d), s') \<and>
    ss_pending incoming s' = rest \<and> ss_sent outgoing s' = ss_sent outgoing s @ pongs items"
  using stream_socket.ws_recv_wire [OF assms(1), of s 0 op items mk d rest True "[]" max_size] assms
  by (simp add: WSSession_recv_message_def)

theorem ws_reassembles_witness:
  "\<exists>s'. WSSession_recv_message (SocketStream_ops net_sys) 100
      (\<lparr>m_socket = Some ((Socket_new 2 1 0)\<lparr>m_sock := 5, m_is_connected := True\<rparr>), m_owner = True\<rparr>,
       \<lparr>inbox = [wire 1 [Fragment (Some [1, 2, 3, 4]) [72, 101], Ping] (Some [5, 6, 7, 8]) [108]], outbox = [], window = 1\<rparr>) =
     Some (Some (1, [72, 101, 108]), s') \<and> ss_sent (\<lambda>fd. outbox) s' = head_bytes (new_head PONG True False 0)"
proof -
  let ?items = "[Fragment (Some [1, 2, 3, 4]) [72, 101], Ping]"
  let ?s = "(\<lparr>m_socket = Some ((Socket_new 2 1 0)\<lparr>m_sock := 5, m_is_connected := True\<rparr>), m_owner = True\<rparr>,
       \<lparr>inbox = [wire 1 ?items (Some [5, 6, 7, 8]) [108]], outbox = [], window = 1\<rparr>)"
  have "\<exists>s'. WSSession_recv_message (SocketStream_ops net_sys) 100 ?s = Some (Some (1, carried ?items @ [108]), s') \<and>
      ss_pending (\<lambda>fd k. concat (inbox k)) s' = [] \<and> ss_sent (\<lambda>fd. outbox) s' = ss_sent (\<lambda>fd. outbox) ?s @ pongs ?items"
    by (rule ws_reassembles [OF net.stream_socket_axioms, where mk = "Some [5, 6, 7, 8]" and rest = "[]"])
      (simp_all add: ss_ready_def ss_pending_def SocketStream_is_connected_def opcode_defs frame_ok_def del: wire.simps)
  moreover have "ss_sent (\<lambda>fd. outbox) ?s = []" by (simp add: ss_sent_def)
  ultimately show ?thesis by (auto simp del: wire.simps)
qed

text \<open>
  C7: A message of 1 to 65535 bytes below the limit goes through. What \<open>send_message\<close> of either
  side writes, \<open>recv_message\<close> of the other side takes back to the same opcode and bytes, with
  nothing left over; the sender is told the length of the payload plus two. The client's message
  object is masked in place.
\<close>

theorem ws_round_trip:
  assumes "stream_socket sys incoming outgoing writable" "ss_ready writable s" "op \<in> {TEXT_FRAME, BIN_FRAME}"
    "d \<noteq> []" "length d < 65536" "length d < max_size"
  shows "(\<exists>s' F. WSConnection_send_message (SocketStream_ops sys) rand (op, d) True s =
        ((int (length d) + 2, (op, xor_mask (mem_bytes LE rand) d)), s') \<and> ss_sent outgoing s' = ss_sent outgoing s @ F \<and>
      (\<forall>t rest. ss_ready writable t \<and> ss_pending incoming t = F @ rest \<longrightarrow>
        (\<exists>t'. WSSession_recv_message (SocketStream_ops sys) max_size t = Some (Some (op, d), t') \<and> ss_pending incoming t' = rest))) \<and>
    (\<exists>s' F. WSSession_send_message (SocketStream_ops sys) (op, d) True s = (int (length d) + 2, s') \<and>
      ss_sent outgoing s' = ss_sent outgoing s @ F \<and>
      (\<forall>t rest. ss_ready writable t \<and> ss_pending incoming t = F @ rest \<longrightarrow>
        (\<exists>t'. WSConnection_recv_message (SocketStream_ops sys) max_size t = Some (Some (op, d), t') \<and> ss_pending incoming t' = rest)))"
proof -
  have l: "length d < 2 ^ 31 - 2" "length d < 2 ^ 31" using assms(5) by auto
  let ?m = "mem_bytes LE rand"
  have recv: "\<exists>t'. recv_loop (SocketStream_ops sys) (mk \<noteq> None) max_size (0, [], 0) t = Some (Some (op, d), t') \<and> ss_pending incoming t' = rest"
    if "ss_ready writable t" "ss_pending incoming t = sent_frame op True mk d @ rest" "mk = None \<or> mk = Some ?m" for t rest mk
    using stream_socket.ws_recv_wire [OF assms(1), of t 0 op "[]" mk d rest "mk \<noteq> None" "[]" max_size] that assms l
    by (auto simp: sent_frame_small frame_ok_def)
  obtain s1 where "WSConnection_send_message (SocketStream_ops sys) rand (op, d) True s = ((int (length d) + 2, (op, xor_mask ?m d)), s1)"
      "ss_sent outgoing s1 = ss_sent outgoing s @ sent_frame op True (Some ?m) d"
    using stream_socket.ws_client_sends [OF assms(1,2,4) l(1)] by blast
  moreover obtain s2 where "WSSession_send_message (SocketStream_ops sys) (op, d) True s = (int (length d) + 2, s2)"
      "ss_sent outgoing s2 = ss_sent outgoing s @ sent_frame op True None d"
    using stream_socket.ws_server_sends [OF assms(1,2,4) l(1)] by blast
  moreover have "\<forall>t rest. ss_ready writable t \<and> ss_pending incoming t = sent_frame op True (Some ?m) d @ rest \<longrightarrow>
      (\<exists>t'. WSSession_recv_message (SocketStream_ops sys) max_size t = Some (Some (op, d), t') \<and> ss_pending incoming t' = rest)"
    using recv [where mk = "Some ?m"] by (simp add: WSSession_recv_message_def)
  moreover have "\<forall>t rest. ss_ready writable t \<and> ss_pending incoming t = sent_frame op True None d @ rest \<longrightarrow>
      (\<exists>t'. WSConnection_recv_message (SocketStream_ops sys) max_size t = Some (Some (op, d), t') \<and> ss_pending incoming t' = rest)"
    using recv [where mk = None] by (simp add: WSConnection_recv_message_def)
  ultimately show ?thesis by blast
qed

theorem ws_round_trip_witness:
  "\<exists>s'. fst (WSConnection_send_message (SocketStream_ops net_sys) 7 (1, [72, 105]) True
      (\<lparr>m_socket = Some ((Socket_new 2 1 0)\<lparr>m_sock := 5, m_is_connected := True\<rparr>), m_owner = True\<rparr>,
       \<lparr>inbox = [], outbox = [], window = 3\<rparr>)) = (4, s')"
  using ws_round_trip [OF net.stream_socket_axioms,
      of "(\<lparr>m_socket = Some ((Socket_new 2 1 0)\<lparr>m_sock := 5, m_is_connected := True\<rparr>), m_owner = True\<rparr>,
       \<lparr>inbox = [], outbox = [], window = 3\<rparr>)" 1 "[72, 105]" 100 7]
  by (auto simp: ss_ready_def SocketStream_is_connected_def opcode_defs)

text \<open>
  Messages that do not go through. A client that sends 65536 bytes or more is told that it
  succeeded, but writes the length in the byte order of the host, and the server, whatever its
  limit, closes the connection instead of returning the message. A data frame without payload,
  which the protocol allows, makes either receiver close the connection, too.
\<close>

theorem ws_rejects:
  assumes "stream_socket sys incoming outgoing writable" "op \<in> {TEXT_FRAME, BIN_FRAME}" "max_size < 2 ^ 32"
  shows "(ss_ready writable s \<and> 65536 \<le> length d \<and> length d < 2 ^ 31 - 2 \<longrightarrow>
      (\<exists>s' F. fst (fst (WSConnection_send_message (SocketStream_ops sys) rand (op, d) True s)) = int (length d) + 2 \<and>
        WSConnection_send_message (SocketStream_ops sys) rand (op, d) True s = s' \<and>
        ss_sent outgoing (snd s') = ss_sent outgoing s @ F \<and>
        (\<forall>t rest. ss_pending incoming t = F @ rest \<longrightarrow>
          (\<exists>t'. WSSession_recv_message (SocketStream_ops sys) max_size t = Some (None, SocketStream_close sys t'))))) \<and>
    (ss_pending incoming s = frame op fin (Some [a, b, c, e]) [] @ rest \<longrightarrow>
      (\<exists>s'. WSSession_recv_message (SocketStream_ops sys) max_size s = Some (None, SocketStream_close sys s')) \<and>
      (\<exists>s'. WSConnection_recv_message (SocketStream_ops sys) max_size s = Some (None, SocketStream_close sys s')))"
proof -
  have cl: "st_close (SocketStream_ops sys) = SocketStream_close sys" by (simp add: SocketStream_ops_def)
  have "\<exists>s' F. fst (fst (WSConnection_send_message (SocketStream_ops sys) rand (op, d) True s)) = int (length d) + 2 \<and>
        WSConnection_send_message (SocketStream_ops sys) rand (op, d) True s = s' \<and>
        ss_sent outgoing (snd s') = ss_sent outgoing s @ F \<and>
        (\<forall>t rest. ss_pending incoming t = F @ rest \<longrightarrow>
          (\<exists>t'. WSSession_recv_message (SocketStream_ops sys) max_size t = Some (None, SocketStream_close sys t')))"
    if "ss_ready writable s" "65536 \<le> length d" "length d < 2 ^ 31 - 2"
  proof -
    have "d \<noteq> []" "length d < 2 ^ 32" using that by auto
    from stream_socket.ws_client_sends [OF assms(1) that(1) this(1) that(3)] obtain s1 where
      "WSConnection_send_message (SocketStream_ops sys) rand (op, d) True s =
         ((int (length d) + 2, (op, xor_mask (mem_bytes LE rand) d)), s1)"
      "ss_sent outgoing s1 = ss_sent outgoing s @ sent_frame op True (Some (mem_bytes LE rand)) d" by blast
    then show ?thesis
      using stream_socket.ws_recv_large [OF assms(1) _ that(2) \<open>length d < 2 ^ 32\<close> assms(3,2)]
      by (auto simp: WSSession_recv_message_def cl)
  qed
  moreover have "\<exists>s'. recv_loop (SocketStream_ops sys) need_mask max_size (0, [], 0) s = Some (None, SocketStream_close sys s')"
    if "ss_pending incoming s = frame op fin (Some [a, b, c, e]) [] @ rest" for need_mask
    using stream_socket.ws_recv_empty [OF assms(1) that assms(2)] by (simp add: cl)
  ultimately show ?thesis unfolding WSSession_recv_message_def WSConnection_recv_message_def by blast
qed

theorem ws_rejects_witness:
  "\<exists>s'. WSSession_recv_message (SocketStream_ops net_sys) 100
      (\<lparr>m_socket = Some ((Socket_new 2 1 0)\<lparr>m_sock := 5, m_is_connected := True\<rparr>), m_owner = True\<rparr>,
       \<lparr>inbox = [frame 1 True (Some [1, 2, 3, 4]) []], outbox = [], window = 1\<rparr>) = Some (None, SocketStream_close net_sys s')"
  using ws_rejects [OF net.stream_socket_axioms, of 1 100
      "(\<lparr>m_socket = Some ((Socket_new 2 1 0)\<lparr>m_sock := 5, m_is_connected := True\<rparr>), m_owner = True\<rparr>,
       \<lparr>inbox = [frame 1 True (Some [1, 2, 3, 4]) []], outbox = [], window = 1\<rparr>)" "[]" 0 True 1 2 3 4 "[]"]
  by (simp add: ss_pending_def SocketStream_is_connected_def opcode_defs)

end
