(* ===== verification/HttpSession.thy ===== *)
theory HttpSession
  imports Servlet WebSocket
begin

text \<open>
  Receiving requests and serving clients: \<^verbatim>\<open>servers/http/http_parser.cc\<close>, the code around the
  generated machine in \<^verbatim>\<open>http_request_parser.rl\<close>, \<^verbatim>\<open>http_session.cc\<close>, \<^verbatim>\<open>http_server.cc\<close> and
  \<^verbatim>\<open>ws_server.cc\<close>. The machine that Ragel generates from the grammar is an argument (\<open>ragel\<close>): what
  it does to its state on a text, how many characters it consumes and which callbacks it calls
  with which pointer and length; a pointer is the text from there to the end of the buffer. What the
  theorems ask of it is said by \<open>parses_head\<close>. A failed \<^verbatim>\<open>assert\<close> ends the process: \<open>Abort\<close>. Loops that
  may not end are partial functions.
\<close>

section \<open>The parser of requests\<close>

datatype parse_event =
    RequestMethod string nat | RequestUri string nat | Fragment string nat | RequestPath string nat
  | QueryString string nat | HttpVersion string nat | HeaderDone string nat | HttpField string nat string nat

text \<open>Of the fields of \<^verbatim>\<open>http_request_parser\<close>, those that are read outside the machine.\<close>

record 'cs http_request_parser =
  hp_cs :: 'cs
  hp_body_start :: nat
  hp_nread :: nat
  hp_mark :: nat
  hp_field_start :: nat
  hp_field_len :: nat

text \<open>The machine sets its state and its marks in the buffer; the number is what it consumes.\<close>

record 'cs ragel =
  rg_start :: 'cs
  rg_exec :: "'cs http_request_parser \<Rightarrow> string \<Rightarrow> 'cs http_request_parser \<times> nat \<times> parse_event list"
  rg_error :: "'cs \<Rightarrow> bool"
  rg_final :: "'cs \<Rightarrow> bool"

definition http_request_parser_init :: "'cs ragel \<Rightarrow> 'cs http_request_parser" where
  "http_request_parser_init rg =
     \<lparr>hp_cs = rg_start rg, hp_body_start = 0, hp_nread = 0, hp_mark = 0, hp_field_start = 0, hp_field_len = 0\<rparr>"

definition http_request_parser_execute ::
    "'cs ragel \<Rightarrow> 'cs http_request_parser \<Rightarrow> string \<Rightarrow> (nat \<times> 'cs http_request_parser \<times> parse_event list) option" where
  "http_request_parser_execute rg p buf =
     (if buf = [] then Some (0, p, [])
      else
        let (p1, n, evs) = rg_exec rg p buf;
            p2 = (if rg_error rg (hp_cs p) then p1\<lparr>hp_cs := hp_cs p\<rparr> else p1);
            p3 = p2\<lparr>hp_nread := hp_nread p + n\<rparr>
        in if n \<le> length buf \<and> hp_nread p3 \<le> length buf \<and> hp_body_start p3 \<le> length buf \<and> hp_mark p3 < length buf \<and>
              hp_field_len p3 \<le> length buf \<and> hp_field_start p3 < length buf
           then Some (hp_nread p3, p3, evs) else None)"

definition http_request_parser_finish :: "'cs ragel \<Rightarrow> 'cs http_request_parser \<Rightarrow> int" where
  "http_request_parser_finish rg p = (if rg_error rg (hp_cs p) then -1 else if rg_final rg (hp_cs p) then 1 else 0)"

datatype HTTPParserError = ParserOK | INVALID_METHOD_ERROR | INVALID_VERSION_ERROR | INVALID_FIELD_ERROR

record 'cs HTTPRequestParser =
  m_parser :: "'cs http_request_parser"
  m_data :: HTTPRequest
  m_error :: HTTPParserError

definition HTTPRequestParser_new :: "'cs ragel \<Rightarrow> 'cs HTTPRequestParser" where
  "HTTPRequestParser_new rg = \<lparr>m_parser = http_request_parser_init rg, m_data = HTTPRequest_new 0x11 True, m_error = ParserOK\<rparr>"

text \<open>\<^verbatim>\<open>strncmp(a, b, n) == 0\<close>\<close>

definition strncmp_eq :: "string \<Rightarrow> string \<Rightarrow> nat \<Rightarrow> bool" where
  "strncmp_eq a b n \<longleftrightarrow> take n (c_str a @ [CHR 0x00]) = take n (c_str b @ [CHR 0x00])"

definition on_request_method :: "string \<Rightarrow> nat \<Rightarrow> 'cs HTTPRequestParser \<Rightarrow> 'cs HTTPRequestParser" where
  "on_request_method at len p =
     (let m = CharsToHTTPMethod at in
      if m = INVALID_METHOD then p\<lparr>m_error := INVALID_METHOD_ERROR\<rparr>
      else p\<lparr>m_data := (m_data p)\<lparr>m_method := m\<rparr>\<rparr>)"

definition on_request_http_version :: "string \<Rightarrow> nat \<Rightarrow> 'cs HTTPRequestParser \<Rightarrow> 'cs HTTPRequestParser" where
  "on_request_http_version at len p =
     (if strncmp_eq at ''HTTP/1.1'' len then p\<lparr>m_data := (m_data p)\<lparr>m_version := 0x11\<rparr>\<rparr>
      else if strncmp_eq at ''HTTP/1.0'' len then p\<lparr>m_data := (m_data p)\<lparr>m_version := 0x10\<rparr>\<rparr>
      else p\<lparr>m_error := INVALID_VERSION_ERROR\<rparr>)"

definition on_request_http_field :: "string \<Rightarrow> nat \<Rightarrow> string \<Rightarrow> nat \<Rightarrow> 'cs HTTPRequestParser \<Rightarrow> 'cs HTTPRequestParser" where
  "on_request_http_field fld flen val vlen p =
     (if flen = 0 then p
      else p\<lparr>m_data := HTTPRequest_set_header (take flen fld) (take vlen val) (m_data p)\<rparr>)"

fun on_event :: "parse_event \<Rightarrow> 'cs HTTPRequestParser \<Rightarrow> 'cs HTTPRequestParser" where
  "on_event (RequestMethod at len) p = on_request_method at len p"
| "on_event (RequestUri at len) p = p"
| "on_event (Fragment at len) p = p\<lparr>m_data := (m_data p)\<lparr>m_fragment := take len at\<rparr>\<rparr>"
| "on_event (RequestPath at len) p = p\<lparr>m_data := (m_data p)\<lparr>m_path := take len at\<rparr>\<rparr>"
| "on_event (QueryString at len) p = p\<lparr>m_data := (m_data p)\<lparr>m_query := take len at\<rparr>\<rparr>"
| "on_event (HttpVersion at len) p = on_request_http_version at len p"
| "on_event (HeaderDone at len) p = p"
| "on_event (HttpField fld flen val vlen) p = on_request_http_field fld flen val vlen p"

text \<open>\<^verbatim>\<open>execute\<close> returns the offset; the buffer behind it is moved to the front.\<close>

definition HTTPRequestParser_execute :: "'cs ragel \<Rightarrow> string \<Rightarrow> 'cs HTTPRequestParser \<Rightarrow> (nat \<times> 'cs HTTPRequestParser) option" where
  "HTTPRequestParser_execute rg buf p =
     (case http_request_parser_execute rg (m_parser p) buf of
        None \<Rightarrow> None
      | Some (n, hp, evs) \<Rightarrow> Some (n, fold on_event evs (p\<lparr>m_parser := hp\<rparr>)))"

definition HTTPRequestParser_is_finished :: "'cs ragel \<Rightarrow> 'cs HTTPRequestParser \<Rightarrow> bool" where
  "HTTPRequestParser_is_finished rg p \<longleftrightarrow> http_request_parser_finish rg (m_parser p) \<noteq> 0"

definition HTTPRequestParser_has_error :: "'cs ragel \<Rightarrow> 'cs HTTPRequestParser \<Rightarrow> bool" where
  "HTTPRequestParser_has_error rg p \<longleftrightarrow> m_error p \<noteq> ParserOK \<or> rg_error rg (hp_cs (m_parser p))"

definition get_content_length :: "(string \<Rightarrow> nat option) \<Rightarrow> HTTPRequest \<Rightarrow> nat" where
  "get_content_length cast r = GetAs cast (m_headers r) ''content-length'' 0"

section \<open>Receiving a request\<close>

datatype ('a, 's) received = Abort | Failed 's | Got 'a 's

partial_function (option) recv_head_loop ::
    "'cs ragel \<Rightarrow> ('s, 'x) Stream_scheme \<Rightarrow> nat \<Rightarrow> 'cs HTTPRequestParser \<Rightarrow> string \<Rightarrow> 's \<Rightarrow> ('cs HTTPRequestParser \<times> string, 's) received option" where
  "recv_head_loop rg st buff_size p buf s =
     (case st_read st (buff_size - length buf) s of
        ((n, bs), s1) \<Rightarrow>
          if n < 0 then Some (Failed (st_close st s1))
          else
            let buf1 = buf @ map byte_char bs in
            (case HTTPRequestParser_execute rg buf1 p of
               None \<Rightarrow> Some Abort
             | Some (nparse, p1) \<Rightarrow>
                 if HTTPRequestParser_has_error rg p1 then Some (Failed (st_close st s1))
                 else
                   let buf2 = drop nparse buf1 in
                   if length buf2 = buff_size then Some (Failed (st_close st s1))
                   else if HTTPRequestParser_is_finished rg p1 then Some (Got (p1, buf2) s1)
                   else recv_head_loop rg st buff_size p1 buf2 s1))"

definition recv_body ::
    "(string \<Rightarrow> nat option) \<Rightarrow> ('s, 'x) Stream_scheme \<Rightarrow> HTTPRequest \<Rightarrow> string \<Rightarrow> 's \<Rightarrow> (HTTPRequest, 's) received" where
  "recv_body cast st r buf s =
     (let len = to_int64 (int (get_content_length cast r)) in
      if len > 0 then
        let left = len - int (length buf) in
        if left > 0 then
          (case read_fixed_size st (nat left) s of
             ((n, bs), s1) \<Rightarrow>
               if n \<le> 0 then Failed (st_close st s1)
               else Got (r\<lparr>m_body := buf @ map byte_char bs\<rparr>) s1)
        else Got (r\<lparr>m_body := take (nat len) buf\<rparr>) s
      else Got r s)"

definition recv_request ::
    "'cs ragel \<Rightarrow> (string \<Rightarrow> nat option) \<Rightarrow> nat \<Rightarrow> ('s, 'x) Stream_scheme \<Rightarrow> 's \<Rightarrow> (HTTPRequest, 's) received option" where
  "recv_request rg cast buff_size st s =
     (case recv_head_loop rg st buff_size (HTTPRequestParser_new rg) [] s of
        None \<Rightarrow> None
      | Some Abort \<Rightarrow> Some Abort
      | Some (Failed s1) \<Rightarrow> Some (Failed s1)
      | Some (Got (p, buf) s1) \<Rightarrow>
          Some (case recv_body cast st (m_data p) buf s1 of
              Got r s2 \<Rightarrow> Got (HTTPRequest_init r) s2
            | Failed s2 \<Rightarrow> Failed s2
            | Abort \<Rightarrow> Abort))"

definition send_response :: "('s, 'x) Stream_scheme \<Rightarrow> HTTPResponse \<Rightarrow> 's \<Rightarrow> int \<times> 's" where
  "send_response st rsp s = write_fixed_size st (map char_byte (HTTPResponse_dump rsp)) s"

section \<open>Serving clients\<close>

text \<open>
  \<^verbatim>\<open>HTTPServer::handle_client\<close>, until the session ends. \<open>serve\<close> is the dispatch to the servlets, which
  may change the request, the response and the session.
\<close>

partial_function (option) handle_client ::
    "('s \<Rightarrow> (HTTPRequest, 's) received option) \<Rightarrow> ('s exchange \<Rightarrow> (int \<times> 's exchange) option) \<Rightarrow>
     ('s, 'x) Stream_scheme \<Rightarrow> bool \<Rightarrow> 's \<Rightarrow> (unit, 's) received option" where
  "handle_client recv serve st keepalive s =
     (case recv s of
        None \<Rightarrow> None
      | Some Abort \<Rightarrow> Some Abort
      | Some (Failed s1) \<Rightarrow> Some (Got () (st_close st s1))
      | Some (Got req s1) \<Rightarrow>
          (case serve (req, HTTPResponse_new (m_version req) (m_close req \<or> \<not> keepalive), s1) of
             None \<Rightarrow> None
           | Some (r, (req1, rsp, s2)) \<Rightarrow>
               (case send_response st rsp s2 of
                  (n, s3) \<Rightarrow>
                    if \<not> keepalive \<or> m_close req1 then Some (Got () (st_close st s3))
                    else handle_client recv serve st keepalive s3)))"

definition HTTPServer_handle_client ::
    "'cs ragel \<Rightarrow> (string \<Rightarrow> nat option) \<Rightarrow> nat \<Rightarrow> (string \<Rightarrow> string \<Rightarrow> bool) \<Rightarrow> ('f \<Rightarrow> 's exchange \<Rightarrow> int \<times> 's exchange) \<Rightarrow>
     'f ServletDispatch \<Rightarrow> ('s, 'x) Stream_scheme \<Rightarrow> bool \<Rightarrow> 's \<Rightarrow> (unit, 's) received option" where
  "HTTPServer_handle_client rg cast buff_size fnm run sd st keepalive s =
     handle_client (recv_request rg cast buff_size st) (ServletDispatch_handle fnm run sd) st keepalive s"

text \<open>
  \<^verbatim>\<open>WSServer::handle_client\<close> once the handshake has been answered: the servlet of the path is told
  about the connection, every message and the end.
\<close>

partial_function (option) ws_message_loop ::
    "('s \<Rightarrow> (WSFrameMessage option \<times> 's) option) \<Rightarrow> (WSFrameMessage \<Rightarrow> 's \<Rightarrow> int \<times> 's) \<Rightarrow> 's \<Rightarrow> 's option" where
  "ws_message_loop recv deal s =
     (case recv s of
        None \<Rightarrow> None
      | Some (None, s1) \<Rightarrow> Some s1
      | Some (Some msg, s1) \<Rightarrow>
          (case deal msg s1 of (rt, s2) \<Rightarrow> if rt \<noteq> 0 then Some s2 else ws_message_loop recv deal s2))"

definition WSServer_handle_client ::
    "('s \<Rightarrow> (WSFrameMessage option \<times> 's) option) \<Rightarrow> (string \<Rightarrow> string \<Rightarrow> bool) \<Rightarrow> ('f \<Rightarrow> WSFrameMessage option \<times> 's \<Rightarrow> int \<times> WSFrameMessage option \<times> 's) \<Rightarrow>
     'f ServletDispatch \<Rightarrow> ('s, 'x) Stream_scheme \<Rightarrow> HTTPRequest option \<Rightarrow> 's \<Rightarrow> 's option" where
  "WSServer_handle_client recv fnm run sd st hdr s =
     (case hdr of
        None \<Rightarrow> Some (st_close st s)
      | Some req \<Rightarrow>
          (case get_ws_servlet fnm (m_path req) sd of
             None \<Rightarrow> None
           | Some None \<Rightarrow> Some (st_close st s)
           | Some (Some slt) \<Rightarrow>
               (case on_connect run slt (None, s) of
                  (rt, (_, s1)) \<Rightarrow>
                    if rt \<noteq> 0 then Some (st_close st s1)
                    else (case ws_message_loop recv (\<lambda>msg s. case WSServlet_handle run slt (Some msg, s) of (r, (_, s')) \<Rightarrow> (r, s')) s1 of
                        None \<Rightarrow> None
                      | Some s2 \<Rightarrow> (case on_close run slt (None, s2) of (_, (_, s3)) \<Rightarrow> Some (st_close st s3))))))"

section \<open>Theorems\<close>

lemma recv_head_stuck:
  assumes "recv_head_loop rg st buff_size p buf s = Some r"
  shows "(\<forall>n. st_read st n s = ((0, []), s)) \<Longrightarrow> buf = [] \<Longrightarrow> buff_size \<noteq> 0 \<Longrightarrow>
    \<not> HTTPRequestParser_has_error rg p \<Longrightarrow> HTTPRequestParser_is_finished rg p"
  using assms
proof (induction rule: recv_head_loop.raw_induct [rotated, consumes 1, case_names step])
  case (step loop rg st buff_size p buf s r)
  have "HTTPRequestParser_execute rg [] p = Some (0, p)"
    by (simp add: HTTPRequestParser_execute_def http_request_parser_execute_def)
  then show ?case using step by (auto split: if_splits)
qed

text \<open>
  A connection that the client has closed is never given up. When a read at the beginning of
  a request returns 0, and it does so for ever after the end of the stream, \<^verbatim>\<open>recv_request\<close> never
  returns, and so neither does the loop that serves the client.
\<close>

theorem recv_request_spins:
  assumes "\<forall>n. st_read st n s = ((0, []), s)" "buff_size \<noteq> 0" "\<not> rg_error rg (rg_start rg)" "\<not> rg_final rg (rg_start rg)"
  shows "recv_request rg cast buff_size st s = None \<and>
     HTTPServer_handle_client rg cast buff_size fnm run sd st keepalive s = None"
proof -
  have n: "\<not> HTTPRequestParser_has_error rg (HTTPRequestParser_new rg)" "\<not> HTTPRequestParser_is_finished rg (HTTPRequestParser_new rg)"
    using assms(3,4) by (auto simp: HTTPRequestParser_has_error_def HTTPRequestParser_is_finished_def HTTPRequestParser_new_def
      http_request_parser_init_def http_request_parser_finish_def)
  have "recv_head_loop rg st buff_size (HTTPRequestParser_new rg) [] s = None"
    using recv_head_stuck [of rg st buff_size "HTTPRequestParser_new rg" "[]" s] assms(1,2) n
    by (cases "recv_head_loop rg st buff_size (HTTPRequestParser_new rg) [] s") auto
  then have "recv_request rg cast buff_size st s = None" by (simp add: recv_request_def)
  then show ?thesis by (simp add: HTTPServer_handle_client_def handle_client.simps)
qed

text \<open>A machine for heads of one line, which announces a body of three bytes, for the examples below.\<close>

definition line_machine :: "string ragel" where
  "line_machine = \<lparr>rg_start = [],
     rg_exec = \<lambda>p t. (case read_line (hp_cs p @ t) of
         None \<Rightarrow> (p\<lparr>hp_cs := hp_cs p @ t\<rparr>, length t, [])
       | Some (l, rest) \<Rightarrow> (p\<lparr>hp_cs := l @ crlf\<rparr>, length t - length rest, [RequestPath (drop 4 l @ crlf @ rest) (length l - 13), HttpField ''content-length'' 14 ''3'' 1])),
     rg_error = \<lambda>cs. False, rg_final = \<lambda>cs. read_line cs \<noteq> None\<rparr>"

definition idle_client :: "SocketStream \<times> net" where
  "idle_client = (\<lparr>m_socket = Some ((Socket_new 2 1 0)\<lparr>m_sock := 5, m_is_connected := True\<rparr>), m_owner = True\<rparr>,
     \<lparr>inbox = [], outbox = [], window = 1\<rparr>)"

theorem recv_request_spins_witness:
  "recv_request line_machine (\<lambda>_. None) 4096 (SocketStream_ops net_sys) idle_client = None"
proof -
  have "st_read (SocketStream_ops net_sys) n idle_client = ((0, []), idle_client)" for n
    by (simp add: idle_client_def ss_defs SocketStream_is_connected_def net_sys_def net_recv_def to_int_def)
  moreover have "\<not> rg_error line_machine (rg_start line_machine)" "\<not> rg_final line_machine (rg_start line_machine)"
    by (simp_all add: line_machine_def crlf_def)
  ultimately show ?thesis by (intro conjunct1 [OF recv_request_spins]) auto
qed

text \<open>
  \<open>parses_head rg h r\<close>: from the start, the machine consumes the head \<open>h\<close> of a text that begins with
  it, is final then with its marks inside the head, and its callbacks make the request \<open>r\<close>.
\<close>

definition parses_head :: "'cs ragel \<Rightarrow> string \<Rightarrow> HTTPRequest \<Rightarrow> bool" where
  "parses_head rg h r \<longleftrightarrow> h \<noteq> [] \<and>
     (\<forall>d. case rg_exec rg (http_request_parser_init rg) (h @ d) of
        (p, n, evs) \<Rightarrow> n = length h \<and> rg_final rg (hp_cs p) \<and> \<not> rg_error rg (hp_cs p) \<and>
          hp_body_start p \<le> length h \<and> hp_mark p < length h \<and> hp_field_start p < length h \<and> hp_field_len p \<le> length h \<and>
          m_data (fold on_event evs (HTTPRequestParser_new rg)) = r \<and>
          m_error (fold on_event evs (HTTPRequestParser_new rg)) = ParserOK)"

lemma new_machine: "m_parser (HTTPRequestParser_new rg) = http_request_parser_init rg"
  "hp_cs (http_request_parser_init rg) = rg_start rg" "hp_nread (http_request_parser_init rg) = 0"
  by (simp_all add: HTTPRequestParser_new_def http_request_parser_init_def)

lemma on_events_frame: "fold on_event evs (p\<lparr>m_parser := hp\<rparr>) = (fold on_event evs p)\<lparr>m_parser := hp\<rparr>"
proof (induction evs arbitrary: p)
  case (Cons e evs)
  have "on_event e (p\<lparr>m_parser := hp\<rparr>) = (on_event e p)\<lparr>m_parser := hp\<rparr>"
    by (cases e) (auto simp: on_request_method_def on_request_http_version_def on_request_http_field_def Let_def)
  then show ?case using Cons.IH by simp
qed simp

text \<open>
  C23: A request whose head comes with one read is received as it was sent: the head gives the
  request, and the body is the next \<^verbatim>\<open>content-length\<close> bytes, taken first from what was read with
  the head and then from the stream, which is left behind them. What was read beyond the body is
  dropped, so a request that follows in the same packet is lost.
\<close>

theorem recv_request_whole:
  assumes "parses_head rg h r" "\<not> rg_error rg (rg_start rg)" "byte_source st pending"
    "st_read st buff_size s = ((int (length D), D), s1)" "map byte_char D = h @ d" "length d < buff_size"
    "get_content_length cast r = n" "0 < n" "n < 2 ^ 31" "n \<le> length d + length (pending s1)"
  shows "\<exists>s2. recv_request rg cast buff_size st s =
       Some (Got (HTTPRequest_init (r\<lparr>m_body := take n (d @ map byte_char (pending s1))\<rparr>)) s2) \<and>
     pending s2 = drop (n - length d) (pending s1)"
proof -
  obtain hp m evs where x: "rg_exec rg (http_request_parser_init rg) (h @ d) = (hp, m, evs)"
    by (cases "rg_exec rg (http_request_parser_init rg) (h @ d)") auto
  have h: "h \<noteq> []" using assms(1) by (simp add: parses_head_def)
  note spec = assms(1) [unfolded parses_head_def, THEN conjunct2, THEN spec, of d, unfolded x]
  have f: "m = length h" "rg_final rg (hp_cs hp)" "\<not> rg_error rg (hp_cs hp)"
      "hp_body_start hp \<le> length h" "hp_mark hp < length h" "hp_field_start hp < length h" "hp_field_len hp \<le> length h"
    and ev: "m_data (fold on_event evs (HTTPRequestParser_new rg)) = r"
      "m_error (fold on_event evs (HTTPRequestParser_new rg)) = ParserOK"
    using spec by auto
  let ?hp = "hp\<lparr>hp_nread := length h\<rparr>"
  let ?p = "(fold on_event evs (HTTPRequestParser_new rg))\<lparr>m_parser := ?hp\<rparr>"
  have "HTTPRequestParser_execute rg (h @ d) (HTTPRequestParser_new rg) = Some (length h, ?p)"
    using x h f assms(2)
    by (simp add: HTTPRequestParser_execute_def http_request_parser_execute_def on_events_frame new_machine)
  moreover have "\<not> HTTPRequestParser_has_error rg ?p" "HTTPRequestParser_is_finished rg ?p"
    using f ev by (simp_all add: HTTPRequestParser_has_error_def HTTPRequestParser_is_finished_def http_request_parser_finish_def)
  ultimately have head: "recv_head_loop rg st buff_size (HTTPRequestParser_new rg) [] s = Some (Got (?p, d) s1)"
    using assms(4-6) by (subst recv_head_loop.simps) simp
  have len: "to_int64 (int n) = int n" using assms(9) by (simp add: to_int64_id)
  show ?thesis
  proof (cases "length d < n")
    case True
    obtain s2 where "read_fixed_size st (n - length d) s1 = ((int (n - length d), take (n - length d) (pending s1)), s2)"
      "pending s2 = drop (n - length d) (pending s1)"
      using byte_source.read_exact [OF assms(3), of "n - length d" s1] assms(9,10) by (metis (no_types, lifting) add.commute le_diff_conv less_imp_diff_less)
    then show ?thesis using head len True assms(7,8) ev
      by (simp add: recv_request_def recv_body_def take_map nat_diff_distrib)
  next
    case False
    then show ?thesis using head len assms(7,8) ev by (simp add: recv_request_def recv_body_def)
  qed
qed

definition get_x :: string where
  "get_x = ''GET /x HTTP/1.1'' @ crlf"

definition request_x :: HTTPRequest where
  "request_x = HTTPRequest_set_header ''content-length'' ''3'' ((HTTPRequest_new 0x11 True)\<lparr>m_path := ''/x''\<rparr>)"

lemma get_x_parsed: "parses_head line_machine get_x request_x"
  by (simp add: parses_head_def line_machine_def get_x_def crlf_def request_x_def on_request_http_field_def
      HTTPRequestParser_new_def http_request_parser_init_def)

definition client_x :: "byte list \<Rightarrow> SocketStream \<times> net" where
  "client_x bs = (\<lparr>m_socket = Some ((Socket_new 2 1 0)\<lparr>m_sock := 5, m_is_connected := True\<rparr>), m_owner = True\<rparr>,
     \<lparr>inbox = [map char_byte get_x @ bs, [67, 68]], outbox = [], window = 1\<rparr>)"

theorem recv_request_whole_witness:
  "\<exists>s2. recv_request line_machine (\<lambda>v. if v = ''3'' then Some 3 else None) 4096 (SocketStream_ops net_sys) (client_x [65, 66]) =
     Some (Got (HTTPRequest_init (request_x\<lparr>m_body := ''ABC''\<rparr>)) s2) \<and> ss_pending (\<lambda>fd k. concat (inbox k)) s2 = [68]"
proof -
  let ?st = "SocketStream_ops net_sys" and ?s1 = "(fst (client_x [65, 66]), (snd (client_x [65, 66]))\<lparr>inbox := [[], [67, 68]]\<rparr>)"
  have r: "st_read ?st 4096 (client_x [65, 66]) = ((int (length (map char_byte get_x @ [65, 66])), map char_byte get_x @ [65, 66]), ?s1)"
    by (simp add: client_x_def ss_defs SocketStream_is_connected_def net_sys_def net_recv_def to_int_def get_x_def crlf_def)
  have c: "byte_char 65 = CHR ''A''" "byte_char 66 = CHR ''B''" "byte_char 67 = CHR ''C''"
    by (simp_all add: byte_char_def char_of_def bit_0)
  have b: "map byte_char (map char_byte get_x @ [65, 66]) = get_x @ ''AB''" by (simp add: comp_def c)
  have p: "ss_pending (\<lambda>fd k. concat (inbox k)) ?s1 = [67, 68]" by (simp add: client_x_def ss_pending_def SocketStream_is_connected_def)
  have l: "get_content_length (\<lambda>v. if v = ''3'' then Some 3 else None) request_x = 3"
    using req.get_put [of "(HTTPRequest_new 0x11 True)\<lparr>m_path := ''/x''\<rparr>" "''content-length''" "''content-length''" "''3''"]
    by (simp add: get_content_length_def request_x_def GetAs_def HTTPRequest_new_def)
  have "\<not> rg_error line_machine (rg_start line_machine)" by (simp add: line_machine_def)
  from recv_request_whole [OF get_x_parsed this net.ss.byte_source_axioms r b _ l, unfolded p] show ?thesis
    by (simp add: c)
qed

text \<open>
  A head that comes in two pieces ends the process. The machine counts what it has consumed over
  all calls, but \<^verbatim>\<open>recv_request\<close> moves the buffer after every call; at the second piece the count is
  larger than the buffer and the assertion on it fails.
\<close>

theorem split_head_aborts:
  assumes "st_read st buff_size s = ((int (length P), P), s1)" "st_read st buff_size s1 = ((int (length Q), Q), s2)"
    "P \<noteq> []" "Q \<noteq> []" "buff_size \<noteq> 0" "\<not> rg_error rg (rg_start rg)"
    "rg_exec rg (http_request_parser_init rg) (map byte_char P) = (hp, length P, evs)" "\<not> rg_error rg (hp_cs hp)" "\<not> rg_final rg (hp_cs hp)"
    "hp_body_start hp \<le> length P" "hp_mark hp < length P" "hp_field_start hp < length P" "hp_field_len hp \<le> length P"
    "m_error (fold on_event evs (HTTPRequestParser_new rg)) = ParserOK"
    "rg_exec rg (hp\<lparr>hp_nread := length P\<rparr>) (map byte_char Q) = (hp2, length Q, evs2)"
  shows "recv_request rg cast buff_size st s = Some Abort"
proof -
  let ?p = "(fold on_event evs (HTTPRequestParser_new rg))\<lparr>m_parser := hp\<lparr>hp_nread := length P\<rparr>\<rparr>"
  have "HTTPRequestParser_execute rg (map byte_char P) (HTTPRequestParser_new rg) = Some (length P, ?p)"
    using assms(3,6,7,10-13) by (simp add: HTTPRequestParser_execute_def http_request_parser_execute_def on_events_frame new_machine)
  moreover have "\<not> HTTPRequestParser_has_error rg ?p" "\<not> HTTPRequestParser_is_finished rg ?p"
    using assms(8,9,14) by (simp_all add: HTTPRequestParser_has_error_def HTTPRequestParser_is_finished_def http_request_parser_finish_def)
  moreover have "HTTPRequestParser_execute rg (map byte_char Q) ?p = None"
    using assms(3,4,8,15) by (simp add: HTTPRequestParser_execute_def http_request_parser_execute_def)
  moreover have "recv_head_loop rg st buff_size ?p [] s1 = Some Abort" 
    using assms(2) calculation by (subst recv_head_loop.simps) simp
  ultimately have "recv_head_loop rg st buff_size (HTTPRequestParser_new rg) [] s = Some Abort"
    using assms(1,5) by (subst recv_head_loop.simps) simp
  then show ?thesis by (simp add: recv_request_def)
qed

theorem split_head_aborts_witness:
  "recv_request line_machine (\<lambda>_. None) 4096 (SocketStream_ops net_sys)
     (\<lparr>m_socket = Some ((Socket_new 2 1 0)\<lparr>m_sock := 5, m_is_connected := True\<rparr>), m_owner = True\<rparr>,
      \<lparr>inbox = [map char_byte ''GET '', map char_byte ''/x''], outbox = [], window = 1\<rparr>) = Some Abort"
proof (rule split_head_aborts)
  show "st_read (SocketStream_ops net_sys) 4096
     (\<lparr>m_socket = Some ((Socket_new 2 1 0)\<lparr>m_sock := 5, m_is_connected := True\<rparr>), m_owner = True\<rparr>,
      \<lparr>inbox = [map char_byte ''GET '', map char_byte ''/x''], outbox = [], window = 1\<rparr>) =
     ((int (length (map char_byte ''GET '')), map char_byte ''GET ''),
     (\<lparr>m_socket = Some ((Socket_new 2 1 0)\<lparr>m_sock := 5, m_is_connected := True\<rparr>), m_owner = True\<rparr>,
      \<lparr>inbox = [[], map char_byte ''/x''], outbox = [], window = 1\<rparr>))"
    by (simp add: ss_defs SocketStream_is_connected_def net_sys_def net_recv_def to_int_def)
  show "st_read (SocketStream_ops net_sys) 4096
     (\<lparr>m_socket = Some ((Socket_new 2 1 0)\<lparr>m_sock := 5, m_is_connected := True\<rparr>), m_owner = True\<rparr>,
      \<lparr>inbox = [[], map char_byte ''/x''], outbox = [], window = 1\<rparr>) =
     ((int (length (map char_byte ''/x'')), map char_byte ''/x''),
     (\<lparr>m_socket = Some ((Socket_new 2 1 0)\<lparr>m_sock := 5, m_is_connected := True\<rparr>), m_owner = True\<rparr>,
      \<lparr>inbox = [[]], outbox = [], window = 1\<rparr>))"
    by (simp add: ss_defs SocketStream_is_connected_def net_sys_def net_recv_def to_int_def)
  let ?p = "(http_request_parser_init line_machine)\<lparr>hp_cs := ''GET ''\<rparr>"
  show "rg_exec line_machine (http_request_parser_init line_machine) (map byte_char (map char_byte ''GET '')) = (?p, length (map char_byte ''GET ''), [])"
    "rg_exec line_machine (?p\<lparr>hp_nread := length (map char_byte ''GET '')\<rparr>) (map byte_char (map char_byte ''/x'')) =
      ((?p\<lparr>hp_nread := length (map char_byte ''GET '')\<rparr>)\<lparr>hp_cs := ''GET /x''\<rparr>, length (map char_byte ''/x''), [])"
    by (simp_all add: line_machine_def http_request_parser_init_def)
qed (simp_all add: line_machine_def HTTPRequestParser_new_def http_request_parser_init_def)

end
