(* ===== verification/Fdmanager.thy ===== *)
theory Fdmanager
  imports Prelude
begin

text \<open>
  The table of file descriptors of \<^verbatim>\<open>src/fdmanager.cc\<close>. The kernel is the record \<open>kernel\<close>:
  what \<^verbatim>\<open>fstat\<close> says of a descriptor (\<open>None\<close> for the error -1, otherwise whether it is a
  socket) and its status flags, which \<^verbatim>\<open>fcntl\<close> reads and writes. An access of \<^verbatim>\<open>m_datas\<close> outside
  of its bounds is the value \<open>None\<close>. The operations of \<open>FDManager\<close> run under its lock.
\<close>

section \<open>Data\<close>

record kernel =
  k_fstat :: "int \<Rightarrow> bool option"
  k_flags :: "int \<Rightarrow> u32"

record fd_entity =
  m_is_init :: bool
  m_is_sys_nonblock :: bool
  m_is_user_nonblock :: bool
  m_is_socket :: bool
  m_is_closed :: bool
  m_fd :: int
  m_connect_timeout :: u64
  m_recv_timeout :: u64
  m_send_timeout :: u64

type_synonym fd_table = "fd_entity option list"

definition O_NONBLOCK :: u32 where
  "O_NONBLOCK = 0x800"

section \<open>Entities\<close>

definition fcntl_set :: "int \<Rightarrow> u32 \<Rightarrow> kernel \<Rightarrow> kernel" where
  "fcntl_set fd flags k = k\<lparr>k_flags := (k_flags k)(fd := flags)\<rparr>"

definition FDEntity_init :: "fd_entity \<Rightarrow> kernel \<Rightarrow> bool \<times> fd_entity \<times> kernel" where
  "FDEntity_init e k =
     (if m_is_init e then (False, e, k)
      else
        let e1 = e\<lparr>m_connect_timeout := 0, m_recv_timeout := 0, m_send_timeout := 0\<rparr>;
            e2 = (case k_fstat k (m_fd e) of
                    None \<Rightarrow> e1\<lparr>m_is_init := False, m_is_socket := False\<rparr>
                  | Some is_sock \<Rightarrow> e1\<lparr>m_is_init := True, m_is_socket := is_sock\<rparr>);
            flags = k_flags k (m_fd e);
            (e3, k1) = (if m_is_socket e2
                        then (e2\<lparr>m_is_sys_nonblock := True\<rparr>,
                              if flags AND O_NONBLOCK = 0 then fcntl_set (m_fd e) (flags OR O_NONBLOCK) k else k)
                        else (e2\<lparr>m_is_sys_nonblock := False\<rparr>, k));
            e4 = e3\<lparr>m_is_user_nonblock := False, m_is_closed := False\<rparr>
        in (m_is_init e4, e4, k1))"

definition FDEntity_new :: "int \<Rightarrow> kernel \<Rightarrow> fd_entity \<times> kernel" where
  "FDEntity_new fd k =
     snd (FDEntity_init
       \<lparr>m_is_init = False, m_is_sys_nonblock = False, m_is_user_nonblock = False, m_is_socket = False,
        m_is_closed = False, m_fd = fd, m_connect_timeout = 0, m_recv_timeout = 0, m_send_timeout = 0\<rparr> k)"

definition connect_timeout :: "u64 \<Rightarrow> fd_entity \<Rightarrow> u64" where
  "connect_timeout g_tcp_connect_timeout e =
     (if m_connect_timeout e = 0 then g_tcp_connect_timeout else m_connect_timeout e)"

definition recv_timeout :: "u64 \<Rightarrow> fd_entity \<Rightarrow> u64" where
  "recv_timeout g_tcp_recv_timeout e =
     (if m_recv_timeout e = 0 then g_tcp_recv_timeout else m_recv_timeout e)"

definition send_timeout :: "u64 \<Rightarrow> fd_entity \<Rightarrow> u64" where
  "send_timeout g_tcp_send_timeout e =
     (if m_send_timeout e = 0 then g_tcp_send_timeout else m_send_timeout e)"

section \<open>The table\<close>

definition FDManager_new :: fd_table where
  "FDManager_new = replicate 60 None"

text \<open>\<^verbatim>\<open>resize\<close> of a vector of shared pointers.\<close>

definition resize :: "nat \<Rightarrow> 'a option list \<Rightarrow> 'a option list" where
  "resize n xs = take n xs @ replicate (n - length xs) None"

text \<open>
  The size after growing: \<^verbatim>\<open>m_datas.size() * 1.5\<close> is compared with the descriptor as a
  \<^verbatim>\<open>double\<close>, which twice the numbers do without rounding, and is cut to an integer afterwards.
\<close>

definition grown_size :: "nat \<Rightarrow> int \<Rightarrow> nat" where
  "grown_size n fd = (if 3 * int n > 2 * fd then n * 3 div 2 else nat (fd + 1))"

definition del_fd :: "int \<Rightarrow> fd_table \<Rightarrow> fd_table option" where
  "del_fd fd m_datas =
     (if fd \<ge> int (length m_datas) then Some m_datas
      else if fd < 0 then None
      else Some (m_datas[nat fd := None]))"

definition add_fd :: "int \<Rightarrow> fd_table \<Rightarrow> kernel \<Rightarrow> (fd_entity \<times> fd_table \<times> kernel) option" where
  "add_fd fd m_datas k =
     (let ds = (if fd \<ge> int (length m_datas) then resize (grown_size (length m_datas) fd) m_datas else m_datas)
      in if fd < 0 \<or> fd \<ge> int (length ds) then None
         else let (e, k1) = FDEntity_new fd k in Some (e, ds[nat fd := Some e], k1))"

definition get_fd ::
    "int \<Rightarrow> bool \<Rightarrow> fd_table \<Rightarrow> kernel \<Rightarrow> (fd_entity option \<times> fd_table \<times> kernel) option" where
  "get_fd fd auto_create m_datas k =
     (if fd \<ge> int (length m_datas) \<and> \<not> auto_create then Some (None, m_datas, k)
      else if fd < int (length m_datas) \<and> fd < 0 then None
      else if fd < int (length m_datas) \<and> m_datas ! nat fd \<noteq> None then Some (m_datas ! nat fd, m_datas, k)
      else if fd < int (length m_datas) \<and> \<not> auto_create then Some (None, m_datas, k)
      else map_option (\<lambda>(e, ds, k1). (Some e, ds, k1)) (add_fd fd m_datas k))"

section \<open>Lemmas\<close>

lemma FDEntity_new_spec:
  "FDEntity_new fd k = (e, k1) \<Longrightarrow>
     m_fd e = fd \<and> (m_is_init e \<longleftrightarrow> k_fstat k fd \<noteq> None) \<and> (m_is_socket e \<longleftrightarrow> k_fstat k fd = Some True) \<and>
     m_is_sys_nonblock e = m_is_socket e \<and> \<not> m_is_user_nonblock e \<and> \<not> m_is_closed e \<and>
     k_flags k1 = (if m_is_socket e then (k_flags k)(fd := k_flags k fd OR O_NONBLOCK) else k_flags k)"
proof -
  assume new: "FDEntity_new fd k = (e, k1)"
  have id: "k_flags k fd OR O_NONBLOCK = k_flags k fd" if "k_flags k fd AND O_NONBLOCK \<noteq> 0"
  proof -
    have bit: "bit O_NONBLOCK n \<longleftrightarrow> n = 11" for n
    proof -
      have e: "O_NONBLOCK = push_bit 11 1" by (simp add: O_NONBLOCK_def)
      show ?thesis unfolding e by (auto simp: bit_simps simp del: push_bit_of_1)
    qed
    from that obtain n where "bit (k_flags k fd AND O_NONBLOCK) n" by (auto simp: bit_eq_iff)
    then have "bit (k_flags k fd) 11" by (auto simp: bit_and_iff bit)
    then show ?thesis by (intro bit_word_eqI) (auto simp: bit_or_iff bit)
  qed
  show ?thesis using new id
    by (cases "k_fstat k fd") (auto simp: FDEntity_new_def FDEntity_init_def Let_def fcntl_set_def fun_upd_idem split: if_splits)
qed

lemma length_resize [simp]: "length (resize n xs) = n"
  by (simp add: resize_def)

lemma grown_size_enough: "int n \<le> fd \<Longrightarrow> fd < int (grown_size n fd) \<longleftrightarrow> 2 * fd + 1 \<noteq> 3 * int n"
  unfolding grown_size_def by (cases "3 * int n > 2 * fd") (auto simp: zdiv_int)

lemma grown_size_ge: "int n \<le> fd \<Longrightarrow> n \<le> grown_size n fd"
  unfolding grown_size_def by (cases "3 * int n > 2 * fd") auto

lemma nth_resize: "n \<ge> length xs \<Longrightarrow> i < n \<Longrightarrow> resize n xs ! i = (if i < length xs then xs ! i else None)"
  by (simp add: resize_def nth_append)

lemma add_fd_length:
  "add_fd fd ds k = Some (e, ds1, k1) \<Longrightarrow>
     length ds1 = (if fd \<ge> int (length ds) then grown_size (length ds) fd else length ds)"
  by (auto simp: add_fd_def Let_def split: if_splits prod.splits)

section \<open>Properties\<close>

text \<open>
  the laws of the table. A descriptor that was added is found, with an entity
  initialised from the kernel and set to non-blocking when it is a socket; the others keep
  their entities; after deletion it is not found, until it is created again.
\<close>

theorem fd_table_laws:
  assumes "add_fd fd ds k = Some (e, ds1, k1)"
  shows "get_fd fd auto_create ds1 k1 = Some (Some e, ds1, k1) \<and> m_fd e = fd \<and>
     (m_is_socket e \<longrightarrow> k_flags k1 fd AND O_NONBLOCK \<noteq> 0 \<and> m_is_sys_nonblock e) \<and>
     (\<forall>fd'. 0 \<le> fd' \<and> fd' < int (length ds) \<and> fd' \<noteq> fd \<longrightarrow> ds1 ! nat fd' = ds ! nat fd') \<and>
     (\<exists>ds2. del_fd fd ds1 = Some ds2 \<and> get_fd fd False ds2 k1 = Some (None, ds2, k1))"
proof -
  define ds0 where "ds0 = (if fd \<ge> int (length ds) then resize (grown_size (length ds) fd) ds else ds)"
  have new: "FDEntity_new fd k = (e, k1)" and fd: "0 \<le> fd" "fd < int (length ds0)" and ds1: "ds1 = ds0[nat fd := Some e]"
    using assms by (auto simp: add_fd_def ds0_def Let_def split: if_splits prod.splits)
  note e = FDEntity_new_spec [OF new]
  have keep: "ds0 ! nat fd' = ds ! nat fd'" if "0 \<le> fd'" "fd' < int (length ds)" for fd'
  proof (cases "fd \<ge> int (length ds)")
    case True
    have "nat fd' < length ds" using that by linarith
    with True grown_size_ge [OF True] show ?thesis by (simp add: ds0_def nth_resize)
  qed (simp add: ds0_def)
  have nz: "k_flags k1 fd AND O_NONBLOCK \<noteq> 0" if "m_is_socket e"
  proof -
    have "O_NONBLOCK \<noteq> 0" by (simp add: O_NONBLOCK_def)
    moreover have "(k_flags k fd OR O_NONBLOCK) AND O_NONBLOCK = O_NONBLOCK" by (rule bit_word_eqI) (auto simp: bit_simps)
    ultimately show ?thesis using e that by simp
  qed
  have n: "nat fd < length ds0" using fd by linarith
  have "ds1 ! nat fd' = ds ! nat fd'" if "0 \<le> fd'" "fd' < int (length ds)" "fd' \<noteq> fd" for fd'
  proof -
    have "nat fd' \<noteq> nat fd" using that fd(1) by linarith
    then show ?thesis using keep [OF that(1,2)] by (simp add: ds1)
  qed
  with e nz fd n show ?thesis by (auto simp: get_fd_def del_fd_def ds1)
qed

text \<open>A kernel in which every descriptor is a blocking socket.\<close>

definition sockets_only :: kernel where
  "sockets_only = \<lparr>k_fstat = (\<lambda>_. Some True), k_flags = (\<lambda>_. 0)\<rparr>"

theorem fd_table_laws_witness:
  "\<exists>e ds1 k1. add_fd 7 FDManager_new sockets_only = Some (e, ds1, k1) \<and>
     get_fd 7 False ds1 k1 = Some (Some e, ds1, k1) \<and> k_flags k1 7 AND O_NONBLOCK \<noteq> 0"
proof -
  obtain e k1 where new: "FDEntity_new 7 sockets_only = (e, k1)" by force
  then have a: "add_fd 7 FDManager_new sockets_only = Some (e, FDManager_new[7 := Some e], k1)"
    by (simp add: add_fd_def FDManager_new_def)
  moreover have "m_is_socket e" using FDEntity_new_spec [OF new] by (simp add: sockets_only_def)
  ultimately show ?thesis using fd_table_laws [OF a] by blast
qed

text \<open>
  C17: when \<open>add_fd\<close> stays inside the table. It does for every descriptor that the table
  already covers and for every larger one, except the one for which one and a half times an
  odd size lies half above it: there the comparison succeeds as a \<^verbatim>\<open>double\<close> and the size is
  rounded down to the descriptor itself, one short.
\<close>

theorem add_fd_in_bounds:
  assumes "0 \<le> fd"
  shows "add_fd fd ds k \<noteq> None \<longleftrightarrow> fd < int (length ds) \<or> 2 * fd + 1 \<noteq> 3 * int (length ds)"
proof (cases "fd \<ge> int (length ds)")
  case True
  then show ?thesis using assms grown_size_enough [OF True]
    by (auto simp: add_fd_def Let_def not_le split: prod.splits)
next
  case False
  then show ?thesis using assms by (auto simp: add_fd_def Let_def split: prod.splits)
qed

text \<open>Growing from 60 to 90 and 135 entries, then adding descriptor 202.\<close>

theorem add_fd_in_bounds_witness:
  "\<exists>e1 ds1 k1 e2 ds2 k2. add_fd 60 FDManager_new sockets_only = Some (e1, ds1, k1) \<and>
     add_fd 90 ds1 k1 = Some (e2, ds2, k2) \<and> length ds2 = 135 \<and> add_fd 202 ds2 k2 = None"
proof -
  obtain e1 ds1 k1 where 1: "add_fd 60 FDManager_new sockets_only = Some (e1, ds1, k1)"
    using add_fd_in_bounds [of 60 FDManager_new sockets_only] by (auto simp: FDManager_new_def)
  then have l1: "length ds1 = 90" by (simp add: add_fd_length FDManager_new_def grown_size_def)
  obtain e2 ds2 k2 where 2: "add_fd 90 ds1 k1 = Some (e2, ds2, k2)"
    using add_fd_in_bounds [of 90 ds1 k1] l1 by auto
  then have l2: "length ds2 = 135" by (simp add: add_fd_length l1 grown_size_def)
  then have 3: "add_fd 202 ds2 k2 = None" using add_fd_in_bounds [of 202 ds2 k2] by (simp del: not_None_eq)
  show ?thesis by (intro exI conjI) (fact 1 2 l2 3)+
qed

end
