(* ===== verification/Address.thy ===== *)
theory Address
  imports Endian StdSet
begin

text \<open>
  Socket addresses, \<^verbatim>\<open>src/address.cc\<close>. Ports and IPv4 addresses are kept as the sources keep
  them, as the integers that a load of the network-order field gives on the host, whose byte
  order is the argument \<open>host\<close>; the 16 bytes of an IPv6 address are a list. \<open>None\<close> stands for a
  null pointer where the function returns one, and where noted for undefined behaviour (a
  shift by the width or more, an index past an array). The resolver and the interface list of
  the system are parameters.
\<close>

section \<open>Bit counts and masks\<close>

lemma clear_lowest_less: "v \<noteq> 0 \<Longrightarrow> unat (v AND (v - 1)) < unat v" for v :: "'a::len word"
proof -
  assume "v \<noteq> 0"
  then have "unat (v - 1) < unat v" by (simp add: unat_minus_one unat_gt_0)
  moreover have "v AND (v - 1) \<le> v - 1" by (rule word_and_le1)
  ultimately show ?thesis by (simp add: word_le_nat_alt)
qed

function CountBytes :: "'a::len word \<Rightarrow> nat" where
  "CountBytes value = (if value = 0 then 0 else 1 + CountBytes (value AND (value - 1)))"
  by pat_completeness auto
termination by (relation "measure unat") (auto simp: clear_lowest_less)

declare CountBytes.simps [simp del]

text \<open>\<^verbatim>\<open>CreateMask<uint32_t>\<close> shifts an \<^verbatim>\<open>int\<close> by \<^verbatim>\<open>32 - bits\<close>: undefined for a shift of 32 or more.\<close>

definition CreateMask32 :: "nat \<Rightarrow> u32 option" where
  "CreateMask32 bits = (if 0 < bits \<and> bits \<le> 32 then Some (push_bit (32 - bits) 1 - 1) else None)"

definition CreateMask8 :: "nat \<Rightarrow> byte" where
  "CreateMask8 bits = ucast (push_bit (8 - bits) (1 :: u32) - 1)"

section \<open>IPv4\<close>

record sockaddr_in =
  sin_family :: u16
  sin_port :: u16
  sin_addr :: u32

definition AF_UNIX :: u16 where "AF_UNIX = 1"
definition AF_INET :: u16 where "AF_INET = 2"
definition AF_INET6 :: u16 where "AF_INET6 = 10"

definition IPv4Address_default :: sockaddr_in where
  "IPv4Address_default = \<lparr>sin_family = AF_INET, sin_port = 0, sin_addr = 0\<rparr>"

definition IPv4Address_new :: "endian \<Rightarrow> u32 \<Rightarrow> u16 \<Rightarrow> sockaddr_in" where
  "IPv4Address_new host addr port =
     \<lparr>sin_family = AF_INET, sin_port = bswap_on_little_endian16 host port, sin_addr = addr\<rparr>"

text \<open>\<open>inet_pton s\<close> is the address field the C library parses from \<open>s\<close>, \<open>None\<close> when it fails.\<close>

definition IPv4Address_Create :: "endian \<Rightarrow> (string \<Rightarrow> u32 option) \<Rightarrow> string \<Rightarrow> u16 \<Rightarrow> sockaddr_in option" where
  "IPv4Address_Create host inet_pton addr port =
     (case inet_pton addr of
        None \<Rightarrow> None
      | Some a \<Rightarrow> Some (IPv4Address_default\<lparr>sin_port := bswap_on_little_endian16 host port, sin_addr := a\<rparr>))"

definition IPv4_get_port :: "endian \<Rightarrow> sockaddr_in \<Rightarrow> u32" where
  "IPv4_get_port host a = ucast (bswap_on_little_endian16 host (sin_port a))"

definition IPv4_set_port :: "endian \<Rightarrow> u16 \<Rightarrow> sockaddr_in \<Rightarrow> sockaddr_in" where
  "IPv4_set_port host v a = a\<lparr>sin_port := bswap_on_little_endian16 host v\<rparr>"

definition IPv4_insert :: "endian \<Rightarrow> sockaddr_in \<Rightarrow> string" where
  "IPv4_insert host a =
     (let addr = bswap_on_little_endian32 host (sin_addr a) in
      show_base 10 (unat (drop_bit 24 addr AND 0xff)) @ ''.'' @ show_base 10 (unat (drop_bit 16 addr AND 0xff)) @ ''.'' @
      show_base 10 (unat (drop_bit 8 addr AND 0xff)) @ ''.'' @ show_base 10 (unat (addr AND 0xff)) @ '':'' @
      show_base 10 (unat (IPv4_get_port host a)))"

text \<open>The outer option is undefined behaviour of the mask, the inner one the null pointer.\<close>

definition IPv4_broadcast_address :: "endian \<Rightarrow> nat \<Rightarrow> sockaddr_in \<Rightarrow> sockaddr_in option option" where
  "IPv4_broadcast_address host prefix_len a =
     (if prefix_len > 32 then Some None
      else map_option (\<lambda>m. Some (a\<lparr>sin_addr := sin_addr a OR bswap_on_little_endian32 host m\<rparr>)) (CreateMask32 prefix_len))"

definition IPv4_network_address :: "endian \<Rightarrow> nat \<Rightarrow> sockaddr_in \<Rightarrow> sockaddr_in option option" where
  "IPv4_network_address host prefix_len a =
     (if prefix_len > 32 then Some None
      else map_option (\<lambda>m. Some (a\<lparr>sin_addr := sin_addr a AND bswap_on_little_endian32 host (NOT m)\<rparr>)) (CreateMask32 prefix_len))"

definition IPv4_subnet_mask :: "endian \<Rightarrow> nat \<Rightarrow> sockaddr_in option" where
  "IPv4_subnet_mask host prefix_len =
     map_option (\<lambda>m. IPv4Address_default\<lparr>sin_addr := NOT (bswap_on_little_endian32 host m)\<rparr>) (CreateMask32 prefix_len)"

section \<open>IPv6\<close>

record sockaddr_in6 =
  sin6_family :: u16
  sin6_port :: u16
  s6_addr :: "byte list"

definition IPv6Address_default :: sockaddr_in6 where
  "IPv6Address_default = \<lparr>sin6_family = AF_INET6, sin6_port = 0, s6_addr = replicate 16 0\<rparr>"

text \<open>The constructor from 16 bytes does not look at them.\<close>

definition IPv6Address_new :: "endian \<Rightarrow> byte list \<Rightarrow> u16 \<Rightarrow> sockaddr_in6" where
  "IPv6Address_new host addr port = IPv6Address_default\<lparr>sin6_port := bswap_on_little_endian16 host port\<rparr>"

definition IPv6Address_Create :: "endian \<Rightarrow> (string \<Rightarrow> byte list option) \<Rightarrow> string \<Rightarrow> u16 \<Rightarrow> sockaddr_in6 option" where
  "IPv6Address_Create host inet_pton addr port =
     (case inet_pton addr of
        None \<Rightarrow> None
      | Some a \<Rightarrow> Some (IPv6Address_default\<lparr>sin6_port := bswap_on_little_endian16 host port, s6_addr := a\<rparr>))"

definition IPv6_get_port :: "endian \<Rightarrow> sockaddr_in6 \<Rightarrow> u32" where
  "IPv6_get_port host a = ucast (bswap_on_little_endian16 host (sin6_port a))"

definition IPv6_set_port :: "endian \<Rightarrow> u16 \<Rightarrow> sockaddr_in6 \<Rightarrow> sockaddr_in6" where
  "IPv6_set_port host v a = a\<lparr>sin6_port := bswap_on_little_endian16 host v\<rparr>"

text \<open>\<open>groups\<close> are the eight integers that the loop loads through a \<^verbatim>\<open>uint16_t\<close> pointer.\<close>

fun IPv6_insert_loop :: "endian \<Rightarrow> nat \<Rightarrow> u16 option \<Rightarrow> bool \<Rightarrow> u16 list \<Rightarrow> bool \<times> string" where
  "IPv6_insert_loop host i prev used_zero [] = (used_zero, [])"
| "IPv6_insert_loop host i prev used_zero (g # gs) =
     (if g = 0 \<and> \<not> used_zero then IPv6_insert_loop host (i + 1) (Some g) used_zero gs
      else
        let z = (prev = Some 0 \<and> \<not> used_zero);
            (u, s) = IPv6_insert_loop host (i + 1) (Some g) (used_zero \<or> z) gs
        in (u, (if z then '':'' else []) @ (if i > 0 then '':'' else []) @
               show_base 16 (unat (bswap_on_little_endian16 host g)) @ s))"

definition IPv6_groups :: "endian \<Rightarrow> sockaddr_in6 \<Rightarrow> u16 list" where
  "IPv6_groups host a = map (\<lambda>i. mem_word host [s6_addr a ! (2 * i), s6_addr a ! (2 * i + 1)]) [0..<8]"

definition IPv6_insert :: "endian \<Rightarrow> sockaddr_in6 \<Rightarrow> string" where
  "IPv6_insert host a =
     (let gs = IPv6_groups host a; (used_zero, s) = IPv6_insert_loop host 0 None False gs
      in ''['' @ s @ (if \<not> used_zero \<and> gs ! 7 = 0 then ''::'' else []) @ '']'' @
         show_base 10 (unat (bswap_on_little_endian16 host (sin6_port a))))"

text \<open>\<open>None\<close> where the index \<^verbatim>\<open>prefix_len / 8\<close> lies outside of the 16 bytes.\<close>

definition IPv6_broadcast_address :: "nat \<Rightarrow> sockaddr_in6 \<Rightarrow> sockaddr_in6 option" where
  "IPv6_broadcast_address prefix_len a =
     (let k = prefix_len div 8; bs = s6_addr a in
      if k \<ge> 16 then None
      else Some (a\<lparr>s6_addr := take k bs @ [bs ! k OR CreateMask8 (prefix_len mod 8)] @ replicate (16 - (k + 1)) 0xff\<rparr>))"

definition IPv6_network_address :: "nat \<Rightarrow> sockaddr_in6 \<Rightarrow> sockaddr_in6 option" where
  "IPv6_network_address prefix_len a =
     (let k = prefix_len div 8; bs = s6_addr a in
      if k \<ge> 16 then None
      else Some (a\<lparr>s6_addr := take k bs @ [bs ! k AND CreateMask8 (prefix_len mod 8)] @ replicate (16 - (k + 1)) 0\<rparr>))"

definition IPv6_subnet_mask :: "nat \<Rightarrow> sockaddr_in6 option" where
  "IPv6_subnet_mask prefix_len =
     (let k = prefix_len div 8 in
      if k \<ge> 16 then None
      else Some (IPv6Address_default\<lparr>s6_addr :=
             replicate k 0xff @ [NOT (CreateMask8 (prefix_len mod 8))] @ replicate (16 - (k + 1)) 0\<rparr>))"

section \<open>Unix domain addresses\<close>

record sockaddr_un =
  sun_path :: "byte list"
  m_len :: nat

definition sun_path_size :: nat where "sun_path_size = 108"
definition sun_path_offset :: nat where "sun_path_offset = 2"

definition UnixAddress_default :: sockaddr_un where
  "UnixAddress_default = \<lparr>sun_path = replicate sun_path_size 0, m_len = sun_path_offset + (sun_path_size - 1)\<rparr>"

text \<open>\<open>None\<close> is the exception for a path that is too long. \<^verbatim>\<open>c_str()\<close> ends with a zero byte.\<close>

definition UnixAddress_new :: "byte list \<Rightarrow> sockaddr_un option" where
  "UnixAddress_new path =
     (let len0 = length path + 1;
          len = (if path \<noteq> [] \<and> hd path \<noteq> 0 then len0 - 1 else len0)
      in if len > sun_path_size then None
         else Some \<lparr>sun_path = patch (replicate sun_path_size 0) 0 (take len (path @ [0])), m_len = len + sun_path_offset\<rparr>)"

text \<open>\<^verbatim>\<open>insert\<close> and \<open>get_path\<close>; \<open>None\<close> where no zero byte ends the path inside of the array.\<close>

definition get_path :: "sockaddr_un \<Rightarrow> byte list option" where
  "get_path a =
     (if m_len a > sun_path_offset \<and> sun_path a ! 0 = 0
      then Some (map char_byte [CHR 0x5C, CHR ''0''] @ take (m_len a - sun_path_offset - 1) (drop 1 (sun_path a)))
      else if 0 \<in> set (sun_path a) then Some (takeWhile (\<lambda>b. b \<noteq> 0) (sun_path a)) else None)"

section \<open>Addresses\<close>

datatype sockaddr = SA_in sockaddr_in | SA_in6 sockaddr_in6 | SA_other u16

datatype address = IPv4Address sockaddr_in | IPv6Address sockaddr_in6 | UnknownAddress u16

definition Address_Create :: "sockaddr option \<Rightarrow> address option" where
  "Address_Create addr =
     (case addr of
        None \<Rightarrow> None
      | Some (SA_in a) \<Rightarrow> Some (IPv4Address a)
      | Some (SA_in6 a) \<Rightarrow> Some (IPv6Address a)
      | Some (SA_other f) \<Rightarrow> Some (UnknownAddress f))"

text \<open>Comparison of the byte representations \<open>a\<close> and \<open>b\<close>, whose lengths are \<^verbatim>\<open>get_addr_len()\<close>.\<close>

fun memcmp :: "byte list \<Rightarrow> byte list \<Rightarrow> nat \<Rightarrow> int" where
  "memcmp a b 0 = 0"
| "memcmp (x # a) (y # b) (Suc n) = (if x = y then memcmp a b n else if x < y then - 1 else 1)"
| "memcmp _ _ (Suc n) = 0"

definition Address_less :: "byte list \<Rightarrow> byte list \<Rightarrow> bool" where
  "Address_less a b =
     (let min_len = min (length a) (length b); r = memcmp a b min_len
      in if r = 0 then length a < length b else r < 0)"

definition Address_eq :: "byte list \<Rightarrow> byte list \<Rightarrow> bool" where
  "Address_eq a b \<longleftrightarrow> length a = length b \<and> memcmp a b (length a) = 0"

section \<open>Lookup\<close>

text \<open>\<^verbatim>\<open>memchr\<close>: the index of the first occurrence.\<close>

fun index_of :: "char \<Rightarrow> string \<Rightarrow> nat option" where
  "index_of c [] = None"
| "index_of c (x # xs) = (if x = c then Some 0 else map_option Suc (index_of c xs))"

definition bracket_part :: "string \<Rightarrow> string \<times> string option" where
  "bracket_part host =
     (case index_of CHR '']'' (tl host) of
        None \<Rightarrow> ([], None)
      | Some i \<Rightarrow>
          (take i (tl host),
           if i + 2 < length host \<and> host ! (i + 2) = CHR '':'' then Some (drop (i + 3) host) else None))"

text \<open>How \<open>Lookup\<close> splits its argument into the node and the service for the resolver.\<close>

definition split_host :: "string \<Rightarrow> string \<times> string option" where
  "split_host host =
     (let (node, service) = (if host \<noteq> [] \<and> hd host = CHR ''['' then bracket_part host else ([], None));
          (node, service) =
            (if node \<noteq> [] then (node, service)
             else case index_of CHR '':'' host of
                    None \<Rightarrow> ([], None)
                  | Some i \<Rightarrow>
                      if index_of CHR '':'' (drop (i + 1) host) = None
                      then (take i host, Some (drop (i + 1) host))
                      else ([], Some (drop i host)))
      in (if node = [] then host else node, service))"

text \<open>\<open>getaddrinfo node service\<close>: \<open>None\<close> for an error, otherwise the list of results.\<close>

definition Lookup ::
    "(string \<Rightarrow> string option \<Rightarrow> sockaddr option list option) \<Rightarrow> string \<Rightarrow> address option list \<Rightarrow> bool \<times> address option list" where
  "Lookup getaddrinfo host r =
     (case split_host host of
        (node, service) \<Rightarrow>
          (case getaddrinfo node service of
             None \<Rightarrow> (False, r)
           | Some results \<Rightarrow> let r' = r @ map Address_Create results in (r' \<noteq> [], r')))"

definition Address_LookupAny ::
    "(string \<Rightarrow> string option \<Rightarrow> sockaddr option list option) \<Rightarrow> string \<Rightarrow> address option" where
  "Address_LookupAny getaddrinfo host =
     (case Lookup getaddrinfo host [] of (ok, r) \<Rightarrow> if ok then hd r else None)"

fun is_ip :: "address option \<Rightarrow> bool" where
  "is_ip (Some (IPv4Address _)) = True"
| "is_ip (Some (IPv6Address _)) = True"
| "is_ip _ = False"

definition IPAddress_LookupAny ::
    "(string \<Rightarrow> string option \<Rightarrow> sockaddr option list option) \<Rightarrow> string \<Rightarrow> address option" where
  "IPAddress_LookupAny getaddrinfo host =
     (case Lookup getaddrinfo host [] of
        (ok, r) \<Rightarrow> if ok then (case filter is_ip r of [] \<Rightarrow> None | a # _ \<Rightarrow> a) else None)"

text \<open>An entry of \<^verbatim>\<open>getifaddrs\<close>: name, address and netmask of the same family.\<close>

record ifaddr =
  ifa_name :: string
  ifa_addr :: sockaddr
  ifa_netmask :: sockaddr

fun sa_family :: "sockaddr \<Rightarrow> u16" where
  "sa_family (SA_in _) = AF_INET"
| "sa_family (SA_in6 _) = AF_INET6"
| "sa_family (SA_other f) = f"

fun prefix_len_of :: "sockaddr \<Rightarrow> nat" where
  "prefix_len_of (SA_in m) = CountBytes (sin_addr m)"
| "prefix_len_of (SA_in6 m) = sum_list (map CountBytes (s6_addr m))"
| "prefix_len_of (SA_other _) = 0"

fun interface_loop :: "u16 option \<Rightarrow> ifaddr list \<Rightarrow> (string \<times> address \<times> nat) list" where
  "interface_loop family [] = []"
| "interface_loop family (x # xs) =
     (if family \<noteq> None \<and> family \<noteq> Some (sa_family (ifa_addr x)) then interface_loop family xs
      else case ifa_addr x of
        SA_in a \<Rightarrow> (ifa_name x, IPv4Address a, prefix_len_of (ifa_netmask x)) # interface_loop family xs
      | SA_in6 a \<Rightarrow> (ifa_name x, IPv6Address a, prefix_len_of (ifa_netmask x)) # interface_loop family xs
      | SA_other _ \<Rightarrow> interface_loop family xs)"

text \<open>\<open>rs\<close> is what \<^verbatim>\<open>getifaddrs\<close> returns, \<open>None\<close> when it fails; \<open>family\<close> is \<open>None\<close> for \<^verbatim>\<open>AF_UNSPEC\<close>.\<close>

definition InterfaceAddresses_all ::
    "ifaddr list option \<Rightarrow> u16 option \<Rightarrow> bool \<times> (string \<times> address \<times> nat) list" where
  "InterfaceAddresses_all rs family =
     (case rs of
        None \<Rightarrow> (False, [])
      | Some xs \<Rightarrow> let r = interface_loop family xs in (r \<noteq> [], r))"

definition InterfaceAddresses ::
    "ifaddr list option \<Rightarrow> string \<Rightarrow> u16 option \<Rightarrow> bool \<times> (address \<times> nat) list" where
  "InterfaceAddresses rs iface family =
     (if iface = [] \<or> iface = ''*'' then
        (True, (if family = Some AF_INET \<or> family = None then [(IPv4Address IPv4Address_default, 0)] else []) @
               (if family = Some AF_INET6 \<or> family = None then [(IPv6Address IPv6Address_default, 0)] else []))
      else
        let (ok, m) = InterfaceAddresses_all rs family in
        if \<not> ok then (False, [])
        else (m \<noteq> [], map snd (filter (\<lambda>x. fst x = iface) m)))"

section \<open>Counting bits\<close>

lemma clear_lowest_nat:
  "0 < k \<Longrightarrow> \<exists>n. bit k n \<and> (\<forall>m. bit (k AND (k - 1)) m \<longleftrightarrow> bit k m \<and> m \<noteq> n)" for k :: nat
proof (induction k rule: nat_bit_induct)
  case (even k)
  then obtain n where n: "bit k n" "\<forall>m. bit (k AND (k - 1)) m \<longleftrightarrow> bit k m \<and> m \<noteq> n" by auto
  have e: "2 * k - 1 = Suc (2 * (k - 1))" using even.hyps by simp
  have "bit (2 * k AND Suc (2 * (k - 1))) m \<longleftrightarrow> bit (2 * k) m \<and> m \<noteq> Suc n" for m
  proof (cases m)
    case (Suc m')
    have "bit (2 * k AND Suc (2 * (k - 1))) m \<longleftrightarrow> bit k m' \<and> bit (k - 1) m'"
      unfolding Suc by (subst bit_and_iff) (simp add: bit_Suc)
    moreover have "bit (2 * k) m \<longleftrightarrow> bit k m'" by (simp only: Suc bit_Suc) simp
    ultimately show ?thesis using n(2) [rule_format, of m'] by (simp only: Suc bit_and_iff) simp
  qed (simp add: bit_0 even_and_iff)
  moreover have "bit (2 * k) (Suc n)" using n(1) by (simp add: bit_Suc)
  ultimately show ?case unfolding e by blast
next
  case (odd k)
  have "bit (Suc (2 * k) AND (Suc (2 * k) - 1)) m \<longleftrightarrow> bit (Suc (2 * k)) m \<and> m \<noteq> 0" for m
  proof (cases m)
    case (Suc m')
    then show ?thesis by (simp only: Suc) (subst bit_and_iff, simp add: bit_Suc)
  qed (simp add: bit_0 even_and_iff)
  moreover have "bit (Suc (2 * k)) 0" by (simp add: bit_0)
  ultimately show ?case by blast
qed simp

lemma clear_lowest:
  fixes v :: "'a::len word"
  assumes "v \<noteq> 0"
  shows "\<exists>n. bit v n \<and> {m. bit (v AND (v - 1)) m} = {m. bit v m} - {n}"
proof -
  have "unat (v - 1) = unat v - 1" using assms by (rule unat_minus_one)
  then have u: "unat (v AND (v - 1)) = unat v AND (unat v - 1)" by (simp add: unsigned_and_eq)
  from assms have "0 < unat v" by (simp add: unat_gt_0)
  from clear_lowest_nat [OF this] obtain n where n: "bit (unat v) n" "\<And>m. bit (unat v AND (unat v - 1)) m \<longleftrightarrow> bit (unat v) m \<and> m \<noteq> n"
    by blast
  have "bit (v AND (v - 1)) m \<longleftrightarrow> bit v m \<and> m \<noteq> n" for m
    using n(2) [of m] unfolding u [symmetric] by (simp add: bit_unsigned_iff)
  moreover have "bit v n" using n(1) by (simp add: bit_unsigned_iff)
  ultimately show ?thesis by auto
qed

lemma finite_bits: "finite {n. bit (v :: 'a::len word) n}"
  by (rule finite_subset [of _ "{..<LENGTH('a)}"]) (auto dest: bit_imp_le_length)

lemma CountBytes_card: "CountBytes v = card {n. bit v n}"
proof (induction v rule: CountBytes.induct)
  case (1 v)
  show ?case
  proof (cases "v = 0")
    case False
    obtain n where n: "bit v n" "{m. bit (v AND (v - 1)) m} = {m. bit v m} - {n}" using clear_lowest [OF False] by blast
    have "card {m. bit v m} = Suc (card ({m. bit v m} - {n}))"
      using n(1) finite_bits [of v] by (intro card.remove) auto
    then show ?thesis using "1.IH" [OF False] n(2) False by (simp add: CountBytes.simps [of v])
  qed (simp add: CountBytes.simps)
qed

section \<open>IPv4 masks\<close>

lemma CreateMask32_bits:
  assumes "0 < p" "p \<le> 32"
  shows "\<exists>m. CreateMask32 p = Some m \<and> (\<forall>n. bit m n \<longleftrightarrow> n < 32 - p)"
proof -
  have "push_bit (32 - p) (1 :: u32) - 1 = mask (32 - p)" by (simp add: mask_eq_exp_minus_1 push_bit_eq_mult)
  then show ?thesis using assms by (auto simp: CreateMask32_def bit_mask_iff)
qed

text \<open>A byte swap moves bits, and moves none twice.\<close>

definition swap_pos :: "nat \<Rightarrow> nat" where
  "swap_pos n = 8 * (3 - n div 8) + n mod 8"

lemma swap_pos_facts: "n < 32 \<Longrightarrow> swap_pos n < 32" "n < 32 \<Longrightarrow> swap_pos (swap_pos n) = n"
proof -
  assume n: "n < 32"
  then have q: "n div 8 \<le> 3" "n mod 8 < 8" by auto
  then have "swap_pos n div 8 = 3 - n div 8" "swap_pos n mod 8 = n mod 8" by (simp_all add: swap_pos_def)
  then show "swap_pos (swap_pos n) = n" using q by (simp add: swap_pos_def [of "swap_pos n"])
  show "swap_pos n < 32" using q by (simp add: swap_pos_def)
qed

lemma bit_byteswap32: "bit (byteswap32 x) n \<longleftrightarrow> n < 32 \<and> bit x (swap_pos n)"
proof (cases "n < 32")
  case True
  then have q: "n div 8 < 4" "n mod 8 < 8" by auto
  have "bit (byteswap32 x) n \<longleftrightarrow> bit (le_bytes (byteswap32 x) ! (n div 8)) (n mod 8)"
    using q by (subst bit_le_bytes_nth) simp_all
  also have "\<dots> \<longleftrightarrow> bit (le_bytes x ! (3 - n div 8)) (n mod 8)"
    using q by (simp add: byteswap_le_bytes rev_nth)
  also have "\<dots> \<longleftrightarrow> bit x (swap_pos n)" using q by (subst bit_le_bytes_nth) (simp_all add: swap_pos_def)
  finally show ?thesis using True by simp
next
  case False
  then show ?thesis using bit_imp_le_length [of "byteswap32 x" n] by auto
qed

lemma byteswap32_bitwise:
  "byteswap32 (a OR b) = byteswap32 a OR byteswap32 b" "byteswap32 (a AND b) = byteswap32 a AND byteswap32 b"
  "byteswap32 (NOT a) = NOT (byteswap32 a)"
  by (rule bit_word_eqI, auto simp: bit_byteswap32 bit_or_iff bit_and_iff bit_not_iff swap_pos_facts)+

lemma byteswap32_card: "card {n. bit (byteswap32 x) n} = card {n. bit x n}"
proof (rule bij_betw_same_card)
  show "bij_betw swap_pos {n. bit (byteswap32 x) n} {n. bit x n}"
  proof (rule bij_betw_byWitness [where f' = swap_pos])
    show "\<forall>a \<in> {n. bit (byteswap32 x) n}. swap_pos (swap_pos a) = a" by (auto simp: bit_byteswap32 swap_pos_facts)
    show "\<forall>a \<in> {n. bit x n}. swap_pos (swap_pos a) = a" using bit_imp_le_length [of x] by (auto simp: swap_pos_facts)
    show "swap_pos ` {n. bit (byteswap32 x) n} \<subseteq> {n. bit x n}" by (auto simp: bit_byteswap32)
    show "swap_pos ` {n. bit x n} \<subseteq> {n. bit (byteswap32 x) n}"
      using bit_imp_le_length [of x] by (auto simp: bit_byteswap32 swap_pos_facts)
  qed
qed

abbreviation ntoh where "ntoh \<equiv> bswap_on_little_endian32"

lemma ntoh_bitwise:
  "ntoh h (a OR b) = ntoh h a OR ntoh h b" "ntoh h (a AND b) = ntoh h a AND ntoh h b"
  "ntoh h (NOT a) = NOT (ntoh h a)" "card {n. bit (ntoh h a) n} = card {n. bit a n}"
  by (simp_all add: bswap_on_little_endian32_def byteswap32_bitwise byteswap32_card)

section \<open>The order of addresses\<close>

lemma memcmp_range: "memcmp a b n \<in> {- 1, 0, 1}"
  by (induction a b n rule: memcmp.induct) auto

lemma Address_less_Nil: "Address_less [] b \<longleftrightarrow> b \<noteq> []" "\<not> Address_less a []"
  by (auto simp: Address_less_def)

lemma Address_less_Cons:
  "Address_less (x # a) (y # b) \<longleftrightarrow> x < y \<or> x = y \<and> Address_less a b"
  by (auto simp: Address_less_def Let_def)

lemma Address_less_lex: "Address_less a b \<longleftrightarrow> (a, b) \<in> lexord {(x, y). x < y}"
proof (induction a arbitrary: b)
  case Nil
  then show ?case by (cases b) (auto simp: Address_less_Nil)
next
  case (Cons x a)
  then show ?case by (cases b) (auto simp: Address_less_Nil Address_less_Cons)
qed

interpretation al: total_comparator Address_less
proof
  fix x y z :: "byte list"
  show "\<not> Address_less x x" by (induction x) (auto simp: Address_less_Nil Address_less_Cons)
  have "trans {(x :: byte, y). x < y}" by (auto simp: trans_def intro: less_trans)
  then show trans: "Address_less x z" if "Address_less x y" "Address_less y z" for x y z
    using that lexord_trans [of x y "{(x, y). x < y}" z] by (simp add: Address_less_lex)
  show tot: "x = y" if "\<not> Address_less x y" "\<not> Address_less y x" for x y
    using that lexord_linear [of "{(x :: byte, y). x < y}" x y] less_linear by (auto simp: Address_less_lex)
  show "Address_less x z \<or> Address_less z y" if "Address_less x y"
    using that tot [of x z] trans [of z x y] by blast
qed

lemma Address_eq_iff: "Address_eq a b \<longleftrightarrow> a = b"
proof -
  have "length a = length b \<Longrightarrow> memcmp a b (length a) = 0 \<longleftrightarrow> a = b"
    by (induction a b rule: list_induct2) auto
  then show ?thesis by (auto simp: Address_eq_def)
qed

section \<open>IPv6 masks, bit by bit\<close>

text \<open>Bit \<open>q\<close> of an address in the order of the prefix: the highest bit of the first byte is bit 0.\<close>

definition addr_bit :: "byte list \<Rightarrow> nat \<Rightarrow> bool" where
  "addr_bit bs q = bit (bs ! (q div 8)) (7 - q mod 8)"

lemma CreateMask8_bits: "b < 8 \<Longrightarrow> bit (CreateMask8 b) n \<longleftrightarrow> n < 8 - b"
proof -
  assume "b < 8"
  have "push_bit (8 - b) (1 :: u32) - 1 = mask (8 - b)" by (simp add: mask_eq_exp_minus_1 push_bit_eq_mult)
  then show ?thesis by (auto simp: CreateMask8_def bit_simps)
qed

lemma prefix_position:
  fixes p q :: nat
  shows "q div 8 < p div 8 \<Longrightarrow> q < p" "p div 8 < q div 8 \<Longrightarrow> p \<le> q"
    "q div 8 = p div 8 \<Longrightarrow> p \<le> q \<longleftrightarrow> 7 - q mod 8 < 8 - p mod 8"
proof -
  have m: "q = 8 * (q div 8) + q mod 8" "p = 8 * (p div 8) + p mod 8" "q mod 8 < 8" "p mod 8 < 8" by simp_all
  show "q div 8 < p div 8 \<Longrightarrow> q < p" "p div 8 < q div 8 \<Longrightarrow> p \<le> q" using m by linarith+
  show "q div 8 = p div 8 \<Longrightarrow> p \<le> q \<longleftrightarrow> 7 - q mod 8 < 8 - p mod 8" using m by linarith
qed

lemma prefix_bytes:
  assumes "p < 128" "q < 128" "length bs = 16"
  shows "addr_bit (take (p div 8) bs @ [x] @ replicate (16 - (p div 8 + 1)) y) q =
     (if q div 8 < p div 8 then addr_bit bs q
      else if q div 8 = p div 8 then bit x (7 - q mod 8) else bit y (7 - q mod 8))"
proof -
  have k: "p div 8 < 16" "q div 8 < 16" using assms by auto
  consider "q div 8 < p div 8" | "q div 8 = p div 8" | "p div 8 < q div 8" by linarith
  then show ?thesis
  proof cases
    case 3
    then have "q div 8 - p div 8 = Suc (q div 8 - (p div 8 + 1))" "q div 8 - (p div 8 + 1) < 16 - (p div 8 + 1)"
      using k by auto
    with 3 k assms(3) show ?thesis by (simp add: addr_bit_def nth_append)
  qed (use k assms(3) in \<open>simp_all add: addr_bit_def nth_append\<close>)
qed

lemma byte_0xff: "bit (0xff :: int) n \<longleftrightarrow> n < 8"
proof -
  have m: "(0xff :: int) = mask 8" by (simp add: mask_eq_exp_minus_1)
  show ?thesis unfolding m by (simp only: bit_mask_iff) simp
qed

lemma ipv6_broadcast_bits:
  assumes "p < 128" "q < 128" "length bs = 16"
  shows "addr_bit (take (p div 8) bs @ [bs ! (p div 8) OR CreateMask8 (p mod 8)] @ replicate (16 - (p div 8 + 1)) 0xff) q
    \<longleftrightarrow> p \<le> q \<or> addr_bit bs q"
proof -
  consider "q div 8 < p div 8" | "q div 8 = p div 8" | "p div 8 < q div 8" by linarith
  then show ?thesis unfolding prefix_bytes [OF assms] using prefix_position [of q p] CreateMask8_bits [of "p mod 8" "7 - q mod 8"]
    by cases (auto simp: byte_0xff bit_or_iff addr_bit_def)
qed

lemma ipv6_network_bits:
  assumes "p < 128" "q < 128" "length bs = 16"
  shows "addr_bit (take (p div 8) bs @ [bs ! (p div 8) AND CreateMask8 (p mod 8)] @ replicate (16 - (p div 8 + 1)) 0) q
    \<longleftrightarrow> addr_bit bs q \<and> (q div 8 < p div 8 \<or> q div 8 = p div 8 \<and> p \<le> q)"
proof -
  consider "q div 8 < p div 8" | "q div 8 = p div 8" | "p div 8 < q div 8" by linarith
  then show ?thesis unfolding prefix_bytes [OF assms] using prefix_position [of q p] CreateMask8_bits [of "p mod 8" "7 - q mod 8"]
    by cases (simp_all add: bit_and_iff addr_bit_def)
qed

lemma ipv6_mask_bits:
  assumes "p < 128" "q < 128"
  shows "addr_bit (replicate (p div 8) 0xff @ [NOT (CreateMask8 (p mod 8))] @ replicate (16 - (p div 8 + 1)) 0) q \<longleftrightarrow> q < p"
proof -
  let ?bs = "replicate 16 (0xff :: byte)"
  have k: "p div 8 < 16" "q div 8 < 16" using assms by auto
  then have r: "replicate (p div 8) 0xff = take (p div 8) ?bs" by (simp add: min_def)
  have "length ?bs = 16" by simp
  note pb = prefix_bytes [OF assms this, of "NOT (CreateMask8 (p mod 8))" 0]
  consider "q div 8 < p div 8" | "q div 8 = p div 8" | "p div 8 < q div 8" by linarith
  then show ?thesis unfolding r pb using prefix_position [of q p] CreateMask8_bits [of "p mod 8" "7 - q mod 8"] k
    by cases (auto simp: byte_0xff bit_not_iff addr_bit_def)
qed

lemma index_of_None: "index_of c s = None \<longleftrightarrow> c \<notin> set s"
  by (induction s) auto

lemma index_of_absent: "c \<notin> set s \<Longrightarrow> index_of c s = None"
  by (simp add: index_of_None)

lemma index_of_append: "c \<notin> set s \<Longrightarrow> index_of c (s @ c # t) = Some (length s)"
  by (induction s) auto

section \<open>Properties\<close>

text \<open>
  network and broadcast address and subnet mask of an IPv4 address, on hosts of both
  byte orders. In host order the network address clears the bits behind the prefix, the
  broadcast address sets them, the mask has the prefix set, and counting its bits gives the
  prefix length back.
\<close>

theorem ipv4_masks:
  assumes "0 < p" "p \<le> 32"
  shows "\<exists>b n m. IPv4_broadcast_address host p a = Some (Some b) \<and> IPv4_network_address host p a = Some (Some n) \<and>
     IPv4_subnet_mask host p = Some m \<and>
     (\<forall>i < 32. (bit (ntoh host (sin_addr b)) i \<longleftrightarrow> i < 32 - p \<or> bit (ntoh host (sin_addr a)) i) \<and>
               (bit (ntoh host (sin_addr n)) i \<longleftrightarrow> i \<ge> 32 - p \<and> bit (ntoh host (sin_addr a)) i) \<and>
               (bit (ntoh host (sin_addr m)) i \<longleftrightarrow> i \<ge> 32 - p)) \<and>
     CountBytes (sin_addr m) = p"
proof -
  obtain w where w: "CreateMask32 p = Some w" "\<And>n. bit w n \<longleftrightarrow> n < 32 - p" using CreateMask32_bits [OF assms] by blast
  have inv: "ntoh host (ntoh host x) = x" for x by (rule bswap_on_little_endian_involution)
  have "{n. bit (NOT w) n} = {32 - p..<32}" using assms(2) by (auto simp: bit_not_iff w(2))
  then have "card {n. bit (ntoh host (NOT w)) n} = p" using assms(2) by (simp add: ntoh_bitwise(4))
  then have c: "CountBytes (NOT (ntoh host w)) = p" by (simp only: CountBytes_card ntoh_bitwise(3))
  have "IPv4_broadcast_address host p a = Some (Some (a\<lparr>sin_addr := sin_addr a OR ntoh host w\<rparr>))"
      "IPv4_network_address host p a = Some (Some (a\<lparr>sin_addr := sin_addr a AND ntoh host (NOT w)\<rparr>))"
      "IPv4_subnet_mask host p = Some (IPv4Address_default\<lparr>sin_addr := NOT (ntoh host w)\<rparr>)"
    using assms w(1) by (simp_all add: IPv4_broadcast_address_def IPv4_network_address_def IPv4_subnet_mask_def)
  moreover have "ntoh host (sin_addr a OR ntoh host w) = ntoh host (sin_addr a) OR w"
      "ntoh host (sin_addr a AND ntoh host (NOT w)) = ntoh host (sin_addr a) AND NOT w"
      "ntoh host (NOT (ntoh host w)) = NOT w"
    by (simp_all only: ntoh_bitwise inv)
  ultimately show ?thesis using c by (auto simp: bit_or_iff bit_and_iff bit_not_iff w(2))
qed

theorem ipv4_masks_witness:
  "\<exists>m. IPv4_subnet_mask TIGER_LITTLE_ENDIAN 24 = Some m \<and> CountBytes (sin_addr m) = 24"
  using ipv4_masks [of 24 TIGER_LITTLE_ENDIAN IPv4Address_default] by auto

text \<open>
  the prefix operations of IPv6, bit by bit in prefix order. The broadcast address keeps the
  prefix and sets the rest, the subnet mask has the prefix set. The network address keeps the
  whole bytes of the prefix, but in the byte where the prefix ends it clears the bits of
  the prefix and keeps those behind it. From 128 on the index leaves the array.
\<close>

theorem ipv6_masks:
  assumes "p < 128" "q < 128" "length (s6_addr a) = 16"
  shows "\<exists>b n m. IPv6_broadcast_address p a = Some b \<and> IPv6_network_address p a = Some n \<and> IPv6_subnet_mask p = Some m \<and>
     (addr_bit (s6_addr b) q \<longleftrightarrow> p \<le> q \<or> addr_bit (s6_addr a) q) \<and>
     (addr_bit (s6_addr m) q \<longleftrightarrow> q < p) \<and>
     (addr_bit (s6_addr n) q \<longleftrightarrow> addr_bit (s6_addr a) q \<and> (q div 8 < p div 8 \<or> q div 8 = p div 8 \<and> p \<le> q)) \<and>
     IPv6_broadcast_address (p + 128) a = None"
proof -
  have k: "p div 8 < 16" "16 \<le> (p + 128) div 8" using assms by auto
  then show ?thesis using ipv6_broadcast_bits [OF assms] ipv6_network_bits [OF assms] ipv6_mask_bits [OF assms(1,2)]
    by (simp add: IPv6_broadcast_address_def IPv6_network_address_def IPv6_subnet_mask_def Let_def)
qed

theorem ipv6_masks_witness:
  "\<exists>m. IPv6_subnet_mask 20 = Some m \<and> addr_bit (s6_addr m) 19"
  using ipv6_masks [of 20 19 IPv6Address_default] by (auto simp: IPv6Address_default_def)

text \<open>
  C18: the comparison operators are the equality and the lexicographic order of the byte
  representations, a strict total order: addresses can be keys of ordered containers.
\<close>

theorem address_order:
  "(Address_eq a b \<longleftrightarrow> a = b) \<and> (Address_less a b \<longleftrightarrow> (a, b) \<in> lexord {(x, y). x < y}) \<and>
   \<not> Address_less a a \<and> (Address_less a b \<and> Address_less b c \<longrightarrow> Address_less a c) \<and>
   (Address_less a b \<or> a = b \<or> Address_less b a)"
  using al.irrefl al.trans [of a b c] al.total [of a b] by (auto simp: Address_eq_iff Address_less_lex)

theorem address_order_witness:
  "Address_less [2, 0, 0, 80] [2, 0, 1, 80] \<and> Address_less [2, 0] [2, 0, 1] \<and> Address_less [2, 0] [2, 1]"
  using address_order [of "[2, 0]" "[2, 0, 1]" "[2, 1]"] address_order [of "[2, 0, 0, 80]" "[2, 0, 1, 80]" "[2]"]
    address_order [of "[2, 0, 1]" "[2, 1]" "[2]"] by simp

text \<open>
  how a host string is split for the resolver. A bracketed IPv6 address with a port
  and a name or IPv4 address with a port are split into node and service, a name without a colon
  is the node alone. An IPv6 literal without brackets becomes the node, but the tail of it
  from its first colon on is passed as the service as well.
\<close>

theorem split_host_cases:
  "(v6 \<noteq> [] \<and> CHR '']'' \<notin> set v6 \<longrightarrow> split_host (''['' @ v6 @ '']:'' @ port) = (v6, Some port)) \<and>
   (name \<noteq> [] \<and> hd name \<noteq> CHR ''['' \<and> CHR '':'' \<notin> set (name @ port) \<longrightarrow>
      split_host (name @ '':'' @ port) = (name, Some port) \<and> split_host name = (name, None)) \<and>
   (hd name \<noteq> CHR ''['' \<and> name \<noteq> [] \<and> CHR '':'' \<notin> set name \<longrightarrow>
      split_host (name @ '':'' @ rest @ '':'' @ port) =
        (name @ '':'' @ rest @ '':'' @ port, Some ('':'' @ rest @ '':'' @ port)))"
proof -
  have "drop (length v6 + 3) (CHR ''['' # v6 @ CHR '']'' # CHR '':'' # port) = port" by (simp add: eval_nat_numeral)
  then show ?thesis
    by (auto simp: split_host_def bracket_part_def index_of_append index_of_absent nth_append index_of_None)
qed

theorem split_host_cases_witness:
  "split_host ''[::1]:80'' = (''::1'', Some ''80'') \<and> split_host ''localhost:80'' = (''localhost'', Some ''80'') \<and>
   split_host ''fe80::1'' = (''fe80::1'', Some ''::1'')"
  using split_host_cases [of "''::1''" "''80''" "''localhost''" "[]"] split_host_cases [of "[]" "''1''" "''fe80''" "[]"] by simp

text \<open>
  a path stored in a Unix domain address comes back when it is shorter than the array; a path
  that fills the 108 bytes exactly is stored without an end, and a longer one is refused.
  An abstract name comes back behind an escaped zero, with a zero byte appended.
\<close>

theorem unix_path_round_trip:
  assumes "0 \<notin> set path"
  shows "map_option get_path (UnixAddress_new path) =
       (if length path > 108 then None
        else if length path = 108 then Some None
        else if path = [] then Some (Some (map char_byte [CHR 0x5C, CHR ''0''])) else Some (Some path)) \<and>
     (length path < 107 \<longrightarrow>
       map_option get_path (UnixAddress_new (0 # path)) = Some (Some (map char_byte [CHR 0x5C, CHR ''0''] @ path @ [0])))"
proof
  have sz: "sun_path_size = 108" "sun_path_offset = 2" by (simp_all add: sun_path_size_def sun_path_offset_def)
  show "map_option get_path (UnixAddress_new path) =
       (if length path > 108 then None
        else if length path = 108 then Some None
        else if path = [] then Some (Some (map char_byte [CHR 0x5C, CHR ''0''])) else Some (Some path))"
  proof (cases path)
    case Nil
    then show ?thesis by (simp add: UnixAddress_new_def get_path_def sz patch_def)
  next
    case (Cons b bs)
    then have "b \<noteq> 0" using assms by auto
    moreover have "takeWhile (\<lambda>b. b \<noteq> 0) (path @ replicate n 0) = path" for n
      using assms by (subst takeWhile_append2) auto
    ultimately show ?thesis using assms Cons
      by (auto simp: UnixAddress_new_def get_path_def sz patch_def Let_def)
  qed
  show "length path < 107 \<longrightarrow>
      map_option get_path (UnixAddress_new (0 # path)) = Some (Some (map char_byte [CHR 0x5C, CHR ''0''] @ path @ [0]))"
    by (simp add: UnixAddress_new_def get_path_def sz patch_def)
qed

theorem unix_path_round_trip_witness:
  "map_option get_path (UnixAddress_new [47, 116, 109, 112]) = Some (Some [47, 116, 109, 112])"
  using unix_path_round_trip [of "[47, 116, 109, 112]"] by simp

end
