(* ===== verification/Sockets.thy ===== *)
theory Sockets
  imports Streams Fdmanager Address
begin

text \<open>
  The rest of \<^verbatim>\<open>src/socket.cc\<close> after sending and receiving: creating sockets, connecting, binding,
  listening, accepting, options, timeouts and datagrams. The world is the table of descriptors, what
  the kernel says of them and the rest of the kernel; the system calls, as the hooked functions
  return, are the record \<open>socket_sys\<close>. The value \<open>None\<close> of an operation is an access of the table
  outside its bounds. What is asked of the system calls is the locale \<open>descriptors\<close>.
\<close>

section \<open>The world\<close>

record 'k os_world =
  w_fds :: fd_table
  w_kernel :: kernel
  w_net :: 'k

text \<open>
  The calls on addresses are given the object to fill and return it as the kernel leaves it, with the
  length it reports.
\<close>

record 'w socket_sys =
  so_sys :: "'w sys"
  so_host :: endian
  so_errno :: "'w \<Rightarrow> int"
  so_socket :: "int \<Rightarrow> int \<Rightarrow> int \<Rightarrow> 'w \<Rightarrow> int \<times> 'w"
  so_setsockopt :: "int \<Rightarrow> int \<Rightarrow> int \<Rightarrow> byte list \<Rightarrow> 'w \<Rightarrow> int \<times> 'w"
  so_getsockopt :: "int \<Rightarrow> int \<Rightarrow> int \<Rightarrow> 'w \<Rightarrow> int \<times> int"
  so_getsockname :: "int \<Rightarrow> sock_address \<Rightarrow> 'w \<Rightarrow> (sock_address \<times> nat) option"
  so_getpeername :: "int \<Rightarrow> sock_address \<Rightarrow> 'w \<Rightarrow> (sock_address \<times> nat) option"
  so_connect :: "int \<Rightarrow> sock_address \<Rightarrow> 'w \<Rightarrow> int \<times> 'w"
  so_bind :: "int \<Rightarrow> sock_address \<Rightarrow> 'w \<Rightarrow> int \<times> 'w"
  so_listen :: "int \<Rightarrow> int \<Rightarrow> 'w \<Rightarrow> int \<times> 'w"
  so_accept :: "int \<Rightarrow> 'w \<Rightarrow> int \<times> 'w"
  so_sendto :: "int \<Rightarrow> byte list \<Rightarrow> sock_address \<Rightarrow> 'w \<Rightarrow> int \<times> 'w"
  so_recvfrom :: "int \<Rightarrow> nat \<Rightarrow> sock_address \<Rightarrow> 'w \<Rightarrow> (int \<times> byte list \<times> sock_address) \<times> 'w"

definition SOCK_STREAM :: int where "SOCK_STREAM = 1"
definition SOCK_DGRAM :: int where "SOCK_DGRAM = 2"
definition SOL_SOCKET :: int where "SOL_SOCKET = 1"
definition SO_REUSEADDR :: int where "SO_REUSEADDR = 2"
definition SO_ERROR :: int where "SO_ERROR = 4"
definition IPPROTO_TCP :: int where "IPPROTO_TCP = 6"
definition TCP_NODELAY :: int where "TCP_NODELAY = 1"

section \<open>Options and timeouts\<close>

definition Socket_set_option :: "'w socket_sys \<Rightarrow> int \<Rightarrow> int \<Rightarrow> byte list \<Rightarrow> Socket \<Rightarrow> 'w \<Rightarrow> bool \<times> 'w" where
  "Socket_set_option sys level optname optval s w =
     (case so_setsockopt sys (m_sock s) level optname optval w of (rt, w1) \<Rightarrow> (rt = 0, w1))"

definition Socket_get_option :: "'w socket_sys \<Rightarrow> int \<Rightarrow> int \<Rightarrow> Socket \<Rightarrow> 'w \<Rightarrow> int option" where
  "Socket_get_option sys level optname s w =
     (case so_getsockopt sys (m_sock s) level optname w of (rt, optval) \<Rightarrow> if rt \<noteq> 0 then None else Some optval)"

definition get_error :: "'w socket_sys \<Rightarrow> Socket \<Rightarrow> 'w \<Rightarrow> int" where
  "get_error sys s w = (case Socket_get_option sys SOL_SOCKET SO_ERROR s w of None \<Rightarrow> so_errno sys w | Some err \<Rightarrow> err)"

text \<open>The entity of the socket's descriptor is read or changed in place in the table.\<close>

definition with_entity :: "(fd_entity \<Rightarrow> 'a) \<Rightarrow> 'a \<Rightarrow> Socket \<Rightarrow> 'k os_world \<Rightarrow> 'a option" where
  "with_entity f dflt s w =
     map_option (\<lambda>(e, ds, k). case e of None \<Rightarrow> dflt | Some e \<Rightarrow> f e) (get_fd (m_sock s) False (w_fds w) (w_kernel w))"

definition change_entity :: "(fd_entity \<Rightarrow> fd_entity) \<Rightarrow> Socket \<Rightarrow> 'k os_world \<Rightarrow> 'k os_world option" where
  "change_entity f s w =
     map_option (\<lambda>(e, ds, k). case e of None \<Rightarrow> w | Some e \<Rightarrow> w\<lparr>w_fds := (w_fds w)[nat (m_sock s) := Some (f e)]\<rparr>)
       (get_fd (m_sock s) False (w_fds w) (w_kernel w))"

definition get_send_timeout :: "u64 \<Rightarrow> Socket \<Rightarrow> 'k os_world \<Rightarrow> int option" where
  "get_send_timeout g = with_entity (\<lambda>e. to_int64 (uint (send_timeout g e))) (-1)"

definition set_send_timeout :: "int \<Rightarrow> Socket \<Rightarrow> 'k os_world \<Rightarrow> 'k os_world option" where
  "set_send_timeout timeout = change_entity (\<lambda>e. e\<lparr>m_send_timeout := word_of_int timeout\<rparr>)"

definition get_recv_timeout :: "u64 \<Rightarrow> Socket \<Rightarrow> 'k os_world \<Rightarrow> int option" where
  "get_recv_timeout g = with_entity (\<lambda>e. to_int64 (uint (recv_timeout g e))) (-1)"

definition set_recv_timeout :: "int \<Rightarrow> Socket \<Rightarrow> 'k os_world \<Rightarrow> 'k os_world option" where
  "set_recv_timeout timeout = change_entity (\<lambda>e. e\<lparr>m_recv_timeout := word_of_int timeout\<rparr>)"

section \<open>Descriptors and addresses\<close>

definition init_sock :: "'w socket_sys \<Rightarrow> Socket \<Rightarrow> 'w \<Rightarrow> 'w" where
  "init_sock sys s w =
     (let val = mem_bytes (so_host sys) (1 :: u32);
          w1 = snd (Socket_set_option sys SOL_SOCKET SO_REUSEADDR val s w)
      in if m_type s = SOCK_STREAM \<and> m_family s \<noteq> uint AF_UNIX then snd (Socket_set_option sys IPPROTO_TCP TCP_NODELAY val s w1) else w1)"

definition new_sock :: "'w socket_sys \<Rightarrow> Socket \<Rightarrow> 'w \<Rightarrow> Socket \<times> 'w" where
  "new_sock sys s w =
     (case so_socket sys (m_family s) (m_type s) (m_protocol s) w of
        (fd, w1) \<Rightarrow>
          let s1 = s\<lparr>m_sock := fd\<rparr> in
          if m_sock s1 \<noteq> -1 then (s1, init_sock sys s1 w1) else (s1, w1))"

definition blank_address :: "int \<Rightarrow> sock_address" where
  "blank_address family =
     (if family = uint AF_INET then \<lparr>a_family = family, a_data = replicate 14 0, a_len = 16\<rparr>
      else if family = uint AF_INET6 then \<lparr>a_family = family, a_data = replicate 26 0, a_len = 28\<rparr>
      else if family = uint AF_UNIX then
        \<lparr>a_family = family, a_data = replicate sun_path_size 0, a_len = sun_path_offset + (sun_path_size - 1)\<rparr>
      else \<lparr>a_family = family, a_data = replicate 14 0, a_len = 16\<rparr>)"

definition unknown_address :: "int \<Rightarrow> sock_address" where
  "unknown_address family = \<lparr>a_family = family, a_data = replicate 14 0, a_len = 16\<rparr>"

definition filled_address :: "Socket \<Rightarrow> sock_address \<times> nat \<Rightarrow> sock_address" where
  "filled_address s = (\<lambda>(a, len). if m_family s = uint AF_UNIX then a\<lparr>a_len := len\<rparr> else a)"

definition init_local_address :: "'w socket_sys \<Rightarrow> Socket \<Rightarrow> 'w \<Rightarrow> sock_address \<times> Socket" where
  "init_local_address sys s w =
     (case m_local_addr s of
        Some a \<Rightarrow> (a, s)
      | None \<Rightarrow>
          (case so_getsockname sys (m_sock s) (blank_address (m_family s)) w of
             None \<Rightarrow> (unknown_address (m_family s), s)
           | Some r \<Rightarrow> (filled_address s r, s\<lparr>m_local_addr := Some (filled_address s r)\<rparr>)))"

definition init_remote_address :: "'w socket_sys \<Rightarrow> Socket \<Rightarrow> 'w \<Rightarrow> sock_address \<times> Socket" where
  "init_remote_address sys s w =
     (case m_remote_addr s of
        Some a \<Rightarrow> (a, s)
      | None \<Rightarrow>
          (case so_getpeername sys (m_sock s) (blank_address (m_family s)) w of
             None \<Rightarrow> (unknown_address (m_family s), s)
           | Some r \<Rightarrow> (filled_address s r, s\<lparr>m_remote_addr := Some (filled_address s r)\<rparr>)))"

definition get_local_addr :: "'w socket_sys \<Rightarrow> Socket \<Rightarrow> 'w \<Rightarrow> sock_address \<times> Socket" where
  "get_local_addr sys s w = (case m_local_addr s of Some a \<Rightarrow> (a, s) | None \<Rightarrow> init_local_address sys s w)"

definition get_remote_addr :: "'w socket_sys \<Rightarrow> Socket \<Rightarrow> 'w \<Rightarrow> sock_address \<times> Socket" where
  "get_remote_addr sys s w = (case m_remote_addr s of Some a \<Rightarrow> (a, s) | None \<Rightarrow> init_remote_address sys s w)"

section \<open>Creating sockets\<close>

definition CreateTCP :: "sock_address \<Rightarrow> Socket" where
  "CreateTCP a = Socket_new (a_family a) SOCK_STREAM 0"

definition CreateUDP :: "'w socket_sys \<Rightarrow> sock_address \<Rightarrow> 'w \<Rightarrow> Socket \<times> 'w" where
  "CreateUDP sys a w =
     (case new_sock sys (Socket_new (a_family a) SOCK_DGRAM 0) w of (s, w1) \<Rightarrow> (s\<lparr>m_is_connected := True\<rparr>, w1))"

definition CreateTCPSocket :: Socket where
  "CreateTCPSocket = Socket_new (uint AF_INET) SOCK_STREAM 0"

definition CreateUDPSocket :: "'w socket_sys \<Rightarrow> 'w \<Rightarrow> Socket \<times> 'w" where
  "CreateUDPSocket sys w =
     (case new_sock sys (Socket_new (uint AF_INET) SOCK_DGRAM 0) w of (s, w1) \<Rightarrow> (s\<lparr>m_is_connected := True\<rparr>, w1))"

definition CreateTCPSocket6 :: Socket where
  "CreateTCPSocket6 = Socket_new (uint AF_INET6) SOCK_STREAM 0"

definition CreateUDPSocket6 :: "'w socket_sys \<Rightarrow> 'w \<Rightarrow> Socket \<times> 'w" where
  "CreateUDPSocket6 sys w =
     (case new_sock sys (Socket_new (uint AF_INET6) SOCK_DGRAM 0) w of (s, w1) \<Rightarrow> (s\<lparr>m_is_connected := True\<rparr>, w1))"

definition CreateUnixTCPSocket :: Socket where
  "CreateUnixTCPSocket = Socket_new (uint AF_UNIX) SOCK_STREAM 0"

definition CreateUnixUDPSocket :: Socket where
  "CreateUnixUDPSocket = Socket_new (uint AF_UNIX) SOCK_DGRAM 0"

section \<open>Connecting and accepting\<close>

text \<open>A timeout of \<^verbatim>\<open>(uint64_t)-1\<close> means none. A family that differs is reported in the log only.\<close>

definition connect_via :: "'k os_world socket_sys \<Rightarrow> sock_address \<Rightarrow> Socket \<Rightarrow> 'k os_world \<Rightarrow> bool \<times> Socket \<times> 'k os_world" where
  "connect_via sys addr s w =
     (case so_connect sys (m_sock s) addr w of
        (rt, w1) \<Rightarrow>
          if rt \<noteq> 0 then (False, snd (Socket_close (so_sys sys) s w1))
          else (True, snd (init_remote_address sys (snd (init_local_address sys (s\<lparr>m_is_connected := True\<rparr>) w1)) w1), w1))"

definition Socket_connect :: "'k os_world socket_sys \<Rightarrow> sock_address \<Rightarrow> u64 \<Rightarrow> Socket \<Rightarrow> 'k os_world \<Rightarrow> (bool \<times> Socket \<times> 'k os_world) option" where
  "Socket_connect sys addr timeout_ms s w =
     (case (if is_valid s then (s, w) else new_sock sys s w) of
        (s1, w1) \<Rightarrow>
          if \<not> is_valid s1 then Some (False, s1, w1)
          else if timeout_ms \<noteq> -1 then
            (case change_entity (\<lambda>e. e\<lparr>m_connect_timeout := timeout_ms\<rparr>) s1 w1 of
               None \<Rightarrow> None
             | Some w2 \<Rightarrow> Some (connect_via sys addr s1 w2))
          else Some (connect_via sys addr s1 w1))"

definition Socket_reconnect :: "'k os_world socket_sys \<Rightarrow> u64 \<Rightarrow> Socket \<Rightarrow> 'k os_world \<Rightarrow> (bool \<times> Socket \<times> 'k os_world) option" where
  "Socket_reconnect sys timeout_ms s w =
     (case m_remote_addr s of
        None \<Rightarrow> Some (False, s, w)
      | Some a \<Rightarrow> Socket_connect sys a timeout_ms (s\<lparr>m_local_addr := None\<rparr>) w)"

definition Socket_bind :: "'w socket_sys \<Rightarrow> sock_address \<Rightarrow> Socket \<Rightarrow> 'w \<Rightarrow> bool \<times> Socket \<times> 'w" where
  "Socket_bind sys addr s w =
     (case (if is_valid s then (s, w) else new_sock sys s w) of
        (s1, w1) \<Rightarrow>
          if \<not> is_valid s1 then (False, s1, w1)
          else if a_family addr \<noteq> m_family s1 then (False, s1, w1)
          else (case so_bind sys (m_sock s1) addr w1 of
              (rt, w2) \<Rightarrow> if rt \<noteq> 0 then (False, s1, w2) else (True, snd (init_local_address sys s1 w2), w2)))"

definition Socket_listen :: "'w socket_sys \<Rightarrow> int \<Rightarrow> Socket \<Rightarrow> 'w \<Rightarrow> bool \<times> 'w" where
  "Socket_listen sys backlog s w =
     (if \<not> is_valid s then (False, w)
      else case so_listen sys (m_sock s) backlog w of (rt, w1) \<Rightarrow> (rt = 0, w1))"

definition Socket_init :: "'k os_world socket_sys \<Rightarrow> int \<Rightarrow> Socket \<Rightarrow> 'k os_world \<Rightarrow> (bool \<times> Socket \<times> 'k os_world) option" where
  "Socket_init sys sock s w =
     (case get_fd sock False (w_fds w) (w_kernel w) of
        None \<Rightarrow> None
      | Some (None, _, _) \<Rightarrow> Some (False, s, w)
      | Some (Some e, _, _) \<Rightarrow>
          if m_is_socket e \<and> \<not> m_is_closed e then
            let s1 = s\<lparr>m_sock := sock, m_is_connected := True\<rparr>;
                w1 = init_sock sys s1 w;
                s2 = snd (init_local_address sys s1 w1);
                s3 = snd (init_remote_address sys s2 w1)
            in Some (True, s3, w1)
          else Some (False, s, w))"

definition Socket_accept :: "'k os_world socket_sys \<Rightarrow> Socket \<Rightarrow> 'k os_world \<Rightarrow> (Socket option \<times> 'k os_world) option" where
  "Socket_accept sys s w =
     (case so_accept sys (m_sock s) w of
        (sock, w1) \<Rightarrow>
          if sock = -1 then Some (None, w1)
          else (case Socket_init sys sock (Socket_new (m_family s) (m_type s) (m_protocol s)) w1 of
              None \<Rightarrow> None
            | Some (True, s1, w2) \<Rightarrow> Some (Some s1, w2)
            | Some (False, s1, w2) \<Rightarrow> Some (None, snd (snd (Socket_close (so_sys sys) s1 w2)))))"

section \<open>Datagrams\<close>

definition send_to :: "'w socket_sys \<Rightarrow> byte list \<Rightarrow> sock_address \<Rightarrow> Socket \<Rightarrow> 'w \<Rightarrow> int \<times> 'w" where
  "send_to sys buffer addr s w =
     (if m_is_connected s then map_prod to_int id (so_sendto sys (m_sock s) buffer addr w) else (-1, w))"

text \<open>\<^verbatim>\<open>sendmsg\<close> with a destination sends the buffers one after the other as one datagram.\<close>

definition send_to_iov :: "'w socket_sys \<Rightarrow> byte list list \<Rightarrow> sock_address \<Rightarrow> Socket \<Rightarrow> 'w \<Rightarrow> int \<times> 'w" where
  "send_to_iov sys buffers addr s w =
     (if m_is_connected s then map_prod to_int id (so_sendto sys (m_sock s) (concat buffers) addr w) else (-1, w))"

text \<open>The length given is hidden by a variable of the same name, the length of the address.\<close>

definition recv_from :: "'w socket_sys \<Rightarrow> nat \<Rightarrow> sock_address \<Rightarrow> Socket \<Rightarrow> 'w \<Rightarrow> (int \<times> byte list \<times> sock_address) \<times> 'w" where
  "recv_from sys len addr s w =
     (if m_is_connected s then
        (let len = a_len addr in map_prod (map_prod to_int id) id (so_recvfrom sys (m_sock s) len addr w))
      else ((-1, [], addr), w))"

definition recv_from_iov :: "'w socket_sys \<Rightarrow> nat \<Rightarrow> sock_address \<Rightarrow> Socket \<Rightarrow> 'w \<Rightarrow> (int \<times> byte list \<times> sock_address) \<times> 'w" where
  "recv_from_iov sys len addr s w =
     (if m_is_connected s then map_prod (map_prod to_int id) id (so_recvfrom sys (m_sock s) len addr w)
      else ((-1, [], addr), w))"

section \<open>Ownership of descriptors\<close>

text \<open>
  What is asked of the system calls: \<^verbatim>\<open>socket\<close> and \<^verbatim>\<open>accept\<close> return a descriptor that was not open or
  -1, \<^verbatim>\<open>close\<close> closes its descriptor, and no other call opens or closes one.
\<close>

locale descriptors =
  fixes sys :: "'k os_world socket_sys" and opened :: "'k os_world \<Rightarrow> int set"
  assumes socket_opens: "so_socket sys f t p w = (fd, w') \<Longrightarrow>
      fd = -1 \<and> opened w' = opened w \<or> 0 \<le> fd \<and> fd \<notin> opened w \<and> opened w' = insert fd (opened w)"
    and accept_opens: "so_accept sys l w = (fd, w') \<Longrightarrow>
      fd = -1 \<and> opened w' = opened w \<or> 0 \<le> fd \<and> fd \<notin> opened w \<and> opened w' = insert fd (opened w)"
    and close_closes: "opened (sys_close (so_sys sys) fd w) = opened w - {fd}"
    and option_keeps: "opened (snd (so_setsockopt sys fd level name val w)) = opened w"
    and connect_keeps: "opened (snd (so_connect sys fd addr w)) = opened w"
    and bind_keeps: "opened (snd (so_bind sys fd addr w)) = opened w"
    and listen_keeps: "opened (snd (so_listen sys fd n w)) = opened w"
    and table_keeps: "opened (w\<lparr>w_fds := ds\<rparr>) = opened w"

text \<open>The operations of a client of a socket.\<close>

datatype socket_op =
    Connect sock_address u64 | Reconnect u64 | Bind sock_address | Listen int | Close
  | SetRecvTimeout int | SetSendTimeout int

fun run_op :: "'k os_world socket_sys \<Rightarrow> socket_op \<Rightarrow> Socket \<times> 'k os_world \<Rightarrow> (Socket \<times> 'k os_world) option" where
  "run_op sys (Connect a t) (s, w) = map_option snd (Socket_connect sys a t s w)"
| "run_op sys (Reconnect t) (s, w) = map_option snd (Socket_reconnect sys t s w)"
| "run_op sys (Bind a) (s, w) = Some (snd (Socket_bind sys a s w))"
| "run_op sys (Listen n) (s, w) = Some (s, snd (Socket_listen sys n s w))"
| "run_op sys Close (s, w) = Some (snd (Socket_close (so_sys sys) s w))"
| "run_op sys (SetRecvTimeout t) (s, w) = map_option (Pair s) (set_recv_timeout t s w)"
| "run_op sys (SetSendTimeout t) (s, w) = map_option (Pair s) (set_send_timeout t s w)"

fun run_ops :: "'k os_world socket_sys \<Rightarrow> socket_op list \<Rightarrow> Socket \<times> 'k os_world \<Rightarrow> (Socket \<times> 'k os_world) option" where
  "run_ops sys [] st = Some st"
| "run_ops sys (x # xs) st = (case run_op sys x st of None \<Rightarrow> None | Some st1 \<Rightarrow> run_ops sys xs st1)"

fun sets_timeout :: "socket_op \<Rightarrow> bool" where
  "sets_timeout (SetRecvTimeout t) = True"
| "sets_timeout (SetSendTimeout t) = True"
| "sets_timeout x = False"

text \<open>The socket owns its descriptor, which is not one of the others, and nothing else was opened.\<close>

definition owns :: "('k os_world \<Rightarrow> int set) \<Rightarrow> int set \<Rightarrow> Socket \<times> 'k os_world \<Rightarrow> bool" where
  "owns opened others = (\<lambda>(s, w).
     (is_valid s \<longrightarrow> 0 \<le> m_sock s \<and> m_sock s \<notin> others) \<and> (m_is_connected s \<longrightarrow> is_valid s) \<and>
     opened w = others \<union> (if is_valid s then {m_sock s} else {}))"

lemma get_fd_valid: "0 \<le> fd \<Longrightarrow> \<exists>e. get_fd fd False ds k = Some (e, ds, k)"
  by (auto simp: get_fd_def)

lemma get_fd_negative: "fd < 0 \<Longrightarrow> get_fd fd False ds k = None"
  by (auto simp: get_fd_def)

lemma change_entity_cases:
  "change_entity f s w = (if m_sock s < 0 then None
     else Some (case fst (the (get_fd (m_sock s) False (w_fds w) (w_kernel w))) of
         None \<Rightarrow> w | Some e \<Rightarrow> w\<lparr>w_fds := (w_fds w)[nat (m_sock s) := Some (f e)]\<rparr>))"
  using get_fd_valid [of "m_sock s" "w_fds w" "w_kernel w"] get_fd_negative [of "m_sock s" "w_fds w" "w_kernel w"]
  by (auto simp: change_entity_def)

lemma init_address_frame [simp]:
  "m_sock (snd (init_local_address sys s w)) = m_sock s" "m_is_connected (snd (init_local_address sys s w)) = m_is_connected s"
  "m_sock (snd (init_remote_address sys s w)) = m_sock s" "m_is_connected (snd (init_remote_address sys s w)) = m_is_connected s"
  by (simp_all add: init_local_address_def init_remote_address_def split: option.split)

context descriptors
begin

lemma opened_init_sock: "opened (init_sock sys s w) = opened w"
  by (simp add: init_sock_def Socket_set_option_def Let_def option_keeps case_prod_beta)

lemma opened_change: "change_entity f s w = Some w' \<Longrightarrow> opened w' = opened w"
  by (auto simp: change_entity_cases table_keeps split: if_splits option.splits)

lemma owns_new_sock:
  assumes "owns opened others (s, w)" "\<not> is_valid s"
  shows "owns opened others (new_sock sys s w)"
proof -
  obtain fd w1 where c: "so_socket sys (m_family s) (m_type s) (m_protocol s) w = (fd, w1)" by fastforce
  from assms have o: "opened w = others" "\<not> m_is_connected s" by (auto simp: owns_def)
  show ?thesis
  proof (cases "fd = -1")
    case True
    then show ?thesis using socket_opens [OF c] o c by (simp add: owns_def new_sock_def is_valid_def)
  next
    case False
    then show ?thesis using socket_opens [OF c] o c by (simp add: owns_def new_sock_def is_valid_def opened_init_sock Let_def)
  qed
qed

lemma owns_close: "owns opened others (s, w) \<Longrightarrow> owns opened others (snd (Socket_close (so_sys sys) s w))"
  by (auto simp: owns_def Socket_close_def is_valid_def Let_def close_closes)

lemma owns_ensure: "owns opened others (s, w) \<Longrightarrow> owns opened others (if is_valid s then (s, w) else new_sock sys s w)"
  using owns_new_sock by simp

lemma owns_change: "owns opened others (s, w) \<Longrightarrow> change_entity f s w = Some w' \<Longrightarrow> owns opened others (s, w')"
  by (simp add: owns_def opened_change)

lemma owns_connect_via:
  assumes "owns opened others (s, w)" "is_valid s"
  shows "owns opened others (snd (connect_via sys addr s w))"
proof -
  obtain rt w1 where c: "so_connect sys (m_sock s) addr w = (rt, w1)" by fastforce
  have o: "owns opened others (s, w1)" using assms connect_keeps [of "m_sock s" addr w] c by (simp add: owns_def)
  show ?thesis using owns_close [OF o] o assms(2) c by (auto simp: connect_via_def owns_def is_valid_def)
qed

lemma owns_connect:
  assumes "owns opened others (s, w)"
  shows "\<exists>r. Socket_connect sys addr t s w = Some r \<and> owns opened others (snd r)"
proof -
  obtain s1 w1 where e: "(if is_valid s then (s, w) else new_sock sys s w) = (s1, w1)" by fastforce
  have o: "owns opened others (s1, w1)" using owns_ensure [OF assms] e by simp
  show ?thesis
  proof (cases "is_valid s1")
    case True
    then have "0 \<le> m_sock s1" using o by (simp add: owns_def)
    then obtain w2 where w2: "change_entity (\<lambda>e. e\<lparr>m_connect_timeout := t\<rparr>) s1 w1 = Some w2"
      by (simp add: change_entity_cases)
    show ?thesis using owns_connect_via [OF owns_change [OF o w2] True] owns_connect_via [OF o True] True w2 e
      by (simp add: Socket_connect_def del: split_paired_Ex)
  qed (use o e in \<open>auto simp: Socket_connect_def\<close>)
qed

lemma owns_bind:
  assumes "owns opened others (s, w)"
  shows "owns opened others (snd (Socket_bind sys addr s w))"
proof -
  obtain s1 w1 where e: "(if is_valid s then (s, w) else new_sock sys s w) = (s1, w1)" by fastforce
  have o: "owns opened others (s1, w1)" using owns_ensure [OF assms] e by simp
  obtain rt w2 where b: "so_bind sys (m_sock s1) addr w1 = (rt, w2)" by fastforce
  have "owns opened others (s1, w2)" using o bind_keeps [of "m_sock s1" addr w1] b by (simp add: owns_def)
  then show ?thesis using o e b by (auto simp: Socket_bind_def owns_def is_valid_def)
qed

lemma owns_listen: "owns opened others (s, w) \<Longrightarrow> owns opened others (s, snd (Socket_listen sys n s w))"
  by (simp add: owns_def Socket_listen_def listen_keeps case_prod_beta)

text \<open>Every operation keeps the ownership, and only setting a timeout of an invalid socket fails.\<close>

lemma owns_run_op:
  assumes "owns opened others (s, w)"
  shows "if sets_timeout x \<and> \<not> is_valid s then run_op sys x (s, w) = None
    else \<exists>st. run_op sys x (s, w) = Some st \<and> owns opened others st"
proof (cases x)
  case (Connect a t)
  then show ?thesis using owns_connect [OF assms, of a t] by auto
next
  case (Reconnect t)
  have "owns opened others (s\<lparr>m_local_addr := None\<rparr>, w)" using assms by (simp add: owns_def is_valid_def)
  from owns_connect [OF this] show ?thesis using Reconnect assms
    by (cases "m_remote_addr s") (force simp: Socket_reconnect_def)+
next
  case (SetRecvTimeout t)
  then show ?thesis using assms by (auto simp: set_recv_timeout_def change_entity_cases owns_def is_valid_def table_keeps split: option.splits)
next
  case (SetSendTimeout t)
  then show ?thesis using assms by (auto simp: set_send_timeout_def change_entity_cases owns_def is_valid_def table_keeps split: option.splits)
qed (use assms owns_bind owns_listen owns_close in auto)

lemma owns_run_ops:
  "owns opened others st \<Longrightarrow> run_ops sys xs st = Some st' \<Longrightarrow> owns opened others st'"
proof (induction xs arbitrary: st)
  case (Cons x xs)
  then show ?case using owns_run_op [of others "fst st" "snd st" x] by (auto split: if_splits option.splits)
qed simp

lemma run_ops_fails:
  "owns opened others st \<Longrightarrow> run_ops sys xs st = None \<longleftrightarrow>
     (\<exists>ys x zs s w. xs = ys @ x # zs \<and> run_ops sys ys st = Some (s, w) \<and> sets_timeout x \<and> \<not> is_valid s)"
proof (induction xs arbitrary: st)
  case (Cons x xs)
  obtain s w where st: "st = (s, w)" by fastforce
  show ?case
  proof (cases "sets_timeout x \<and> \<not> is_valid s")
    case True
    then show ?thesis using owns_run_op [of others s w x] Cons.prems st
      by (auto intro!: exI [of _ "[]"])
  next
    case False
    then obtain st1 where st1: "run_op sys x st = Some st1" "owns opened others st1"
      using owns_run_op [of others s w x] Cons.prems st by auto
    have "(\<exists>ys y zs s w. x # xs = ys @ y # zs \<and> run_ops sys ys st = Some (s, w) \<and> sets_timeout y \<and> \<not> is_valid s) \<longleftrightarrow>
       (\<exists>ys y zs s w. xs = ys @ y # zs \<and> run_ops sys ys st1 = Some (s, w) \<and> sets_timeout y \<and> \<not> is_valid s)" (is "?L \<longleftrightarrow> ?R")
    proof
      assume ?L
      then obtain ys y zs s' w' where l: "x # xs = ys @ y # zs" "run_ops sys ys st = Some (s', w')" "sets_timeout y" "\<not> is_valid s'" by blast
      then show ?R using False st st1(1) by (cases ys) auto
    next
      assume ?R
      then obtain ys y zs s' w' where "xs = ys @ y # zs" "run_ops sys ys st1 = Some (s', w')" "sets_timeout y" "\<not> is_valid s'" by blast
      then show ?L using st1(1) by (intro exI [of _ "x # ys"] exI [of _ y] exI [of _ zs] exI [of _ s'] exI [of _ w']) simp
    qed
    then show ?thesis using Cons.IH [OF st1(2)] st1(1) by simp
  qed
qed simp

end

section \<open>A kernel\<close>

text \<open>
  A kernel that numbers descriptors as POSIX asks, with the lowest that is free, up to a limit, and in
  which every call on an open descriptor succeeds: \<open>kn_waiting\<close> connections wait to be accepted.
\<close>

record knet =
  kn_open :: "nat list"
  kn_limit :: nat
  kn_waiting :: nat

definition free_fd :: "nat list \<Rightarrow> nat" where
  "free_fd xs = hd (filter (\<lambda>n. n \<notin> set xs) [0..<Suc (length xs)])"

definition open_fd :: "'x \<Rightarrow> knet os_world \<Rightarrow> int \<times> knet os_world" where
  "open_fd x w =
     (let k = w_net w; fd = free_fd (kn_open k) in
      if fd < kn_limit k then (int fd, w\<lparr>w_net := k\<lparr>kn_open := fd # kn_open k\<rparr>\<rparr>) else (-1, w))"

definition status :: "int \<Rightarrow> knet os_world \<Rightarrow> int \<times> knet os_world" where
  "status fd w = (if 0 \<le> fd \<and> nat fd \<in> set (kn_open (w_net w)) then 0 else -1, w)"

definition kn_opened :: "knet os_world \<Rightarrow> int set" where
  "kn_opened w = int ` set (kn_open (w_net w))"

definition kn_sys :: "knet os_world socket_sys" where
  "kn_sys =
     \<lparr>so_sys = \<lparr>sys_recv = \<lambda>fd n w. ((0, []), w), sys_recvmsg = \<lambda>fd n w. ((0, []), w),
        sys_send = \<lambda>fd bs w. (int (length bs), w), sys_sendmsg = \<lambda>fd bs w. (int (length bs), w),
        sys_close = \<lambda>fd w. w\<lparr>w_net := (w_net w)\<lparr>kn_open := filter (\<lambda>n. int n \<noteq> fd) (kn_open (w_net w))\<rparr>\<rparr>\<rparr>,
      so_host = TIGER_LITTLE_ENDIAN, so_errno = \<lambda>w. 0, so_socket = \<lambda>f t p. open_fd (f, t, p),
      so_setsockopt = \<lambda>fd l n v. status fd, so_getsockopt = \<lambda>fd l n w. (0, 0),
      so_getsockname = \<lambda>fd a w. Some (a, a_len a), so_getpeername = \<lambda>fd a w. Some (a, a_len a),
      so_connect = \<lambda>fd a. status fd, so_bind = \<lambda>fd a. status fd, so_listen = \<lambda>fd n. status fd,
      so_accept = \<lambda>l w. if kn_waiting (w_net w) = 0 then (-1, w)
        else open_fd l (w\<lparr>w_net := (w_net w)\<lparr>kn_waiting := kn_waiting (w_net w) - 1\<rparr>\<rparr>),
      so_sendto = \<lambda>fd bs a w. (int (length bs), w), so_recvfrom = \<lambda>fd n a w. ((0, [], a), w)\<rparr>"

lemma kn_sys_sel:
  "sys_recv (so_sys kn_sys) = (\<lambda>fd n w. ((0, []), w))" "sys_send (so_sys kn_sys) = (\<lambda>fd bs w. (int (length bs), w))"
  "so_host kn_sys = TIGER_LITTLE_ENDIAN" "so_socket kn_sys f t p = open_fd (f, t, p)" "so_setsockopt kn_sys fd l n v = status fd"
  "so_getsockname kn_sys fd a w = Some (a, a_len a)" "so_getpeername kn_sys fd a w = Some (a, a_len a)"
  "so_connect kn_sys fd a = status fd" "so_bind kn_sys fd a = status fd" "so_listen kn_sys fd m = status fd"
  by (simp_all add: kn_sys_def)

lemma free_fd_fresh: "free_fd xs \<notin> set xs"
proof -
  have "\<exists>n < Suc (length xs). n \<notin> set xs"
  proof (rule ccontr)
    assume "\<not> ?thesis"
    then have "{0..<Suc (length xs)} \<subseteq> set xs" by auto
    then have "Suc (length xs) \<le> card (set xs)" using card_mono [of "set xs" "{0..<Suc (length xs)}"] by simp
    then show False using card_length [of xs] by simp
  qed
  then have "filter (\<lambda>n. n \<notin> set xs) [0..<Suc (length xs)] \<noteq> []"
    unfolding filter_empty_conv set_upt by (meson atLeastLessThan_iff zero_le)
  then have "free_fd xs \<in> set (filter (\<lambda>n. n \<notin> set xs) [0..<Suc (length xs)])" unfolding free_fd_def by (rule hd_in_set)
  then show ?thesis by (auto split: if_splits)
qed

lemma open_fd_opens:
  "open_fd x w = (fd, w') \<Longrightarrow>
     fd = -1 \<and> kn_opened w' = kn_opened w \<or> 0 \<le> fd \<and> fd \<notin> kn_opened w \<and> kn_opened w' = insert fd (kn_opened w)"
  using free_fd_fresh [of "kn_open (w_net w)"] by (auto simp: open_fd_def kn_opened_def Let_def split: if_splits)

interpretation kn: descriptors kn_sys kn_opened
proof unfold_locales
  fix f t p w fd and w' :: "knet os_world"
  assume "so_socket kn_sys f t p w = (fd, w')"
  then show "fd = -1 \<and> kn_opened w' = kn_opened w \<or> 0 \<le> fd \<and> fd \<notin> kn_opened w \<and> kn_opened w' = insert fd (kn_opened w)"
    by (intro open_fd_opens [of "(f, t, p)"]) (simp add: kn_sys_def)
next
  fix l w fd and w' :: "knet os_world"
  assume a: "so_accept kn_sys l w = (fd, w')"
  let ?w = "w\<lparr>w_net := (w_net w)\<lparr>kn_waiting := kn_waiting (w_net w) - 1\<rparr>\<rparr>"
  have "kn_opened ?w = kn_opened w" by (simp add: kn_opened_def)
  then show "fd = -1 \<and> kn_opened w' = kn_opened w \<or> 0 \<le> fd \<and> fd \<notin> kn_opened w \<and> kn_opened w' = insert fd (kn_opened w)"
    using a open_fd_opens [of l ?w fd w'] by (auto simp: kn_sys_def split: if_splits)
qed (auto simp: kn_sys_def kn_opened_def status_def)

section \<open>Theorems\<close>

lemma owns_new: "owns opened (opened w) (Socket_new f t p, w)"
  by (simp add: owns_def Socket_new_def is_valid_def)


definition fresh_world :: "knet os_world" where
  "fresh_world = \<lparr>w_fds = replicate 60 None, w_kernel = \<lparr>k_fstat = \<lambda>fd. Some True, k_flags = \<lambda>fd. 0\<rparr>,
     w_net = \<lparr>kn_open = [0, 1, 2], kn_limit = 1024, kn_waiting = 1\<rparr>\<rparr>"


text \<open>
  \<^verbatim>\<open>accept\<close> loses a descriptor. When the table has no entity for the descriptor that was accepted,
  or not one of an open socket, no socket is returned and the descriptor stays open with no owner.
\<close>

theorem accept_leaks:
  assumes "descriptors sys opened" "so_accept sys (m_sock s) w = (fd, w1)" "fd \<noteq> -1"
    "get_fd fd False (w_fds w1) (w_kernel w1) = Some (e, ds, k)" "case e of None \<Rightarrow> True | Some x \<Rightarrow> \<not> m_is_socket x \<or> m_is_closed x"
  shows "Socket_accept sys s w = Some (None, w1) \<and> opened w1 = insert fd (opened w) \<and> fd \<notin> opened w"
proof -
  have "Socket_init sys fd s' w1 = Some (False, s', w1)" for s'
    using assms(4,5) by (auto simp: Socket_init_def split: option.splits)
  moreover have "Socket_close (so_sys sys) (Socket_new a b c) w1 = (True, Socket_new a b c, w1)" for a b c
    by (simp add: Socket_close_def Socket_new_def)
  ultimately show ?thesis using descriptors.accept_opens [OF assms(1,2)] assms(2,3) by (auto simp: Socket_accept_def)
qed

theorem accept_leaks_witness:
  "\<exists>w1. Socket_accept kn_sys ((Socket_new 2 1 0)\<lparr>m_sock := 2\<rparr>) fresh_world = Some (None, w1) \<and>
     kn_opened w1 = insert 3 (kn_opened fresh_world) \<and> 3 \<notin> kn_opened fresh_world"
proof -
  let ?w = "fresh_world\<lparr>w_net := \<lparr>kn_open = [3, 0, 1, 2], kn_limit = 1024, kn_waiting = 0\<rparr>\<rparr>"
  have a: "so_accept kn_sys (m_sock ((Socket_new 2 1 0)\<lparr>m_sock := 2\<rparr>)) fresh_world = (3, ?w)"
    by (simp add: kn_sys_def fresh_world_def open_fd_def free_fd_def Let_def upt_rec)
  have "get_fd 3 False (w_fds ?w) (w_kernel ?w) = Some (None, w_fds ?w, w_kernel ?w)"
    by (simp add: get_fd_def fresh_world_def)
  from accept_leaks [OF kn.descriptors_axioms a _ this] show ?thesis by simp
qed

end
