(* ===== verification/HttpConnection.thy ===== *)
theory HttpConnection
  imports HttpSession Sockets
begin

text \<open>
  The HTTP client, \<^verbatim>\<open>servers/http/http_connection.cc\<close>: receiving a response with a body of known
  length or in chunks, building and sending a request, and the pool of connections; with the
  response part of \<^verbatim>\<open>http_parser.cc\<close> and the code of \<^verbatim>\<open>uri.rl\<close> and \<^verbatim>\<open>http_response_parser.rl\<close> around the
  machines. The machines that Ragel generates, OpenSSL and \<^verbatim>\<open>zlib\<close> are arguments. \<open>Abort\<close> is a failed
  assertion, an exception that nothing catches, or undefined behaviour.
\<close>

section \<open>The parser of responses\<close>

datatype response_event =
    ReasonPhrase string nat | StatusCode string nat | ChunkSize string nat | ResponseVersion string nat
  | ResponseDone string nat | LastChunk string nat | ResponseField string nat string nat

record 'cs http_response_parser =
  hr_cs :: 'cs
  hr_body_start :: nat
  hr_nread :: nat
  hr_mark :: nat
  hr_field_start :: nat
  hr_field_len :: nat
  hr_content_len :: int
  hr_chunked :: bool
  hr_chunks_done :: bool

text \<open>The machine sets its state, its marks and the fields \<^verbatim>\<open>content_len\<close>, \<^verbatim>\<open>chunked\<close> and \<^verbatim>\<open>chunks_done\<close>.\<close>

record 'cs response_ragel =
  rr_start :: 'cs
  rr_exec :: "'cs http_response_parser \<Rightarrow> string \<Rightarrow> 'cs http_response_parser \<times> nat \<times> response_event list"
  rr_error :: "'cs \<Rightarrow> bool"
  rr_final :: "'cs \<Rightarrow> bool"

definition http_response_parser_init :: "'cs response_ragel \<Rightarrow> 'cs http_response_parser" where
  "http_response_parser_init rr =
     \<lparr>hr_cs = rr_start rr, hr_body_start = 0, hr_nread = 0, hr_mark = 0, hr_field_start = 0, hr_field_len = 0,
      hr_content_len = -1, hr_chunked = False, hr_chunks_done = False\<rparr>"

text \<open>
  After a failed \<^verbatim>\<open>check\<close> the result is -1, and \<^verbatim>\<open>HTTPResponseParser::execute\<close> moves memory from before
  the buffer; this is \<open>None\<close> like a failed assertion.
\<close>

definition http_response_parser_execute ::
    "'cs response_ragel \<Rightarrow> 'cs http_response_parser \<Rightarrow> string \<Rightarrow> (nat \<times> 'cs http_response_parser \<times> response_event list) option" where
  "http_response_parser_execute rr p buf =
     (let (p1, n, evs) = rr_exec rr p buf;
          p2 = p1\<lparr>hr_nread := hr_nread p + n\<rparr>
      in if n \<le> length buf \<and> hr_nread p2 \<le> length buf \<and> hr_body_start p2 \<le> length buf \<and> hr_mark p2 < length buf \<and>
            hr_field_len p2 \<le> length buf \<and> hr_field_start p2 < length buf
         then Some (hr_nread p2, p2, evs) else None)"

record 'cs HTTPResponseParser =
  rp_parser :: "'cs http_response_parser"
  rp_data :: HTTPResponse
  rp_error :: HTTPParserError

definition HTTPResponseParser_new :: "'cs response_ragel \<Rightarrow> 'cs HTTPResponseParser" where
  "HTTPResponseParser_new rr = \<lparr>rp_parser = http_response_parser_init rr, rp_data = HTTPResponse_new 0x11 True, rp_error = ParserOK\<rparr>"

definition on_response_http_version :: "string \<Rightarrow> nat \<Rightarrow> 'cs HTTPResponseParser \<Rightarrow> 'cs HTTPResponseParser" where
  "on_response_http_version at len p =
     (if strncmp_eq at ''HTTP/1.1'' len then p\<lparr>rp_data := (rp_data p)\<lparr>m_version_rsp := 0x11\<rparr>\<rparr>
      else if strncmp_eq at ''HTTP/1.0'' len then p\<lparr>rp_data := (rp_data p)\<lparr>m_version_rsp := 0x10\<rparr>\<rparr>
      else p\<lparr>rp_error := INVALID_VERSION_ERROR\<rparr>)"

definition on_response_http_field :: "string \<Rightarrow> nat \<Rightarrow> string \<Rightarrow> nat \<Rightarrow> 'cs HTTPResponseParser \<Rightarrow> 'cs HTTPResponseParser" where
  "on_response_http_field fld flen val vlen p =
     (if flen = 0 then p
      else p\<lparr>rp_data := HTTPResponse_set_header (take flen fld) (take vlen val) (rp_data p)\<rparr>)"

text \<open>\<open>atoi\<close> is an argument.\<close>

fun on_response_event :: "(string \<Rightarrow> int) \<Rightarrow> response_event \<Rightarrow> 'cs HTTPResponseParser \<Rightarrow> 'cs HTTPResponseParser" where
  "on_response_event atoi (ReasonPhrase at len) p = p\<lparr>rp_data := (rp_data p)\<lparr>m_reason := take len at\<rparr>\<rparr>"
| "on_response_event atoi (StatusCode at len) p = p\<lparr>rp_data := (rp_data p)\<lparr>m_status := atoi at\<rparr>\<rparr>"
| "on_response_event atoi (ChunkSize at len) p = p"
| "on_response_event atoi (ResponseVersion at len) p = on_response_http_version at len p"
| "on_response_event atoi (ResponseDone at len) p = p"
| "on_response_event atoi (LastChunk at len) p = p"
| "on_response_event atoi (ResponseField fld flen val vlen) p = on_response_http_field fld flen val vlen p"

definition HTTPResponseParser_execute ::
    "'cs response_ragel \<Rightarrow> (string \<Rightarrow> int) \<Rightarrow> string \<Rightarrow> bool \<Rightarrow> 'cs HTTPResponseParser \<Rightarrow> (nat \<times> 'cs HTTPResponseParser) option" where
  "HTTPResponseParser_execute rr atoi buf chunk p =
     (let p0 = (if chunk then p\<lparr>rp_parser := http_response_parser_init rr\<rparr> else p) in
      case http_response_parser_execute rr (rp_parser p0) buf of
        None \<Rightarrow> None
      | Some (n, hp, evs) \<Rightarrow> Some (n, fold (on_response_event atoi) evs (p0\<lparr>rp_parser := hp\<rparr>)))"

definition HTTPResponseParser_is_finished :: "'cs response_ragel \<Rightarrow> 'cs HTTPResponseParser \<Rightarrow> bool" where
  "HTTPResponseParser_is_finished rr p \<longleftrightarrow> rr_final rr (hr_cs (rp_parser p))"

definition HTTPResponseParser_has_error :: "'cs response_ragel \<Rightarrow> 'cs HTTPResponseParser \<Rightarrow> bool" where
  "HTTPResponseParser_has_error rr p \<longleftrightarrow> rp_error p \<noteq> ParserOK \<or> rr_error rr (hr_cs (rp_parser p))"

definition response_content_length :: "(string \<Rightarrow> nat option) \<Rightarrow> HTTPResponse \<Rightarrow> nat" where
  "response_content_length cast r = GetAs cast (m_headers_rsp r) ''content-length'' 0"

section \<open>Receiving a response\<close>

partial_function (option) recv_response_head ::
    "'cs response_ragel \<Rightarrow> (string \<Rightarrow> int) \<Rightarrow> ('s, 'x) Stream_scheme \<Rightarrow> nat \<Rightarrow> 'cs HTTPResponseParser \<Rightarrow> string \<Rightarrow> 's \<Rightarrow>
     ('cs HTTPResponseParser \<times> string, 's) received option" where
  "recv_response_head rr atoi st buffer_size p buf s =
     (case st_read st (buffer_size - length buf) s of
        ((n, bs), s1) \<Rightarrow>
          if n \<le> 0 then Some (Failed (st_close st s1))
          else
            let buf1 = buf @ map byte_char bs in
            (case HTTPResponseParser_execute rr atoi buf1 False p of
               None \<Rightarrow> Some Abort
             | Some (nparse, p1) \<Rightarrow>
                 if HTTPResponseParser_has_error rr p1 then Some (Failed (st_close st s1))
                 else
                   let buf2 = drop nparse buf1 in
                   if length buf2 = buffer_size then Some (Failed (st_close st s1))
                   else if HTTPResponseParser_is_finished rr p1 then Some (Got (p1, buf2) s1)
                   else recv_response_head rr atoi st buffer_size p1 buf2 s1))"

text \<open>The head of a chunk; \<open>begin\<close> says whether the buffer is tried before reading.\<close>

partial_function (option) recv_chunk_head ::
    "'cs response_ragel \<Rightarrow> (string \<Rightarrow> int) \<Rightarrow> ('s, 'x) Stream_scheme \<Rightarrow> nat \<Rightarrow> bool \<Rightarrow> 'cs HTTPResponseParser \<Rightarrow> string \<Rightarrow> 's \<Rightarrow>
     ('cs HTTPResponseParser \<times> string, 's) received option" where
  "recv_chunk_head rr atoi st buffer_size begin p buf s =
     (case (if \<not> begin \<or> buf = [] then st_read st (buffer_size - length buf) s else ((1, []), s)) of
        ((n, bs), s1) \<Rightarrow>
          if n \<le> 0 then Some (Failed (st_close st s1))
          else
            let buf1 = buf @ map byte_char bs in
            (case HTTPResponseParser_execute rr atoi buf1 True p of
               None \<Rightarrow> Some Abort
             | Some (nparse, p1) \<Rightarrow>
                 if HTTPResponseParser_has_error rr p1 then Some (Failed (st_close st s1))
                 else
                   let buf2 = drop nparse buf1 in
                   if length buf2 = buffer_size then Some (Failed (st_close st s1))
                   else if HTTPResponseParser_is_finished rr p1 then Some (Got (p1, buf2) s1)
                   else recv_chunk_head rr atoi st buffer_size False p1 buf2 s1))"

text \<open>The rest of a chunk that is not in the buffer; a read that returns 0 is tried again.\<close>

partial_function (option) recv_chunk_rest ::
    "('s, 'x) Stream_scheme \<Rightarrow> nat \<Rightarrow> int \<Rightarrow> string \<Rightarrow> 's \<Rightarrow> (string, 's) received option" where
  "recv_chunk_rest st buffer_size left body s =
     (if left > 0 then
        (case st_read st (if left > int buffer_size then buffer_size else nat left) s of
           ((n, bs), s1) \<Rightarrow>
             if n < 0 then Some (Failed (st_close st s1))
             else recv_chunk_rest st buffer_size (left - n) (body @ map byte_char bs) s1)
      else if length body < 2 then Some Abort
      else Some (Got (take (length body - 2) body) s))"

partial_function (option) recv_chunks ::
    "'cs response_ragel \<Rightarrow> (string \<Rightarrow> int) \<Rightarrow> ('s, 'x) Stream_scheme \<Rightarrow> nat \<Rightarrow> 'cs HTTPResponseParser \<Rightarrow> string \<Rightarrow> string \<Rightarrow> 's \<Rightarrow>
     ('cs HTTPResponseParser \<times> string, 's) received option" where
  "recv_chunks rr atoi st buffer_size p body buf s =
     (case recv_chunk_head rr atoi st buffer_size True p buf s of
        None \<Rightarrow> None
      | Some Abort \<Rightarrow> Some Abort
      | Some (Failed s1) \<Rightarrow> Some (Failed s1)
      | Some (Got (p1, buf1) s1) \<Rightarrow>
          let content_len = hr_content_len (rp_parser p1); done = hr_chunks_done (rp_parser p1) in
          if content_len + 2 \<le> int (length buf1) then
            if content_len < 0 then Some Abort else
            let body1 = body @ take (nat content_len) buf1; buf2 = drop (nat content_len + 2) buf1 in
            if done then Some (Got (p1, body1) s1) else recv_chunks rr atoi st buffer_size p1 body1 buf2 s1
          else
            (case recv_chunk_rest st buffer_size (content_len - int (length buf1) + 2) (body @ buf1) s1 of
               None \<Rightarrow> None
             | Some Abort \<Rightarrow> Some Abort
             | Some (Failed s2) \<Rightarrow> Some (Failed s2)
             | Some (Got body1 s2) \<Rightarrow>
                 if done then Some (Got (p1, body1) s2) else recv_chunks rr atoi st buffer_size p1 body1 [] s2))"

definition recv_length_body ::
    "(string \<Rightarrow> nat option) \<Rightarrow> ('s, 'x) Stream_scheme \<Rightarrow> HTTPResponse \<Rightarrow> string \<Rightarrow> 's \<Rightarrow> (string, 's) received" where
  "recv_length_body cast st r buf s =
     (let len = to_int64 (int (response_content_length cast r)) in
      if len > 0 then
        let left = len - int (length buf) in
        if left > 0 then
          (case read_fixed_size st (nat left) s of
             ((n, bs), s1) \<Rightarrow> if n \<le> 0 then Failed (st_close st s1) else Got (buf @ map byte_char bs) s1)
        else Got (take (nat len) buf) s
      else Got [] s)"

definition decode_body :: "(string \<Rightarrow> string) \<Rightarrow> (string \<Rightarrow> string) \<Rightarrow> string \<Rightarrow> HTTPResponse \<Rightarrow> HTTPResponse" where
  "decode_body gunzip inflate body r =
     (if body = [] then r
      else
        let encoding = HTTPResponse_get_header ''content-encoding'' [] r in
        r\<lparr>m_body_rsp := (if strcasecmp encoding ''gzip'' = 0 then gunzip body
                          else if strcasecmp encoding ''deflate'' = 0 then inflate body else body)\<rparr>)"

definition recv_response ::
    "'cs response_ragel \<Rightarrow> (string \<Rightarrow> int) \<Rightarrow> (string \<Rightarrow> nat option) \<Rightarrow> (string \<Rightarrow> string) \<Rightarrow> (string \<Rightarrow> string) \<Rightarrow> nat \<Rightarrow>
     ('s, 'x) Stream_scheme \<Rightarrow> 's \<Rightarrow> (HTTPResponse, 's) received option" where
  "recv_response rr atoi cast gunzip inflate buffer_size st s =
     (case recv_response_head rr atoi st buffer_size (HTTPResponseParser_new rr) [] s of
        None \<Rightarrow> None
      | Some Abort \<Rightarrow> Some Abort
      | Some (Failed s1) \<Rightarrow> Some (Failed s1)
      | Some (Got (p, buf) s1) \<Rightarrow>
          if hr_chunked (rp_parser p) then
            (case recv_chunks rr atoi st buffer_size p [] buf s1 of
               None \<Rightarrow> None
             | Some Abort \<Rightarrow> Some Abort
             | Some (Failed s2) \<Rightarrow> Some (Failed s2)
             | Some (Got (p1, body) s2) \<Rightarrow> Some (Got (decode_body gunzip inflate body (rp_data p1)) s2))
          else
            (case recv_length_body cast st (rp_data p) buf s1 of
               Abort \<Rightarrow> Some Abort
             | Failed s2 \<Rightarrow> Some (Failed s2)
             | Got body s2 \<Rightarrow> Some (Got (decode_body gunzip inflate body (rp_data p)) s2)))"

section \<open>URIs\<close>

record URI =
  m_scheme :: string
  m_user :: string
  u_host :: string
  u_port :: int
  u_path :: string
  u_query :: string
  u_fragment :: string

definition URI_get_path :: "URI \<Rightarrow> string" where
  "URI_get_path u = (if u_path u = [] then ''/'' else u_path u)"

definition URI_get_port :: "URI \<Rightarrow> int" where
  "URI_get_port u =
     (if u_port u \<noteq> 0 then u_port u
      else if m_scheme u = ''wss'' \<or> m_scheme u = ''https'' then 443
      else if m_scheme u = ''ws'' \<or> m_scheme u = ''http'' then 80
      else u_port u)"

definition is_default_port :: "URI \<Rightarrow> bool" where
  "is_default_port u =
     (if u_port u = 0 then True
      else if m_scheme u = ''wss'' \<or> m_scheme u = ''https'' then u_port u = 80
      else if m_scheme u = ''ws'' \<or> m_scheme u = ''http'' then u_port u = 443
      else False)"

definition URI_dump :: "(int \<Rightarrow> string) \<Rightarrow> URI \<Rightarrow> string" where
  "URI_dump to_string u =
     m_scheme u @ ''://'' @ m_user u @ (if m_user u = [] then [] else ''@'') @ u_host u @
     (if is_default_port u then [] else '':'' @ to_string (u_port u)) @
     u_path u @ (if u_query u = [] then [] else ''?'') @ u_query u @ (if u_fragment u = [] then [] else ''#'') @ u_fragment u"

text \<open>The target of a request made of a URI, as the pool builds it.\<close>

definition URI_target :: "URI \<Rightarrow> string" where
  "URI_target u =
     URI_get_path u @ (if u_query u = [] then [] else ''?'') @ u_query u @ (if u_fragment u = [] then [] else ''#'') @ u_fragment u"

fun address_set_port :: "endian \<Rightarrow> u16 \<Rightarrow> address \<Rightarrow> address" where
  "address_set_port host v (IPv4Address a) = IPv4Address (IPv4_set_port host v a)"
| "address_set_port host v (IPv6Address a) = IPv6Address (IPv6_set_port host v a)"
| "address_set_port host v (UnknownAddress f) = UnknownAddress f"

text \<open>The bytes of an address, which \<^verbatim>\<open>connect\<close> passes to the kernel.\<close>

fun sockaddr_of :: "endian \<Rightarrow> address \<Rightarrow> sock_address" where
  "sockaddr_of host (IPv4Address a) =
     \<lparr>a_family = uint (sin_family a), a_data = mem_bytes host (sin_port a) @ mem_bytes host (sin_addr a) @ replicate 8 0, a_len = 16\<rparr>"
| "sockaddr_of host (IPv6Address a) =
     \<lparr>a_family = uint (sin6_family a), a_data = mem_bytes host (sin6_port a) @ replicate 4 0 @ s6_addr a @ replicate 4 0, a_len = 28\<rparr>"
| "sockaddr_of host (UnknownAddress f) = unknown_address (uint f)"

definition lookup_port ::
    "endian \<Rightarrow> (string \<Rightarrow> string option \<Rightarrow> sockaddr option list option) \<Rightarrow> string \<Rightarrow> int \<Rightarrow> address option" where
  "lookup_port host getaddrinfo name port =
     map_option (address_set_port host (word_of_int port)) (IPAddress_LookupAny getaddrinfo name)"

definition create_address :: "endian \<Rightarrow> (string \<Rightarrow> string option \<Rightarrow> sockaddr option list option) \<Rightarrow> URI \<Rightarrow> address option" where
  "create_address host getaddrinfo u = lookup_port host getaddrinfo (u_host u) (URI_get_port u)"

section \<open>Requests\<close>

datatype ErrorCode =
    OK | INVALID_URL | INVALID_HOST | CONNECT_FAIL | SEND_CLOSE_BY_PEER | SEND_SOCKET_ERROR | TIMEOUT
  | CREATE_SOCKET_ERROR | POOL_GET_CONNECTION_FAIL | POOL_INVALID_CONNECTION | INVALID_PROTOCOLS

text \<open>The description, a text for people, is left out.\<close>

record HTTPResult =
  res_rsp :: "HTTPResponse option"
  res_code :: ErrorCode

abbreviation failure :: "ErrorCode \<Rightarrow> HTTPResult" where
  "failure c \<equiv> \<lparr>res_rsp = None, res_code = c\<rparr>"

text \<open>
  What the client needs of the system and of the libraries. OpenSSL on a connected descriptor is
  \<open>ssl_connect\<close>, \<open>ssl_read\<close> and \<open>ssl_write\<close>.
\<close>

record ('cs, 'w) client_env =
  ce_sys :: "'w socket_sys"
  ssl_connect :: "int \<Rightarrow> 'w \<Rightarrow> int \<times> 'w"
  ssl_read :: "int \<Rightarrow> nat \<Rightarrow> 'w \<Rightarrow> (int \<times> byte list) \<times> 'w"
  ssl_write :: "int \<Rightarrow> byte list \<Rightarrow> 'w \<Rightarrow> int \<times> 'w"
  ce_getaddrinfo :: "string \<Rightarrow> string option \<Rightarrow> sockaddr option list option"
  ce_machine :: "'cs response_ragel"
  ce_atoi :: "string \<Rightarrow> int"
  ce_cast :: "string \<Rightarrow> nat option"
  ce_gunzip :: "string \<Rightarrow> string"
  ce_inflate :: "string \<Rightarrow> string"
  ce_buffer_size :: nat

definition send_request :: "('s, 'x) Stream_scheme \<Rightarrow> HTTPRequest \<Rightarrow> 's \<Rightarrow> (int \<times> 's) option" where
  "send_request st req s = map_option (\<lambda>data. write_fixed_size st (map char_byte data) s) (HTTPRequest_dump req)"

text \<open>
  The loop over the headers of the caller, in the order of the map. With \<open>keep\<close> (the pool) another
  value than \<^verbatim>\<open>keep-alive\<close> sets the flag again.
\<close>

definition add_header :: "bool \<Rightarrow> string \<times> string \<Rightarrow> bool \<times> HTTPRequest \<Rightarrow> bool \<times> HTTPRequest" where
  "add_header keep = (\<lambda>(key, val) (has_host, req).
     if strcasecmp key ''connection'' = 0 then
       (has_host, if strcasecmp val ''keep-alive'' = 0 then req\<lparr>m_close := False\<rparr> else if keep then req\<lparr>m_close := True\<rparr> else req)
     else
       (if \<not> has_host \<and> strcasecmp key ''host'' = 0 then val \<noteq> [] else has_host, HTTPRequest_set_header key val req))"

definition finish_request :: "string \<Rightarrow> string \<Rightarrow> bool \<times> HTTPRequest \<Rightarrow> HTTPRequest" where
  "finish_request host body = (\<lambda>(has_host, req).
     (if has_host then req else HTTPRequest_set_header ''Host'' host req)\<lparr>m_body := body\<rparr>)"

definition build_request :: "HTTPMethod \<Rightarrow> URI \<Rightarrow> (string \<times> string) list \<Rightarrow> string \<Rightarrow> HTTPRequest" where
  "build_request method uri headers body =
     (let req = (HTTPRequest_new 0x11 True)\<lparr>m_method := method, m_path := URI_get_path uri, m_query := u_query uri,
        m_close := True, m_fragment := u_fragment uri\<rparr>
      in finish_request (u_host uri) body (fold (add_header False) headers (False, req)))"

text \<open>Connecting the socket, of the class \<^verbatim>\<open>SSLSocket\<close> for HTTPS; the stream on it.\<close>

definition connect_socket ::
    "('cs, 'k os_world) client_env \<Rightarrow> bool \<Rightarrow> sock_address \<Rightarrow> Socket \<Rightarrow> 'k os_world \<Rightarrow> (bool \<times> Socket \<times> 'k os_world) option" where
  "connect_socket ce is_ssl addr s w =
     (case Socket_connect (ce_sys ce) addr (-1) s w of
        None \<Rightarrow> None
      | Some (v, s1, w1) \<Rightarrow>
          if v \<and> is_ssl then (case ssl_connect ce (m_sock s1) w1 of (rt, w2) \<Rightarrow> Some (rt = 1, s1, w2)) else Some (v, s1, w1))"

definition conn_sys :: "('cs, 'w) client_env \<Rightarrow> bool \<Rightarrow> 'w sys" where
  "conn_sys ce is_ssl =
     (if is_ssl then (so_sys (ce_sys ce))\<lparr>sys_recv := ssl_read ce, sys_send := ssl_write ce\<rparr> else so_sys (ce_sys ce))"

text \<open>Sending a request over a connection and waiting for the response.\<close>

definition converse ::
    "('cs, 'w) client_env \<Rightarrow> bool \<Rightarrow> HTTPRequest \<Rightarrow> SocketStream \<times> 'w \<Rightarrow> (HTTPResult, SocketStream \<times> 'w) received option" where
  "converse ce is_ssl req st =
     (let ops = SocketStream_ops (conn_sys ce is_ssl) in
      case send_request ops req st of
        None \<Rightarrow> Some Abort
      | Some (rt, st1) \<Rightarrow>
          if rt = 0 then Some (Got (failure SEND_CLOSE_BY_PEER) st1)
          else if rt < 0 then Some (Got (failure SEND_SOCKET_ERROR) st1)
          else
            (case recv_response (ce_machine ce) (ce_atoi ce) (ce_cast ce) (ce_gunzip ce) (ce_inflate ce) (ce_buffer_size ce) ops st1 of
               None \<Rightarrow> None
             | Some Abort \<Rightarrow> Some Abort
             | Some (Failed st2) \<Rightarrow> Some (Got (failure TIMEOUT) st2)
             | Some (Got rsp st2) \<Rightarrow> Some (Got \<lparr>res_rsp = Some rsp, res_code = OK\<rparr> st2)))"

text \<open>
  \<^verbatim>\<open>HTTPConnection::Request\<close> for a request that has been built. Creating a socket object never gives a
  null pointer. The connection is destroyed at the end, also after a failure.
\<close>

definition Request :: "('cs, 'k os_world) client_env \<Rightarrow> HTTPRequest \<Rightarrow> URI \<Rightarrow> u64 \<Rightarrow> 'k os_world \<Rightarrow> (HTTPResult, 'k os_world) received option" where
  "Request ce req uri timeout w =
     (let is_ssl = (m_scheme uri = ''https'') in
      case create_address (so_host (ce_sys ce)) (ce_getaddrinfo ce) uri of
        None \<Rightarrow> Some (Got (failure INVALID_HOST) w)
      | Some a \<Rightarrow>
          let addr = sockaddr_of (so_host (ce_sys ce)) a in
          (case connect_socket ce is_ssl addr (CreateTCP addr) w of
             None \<Rightarrow> Some Abort
           | Some (False, s1, w1) \<Rightarrow> Some (Got (failure CONNECT_FAIL) (snd (snd (Socket_close (so_sys (ce_sys ce)) s1 w1))))
           | Some (True, s1, w1) \<Rightarrow>
               (case set_recv_timeout (to_int64 (uint timeout)) s1 w1 of
                  None \<Rightarrow> Some Abort
                | Some w2 \<Rightarrow>
                    (case converse ce is_ssl req (\<lparr>m_socket = Some s1, m_owner = True\<rparr>, w2) of
                       None \<Rightarrow> None
                     | Some Abort \<Rightarrow> Some Abort
                     | Some (Failed st) \<Rightarrow> Some Abort
                     | Some (Got r st) \<Rightarrow> Some (Got r (snd (SocketStream_destroy (conn_sys ce is_ssl) st)))))))"

definition Request_uri ::
    "('cs, 'k os_world) client_env \<Rightarrow> HTTPMethod \<Rightarrow> URI \<Rightarrow> u64 \<Rightarrow> (string \<times> string) list \<Rightarrow> string \<Rightarrow> 'k os_world \<Rightarrow> (HTTPResult, 'k os_world) received option" where
  "Request_uri ce method uri timeout headers body w = Request ce (build_request method uri headers body) uri timeout w"

definition Request_url ::
    "('cs, 'k os_world) client_env \<Rightarrow> (string \<Rightarrow> URI option) \<Rightarrow> HTTPMethod \<Rightarrow> string \<Rightarrow> u64 \<Rightarrow> (string \<times> string) list \<Rightarrow> string \<Rightarrow> 'k os_world \<Rightarrow>
     (HTTPResult, 'k os_world) received option" where
  "Request_url ce create method url timeout headers body w =
     (case create url of
        None \<Rightarrow> Some (Got (failure INVALID_URL) w)
      | Some uri \<Rightarrow> Request_uri ce method uri timeout headers body w)"

definition Get_uri :: "('cs, 'k os_world) client_env \<Rightarrow> URI \<Rightarrow> u64 \<Rightarrow> (string \<times> string) list \<Rightarrow> string \<Rightarrow> 'k os_world \<Rightarrow> (HTTPResult, 'k os_world) received option" where
  "Get_uri ce uri timeout headers body w = Request_uri ce GET uri timeout headers body w"

definition Get_url :: "('cs, 'k os_world) client_env \<Rightarrow> (string \<Rightarrow> URI option) \<Rightarrow> string \<Rightarrow> u64 \<Rightarrow> (string \<times> string) list \<Rightarrow> string \<Rightarrow> 'k os_world \<Rightarrow> (HTTPResult, 'k os_world) received option" where
  "Get_url ce create url timeout headers body w =
     (case create url of None \<Rightarrow> Some (Got (failure INVALID_URL) w) | Some uri \<Rightarrow> Get_uri ce uri timeout headers body w)"

definition Post_uri :: "('cs, 'k os_world) client_env \<Rightarrow> URI \<Rightarrow> u64 \<Rightarrow> (string \<times> string) list \<Rightarrow> string \<Rightarrow> 'k os_world \<Rightarrow> (HTTPResult, 'k os_world) received option" where
  "Post_uri ce uri timeout headers body w = Request_uri ce POST uri timeout headers body w"

definition Post_url :: "('cs, 'k os_world) client_env \<Rightarrow> (string \<Rightarrow> URI option) \<Rightarrow> string \<Rightarrow> u64 \<Rightarrow> (string \<times> string) list \<Rightarrow> string \<Rightarrow> 'k os_world \<Rightarrow> (HTTPResult, 'k os_world) received option" where
  "Post_url ce create url timeout headers body w =
     (case create url of None \<Rightarrow> Some (Got (failure INVALID_URL) w) | Some uri \<Rightarrow> Request_uri ce POST uri timeout headers body w)"

section \<open>What a transfer keeps\<close>

text \<open>
  A property of the state that reading, writing and closing keep is kept by every operation of a
  client of the stream.
\<close>

locale stream_invariant =
  fixes st :: "'s Stream" and good :: "'s \<Rightarrow> bool"
  assumes read_keeps: "good s \<Longrightarrow> good (snd (st_read st n s))"
    and write_keeps: "good s \<Longrightarrow> good (snd (st_write st bs s))"
    and close_keeps: "good s \<Longrightarrow> good (st_close st s)"

fun left_good :: "('s \<Rightarrow> bool) \<Rightarrow> ('a, 's) received \<Rightarrow> bool" where
  "left_good good Abort = True"
| "left_good good (Failed s) = good s"
| "left_good good (Got x s) = good s"

lemma left_good_cases: "left_good good r \<longleftrightarrow> (\<forall>s. r = Failed s \<longrightarrow> good s) \<and> (\<forall>x s. r = Got x s \<longrightarrow> good s)"
  by (cases r) auto

context stream_invariant
begin

lemma read_fixed_loop_keeps: "good s \<Longrightarrow> good (snd (read_fixed_loop (st_read st) len left got s))"
proof (induction "st_read st" len left got s rule: read_fixed_loop.induct)
  case (1 len left got s)
  then show ?case using read_keeps [of s "nat left"]
    by (subst read_fixed_loop.simps) (auto split: prod.splits)
qed

lemma read_fixed_keeps: "good s \<Longrightarrow> good (snd (read_fixed_size st len s))"
  by (simp add: read_fixed_size_def read_fixed_loop_keeps)

lemma write_fixed_loop_keeps: "good s \<Longrightarrow> good (snd (write_fixed_loop (st_write st) buffer off left s))"
proof (induction "st_write st" buffer off left s rule: write_fixed_loop.induct)
  case (1 buffer off left s)
  then show ?case using write_keeps [of s "take (nat left) (drop off buffer)"]
    by (subst write_fixed_loop.simps) (auto split: prod.splits)
qed

lemma write_fixed_keeps: "good s \<Longrightarrow> good (snd (write_fixed_size st buffer s))"
  by (simp add: write_fixed_size_def write_fixed_loop_keeps)

lemma read_step: "good s \<Longrightarrow> st_read st n s = (r, s1) \<Longrightarrow> good s1"
  using read_keeps [of s n] by simp

end

lemma recv_response_head_keeps:
  assumes "recv_response_head rr atoi st buffer_size p buf s = Some r"
  shows "stream_invariant st good \<Longrightarrow> good s \<Longrightarrow> left_good good r"
  using assms
proof (induction rule: recv_response_head.raw_induct [rotated, consumes 1, case_names step])
  case (step loop rr atoi st buffer_size p buf s r)
  obtain n bs s1 where rd: "st_read st (buffer_size - length buf) s = ((n, bs), s1)" by (metis prod.exhaust)
  have g: "good s1" by (rule stream_invariant.read_step [OF step.prems(1,2) rd])
  then have c: "good (st_close st s1)" by (rule stream_invariant.close_keeps [OF step.prems(1)])
  show ?case using step(1) [OF _ step.prems(1) g] step(2) g c rd
    by (auto simp: Let_def split: if_splits option.splits)
qed

lemma recv_chunk_head_keeps:
  assumes "recv_chunk_head rr atoi st buffer_size begin p buf s = Some r"
  shows "stream_invariant st good \<Longrightarrow> good s \<Longrightarrow> left_good good r"
  using assms
proof (induction rule: recv_chunk_head.raw_induct [rotated, consumes 1, case_names step])
  case (step loop rr atoi st buffer_size first p buf s r)
  obtain n bs s1 where rd: "(if \<not> first \<or> buf = [] then st_read st (buffer_size - length buf) s else ((1, []), s)) = ((n, bs), s1)"
    by (metis prod.exhaust)
  have g: "good s1"
    using stream_invariant.read_step [OF step.prems(1,2), of "buffer_size - length buf" "(n, bs)" s1] rd step.prems(2)
    by (auto split: if_splits)
  then have c: "good (st_close st s1)" by (rule stream_invariant.close_keeps [OF step.prems(1)])
  show ?case using step(1) [OF _ step.prems(1) g] step(2) [unfolded rd] g c
    by (auto simp: Let_def split: option.splits if_splits)
qed

lemma recv_chunk_rest_keeps:
  assumes "recv_chunk_rest st buffer_size left body s = Some r"
  shows "stream_invariant st good \<Longrightarrow> good s \<Longrightarrow> left_good good r"
  using assms
proof (induction rule: recv_chunk_rest.raw_induct [rotated, consumes 1, case_names step])
  case (step loop st buffer_size left body s r)
  obtain n bs s1 where rd: "st_read st (if left > int buffer_size then buffer_size else nat left) s = ((n, bs), s1)" by (metis prod.exhaust)
  have g: "good s1" by (rule stream_invariant.read_step [OF step.prems(1,2) rd])
  then have c: "good (st_close st s1)" by (rule stream_invariant.close_keeps [OF step.prems(1)])
  show ?case
  proof (cases "left > 0")
    case True
    then show ?thesis using step(1) [OF _ step.prems(1) g] step(2) c by (auto simp: rd split: if_splits)
  next
    case False
    then show ?thesis using step.prems(2) step(2) by (auto split: if_splits)
  qed
qed

lemma recv_chunks_keeps:
  assumes "recv_chunks rr atoi st buffer_size p body buf s = Some r"
  shows "stream_invariant st good \<Longrightarrow> good s \<Longrightarrow> left_good good r"
  using assms
proof (induction rule: recv_chunks.raw_induct [rotated, consumes 1, case_names step])
  case (step loop rr atoi st buffer_size p body buf s r)
  obtain h where h: "recv_chunk_head rr atoi st buffer_size True p buf s = Some h"
    using step(2) by (auto split: option.splits)
  have gh: "left_good good h" by (rule recv_chunk_head_keeps [OF h step.prems(1,2)])
  show ?case
  proof (cases h)
    case (Got x s1)
    obtain p1 buf1 where x: "x = (p1, buf1)" by fastforce
    have g: "good s1" using gh Got by simp
    show ?thesis
    proof (cases "hr_content_len (rp_parser p1) + 2 \<le> int (length buf1)")
      case True
      then show ?thesis using step(1) [OF _ step.prems(1) g] step(2) h Got x g by (auto simp: Let_def split: if_splits)
    next
      case False
      then obtain c where c: "recv_chunk_rest st buffer_size (hr_content_len (rp_parser p1) - int (length buf1) + 2) (body @ buf1) s1 = Some c"
        using step(2) h Got x by (auto simp: Let_def split: option.splits)
      have "left_good good c" by (rule recv_chunk_rest_keeps [OF c step.prems(1) g])
      then show ?thesis using False c step(1) [OF _ step.prems(1)] step(2) h Got x
        by (cases c) (auto simp: Let_def split: if_splits)
    qed
  qed (use step(2) h gh in auto)
qed

lemma recv_length_body_keeps:
  assumes "stream_invariant st good" "good s"
  shows "left_good good (recv_length_body cast st r buf s)"
proof -
  obtain n bs s1 where rd: "read_fixed_size st (nat (to_int64 (int (response_content_length cast r)) - int (length buf))) s = ((n, bs), s1)"
    by (metis prod.exhaust)
  have g: "good s1" using stream_invariant.read_fixed_keeps [OF assms] rd by (metis snd_conv)
  then have "good (st_close st s1)" by (rule stream_invariant.close_keeps [OF assms(1)])
  then show ?thesis using assms(2) g rd by (simp add: recv_length_body_def Let_def)
qed

lemma recv_response_keeps:
  assumes "recv_response rr atoi cast gunzip inflate buffer_size st s = Some r" "stream_invariant st good" "good s"
  shows "left_good good r"
proof -
  obtain h where h: "recv_response_head rr atoi st buffer_size (HTTPResponseParser_new rr) [] s = Some h"
    using assms(1) by (auto simp: recv_response_def split: option.splits)
  have gh: "left_good good h" by (rule recv_response_head_keeps [OF h assms(2,3)])
  show ?thesis
  proof (cases h)
    case (Got x s1)
    obtain p buf where x: "x = (p, buf)" by fastforce
    have g: "good s1" using gh Got by simp
    show ?thesis
    proof (cases "hr_chunked (rp_parser p)")
      case True
      then obtain c where c: "recv_chunks rr atoi st buffer_size p [] buf s1 = Some c"
        using assms(1) h Got x by (auto simp: recv_response_def split: option.splits)
      have "left_good good c" by (rule recv_chunks_keeps [OF c assms(2) g])
      then show ?thesis using True c assms(1) h Got x by (cases c) (auto simp: recv_response_def)
    next
      case False
      then show ?thesis using recv_length_body_keeps [OF assms(2) g, of cast "rp_data p" buf] assms(1) h Got x
        by (cases "recv_length_body cast st (rp_data p) buf s1") (auto simp: recv_response_def)
    qed
  qed (use assms(1) h gh in \<open>auto simp: recv_response_def\<close>)
qed

section \<open>Descriptors of the client\<close>

text \<open>The stream owns its socket, and the socket its descriptor.\<close>

definition ss_owns :: "('k os_world \<Rightarrow> int set) \<Rightarrow> int set \<Rightarrow> SocketStream \<times> 'k os_world \<Rightarrow> bool" where
  "ss_owns opened others = (\<lambda>(ss, w). m_owner ss \<and>
     (case m_socket ss of None \<Rightarrow> opened w = others | Some s \<Rightarrow> owns opened others (s, w)))"

text \<open>Transfers, with OpenSSL or without, open and close nothing.\<close>

locale http_client = descriptors "ce_sys ce" opened
  for ce :: "('cs, 'k os_world) client_env" and opened +
  assumes recv_keeps: "opened (snd (sys_recv (so_sys (ce_sys ce)) fd n w)) = opened w"
    and send_keeps: "opened (snd (sys_send (so_sys (ce_sys ce)) fd bs w)) = opened w"
    and ssl_connect_keeps: "opened (snd (ssl_connect ce fd w)) = opened w"
    and ssl_read_keeps: "opened (snd (ssl_read ce fd n w)) = opened w"
    and ssl_write_keeps: "opened (snd (ssl_write ce fd bs w)) = opened w"

context http_client
begin

lemma conn_close: "Socket_close (conn_sys ce b) s w = Socket_close (so_sys (ce_sys ce)) s w"
  by (simp add: Socket_close_def conn_sys_def Let_def)

lemma owns_world: "opened w' = opened w \<Longrightarrow> owns opened others (s, w') = owns opened others (s, w)"
  by (simp add: owns_def)

lemma conn_recv_keeps: "opened (snd (sys_recv (conn_sys ce b) fd n w)) = opened w"
  by (simp add: conn_sys_def recv_keeps ssl_read_keeps)

lemma conn_send_keeps: "opened (snd (sys_send (conn_sys ce b) fd bs w)) = opened w"
  by (simp add: conn_sys_def send_keeps ssl_write_keeps)

lemma ss_owns_world: "opened w' = opened w \<Longrightarrow> ss_owns opened others (ss, w') = ss_owns opened others (ss, w)"
  by (simp add: ss_owns_def owns_def split: option.split)

lemma ss_owns_close: "ss_owns opened others st \<Longrightarrow> ss_owns opened others (SocketStream_close (conn_sys ce b) st)"
proof -
  assume g: "ss_owns opened others st"
  obtain ss w where st: "st = (ss, w)" by fastforce
  show ?thesis
  proof (cases "m_socket ss")
    case (Some s)
    then have "owns opened others (snd (Socket_close (so_sys (ce_sys ce)) s w))" using owns_close g st by (simp add: ss_owns_def)
    then show ?thesis using g Some by (auto simp: st ss_owns_def SocketStream_close_def conn_close split: prod.split)
  qed (use g in \<open>simp add: st ss_owns_def SocketStream_close_def\<close>)
qed

lemma stream_keeps: "stream_invariant (SocketStream_ops (conn_sys ce b)) (ss_owns opened others)"
proof
  fix st n assume g: "ss_owns opened others st"
  obtain ss w where st: "st = (ss, w)" by fastforce
  show "ss_owns opened others (snd (st_read (SocketStream_ops (conn_sys ce b)) n st))"
    using g ss_owns_world [OF conn_recv_keeps [of b "m_sock (the (m_socket ss))" n w], of others ss]
    by (auto simp: st SocketStream_ops_def SocketStream_read_def Socket_recv_def case_prod_beta)
next
  fix st bs assume g: "ss_owns opened others st"
  obtain ss w where st: "st = (ss, w)" by fastforce
  show "ss_owns opened others (snd (st_write (SocketStream_ops (conn_sys ce b)) bs st))"
    using g ss_owns_world [OF conn_send_keeps [of b "m_sock (the (m_socket ss))" bs w], of others ss]
    by (auto simp: st SocketStream_ops_def SocketStream_write_def Socket_send_def case_prod_beta)
next
  fix st assume "ss_owns opened others st"
  then show "ss_owns opened others (st_close (SocketStream_ops (conn_sys ce b)) st)"
    by (simp add: SocketStream_ops_def ss_owns_close)
qed

lemma close_releases: "owns opened others (s, w) \<Longrightarrow> opened (snd (snd (Socket_close (so_sys (ce_sys ce)) s w))) = others"
  using owns_close [of others s w] by (auto simp: owns_def Socket_close_def is_valid_def Let_def split: if_splits)

lemma destroy_releases: "ss_owns opened others st \<Longrightarrow> opened (snd (SocketStream_destroy (conn_sys ce b) st)) = others"
proof -
  assume g: "ss_owns opened others st"
  obtain ss w where st: "st = (ss, w)" by fastforce
  show ?thesis
  proof (cases "m_socket ss")
    case (Some s)
    then have "opened (snd (snd (Socket_close (so_sys (ce_sys ce)) s w))) = others" using close_releases g st by (simp add: ss_owns_def)
    then show ?thesis using g Some
      by (auto simp: st ss_owns_def SocketStream_destroy_def SocketStream_close_def conn_close split: prod.split)
  qed (use g in \<open>simp add: st ss_owns_def SocketStream_destroy_def\<close>)
qed

lemma converse_keeps:
  assumes "converse ce b req st = Some r" "ss_owns opened others st"
  shows "left_good (ss_owns opened others) r"
proof (cases "HTTPRequest_dump req")
  case None
  then show ?thesis using assms by (auto simp: converse_def send_request_def Let_def)
next
  case (Some msg)
  let ?ops = "SocketStream_ops (conn_sys ce b)"
  obtain rt st1 where wr: "write_fixed_size ?ops (map char_byte msg) st = (rt, st1)" by (metis prod.exhaust)
  have g: "ss_owns opened others st1"
    using stream_invariant.write_fixed_keeps [OF stream_keeps [of b others] assms(2), of "map char_byte msg"] wr by simp
  show ?thesis
  proof (cases "rt \<le> 0")
    case True
    then show ?thesis using assms(1) Some wr g by (auto simp: converse_def send_request_def Let_def split: if_splits)
  next
    case False
    then obtain q where q: "recv_response (ce_machine ce) (ce_atoi ce) (ce_cast ce) (ce_gunzip ce) (ce_inflate ce) (ce_buffer_size ce) ?ops st1 = Some q"
      using assms(1) Some wr by (auto simp: converse_def send_request_def Let_def split: option.splits)
    have "left_good (ss_owns opened others) q" by (rule recv_response_keeps [OF q stream_keeps g])
    then show ?thesis using False assms(1) Some wr q by (cases q) (auto simp: converse_def send_request_def Let_def)
  qed
qed

text \<open>Connecting a new socket: its descriptor is owned, and it is connected when the result is true.\<close>

lemma connect_socket_owns:
  "\<exists>v s1 w1. connect_socket ce b addr (CreateTCP addr) w = Some (v, s1, w1) \<and> owns opened (opened w) (s1, w1) \<and> (v \<longrightarrow> m_is_connected s1)"
proof -
  have "owns opened (opened w) (CreateTCP addr, w)" unfolding CreateTCP_def by (rule owns_new)
  from owns_connect [OF this, of addr "-1"] obtain v s1 w1 where
    c: "Socket_connect (ce_sys ce) addr (-1) (CreateTCP addr) w = Some (v, s1, w1)" and o: "owns opened (opened w) (s1, w1)" by auto
  have v: "v \<longrightarrow> m_is_connected s1"
    using c by (auto simp: Socket_connect_def connect_via_def split: if_splits prod.splits)
  obtain rt w2 where s: "ssl_connect ce (m_sock s1) w1 = (rt, w2)" by fastforce
  have "owns opened (opened w) (s1, w2)" using ssl_connect_keeps [of "m_sock s1" w1] owns_world [of w2 w1] s o by simp
  then show ?thesis using c o v s by (auto simp: connect_socket_def)
qed

lemma timeout_set:
  assumes "owns opened others (s, w)" "m_is_connected s"
  shows "\<exists>w2. set_recv_timeout t s w = Some w2 \<and> owns opened others (s, w2)"
  using owns_run_op [OF assms(1), of "SetRecvTimeout t"] assms by (auto simp: owns_def)

lemma Request_keeps:
  assumes "Request ce req uri timeout w = Some (Got res w')"
  shows "opened w' = opened w"
proof (cases "create_address (so_host (ce_sys ce)) (ce_getaddrinfo ce) uri")
  case None
  then show ?thesis using assms by (simp add: Request_def)
next
  case (Some a)
  let ?b = "m_scheme uri = ''https''" and ?addr = "sockaddr_of (so_host (ce_sys ce)) a"
  obtain v s1 w1 where c: "connect_socket ce ?b ?addr (CreateTCP ?addr) w = Some (v, s1, w1)" "owns opened (opened w) (s1, w1)"
    "v \<longrightarrow> m_is_connected s1" using connect_socket_owns by blast
  show ?thesis
  proof (cases v)
    case False
    then show ?thesis using assms Some c close_releases by (simp add: Request_def) blast
  next
    case True
    then obtain w2 where w2: "set_recv_timeout (to_int64 (uint timeout)) s1 w1 = Some w2" "owns opened (opened w) (s1, w2)"
      using timeout_set c by blast
    then have g: "ss_owns opened (opened w) (\<lparr>m_socket = Some s1, m_owner = True\<rparr>, w2)" by (simp add: ss_owns_def)
    obtain q where q: "converse ce ?b req (\<lparr>m_socket = Some s1, m_owner = True\<rparr>, w2) = Some q"
      using assms Some c True w2 by (auto simp: Request_def Let_def split: option.splits)
    then show ?thesis using converse_keeps [OF q g] assms Some c True w2 destroy_releases
      by (cases q) (auto simp: Request_def Let_def)
  qed
qed

end


section \<open>Chunks\<close>

text \<open>
  \<open>parses_chunks rr enc\<close>: from the start, the machine consumes the head \<open>enc n\<close> of a chunk of \<open>n\<close> bytes, is
  final then and has stored \<open>n\<close>; the callbacks it calls are those that do nothing.
\<close>

definition quiet_event :: "response_event \<Rightarrow> bool" where
  "quiet_event e = (case e of ChunkSize _ _ \<Rightarrow> True | LastChunk _ _ \<Rightarrow> True | ResponseDone _ _ \<Rightarrow> True | _ \<Rightarrow> False)"

definition parses_chunks :: "'cs response_ragel \<Rightarrow> (nat \<Rightarrow> string) \<Rightarrow> bool" where
  "parses_chunks rr enc \<longleftrightarrow>
     (\<forall>n d. n < 2 ^ 31 \<longrightarrow> (case rr_exec rr (http_response_parser_init rr) (enc n @ d) of
        (p, k, evs) \<Rightarrow> k = length (enc n) \<and> rr_final rr (hr_cs p) \<and> \<not> rr_error rr (hr_cs p) \<and>
          hr_content_len p = int n \<and> (hr_chunks_done p \<longleftrightarrow> n = 0) \<and> list_all quiet_event evs \<and>
          hr_body_start p \<le> length (enc n) \<and> hr_mark p < length (enc n) \<and> hr_field_start p < length (enc n) \<and> hr_field_len p \<le> length (enc n)))"

definition chunk :: "(nat \<Rightarrow> string) \<Rightarrow> string \<Rightarrow> string" where
  "chunk enc c = enc (length c) @ c @ crlf"

definition chunked :: "(nat \<Rightarrow> string) \<Rightarrow> string list \<Rightarrow> string" where
  "chunked enc cs = concat (map (chunk enc) cs) @ chunk enc []"

lemma idle_events: "list_all quiet_event evs \<Longrightarrow> fold (on_response_event atoi) evs p = p"
proof (induction evs)
  case (Cons e evs)
  then show ?case by (cases e) (auto simp: quiet_event_def)
qed simp

lemma http_response_parser_init_nread [simp]: "hr_nread (http_response_parser_init rr) = 0"
  by (simp add: http_response_parser_init_def)

lemma chunk_head_parsed:
  assumes "parses_chunks rr enc" "n < 2 ^ 31"
  shows "\<exists>hp. HTTPResponseParser_execute rr atoi (enc n @ d) True p = Some (length (enc n), p\<lparr>rp_parser := hp\<rparr>) \<and>
     rr_final rr (hr_cs hp) \<and> \<not> rr_error rr (hr_cs hp) \<and> hr_content_len hp = int n \<and> (hr_chunks_done hp \<longleftrightarrow> n = 0)"
proof -
  obtain hp k evs where x: "rr_exec rr (http_response_parser_init rr) (enc n @ d) = (hp, k, evs)" by (metis prod.exhaust)
  note spec = assms(1) [unfolded parses_chunks_def, rule_format, OF assms(2), of d, unfolded x]
  then have k: "k = length (enc n)" "list_all quiet_event evs" "hr_body_start hp \<le> length (enc n)" "hr_mark hp < length (enc n)"
      "hr_field_start hp < length (enc n)" "hr_field_len hp \<le> length (enc n)" by auto
  let ?hp = "hp\<lparr>hr_nread := length (enc n)\<rparr>"
  have "HTTPResponseParser_execute rr atoi (enc n @ d) True p = Some (length (enc n), p\<lparr>rp_parser := ?hp\<rparr>)"
    using x k by (simp add: HTTPResponseParser_execute_def http_response_parser_execute_def idle_events Let_def)
  then show ?thesis using spec by (intro exI [of _ ?hp]) auto
qed

lemma head_not_empty: "parses_chunks rr enc \<Longrightarrow> n < 2 ^ 31 \<Longrightarrow> enc n \<noteq> []"
proof -
  assume a: "parses_chunks rr enc" "n < 2 ^ 31"
  obtain hp k evs where x: "rr_exec rr (http_response_parser_init rr) (enc n @ []) = (hp, k, evs)" by (metis prod.exhaust)
  have "hr_mark hp < length (enc n)" using a(1) [unfolded parses_chunks_def, rule_format, OF a(2), of "[]", unfolded x] by simp
  then show ?thesis by auto
qed

text \<open>A chunk whose head is at the beginning of the buffer, wherever the buffer ends behind it.\<close>

lemma recv_chunk_head_buffered:
  assumes "parses_chunks rr enc" "n < 2 ^ 31" "rp_error p = ParserOK" "length d < buffer_size"
  shows "\<exists>hp. recv_chunk_head rr atoi st buffer_size True p (enc n @ d) s = Some (Got (p\<lparr>rp_parser := hp\<rparr>, d) s) \<and>
     hr_content_len hp = int n \<and> (hr_chunks_done hp \<longleftrightarrow> n = 0)"
proof -
  obtain hp where "HTTPResponseParser_execute rr atoi (enc n @ d) True p = Some (length (enc n), p\<lparr>rp_parser := hp\<rparr>)"
     "rr_final rr (hr_cs hp)" "\<not> rr_error rr (hr_cs hp)" "hr_content_len hp = int n" "hr_chunks_done hp \<longleftrightarrow> n = 0"
    using chunk_head_parsed [OF assms(1,2), of atoi d p] by blast
  then show ?thesis using assms(3,4) head_not_empty [OF assms(1,2)]
    by (intro exI [of _ hp]) (subst recv_chunk_head.simps, simp add: HTTPResponseParser_has_error_def HTTPResponseParser_is_finished_def)
qed

text \<open>
  C25: A body in chunks that is in the buffer is decoded: receiving returns the chunks put together,
  reads nothing, and leaves the response as it was.
\<close>

theorem chunked_body:
  assumes "parses_chunks rr enc" "list_all (\<lambda>c. c \<noteq> [] \<and> length c < 2 ^ 31) cs" "rp_error p = ParserOK"
    "length (chunked enc cs @ rest) < buffer_size"
  shows "\<exists>p1. recv_chunks rr atoi st buffer_size p body (chunked enc cs @ rest) s = Some (Got (p1, body @ concat cs) s) \<and>
     rp_data p1 = rp_data p"
  using assms(2-4)
proof (induction cs arbitrary: p body)
  case Nil
  have "length (crlf @ rest) < buffer_size" using Nil.prems(3) by (simp add: chunked_def chunk_def)
  then obtain hp where "recv_chunk_head rr atoi st buffer_size True p (enc 0 @ crlf @ rest) s = Some (Got (p\<lparr>rp_parser := hp\<rparr>, crlf @ rest) s)"
      "hr_content_len hp = 0" "hr_chunks_done hp"
    using recv_chunk_head_buffered [OF assms(1) _ Nil.prems(2), of 0 "crlf @ rest" buffer_size atoi st s] by auto
  then show ?case by (subst recv_chunks.simps) (simp add: chunked_def chunk_def crlf_def)
next
  case (Cons c cs)
  let ?rest = "chunked enc cs @ rest"
  have c: "c \<noteq> []" "length c < 2 ^ 31" using Cons.prems(1) by auto
  have "length (c @ crlf @ ?rest) < buffer_size" using Cons.prems(3) by (simp add: chunked_def chunk_def)
  then obtain hp where h: "recv_chunk_head rr atoi st buffer_size True p (enc (length c) @ c @ crlf @ ?rest) s =
      Some (Got (p\<lparr>rp_parser := hp\<rparr>, c @ crlf @ ?rest) s)" "hr_content_len hp = int (length c)" "\<not> hr_chunks_done hp"
    using recv_chunk_head_buffered [OF assms(1) c(2) Cons.prems(2), of "c @ crlf @ ?rest" buffer_size atoi st s] c(1)
    by auto
  have e: "chunked enc (c # cs) @ rest = enc (length c) @ c @ crlf @ ?rest" by (simp add: chunked_def chunk_def)
  have "recv_chunks rr atoi st buffer_size p body (chunked enc (c # cs) @ rest) s =
      recv_chunks rr atoi st buffer_size (p\<lparr>rp_parser := hp\<rparr>) (body @ c) ?rest s"
    unfolding e using h by (subst recv_chunks.simps) (simp add: crlf_def nat_add_distrib)
  moreover have "length (chunked enc cs @ rest) < buffer_size" using Cons.prems(3) by (simp add: chunked_def)
  ultimately show ?case using Cons.IH [of "p\<lparr>rp_parser := hp\<rparr>" "body @ c"] Cons.prems(1,2) by simp
qed

text \<open>The rest of a chunk is waited for without end when the server has closed the connection.\<close>

lemma recv_chunk_rest_stuck:
  assumes "recv_chunk_rest st buffer_size left body s = Some r"
  shows "(\<forall>n. st_read st n s = ((0, []), s)) \<Longrightarrow> left \<le> 0"
  using assms
proof (induction rule: recv_chunk_rest.raw_induct [rotated, consumes 1, case_names step])
  case (step loop st buffer_size left body s r)
  then show ?case by (cases "left > 0") auto
qed

lemma recv_chunk_rest_hangs:
  "(\<forall>n. st_read st n s = ((0, []), s)) \<Longrightarrow> 0 < left \<Longrightarrow> recv_chunk_rest st buffer_size left body s = None"
  using recv_chunk_rest_stuck [of st buffer_size left body s] by (cases "recv_chunk_rest st buffer_size left body s") auto

text \<open>A machine for chunk heads: a line with the size in hexadecimal.\<close>

definition hex_chars :: string where
  "hex_chars = ''0123456789abcdef''"

definition hex_value :: "string \<Rightarrow> nat" where
  "hex_value l = foldl (\<lambda>v c. 16 * v + length (takeWhile (\<lambda>d. d \<noteq> c) hex_chars)) 0 l"

fun hex_line :: "nat \<Rightarrow> string" where
  "hex_line n = (if n < 16 then [hex_chars ! n] else hex_line (n div 16) @ [hex_chars ! (n mod 16)])"

declare hex_line.simps [simp del]

definition chunk_machine :: "string response_ragel" where
  "chunk_machine = \<lparr>rr_start = [],
     rr_exec = \<lambda>p t. (case read_line (hr_cs p @ t) of
         None \<Rightarrow> (p\<lparr>hr_cs := hr_cs p @ t\<rparr>, length t, [])
       | Some (l, rest) \<Rightarrow>
           (p\<lparr>hr_cs := l @ crlf, hr_content_len := int (hex_value l), hr_chunked := True, hr_chunks_done := hex_value l = 0\<rparr>,
            length t - length rest, [ChunkSize t (length l)])),
     rr_error = \<lambda>cs. False, rr_final = \<lambda>cs. read_line cs \<noteq> None\<rparr>"

lemma hex_chars_nth: "n < 16 \<Longrightarrow> length (takeWhile (\<lambda>d. d \<noteq> hex_chars ! n) hex_chars) = n \<and> clean [hex_chars ! n]"
proof -
  have "\<forall>n \<in> set [0..<16]. length (takeWhile (\<lambda>d. d \<noteq> hex_chars ! n) hex_chars) = n \<and> clean [hex_chars ! n]"
    by code_simp
  then show "n < 16 \<Longrightarrow> ?thesis" by simp
qed

lemma hex_line_value: "hex_value (hex_line n) = n \<and> clean (hex_line n)"
proof (induction n rule: hex_line.induct)
  case (1 n)
  show ?case
  proof (cases "n < 16")
    case True
    then show ?thesis using hex_chars_nth [OF True] by (subst (1 2) hex_line.simps) (simp add: hex_value_def)
  next
    case False
    have "hex_value (hex_line (n div 16) @ [hex_chars ! (n mod 16)]) = 16 * hex_value (hex_line (n div 16)) + n mod 16"
      using hex_chars_nth [of "n mod 16"] by (simp add: hex_value_def)
    moreover have "clean (hex_line (n div 16) @ [hex_chars ! (n mod 16)])"
      using hex_chars_nth [of "n mod 16"] 1 [OF False] by (auto simp: clean_def)
    ultimately show ?thesis using False 1 by (subst (1 2) hex_line.simps) simp
  qed
qed

lemma chunk_machine_parses: "parses_chunks chunk_machine (\<lambda>n. hex_line n @ crlf)"
proof -
  have "read_line (hex_line n @ crlf @ d) = Some (hex_line n, d)" "read_line (hex_line n @ crlf) = Some (hex_line n, [])" for n d
    using read_line_crlf [of "hex_line n" d] read_line_crlf [of "hex_line n" "[]"] hex_line_value [of n] by auto
  then show ?thesis
    by (simp add: parses_chunks_def chunk_machine_def http_response_parser_init_def quiet_event_def hex_line_value crlf_def)
qed

theorem chunked_body_witness:
  "\<exists>p1. recv_chunks chunk_machine (\<lambda>_. 0) (SocketStream_ops net_sys) 4096 (HTTPResponseParser_new chunk_machine) []
      (''3'' @ crlf @ ''abc'' @ crlf @ ''0'' @ crlf @ crlf) idle_client = Some (Got (p1, ''abc'') idle_client)"
proof -
  have "hex_line 3 = ''3''" "hex_line 0 = ''0''" by (simp_all add: hex_line.simps hex_chars_def)
  then have c: "chunked (\<lambda>n. hex_line n @ crlf) [''abc''] @ [] = ''3'' @ crlf @ ''abc'' @ crlf @ ''0'' @ crlf @ crlf"
    by (simp add: chunked_def chunk_def crlf_def numeral_3_eq_3)
  show ?thesis
    using chunked_body [OF chunk_machine_parses, of "[''abc'']" "HTTPResponseParser_new chunk_machine" "[]" 4096
        "\<lambda>_. 0" "SocketStream_ops net_sys" "[]" idle_client, unfolded c]
    by (auto simp: HTTPResponseParser_new_def crlf_def)
qed

text \<open>
  A chunk head that comes in two reads is misread. The digits that were in the first read are
  consumed, and \<^verbatim>\<open>execute\<close> starts the machine anew on the second: with a \<open>1\<close> in the first and a \<open>0\<close> in
  the second, a chunk of 16 bytes ends the body, and the response is returned without the rest as if
  it were complete.
\<close>

theorem split_chunk_head_truncates:
  assumes "parses_chunks rr enc" "enc 0 = ''0'' @ crlf" "rp_error p = ParserOK" "7 + length d < buffer_size"
    "rr_exec rr (http_response_parser_init rr) ''1'' = (hp, 1, [])" "\<not> rr_final rr (hr_cs hp)" "\<not> rr_error rr (hr_cs hp)"
    "hr_body_start hp \<le> 1" "hr_mark hp = 0" "hr_field_start hp = 0" "hr_field_len hp \<le> 1"
    "st_read st buffer_size s = ((1, [char_byte CHR ''1'']), s1)"
    "st_read st buffer_size s1 = ((int (length D), D), s2)" "map byte_char D = ''0'' @ crlf @ ''ab'' @ d"
  shows "\<exists>p1. recv_chunks rr atoi st buffer_size p body [] s = Some (Got (p1, body) s2) \<and> rp_data p1 = rp_data p"
proof -
  let ?p = "p\<lparr>rp_parser := hp\<lparr>hr_nread := 1\<rparr>\<rparr>"
  have e1: "HTTPResponseParser_execute rr atoi ''1'' True p = Some (1, ?p)"
    using assms(5,8-11) by (simp add: HTTPResponseParser_execute_def http_response_parser_execute_def)
  have "(0::nat) < 2 ^ 31" by simp
  from chunk_head_parsed [OF assms(1) this, of atoi "''ab'' @ d" ?p] obtain hq where
    e2: "HTTPResponseParser_execute rr atoi (''0'' @ crlf @ ''ab'' @ d) True ?p = Some (3, ?p\<lparr>rp_parser := hq\<rparr>)"
      "rr_final rr (hr_cs hq)" "\<not> rr_error rr (hr_cs hq)" "hr_content_len hq = 0" "hr_chunks_done hq"
    unfolding assms(2) by (auto simp: crlf_def)
  have D: "D \<noteq> []" using assms(14) by auto
  have r2: "recv_chunk_head rr atoi st buffer_size False ?p [] s1 = Some (Got (?p\<lparr>rp_parser := hq\<rparr>, ''ab'' @ d) s2)"
    using e2 assms(3,4,13,14) D
    by (subst recv_chunk_head.simps) (simp add: HTTPResponseParser_has_error_def HTTPResponseParser_is_finished_def crlf_def)
  have "recv_chunk_head rr atoi st buffer_size True p [] s = Some (Got (?p\<lparr>rp_parser := hq\<rparr>, ''ab'' @ d) s2)"
    using e1 r2 assms(3,4,6,7,12)
    by (subst recv_chunk_head.simps) (simp add: HTTPResponseParser_has_error_def HTTPResponseParser_is_finished_def)
  then show ?thesis using e2(4,5) by (subst recv_chunks.simps) simp
qed

theorem split_chunk_head_truncates_witness:
  "\<exists>p1 s2. recv_chunks chunk_machine (\<lambda>_. 0) (SocketStream_ops net_sys) 4096 (HTTPResponseParser_new chunk_machine) []  []
      (fst idle_client, (snd idle_client)\<lparr>inbox := [[char_byte CHR ''1''], map char_byte (''0'' @ crlf @ ''abcdefgh'')]\<rparr>) = Some (Got (p1, []) s2)"
proof -
  let ?p = "HTTPResponseParser_new chunk_machine" and ?st = "SocketStream_ops net_sys"
  let ?s = "(fst idle_client, (snd idle_client)\<lparr>inbox := [[char_byte CHR ''1''], map char_byte (''0'' @ crlf @ ''abcdefgh'')]\<rparr>)"
  let ?s1 = "(fst idle_client, (snd idle_client)\<lparr>inbox := [[], map char_byte (''0'' @ crlf @ ''abcdefgh'')]\<rparr>)"
  let ?s2 = "(fst idle_client, (snd idle_client)\<lparr>inbox := [[]]\<rparr>)" and ?hp = "(http_response_parser_init chunk_machine)\<lparr>hr_cs := ''1''\<rparr>"
  have r1: "st_read ?st 4096 ?s = ((1, [char_byte CHR ''1'']), ?s1)"
    and r2: "st_read ?st 4096 ?s1 = ((int (length (map char_byte (''0'' @ crlf @ ''abcdefgh''))), map char_byte (''0'' @ crlf @ ''abcdefgh'')), ?s2)"
    by (simp_all add: idle_client_def ss_defs SocketStream_is_connected_def net_sys_def net_recv_def to_int_def crlf_def)
  have m: "rr_exec chunk_machine (http_response_parser_init chunk_machine) ''1'' = (?hp, 1, [])"
    "\<not> rr_final chunk_machine (hr_cs ?hp)" "\<not> rr_error chunk_machine (hr_cs ?hp)"
    "hr_body_start ?hp \<le> 1" "hr_mark ?hp = 0" "hr_field_start ?hp = 0" "hr_field_len ?hp \<le> 1"
    by (simp_all add: chunk_machine_def http_response_parser_init_def)
  have e: "hex_line 0 @ crlf = ''0'' @ crlf" "rp_error ?p = ParserOK" "7 + length ''cdefgh'' < (4096 :: nat)"
    "map byte_char (map char_byte (''0'' @ crlf @ ''abcdefgh'')) = ''0'' @ crlf @ ''ab'' @ ''cdefgh''"
    by (simp_all add: hex_line.simps hex_chars_def HTTPResponseParser_new_def crlf_def)
  from split_chunk_head_truncates [OF chunk_machine_parses e(1-3) m r1 r2 e(4)] show ?thesis by blast
qed

section \<open>A request leaves nothing open\<close>

definition kn_env :: "(string, knet os_world) client_env" where
  "kn_env = \<lparr>ce_sys = kn_sys, ssl_connect = \<lambda>fd w. (1, w), ssl_read = \<lambda>fd n w. ((0, []), w), ssl_write = \<lambda>fd bs w. (int (length bs), w),
     ce_getaddrinfo = \<lambda>node service. Some [Some (SA_in IPv4Address_default)], ce_machine = chunk_machine, ce_atoi = \<lambda>_. 0,
     ce_cast = \<lambda>_. None, ce_gunzip = id, ce_inflate = id, ce_buffer_size = 4096\<rparr>"

interpretation kc: http_client kn_env kn_opened
proof -
  have "ce_sys kn_env = kn_sys" by (simp add: kn_env_def)
  then show "http_client kn_env kn_opened"
    using kn.descriptors_axioms by (simp add: http_client_def http_client_axioms_def) (simp add: kn_env_def kn_sys_def)
qed

text \<open>
  C26: A request of \<^verbatim>\<open>HTTPConnection\<close> closes what it opens. Whatever happens (no address, no connection,
  a failed handshake, a send or receive that fails, a response), when it returns the descriptors
  open are those that were open before; it has a response exactly when the code is \<open>OK\<close>.
\<close>

theorem request_leaves_nothing_open:
  assumes "http_client ce opened" "Request_url ce create method url timeout headers body w = Some (Got res w')"
  shows "opened w' = opened w \<and> (res_code res = OK \<longleftrightarrow> res_rsp res \<noteq> None)"
proof (cases "create url")
  case None
  then show ?thesis using assms(2) by (auto simp: Request_url_def)
next
  case (Some uri)
  then have r: "Request ce (build_request method uri headers body) uri timeout w = Some (Got res w')"
    using assms(2) by (simp add: Request_url_def Request_uri_def)
  have "res_code res = OK \<longleftrightarrow> res_rsp res \<noteq> None" if "converse ce b req st = Some (Got res st')" for b req st st'
    using that by (auto simp: converse_def Let_def split: option.splits if_splits received.splits)
  then have "res_code res = OK \<longleftrightarrow> res_rsp res \<noteq> None"
    using r by (auto simp: Request_def Let_def split: option.splits if_splits received.splits bool.splits)
  then show ?thesis using http_client.Request_keeps [OF assms(1) r] by simp
qed

definition uri_x :: URI where
  "uri_x = \<lparr>m_scheme = ''http'', m_user = [], u_host = ''h'', u_port = 0, u_path = [], u_query = [], u_fragment = []\<rparr>"

lemma write_all_at_once:
  assumes "st_write st buffer s = (int (length buffer), s1)" "buffer \<noteq> []" "length buffer < 2 ^ 31"
  shows "write_fixed_size st buffer s = (int (length buffer), s1)"
  using assms by (simp add: write_fixed_size_def to_int64_id write_fixed_loop.simps [of _ _ 0] write_fixed_loop.simps [of _ _ _ 0] to_int_id)

abbreviation kn_addr :: sock_address where
  "kn_addr \<equiv> sockaddr_of TIGER_LITTLE_ENDIAN (address_set_port TIGER_LITTLE_ENDIAN 80 (IPv4Address IPv4Address_default))"

lemma kn_lookup:
  "lookup_port (so_host (ce_sys kn_env)) (ce_getaddrinfo kn_env) ''h'' 80 =
     Some (address_set_port TIGER_LITTLE_ENDIAN 80 (IPv4Address IPv4Address_default))"
  by (simp add: lookup_port_def kn_env_def kn_sys_sel IPAddress_LookupAny_def Lookup_def
      split_host_def bracket_part_def Address_Create_def IPv4Address_default_def AF_INET_def)

lemma kn_connects: "\<exists>s1 w1. connect_socket kn_env False kn_addr (CreateTCP kn_addr) fresh_world = Some (True, s1, w1) \<and> m_is_connected s1"
  by (simp add: connect_socket_def fresh_world_def kn_env_def kn_sys_sel IPv4_set_port_def IPv4Address_default_def open_fd_def
      free_fd_def status_def Socket_connect_def CreateTCP_def Socket_new_def is_valid_def new_sock_def init_sock_def Socket_set_option_def
      connect_via_def init_local_address_def init_remote_address_def filled_address_def blank_address_def Let_def AF_INET_def AF_UNIX_def upt_rec)

lemma kn_converse:
  assumes "m_is_connected s" "HTTPRequest_dump req = Some msg" "msg \<noteq> []" "length msg < 2 ^ 31"
  shows "\<exists>st. converse kn_env False req (\<lparr>m_socket = Some s, m_owner = True\<rparr>, w) = Some (Got (failure TIMEOUT) st)"
proof -
  let ?st = "(\<lparr>m_socket = Some s, m_owner = True\<rparr>, w)" and ?ops = "SocketStream_ops (conn_sys kn_env False)"
  have "st_write ?ops (map char_byte msg) ?st = (int (length (map char_byte msg)), ?st)"
    using assms(1,4) by (simp add: SocketStream_ops_def SocketStream_write_def SocketStream_is_connected_def Socket_send_def conn_sys_def kn_env_def
        kn_sys_sel to_int_id)
  then have wr: "write_fixed_size ?ops (map char_byte msg) ?st = (int (length msg), ?st)"
    using write_all_at_once [of ?ops "map char_byte msg" ?st ?st] assms(3,4) by simp
  have "st_read ?ops n ?st = ((0, []), ?st)" for n
    using assms(1) by (simp add: SocketStream_ops_def SocketStream_read_def SocketStream_is_connected_def Socket_recv_def conn_sys_def kn_env_def
        kn_sys_sel to_int_def)
  then have "recv_response rr at ca gz fl bs ?ops ?st = Some (Failed (st_close ?ops ?st))" for rr :: "string response_ragel" and at ca gz fl bs
    by (simp add: recv_response_def recv_response_head.simps)
  then show ?thesis using assms(2,3) wr by (simp add: converse_def send_request_def)
qed

theorem request_leaves_nothing_open_witness:
  "\<exists>w'. Request_url kn_env (\<lambda>_. Some uri_x) GET ''http://h'' 500 [] [] fresh_world = Some (Got (failure TIMEOUT) w') \<and>
     kn_opened w' = kn_opened fresh_world"
proof -
  let ?req = "build_request GET uri_x [] []"
  have a: "create_address (so_host (ce_sys kn_env)) (ce_getaddrinfo kn_env) uri_x = Some (address_set_port TIGER_LITTLE_ENDIAN 80 (IPv4Address IPv4Address_default))"
    using kn_lookup by (simp add: create_address_def uri_x_def URI_get_port_def)
  obtain s1 w1 where c: "connect_socket kn_env False kn_addr (CreateTCP kn_addr) fresh_world = Some (True, s1, w1)" "m_is_connected s1"
    using kn_connects by blast
  then have o: "owns kn_opened (kn_opened fresh_world) (s1, w1)" using kc.connect_socket_owns [of False kn_addr fresh_world] by simp
  obtain w2 where w2: "set_recv_timeout (to_int64 (uint (500 :: u64))) s1 w1 = Some w2" using kc.timeout_set [OF o c(2)] by blast
  have "case HTTPRequest_dump ?req of None \<Rightarrow> False | Some msg \<Rightarrow> msg \<noteq> [] \<and> length msg < 100" by code_simp
  then obtain msg where msg: "HTTPRequest_dump ?req = Some msg" "msg \<noteq> []" "length msg < 2 ^ 31" by (auto split: option.splits)
  obtain st where "converse kn_env False ?req (\<lparr>m_socket = Some s1, m_owner = True\<rparr>, w2) = Some (Got (failure TIMEOUT) st)"
    using kn_converse [OF c(2) msg] by blast
  then have "\<exists>w'. Request_url kn_env (\<lambda>_. Some uri_x) GET ''http://h'' 500 [] [] fresh_world = Some (Got (failure TIMEOUT) w')"
    using a c(1) w2 by (simp add: Request_url_def Request_uri_def Request_def Let_def uri_x_def kn_env_def kn_sys_sel)
  then show ?thesis using request_leaves_nothing_open [OF kc.http_client_axioms] by blast
qed

end
