(* ===== verification/HttpPool.thy ===== *)
theory HttpPool
  imports HttpConnection "HOL-Library.Multiset"
begin

text \<open>
  The pool of connections of \<^verbatim>\<open>servers/http/http_connection.cc\<close>. Its books are checked against the open
  descriptors of the kernel: every connection is in the pool or lent, and each owns its descriptor.
\<close>

section \<open>The pool of connections\<close>

text \<open>
  Pointers to connections are in the pool or lent to a client, never both, so they are values here.
  The clock is read where the code reads it.
\<close>

record HTTPConnection =
  hc_stream :: SocketStream
  m_create_time :: u64
  m_request :: u64

record HTTPConnectionPool =
  m_host :: string
  m_vhost :: string
  m_is_https :: bool
  m_port :: u32
  m_max_size :: u32
  m_max_alive_time :: u32
  m_max_request :: u32
  m_conns :: "HTTPConnection list"
  m_total :: u32

definition HTTPConnectionPool_new :: "string \<Rightarrow> string \<Rightarrow> bool \<Rightarrow> u32 \<Rightarrow> u32 \<Rightarrow> u32 \<Rightarrow> u32 \<Rightarrow> HTTPConnectionPool" where
  "HTTPConnectionPool_new host vhost is_https port max_size max_alive_time max_request =
     \<lparr>m_host = host, m_vhost = vhost, m_is_https = is_https, m_port = port, m_max_size = max_size,
      m_max_alive_time = max_alive_time, m_max_request = max_request, m_conns = [], m_total = 0\<rparr>"

definition Pool_Create :: "(string \<Rightarrow> URI option) \<Rightarrow> string \<Rightarrow> string \<Rightarrow> u32 \<Rightarrow> u32 \<Rightarrow> u32 \<Rightarrow> HTTPConnectionPool option" where
  "Pool_Create create uri_str vhost max_size max_alive_time max_request =
     map_option (\<lambda>u. HTTPConnectionPool_new (u_host u) vhost (m_scheme u = ''https'') (word_of_int (URI_get_port u))
       max_size max_alive_time max_request) (create uri_str)"

definition expires :: "HTTPConnectionPool \<Rightarrow> HTTPConnection \<Rightarrow> u64" where
  "expires pool c = m_create_time c + ucast (m_max_alive_time pool)"

text \<open>The loop of \<^verbatim>\<open>get_connection\<close>: the connections to delete, the one to use, the rest.\<close>

fun pick_connection ::
    "HTTPConnectionPool \<Rightarrow> u64 \<Rightarrow> HTTPConnection list \<Rightarrow> HTTPConnection list \<times> HTTPConnection option \<times> HTTPConnection list" where
  "pick_connection pool now [] = ([], None, [])"
| "pick_connection pool now (c # cs) =
     (if \<not> SocketStream_is_connected (hc_stream c) \<or> expires pool c < now then
        (case pick_connection pool now cs of (invalid, r) \<Rightarrow> (c # invalid, r))
      else ([], Some c, cs))"

definition delete_connection :: "('cs, 'w) client_env \<Rightarrow> bool \<Rightarrow> HTTPConnection \<Rightarrow> 'w \<Rightarrow> 'w" where
  "delete_connection ce is_ssl c w = snd (SocketStream_destroy (conn_sys ce is_ssl) (hc_stream c, w))"

definition open_connection ::
    "('cs, 'k os_world) client_env \<Rightarrow> u64 \<Rightarrow> HTTPConnectionPool \<Rightarrow> 'k os_world \<Rightarrow> (HTTPConnection option \<times> 'k os_world) option" where
  "open_connection ce created pool w =
     (case lookup_port (so_host (ce_sys ce)) (ce_getaddrinfo ce) (m_host pool) (uint (m_port pool)) of
        None \<Rightarrow> Some (None, w)
      | Some a \<Rightarrow>
          let addr = sockaddr_of (so_host (ce_sys ce)) a in
          (case connect_socket ce (m_is_https pool) addr (CreateTCP addr) w of
             None \<Rightarrow> None
           | Some (False, s1, w1) \<Rightarrow> Some (None, snd (snd (Socket_close (so_sys (ce_sys ce)) s1 w1)))
           | Some (True, s1, w1) \<Rightarrow>
               Some (Some \<lparr>hc_stream = \<lparr>m_socket = Some s1, m_owner = True\<rparr>, m_create_time = created, m_request = 0\<rparr>, w1)))"

definition get_connection ::
    "('cs, 'k os_world) client_env \<Rightarrow> u64 \<Rightarrow> u64 \<Rightarrow> HTTPConnectionPool \<times> 'k os_world \<Rightarrow> (HTTPConnection option \<times> HTTPConnectionPool \<times> 'k os_world) option" where
  "get_connection ce now created = (\<lambda>(pool, w).
     case pick_connection pool now (m_conns pool) of
       (invalid, ptr, rest) \<Rightarrow>
         let pool1 = pool\<lparr>m_conns := rest, m_total := m_total pool - of_nat (length invalid)\<rparr>;
             w1 = fold (delete_connection ce (m_is_https pool)) invalid w
         in (case ptr of
               Some c \<Rightarrow> Some (Some c, pool1, w1)
             | None \<Rightarrow>
                 (case open_connection ce created pool1 w1 of
                    None \<Rightarrow> None
                  | Some (None, w2) \<Rightarrow> Some (None, pool1, w2)
                  | Some (Some c, w2) \<Rightarrow> Some (Some c, pool1\<lparr>m_total := m_total pool1 + 1\<rparr>, w2))))"

definition ReleasePtr :: "('cs, 'w) client_env \<Rightarrow> u64 \<Rightarrow> HTTPConnection \<Rightarrow> HTTPConnectionPool \<times> 'w \<Rightarrow> HTTPConnectionPool \<times> 'w" where
  "ReleasePtr ce now ptr = (\<lambda>(pool, w).
     let c = ptr\<lparr>m_request := m_request ptr + 1\<rparr> in
     if \<not> SocketStream_is_connected (hc_stream c) \<or> expires pool c \<le> now \<or> ucast (m_max_request pool) \<le> m_request c then
       (pool\<lparr>m_total := m_total pool - 1\<rparr>, delete_connection ce (m_is_https pool) c w)
     else (pool\<lparr>m_conns := m_conns pool @ [c]\<rparr>, w))"

definition pool_build_request :: "HTTPConnectionPool \<Rightarrow> HTTPMethod \<Rightarrow> string \<Rightarrow> (string \<times> string) list \<Rightarrow> string \<Rightarrow> HTTPRequest" where
  "pool_build_request pool method path headers body =
     (let req = (HTTPRequest_new 0x11 True)\<lparr>m_path := path, m_method := method, m_close := False\<rparr>
      in finish_request (if m_vhost pool = [] then m_host pool else m_vhost pool) body (fold (add_header True) headers (False, req)))"

text \<open>
  A request over the pool. \<open>released\<close> is the time when the connection is given back, which happens on
  every path after it was taken.
\<close>

definition pool_request ::
    "('cs, 'k os_world) client_env \<Rightarrow> u64 \<Rightarrow> u64 \<Rightarrow> u64 \<Rightarrow> HTTPRequest \<Rightarrow> u64 \<Rightarrow> HTTPConnectionPool \<times> 'k os_world \<Rightarrow>
     (HTTPResult, HTTPConnectionPool \<times> 'k os_world) received option" where
  "pool_request ce now created released req timeout pw =
     (case get_connection ce now created pw of
        None \<Rightarrow> Some Abort
      | Some (None, pool, w) \<Rightarrow> Some (Got (failure POOL_GET_CONNECTION_FAIL) (pool, w))
      | Some (Some c, pool, w) \<Rightarrow>
          (case m_socket (hc_stream c) of
             None \<Rightarrow> Some (Got (failure POOL_INVALID_CONNECTION) (ReleasePtr ce released c (pool, w)))
           | Some s \<Rightarrow>
               (case set_recv_timeout (to_int64 (uint timeout)) s w of
                  None \<Rightarrow> Some Abort
                | Some w1 \<Rightarrow>
                    (case converse ce (m_is_https pool) req (hc_stream c, w1) of
                       None \<Rightarrow> None
                     | Some Abort \<Rightarrow> Some Abort
                     | Some (Failed st) \<Rightarrow> Some Abort
                     | Some (Got r (ss, w2)) \<Rightarrow> Some (Got r (ReleasePtr ce released (c\<lparr>hc_stream := ss\<rparr>) (pool, w2)))))))"

definition pool_request_path ::
    "('cs, 'k os_world) client_env \<Rightarrow> u64 \<Rightarrow> u64 \<Rightarrow> u64 \<Rightarrow> HTTPMethod \<Rightarrow> string \<Rightarrow> u64 \<Rightarrow> (string \<times> string) list \<Rightarrow> string \<Rightarrow>
     HTTPConnectionPool \<times> 'k os_world \<Rightarrow> (HTTPResult, HTTPConnectionPool \<times> 'k os_world) received option" where
  "pool_request_path ce now created released method path timeout headers body pw =
     pool_request ce now created released (pool_build_request (fst pw) method path headers body) timeout pw"

definition pool_request_uri ::
    "('cs, 'k os_world) client_env \<Rightarrow> u64 \<Rightarrow> u64 \<Rightarrow> u64 \<Rightarrow> HTTPMethod \<Rightarrow> URI \<Rightarrow> u64 \<Rightarrow> (string \<times> string) list \<Rightarrow> string \<Rightarrow>
     HTTPConnectionPool \<times> 'k os_world \<Rightarrow> (HTTPResult, HTTPConnectionPool \<times> 'k os_world) received option" where
  "pool_request_uri ce now created released method uri timeout headers body pw =
     pool_request_path ce now created released method (URI_target uri) timeout headers body pw"

definition pool_get ::
    "('cs, 'k os_world) client_env \<Rightarrow> u64 \<Rightarrow> u64 \<Rightarrow> u64 \<Rightarrow> string \<Rightarrow> u64 \<Rightarrow> (string \<times> string) list \<Rightarrow> string \<Rightarrow>
     HTTPConnectionPool \<times> 'k os_world \<Rightarrow> (HTTPResult, HTTPConnectionPool \<times> 'k os_world) received option" where
  "pool_get ce now created released path timeout headers body pw =
     pool_request_path ce now created released GET path timeout headers body pw"

definition pool_get_uri ::
    "('cs, 'k os_world) client_env \<Rightarrow> u64 \<Rightarrow> u64 \<Rightarrow> u64 \<Rightarrow> URI \<Rightarrow> u64 \<Rightarrow> (string \<times> string) list \<Rightarrow> string \<Rightarrow>
     HTTPConnectionPool \<times> 'k os_world \<Rightarrow> (HTTPResult, HTTPConnectionPool \<times> 'k os_world) received option" where
  "pool_get_uri ce now created released uri timeout headers body pw =
     pool_get ce now created released (URI_target uri) timeout headers body pw"

definition pool_post ::
    "('cs, 'k os_world) client_env \<Rightarrow> u64 \<Rightarrow> u64 \<Rightarrow> u64 \<Rightarrow> string \<Rightarrow> u64 \<Rightarrow> (string \<times> string) list \<Rightarrow> string \<Rightarrow>
     HTTPConnectionPool \<times> 'k os_world \<Rightarrow> (HTTPResult, HTTPConnectionPool \<times> 'k os_world) received option" where
  "pool_post ce now created released path timeout headers body pw =
     pool_request_path ce now created released POST path timeout headers body pw"

definition pool_post_uri ::
    "('cs, 'k os_world) client_env \<Rightarrow> u64 \<Rightarrow> u64 \<Rightarrow> u64 \<Rightarrow> URI \<Rightarrow> u64 \<Rightarrow> (string \<times> string) list \<Rightarrow> string \<Rightarrow>
     HTTPConnectionPool \<times> 'k os_world \<Rightarrow> (HTTPResult, HTTPConnectionPool \<times> 'k os_world) received option" where
  "pool_post_uri ce now created released uri timeout headers body pw =
     pool_post ce now created released (URI_target uri) timeout headers body pw"

section \<open>The books of the pool\<close>

definition conn_fds :: "HTTPConnection \<Rightarrow> int list" where
  "conn_fds c = (case m_socket (hc_stream c) of None \<Rightarrow> [] | Some s \<Rightarrow> if is_valid s then [m_sock s] else [])"

definition fds_of :: "HTTPConnection list \<Rightarrow> int list" where
  "fds_of cs = concat (map conn_fds cs)"

definition good_conn :: "HTTPConnection \<Rightarrow> bool" where
  "good_conn c \<longleftrightarrow> m_owner (hc_stream c) \<and>
     (case m_socket (hc_stream c) of None \<Rightarrow> True | Some s \<Rightarrow> (is_valid s \<longrightarrow> 0 \<le> m_sock s) \<and> (m_is_connected s \<longrightarrow> is_valid s))"

text \<open>Connections that own different descriptors, none of the \<open>others\<close>.\<close>

definition apart :: "int set \<Rightarrow> HTTPConnection list \<Rightarrow> bool" where
  "apart others cs \<longleftrightarrow> (\<forall>c \<in> set cs. good_conn c) \<and> distinct (fds_of cs) \<and> others \<inter> set (fds_of cs) = {}"

lemma fds_of_simps [simp]: "fds_of [] = []" "fds_of (c # cs) = conn_fds c @ fds_of cs" "fds_of (cs @ ds) = fds_of cs @ fds_of ds"
  by (simp_all add: fds_of_def)

lemma mset_fds_of: "mset (fds_of cs) = (\<Sum>c \<in># mset cs. mset (conn_fds c))"
  by (induction cs) auto

lemma apart_perm: "mset cs = mset ds \<Longrightarrow> apart others cs = apart others ds \<and> set (fds_of cs) = set (fds_of ds)"
proof -
  assume m: "mset cs = mset ds"
  have s: "set cs = set ds" using mset_eq_setD [OF m] .
  have e: "mset (fds_of cs) = mset (fds_of ds)"
    by (simp add: mset_fds_of m)
  show ?thesis using s mset_eq_imp_distinct_iff [OF e] mset_eq_setD [OF e] by (simp add: apart_def)
qed

lemma apart_Cons:
  "apart others (c # cs) \<longleftrightarrow> apart others cs \<and> good_conn c \<and> set (conn_fds c) \<inter> (others \<union> set (fds_of cs)) = {}"
  by (auto simp: apart_def conn_fds_def split: option.splits)

text \<open>A connection beside others owns its descriptor, as a stream does.\<close>

lemma apart_owns:
  "apart others (c # cs) \<Longrightarrow> opened w = others \<union> set (fds_of (c # cs)) \<Longrightarrow>
   ss_owns opened (others \<union> set (fds_of cs)) (hc_stream c, w)"
  by (auto simp: apart_Cons good_conn_def conn_fds_def ss_owns_def owns_def split: option.splits if_splits)

lemma owns_apart:
  "apart others cs \<Longrightarrow> ss_owns opened (others \<union> set (fds_of cs)) (hc_stream c, w) \<Longrightarrow>
   apart others (c # cs) \<and> opened w = others \<union> set (fds_of (c # cs))"
  by (auto simp: apart_Cons good_conn_def conn_fds_def ss_owns_def owns_def split: option.splits if_splits)

text \<open>The loop takes connections from the front until one is good.\<close>

lemma pick_connection_spec:
  "pick_connection pool now cs = (invalid, ptr, rest) \<Longrightarrow>
   cs = invalid @ (case ptr of None \<Rightarrow> [] | Some c \<Rightarrow> [c]) @ rest \<and>
   (\<forall>c. ptr = Some c \<longrightarrow> SocketStream_is_connected (hc_stream c) \<and> now \<le> expires pool c)"
proof (induction cs arbitrary: invalid)
  case (Cons c cs)
  then show ?case by (auto split: if_splits prod.splits)
qed simp

text \<open>The pool, the connections that are lent, and the world.\<close>

type_synonym 'k pool_state = "HTTPConnectionPool \<times> HTTPConnection list \<times> 'k os_world"

definition pool_inv :: "('k os_world \<Rightarrow> int set) \<Rightarrow> int set \<Rightarrow> 'k pool_state \<Rightarrow> bool" where
  "pool_inv opened others = (\<lambda>(pool, lent, w).
     apart others (m_conns pool @ lent) \<and> opened w = others \<union> set (fds_of (m_conns pool @ lent)) \<and>
     m_total pool = of_nat (length (m_conns pool @ lent)) \<and>
     (\<forall>c \<in> set (m_conns pool). SocketStream_is_connected (hc_stream c) \<and> m_request c < ucast (m_max_request pool)))"

text \<open>What clients do: take a connection, talk over it, close it, give it back, or let the pool do it all.\<close>

datatype pool_op =
    Take u64 u64 | Talk nat HTTPRequest | CloseLent nat | GiveBack nat u64 | Ask u64 u64 u64 HTTPRequest u64

fun run_pool :: "('cs, 'k os_world) client_env \<Rightarrow> pool_op \<Rightarrow> 'k pool_state \<Rightarrow> 'k pool_state option" where
  "run_pool ce (Take now created) (pool, lent, w) =
     (case get_connection ce now created (pool, w) of
        None \<Rightarrow> None
      | Some (c, pool1, w1) \<Rightarrow> Some (pool1, (case c of None \<Rightarrow> lent | Some c \<Rightarrow> c # lent), w1))"
| "run_pool ce (Talk i req) (pool, lent, w) =
     (if i < length lent then
        (case converse ce (m_is_https pool) req (hc_stream (lent ! i), w) of
           Some (Got r (ss, w1)) \<Rightarrow> Some (pool, lent[i := (lent ! i)\<lparr>hc_stream := ss\<rparr>], w1)
         | _ \<Rightarrow> None)
      else None)"
| "run_pool ce (CloseLent i) (pool, lent, w) =
     (if i < length lent then
        (case SocketStream_close (conn_sys ce (m_is_https pool)) (hc_stream (lent ! i), w) of
           (ss, w1) \<Rightarrow> Some (pool, lent[i := (lent ! i)\<lparr>hc_stream := ss\<rparr>], w1))
      else None)"
| "run_pool ce (GiveBack i now) (pool, lent, w) =
     (if i < length lent then
        (case ReleasePtr ce now (lent ! i) (pool, w) of (pool1, w1) \<Rightarrow> Some (pool1, take i lent @ drop (Suc i) lent, w1))
      else None)"
| "run_pool ce (Ask now created released req timeout) (pool, lent, w) =
     (case pool_request ce now created released req timeout (pool, w) of
        Some (Got r (pool1, w1)) \<Rightarrow> Some (pool1, lent, w1)
      | _ \<Rightarrow> None)"

fun run_pools :: "('cs, 'k os_world) client_env \<Rightarrow> pool_op list \<Rightarrow> 'k pool_state \<Rightarrow> 'k pool_state option" where
  "run_pools ce [] st = Some st"
| "run_pools ce (x # xs) st = (case run_pool ce x st of None \<Rightarrow> None | Some st1 \<Rightarrow> run_pools ce xs st1)"

context http_client
begin

lemma delete_keeps:
  "apart others (c # cs) \<Longrightarrow> opened w = others \<union> set (fds_of (c # cs)) \<Longrightarrow>
   opened (delete_connection ce b c w) = others \<union> set (fds_of cs)"
  unfolding delete_connection_def by (intro destroy_releases apart_owns)

lemma delete_all_keeps:
  "apart others (invalid @ cs) \<Longrightarrow> opened w = others \<union> set (fds_of (invalid @ cs)) \<Longrightarrow>
   apart others cs \<and> opened (fold (delete_connection ce b) invalid w) = others \<union> set (fds_of cs)"
proof (induction invalid arbitrary: w)
  case (Cons c invalid)
  then show ?case using delete_keeps [of others c "invalid @ cs" w b] by (simp add: apart_Cons)
qed simp

lemma open_connection_owns:
  "\<exists>r w1. open_connection ce created pool w = Some (r, w1) \<and>
     (case r of None \<Rightarrow> opened w1 = opened w
      | Some c \<Rightarrow> ss_owns opened (opened w) (hc_stream c, w1) \<and> SocketStream_is_connected (hc_stream c) \<and>
          m_create_time c = created \<and> m_request c = 0)"
proof (cases "lookup_port (so_host (ce_sys ce)) (ce_getaddrinfo ce) (m_host pool) (uint (m_port pool))")
  case None
  then show ?thesis by (simp add: open_connection_def)
next
  case (Some a)
  let ?addr = "sockaddr_of (so_host (ce_sys ce)) a"
  obtain v s1 w1 where c: "connect_socket ce (m_is_https pool) ?addr (CreateTCP ?addr) w = Some (v, s1, w1)"
    "owns opened (opened w) (s1, w1)" "v \<longrightarrow> m_is_connected s1" using connect_socket_owns by blast
  then show ?thesis using Some close_releases [OF c(2)]
    by (cases v) (auto simp: open_connection_def ss_owns_def SocketStream_is_connected_def)
qed

text \<open>Taking a connection; what happens to the descriptors and to the count.\<close>

lemma get_connection_keeps:
  assumes "pool_inv opened others (pool, lent, w)" "get_connection ce now created (pool, w) = Some (c, pool1, w1)"
  shows "pool_inv opened others (pool1, (case c of None \<Rightarrow> lent | Some c \<Rightarrow> c # lent), w1) \<and>
    (\<forall>x. c = Some x \<longrightarrow> SocketStream_is_connected (hc_stream x) \<and> (now \<le> expires pool x \<or> m_create_time x = created \<and> m_request x = 0)) \<and>
    m_is_https pool1 = m_is_https pool"
proof -
  obtain invalid ptr rest where pick: "pick_connection pool now (m_conns pool) = (invalid, ptr, rest)" by (metis prod.exhaust)
  let ?w = "fold (delete_connection ce (m_is_https pool)) invalid w"
  let ?pool = "pool\<lparr>m_conns := rest, m_total := m_total pool - of_nat (length invalid)\<rparr>"
  let ?cs = "(case ptr of None \<Rightarrow> [] | Some c \<Rightarrow> [c]) @ rest @ lent"
  note spec = pick_connection_spec [OF pick]
  have inv: "apart others (m_conns pool @ lent)" "opened w = others \<union> set (fds_of (m_conns pool @ lent))"
    "m_total pool = of_nat (length (m_conns pool @ lent))"
    "\<forall>c \<in> set (m_conns pool). SocketStream_is_connected (hc_stream c) \<and> m_request c < ucast (m_max_request pool)"
    using assms(1) by (auto simp: pool_inv_def)
  have cs: "m_conns pool @ lent = invalid @ ?cs" using spec by simp
  have a: "apart others ?cs" "opened ?w = others \<union> set (fds_of ?cs)"
    using delete_all_keeps [of others invalid ?cs w "m_is_https pool"] inv(1,2) unfolding cs by blast+
  have t: "m_total ?pool = of_nat (length ?cs)" using inv(3) unfolding cs by simp
  show ?thesis
  proof (cases ptr)
    case (Some x)
    have p: "mset (x # rest @ lent) = mset (rest @ x # lent)" by simp
    have "apart others (rest @ x # lent) \<and> set (fds_of (rest @ x # lent)) = set (fds_of ?cs)"
      using apart_perm [OF p, of others] a(1) Some by simp
    then show ?thesis using assms(2) pick Some a t inv(4) spec
      by (auto simp: get_connection_def pool_inv_def Let_def add.commute)
  next
    case None
    obtain q w2 where o: "open_connection ce created ?pool ?w = Some (q, w2)"
      and q: "case q of None \<Rightarrow> opened w2 = opened ?w
        | Some c \<Rightarrow> ss_owns opened (opened ?w) (hc_stream c, w2) \<and> SocketStream_is_connected (hc_stream c) \<and> m_create_time c = created \<and> m_request c = 0"
      using open_connection_owns by blast
    show ?thesis
    proof (cases q)
      case None
      then show ?thesis using \<open>ptr = None\<close> assms(2) pick o q a t inv(4) spec by (auto simp: get_connection_def pool_inv_def Let_def)
    next
      case (Some x)
      have n: "apart others (x # rest @ lent)" "opened w2 = others \<union> set (fds_of (x # rest @ lent))"
        using owns_apart [of others "rest @ lent" opened x w2] a q Some \<open>ptr = None\<close> by auto
      have p: "mset (x # rest @ lent) = mset (rest @ x # lent)" by simp
      have "apart others (rest @ x # lent) \<and> set (fds_of (rest @ x # lent)) = set (fds_of (x # rest @ lent))"
        using apart_perm [OF p, of others] n(1) by simp
      then show ?thesis using \<open>ptr = None\<close> assms(2) pick o q Some n t inv(4) spec
        by (auto simp: get_connection_def pool_inv_def Let_def add.commute)
    qed
  qed
qed


text \<open>Giving a connection back.\<close>

lemma release_keeps:
  assumes "pool_inv opened others (pool, xs @ c # ys, w)" "ReleasePtr ce now c (pool, w) = (pool1, w1)"
  shows "pool_inv opened others (pool1, xs @ ys, w1)"
proof -
  let ?c = "c\<lparr>m_request := m_request c + 1\<rparr>"
  have f: "conn_fds ?c = conn_fds c" "good_conn ?c = good_conn c" by (simp_all add: conn_fds_def good_conn_def)
  have p: "mset (m_conns pool @ xs @ c # ys) = mset (c # m_conns pool @ xs @ ys)" by simp
  have "apart others (c # m_conns pool @ xs @ ys)" "opened w = others \<union> set (fds_of (c # m_conns pool @ xs @ ys))"
    using assms(1) apart_perm [OF p, of others] by (auto simp: pool_inv_def)
  then have a: "apart others (?c # m_conns pool @ xs @ ys)" "opened w = others \<union> set (fds_of (?c # m_conns pool @ xs @ ys))"
    by (simp_all add: apart_Cons f)
  have q: "mset (?c # m_conns pool @ xs @ ys) = mset (m_conns pool @ [?c] @ xs @ ys)" by simp
  have "apart others (m_conns pool @ [?c] @ xs @ ys) \<and> opened w = others \<union> set (fds_of (m_conns pool @ [?c] @ xs @ ys))"
    using a apart_perm [OF q, of others] by auto
  then show ?thesis using assms a(1) delete_keeps [OF a]
    by (auto simp: ReleasePtr_def pool_inv_def Let_def apart_Cons not_le split: if_splits)
qed

text \<open>A lent connection may do what keeps its ownership.\<close>

lemma lent_owns:
  assumes "pool_inv opened others (pool, xs @ c # ys, w)"
  shows "ss_owns opened (others \<union> set (fds_of (m_conns pool @ xs @ ys))) (hc_stream c, w)"
proof -
  have p: "mset (m_conns pool @ xs @ c # ys) = mset (c # m_conns pool @ xs @ ys)" by simp
  show ?thesis using assms apart_perm [OF p, of others] by (intro apart_owns) (auto simp: pool_inv_def)
qed

lemma lent_update:
  assumes "pool_inv opened others (pool, xs @ c # ys, w)"
    "ss_owns opened (others \<union> set (fds_of (m_conns pool @ xs @ ys))) (ss, w1)"
  shows "pool_inv opened others (pool, xs @ c\<lparr>hc_stream := ss\<rparr> # ys, w1)"
proof -
  let ?c = "c\<lparr>hc_stream := ss\<rparr>"
  have p: "mset (m_conns pool @ xs @ c # ys) = mset (c # m_conns pool @ xs @ ys)" by simp
  have q: "mset (m_conns pool @ xs @ ?c # ys) = mset (?c # m_conns pool @ xs @ ys)" by simp
  have "apart others (m_conns pool @ xs @ ys)" using assms(1) apart_perm [OF p, of others] by (simp add: pool_inv_def apart_Cons)
  then have "apart others (?c # m_conns pool @ xs @ ys) \<and> opened w1 = others \<union> set (fds_of (?c # m_conns pool @ xs @ ys))"
    using assms(2) owns_apart [of others "m_conns pool @ xs @ ys" opened ?c w1] by simp
  then show ?thesis using assms(1) apart_perm [OF q, of others] by (simp add: pool_inv_def)
qed

lemma timeout_keeps:
  assumes "ss_owns opened others (ss, w)" "m_socket ss = Some s" "set_recv_timeout t s w = Some w1"
  shows "ss_owns opened others (ss, w1)"
  using assms by (auto simp: ss_owns_def set_recv_timeout_def intro: owns_change)

lemma pool_request_keeps:
  assumes "pool_inv opened others (pool, lent, w)" "pool_request ce now created released req timeout (pool, w) = Some (Got r (pool1, w1))"
  shows "pool_inv opened others (pool1, lent, w1)"
proof -
  obtain c pool2 w2 where g: "get_connection ce now created (pool, w) = Some (c, pool2, w2)"
    using assms(2) by (auto simp: pool_request_def split: option.splits)
  note inv = get_connection_keeps [OF assms(1) g]
  show ?thesis
  proof (cases c)
    case None
    then show ?thesis using inv g assms(2) by (auto simp: pool_request_def)
  next
    case (Some x)
    then have i: "pool_inv opened others (pool2, [] @ x # lent, w2)" using inv by simp
    show ?thesis
    proof (cases "m_socket (hc_stream x)")
      case None
      then show ?thesis using release_keeps [OF i, of released pool1 w1] Some g assms(2) by (auto simp: pool_request_def)
    next
      case (Some s)
      then obtain w3 where w3: "set_recv_timeout (to_int64 (uint timeout)) s w2 = Some w3"
        using \<open>c = Some x\<close> g assms(2) by (auto simp: pool_request_def split: option.splits)
      have o: "ss_owns opened (others \<union> set (fds_of (m_conns pool2 @ [] @ lent))) (hc_stream x, w3)"
        by (rule timeout_keeps [OF lent_owns [OF i] Some w3])
      then obtain ss w4 where c: "converse ce (m_is_https pool2) req (hc_stream x, w3) = Some (Got r (ss, w4))"
          "ReleasePtr ce released (x\<lparr>hc_stream := ss\<rparr>) (pool2, w4) = (pool1, w1)"
        using \<open>c = Some x\<close> g assms(2) Some w3 by (auto simp: pool_request_def split: option.splits received.splits prod.splits)
      have "ss_owns opened (others \<union> set (fds_of (m_conns pool2 @ [] @ lent))) (ss, w4)" using converse_keeps [OF c(1) o] by simp
      from lent_update [OF i this] show ?thesis using release_keeps [of others pool2 "[]" _ lent w4] c(2) by simp
    qed
  qed
qed

lemma run_pool_keeps:
  assumes "pool_inv opened others (pool, lent, w)" "run_pool ce x (pool, lent, w) = Some st"
  shows "pool_inv opened others st"
proof -
  have split: "lent = take i lent @ lent ! i # drop (Suc i) lent" "lent[i := v] = take i lent @ v # drop (Suc i) lent" if "i < length lent" for i v
    using that by (simp_all add: id_take_nth_drop upd_conv_take_nth_drop)
  show ?thesis
  proof (cases x)
    case (Take now created)
    then show ?thesis using get_connection_keeps [OF assms(1)] assms(2) by (auto split: option.splits)
  next
    case (Talk i req)
    then obtain r ss w1 where i: "i < length lent" and c: "converse ce (m_is_https pool) req (hc_stream (lent ! i), w) = Some (Got r (ss, w1))"
      and st: "st = (pool, lent[i := (lent ! i)\<lparr>hc_stream := ss\<rparr>], w1)"
      using assms(2) by (auto split: if_splits option.splits received.splits)
    have inv: "pool_inv opened others (pool, take i lent @ lent ! i # drop (Suc i) lent, w)" using assms(1) split(1) [OF i] by simp
    have "ss_owns opened (others \<union> set (fds_of (m_conns pool @ take i lent @ drop (Suc i) lent))) (ss, w1)"
      using converse_keeps [OF c lent_owns [OF inv]] by simp
    from lent_update [OF inv this] show ?thesis unfolding st split(2) [OF i] .
  next
    case (CloseLent i)
    then obtain ss w1 where i: "i < length lent" and c: "SocketStream_close (conn_sys ce (m_is_https pool)) (hc_stream (lent ! i), w) = (ss, w1)"
      and st: "st = (pool, lent[i := (lent ! i)\<lparr>hc_stream := ss\<rparr>], w1)"
      using assms(2) by (auto split: if_splits prod.splits)
    have inv: "pool_inv opened others (pool, take i lent @ lent ! i # drop (Suc i) lent, w)" using assms(1) split(1) [OF i] by simp
    have "ss_owns opened (others \<union> set (fds_of (m_conns pool @ take i lent @ drop (Suc i) lent))) (ss, w1)"
      using ss_owns_close [OF lent_owns [OF inv], of "m_is_https pool"] c by simp
    from lent_update [OF inv this] show ?thesis unfolding st split(2) [OF i] .
  next
    case (GiveBack i now)
    then obtain pool1 w1 where i: "i < length lent" and c: "ReleasePtr ce now (lent ! i) (pool, w) = (pool1, w1)"
      and st: "st = (pool1, take i lent @ drop (Suc i) lent, w1)"
      using assms(2) by (auto split: if_splits prod.splits)
    have inv: "pool_inv opened others (pool, take i lent @ lent ! i # drop (Suc i) lent, w)" using assms(1) split(1) [OF i] by simp
    from release_keeps [OF inv c] show ?thesis unfolding st .
  next
    case (Ask now created released req timeout)
    then show ?thesis using pool_request_keeps [OF assms(1)] assms(2) by (auto split: option.splits received.splits)
  qed
qed

lemma run_pools_keeps: "pool_inv opened others st \<Longrightarrow> run_pools ce xs st = Some st' \<Longrightarrow> pool_inv opened others st'"
proof (induction xs arbitrary: st)
  case (Cons x xs)
  then show ?case using run_pool_keeps [of others "fst st" "fst (snd st)" "snd (snd st)" x] by (auto split: option.splits)
qed simp

end

section \<open>Theorems\<close>

text \<open>
  C24: The books of the pool agree with the kernel. After any sequence of taking, talking, closing and
  giving back that returns, the count \<^verbatim>\<open>m_total\<close> is the number of connections in the pool and lent;
  each of them owns its own descriptor, and with those that were open before these are all that are
  open, so nothing is lost or closed twice; the connections in the pool are connected and not used
  up. The next connection handed out is connected and new or not expired.
\<close>

theorem pool_books:
  assumes "http_client ce opened"
    "run_pools ce xs (HTTPConnectionPool_new host vhost is_https port max_size max_alive_time max_request, [], w) = Some (pool, lent, w1)"
    "get_connection ce now created (pool, w1) = Some (Some c, pool2, w2)"
  shows "pool_inv opened (opened w) (pool, lent, w1) \<and> SocketStream_is_connected (hc_stream c) \<and>
    (now \<le> expires pool c \<or> m_create_time c = created \<and> m_request c = 0)"
proof -
  have "pool_inv opened (opened w) (HTTPConnectionPool_new host vhost is_https port max_size max_alive_time max_request, [], w)"
    by (simp add: pool_inv_def HTTPConnectionPool_new_def apart_def)
  then have inv: "pool_inv opened (opened w) (pool, lent, w1)" using http_client.run_pools_keeps [OF assms(1)] assms(2) by blast
  then show ?thesis using http_client.get_connection_keeps [OF assms(1) inv assms(3)] by simp
qed

theorem pool_books_witness:
  "\<exists>pool w1 c pool2 w2. run_pools kn_env [Take 10 10, GiveBack 0 11] (HTTPConnectionPool_new ''h'' [] False 80 8 1000 5, [], fresh_world) = Some (pool, [], w1) \<and>
     get_connection kn_env 12 12 (pool, w1) = Some (Some c, pool2, w2) \<and> m_request c = 1 \<and> pool_inv kn_opened (kn_opened fresh_world) (pool, [], w1)"
proof -
  let ?pool = "HTTPConnectionPool_new ''h'' [] False 80 8 1000 5"
  obtain s1 w1 where c: "connect_socket kn_env False kn_addr (CreateTCP kn_addr) fresh_world = Some (True, s1, w1)" "m_is_connected s1"
    using kn_connects by blast
  let ?c = "\<lparr>hc_stream = \<lparr>m_socket = Some s1, m_owner = True\<rparr>, m_create_time = 10, m_request = 0\<rparr>"
  let ?p = "?pool\<lparr>m_conns := [?c\<lparr>m_request := 1\<rparr>], m_total := 1\<rparr>"
  have h: "so_host (ce_sys kn_env) = TIGER_LITTLE_ENDIAN" by (simp add: kn_env_def kn_sys_sel)
  have g: "get_connection kn_env 10 10 (?pool, fresh_world) = Some (Some ?c, ?pool\<lparr>m_total := 1\<rparr>, w1)"
    using c(1) kn_lookup h by (simp add: get_connection_def open_connection_def HTTPConnectionPool_new_def)
  have f: "\<not> (5 :: u64) \<le> 1" by (simp add: word_le_nat_alt)
  have r: "ReleasePtr kn_env 11 ?c (?pool\<lparr>m_total := 1\<rparr>, w1) = (?p, w1)"
    using c(2) f by (simp add: ReleasePtr_def expires_def SocketStream_is_connected_def HTTPConnectionPool_new_def Let_def)
  have n: "get_connection kn_env 12 12 (?p, w1) = Some (Some (?c\<lparr>m_request := 1\<rparr>), ?p\<lparr>m_conns := []\<rparr>, w1)"
    using c(2) by (simp add: get_connection_def expires_def SocketStream_is_connected_def HTTPConnectionPool_new_def)
  have u: "run_pools kn_env [Take 10 10, GiveBack 0 11] (?pool, [], fresh_world) = Some (?p, [], w1)" using g r by simp
  from pool_books [OF kc.http_client_axioms u n] u n show ?thesis by (metis HTTPConnection.select_convs(3) HTTPConnection.update_convs(3))
qed

end
