(* ===== verification/Coroutine.thy ===== *)
theory Coroutine
  imports Prelude
begin

text \<open>
  Coroutines, \<^verbatim>\<open>src/coroutine.cc\<close>. A world holds the coroutine objects, which threads share, and
  for every thread the thread-local pointers \<^verbatim>\<open>s_t_running_co\<close> and \<^verbatim>\<open>s_t_main_co\<close> and the stack
  that the thread executes on. A context (\<^verbatim>\<open>ucontext_t\<close>) is modelled by the stack it continues
  on; \<open>swapcontext\<close> saves the current stack in one context and continues with another. An
  operation that switches contexts includes what the code it switches to does first: the end of
  \<^verbatim>\<open>resume\<close> after a switch to the main coroutine. What coroutines compute between these
  operations is not part of the model, and every operation is one step. A coroutine that is
  resumed by itself returns from \<^verbatim>\<open>swapcontext\<close> at once. A failed
  \<^verbatim>\<open>TIGER_ASSERT\<close> and a null pointer are errors. \<^verbatim>\<open>getcontext\<close> and \<^verbatim>\<open>swapcontext\<close> do not fail.
\<close>

section \<open>State\<close>

datatype State = INIT | RUNNING | YIELD | TERMINAL | EXCEPT

text \<open>Coroutines are referred to by number; the stack of a coroutine has the same number.\<close>

record Coroutine =
  m_id :: nat
  m_fn :: bool
  m_state :: State
  m_ctx :: nat
  m_stack :: bool
  m_stack_size :: nat

record co_thread =
  s_t_running_co :: "nat option"
  s_t_main_co :: "nat option"
  on_stack :: nat

record world =
  cos :: "nat \<rightharpoonup> Coroutine"
  next_co :: nat
  s_co_id :: nat
  s_co_cnt :: int
  locals :: "nat \<Rightarrow> co_thread"

datatype co_error = AssertFailed | NullPointer

definition upd_co :: "nat \<Rightarrow> (Coroutine \<Rightarrow> Coroutine) \<Rightarrow> world \<Rightarrow> world" where
  "upd_co c f w = w\<lparr>cos := (cos w)(c := map_option f (cos w c))\<rparr>"

definition upd_local :: "nat \<Rightarrow> (co_thread \<Rightarrow> co_thread) \<Rightarrow> world \<Rightarrow> world" where
  "upd_local t f w = w\<lparr>locals := (locals w)(t := f (locals w t))\<rparr>"

abbreviation running :: "world \<Rightarrow> nat \<Rightarrow> nat option" where
  "running w t \<equiv> s_t_running_co (locals w t)"

abbreviation main_co :: "world \<Rightarrow> nat \<Rightarrow> nat option" where
  "main_co w t \<equiv> s_t_main_co (locals w t)"

section \<open>Operations\<close>

definition swapcontext :: "nat \<Rightarrow> nat \<Rightarrow> nat \<Rightarrow> world \<Rightarrow> world" where
  "swapcontext t a b w =
     (let w1 = upd_co a (\<lambda>co. co\<lparr>m_ctx := on_stack (locals w t)\<rparr>) w
      in upd_local t (\<lambda>l. l\<lparr>on_stack := (case cos w1 b of None \<Rightarrow> on_stack l | Some co \<Rightarrow> m_ctx co)\<rparr>) w1)"

definition CurCoroutineId :: "nat \<Rightarrow> world \<Rightarrow> nat" where
  "CurCoroutineId t w =
     (case running w t of None \<Rightarrow> 0 | Some c \<Rightarrow> (case cos w c of None \<Rightarrow> 0 | Some co \<Rightarrow> m_id co))"

definition GetRunningCo :: "nat \<Rightarrow> world \<Rightarrow> nat option" where
  "GetRunningCo t w = (case running w t of Some c \<Rightarrow> Some c | None \<Rightarrow> main_co w t)"

text \<open>The main coroutine of a thread runs on the stack of the thread.\<close>

definition Coroutine_main :: "nat \<Rightarrow> world \<Rightarrow> nat \<times> world" where
  "Coroutine_main t w =
     (let c = next_co w; n = s_co_id w + 1 in
      (c, w\<lparr>cos := (cos w)(c \<mapsto> \<lparr>m_id = n, m_fn = False, m_state = RUNNING, m_ctx = c, m_stack = False, m_stack_size = 0\<rparr>),
            next_co := c + 1, s_co_id := n, s_co_cnt := s_co_cnt w + 1\<rparr>))"

definition Coroutine_new :: "nat \<Rightarrow> nat \<Rightarrow> nat \<Rightarrow> world \<Rightarrow> nat \<times> world" where
  "Coroutine_new default_size t stack_size w =
     (let w1 = (case main_co w t of
          Some _ \<Rightarrow> w
        | None \<Rightarrow> (case Coroutine_main t w of
            (m, w') \<Rightarrow> upd_local t (\<lambda>l. l\<lparr>s_t_main_co := Some m, s_t_running_co := Some m, on_stack := m\<rparr>) w'));
        c = next_co w1; n = s_co_id w1 + 1 in
      (c, w1\<lparr>cos := (cos w1)(c \<mapsto> \<lparr>m_id = n, m_fn = True, m_state = INIT, m_ctx = c, m_stack = True,
                 m_stack_size = (if stack_size = 0 then default_size else stack_size)\<rparr>),
             next_co := c + 1, s_co_id := n, s_co_cnt := s_co_cnt w1 + 1\<rparr>))"

text \<open>What follows \<^verbatim>\<open>swapcontext\<close> in \<^verbatim>\<open>resume\<close>.\<close>

definition after_resume :: "nat \<Rightarrow> nat \<Rightarrow> world \<Rightarrow> world" where
  "after_resume t m w =
     upd_local t (\<lambda>l. l\<lparr>s_t_running_co := Some m\<rparr>) (upd_co m (\<lambda>co. co\<lparr>m_state := RUNNING\<rparr>) w)"

definition resume :: "nat \<Rightarrow> nat \<Rightarrow> world \<Rightarrow> co_error + world" where
  "resume t c w =
     (case cos w c of
        None \<Rightarrow> Inl NullPointer
      | Some co \<Rightarrow>
          if m_state co \<notin> {INIT, YIELD} then Inl AssertFailed
          else (case main_co w t of
            None \<Rightarrow> Inl NullPointer
          | Some m \<Rightarrow>
              let w1 = upd_co m (\<lambda>co. co\<lparr>m_state := YIELD\<rparr>) w;
                  w2 = upd_co c (\<lambda>co. co\<lparr>m_state := RUNNING\<rparr>) w1;
                  w3 = upd_local t (\<lambda>l. l\<lparr>s_t_running_co := Some c\<rparr>) w2;
                  w4 = swapcontext t m c w3
              in Inr (if c = m then after_resume t m w4 else w4)))"

definition Resume :: "nat \<Rightarrow> world \<Rightarrow> co_error + world" where
  "Resume t w = (case main_co w t of None \<Rightarrow> Inr w | Some m \<Rightarrow> resume t m w)"

text \<open>\<^verbatim>\<open>Coroutine::Yield()\<close>: nothing happens on a thread without coroutines.\<close>

definition Yield :: "nat \<Rightarrow> world \<Rightarrow> co_error + world" where
  "Yield t w =
     (case (running w t, main_co w t) of
        (None, _) \<Rightarrow> Inr w
      | (Some c, None) \<Rightarrow> Inl NullPointer
      | (Some c, Some m) \<Rightarrow>
          if c = m then Inl AssertFailed
          else
            let w1 = upd_co c (\<lambda>co. co\<lparr>m_state := YIELD\<rparr>) w;
                w2 = upd_co m (\<lambda>co. co\<lparr>m_state := RUNNING\<rparr>) w1;
                w3 = upd_local t (\<lambda>l. l\<lparr>s_t_running_co := Some m\<rparr>) w2
            in Inr (after_resume t m (swapcontext t c m w3)))"

text \<open>The end of \<^verbatim>\<open>Coroutine::Run\<close>, after the function returned or threw.\<close>

definition Run_end :: "nat \<Rightarrow> bool \<Rightarrow> world \<Rightarrow> co_error + world" where
  "Run_end t threw w =
     (case (running w t, main_co w t) of
        (Some c, Some m) \<Rightarrow>
          let w1 = upd_co c (\<lambda>co. if threw then co\<lparr>m_state := EXCEPT\<rparr> else co\<lparr>m_fn := False, m_state := TERMINAL\<rparr>) w
          in Inr (after_resume t m (swapcontext t c m w1))
      | _ \<Rightarrow> Inl NullPointer)"

definition co_reset :: "nat \<Rightarrow> world \<Rightarrow> co_error + bool \<times> world" where
  "co_reset c w =
     (case cos w c of
        None \<Rightarrow> Inl NullPointer
      | Some co \<Rightarrow>
          if \<not> m_stack co then Inl AssertFailed
          else if m_state co \<in> {INIT, TERMINAL, EXCEPT} then
            let n = s_co_id w + 1 in
            Inr (True, upd_co c (\<lambda>co. co\<lparr>m_fn := True, m_id := n, m_state := INIT, m_ctx := c\<rparr>) (w\<lparr>s_co_id := n\<rparr>))
          else Inr (False, w))"

text \<open>
  The destructor, which the last shared pointer runs. The main coroutine is destroyed by the end
  of its thread.
\<close>

definition Coroutine_delete :: "nat \<Rightarrow> nat \<Rightarrow> world \<Rightarrow> world" where
  "Coroutine_delete t c w =
     (case cos w c of
        None \<Rightarrow> w
      | Some co \<Rightarrow>
          (let w1 = (if m_stack co then w
                     else upd_local t (\<lambda>l. l\<lparr>s_t_main_co := None, s_t_running_co := None\<rparr>) w)
           in w1\<lparr>cos := (cos w1)(c := None), s_co_cnt := s_co_cnt w1 - 1\<rparr>))"

section \<open>Worlds that are reached\<close>

definition initial :: world where
  "initial = \<lparr>cos = Map.empty, next_co = 0, s_co_id = 0, s_co_cnt = 0,
     locals = \<lambda>t. \<lparr>s_t_running_co = None, s_t_main_co = None, on_stack = 0\<rparr>\<rparr>"

text \<open>
  The operations as the library uses them: only the main coroutine resumes, and it resumes
  coroutines with a stack of their own.
\<close>

inductive co_step :: "nat \<Rightarrow> world \<Rightarrow> world \<Rightarrow> bool" where
  step_new: "Coroutine_new d t n w = (c, w') \<Longrightarrow> co_step t w w'"
| step_resume: "resume t c w = Inr w' \<Longrightarrow> running w t = main_co w t \<Longrightarrow> cos w c = Some co \<Longrightarrow> m_stack co \<Longrightarrow> co_step t w w'"
| step_yield: "Yield t w = Inr w' \<Longrightarrow> co_step t w w'"
| step_end: "Run_end t threw w = Inr w' \<Longrightarrow> running w t \<noteq> main_co w t \<Longrightarrow> co_step t w w'"
| step_delete: "\<forall>u. running w u \<noteq> Some c \<and> main_co w u \<noteq> Some c \<Longrightarrow> cos w c = Some co \<Longrightarrow> m_stack co \<Longrightarrow> co_step t w (Coroutine_delete t c w)"
| step_exit: "running w t = Some m \<Longrightarrow> main_co w t = Some m \<Longrightarrow> co_step t w (Coroutine_delete t m w)"
| step_reset: "co_reset c w = Inr (b, w') \<Longrightarrow> co_step t w w'"

inductive co_reach :: "world \<Rightarrow> bool" where
  reach_initial: "co_reach initial"
| reach_step: "co_reach w \<Longrightarrow> co_step t w w' \<Longrightarrow> co_reach w'"

section \<open>The invariant\<close>

text \<open>
  The running coroutine is in state \<open>RUNNING\<close> and the thread executes on its stack; while another
  coroutine runs, the main one waits in state \<open>YIELD\<close> with its own stack saved.
\<close>

definition thread_ok :: "world \<Rightarrow> nat \<Rightarrow> bool" where
  "thread_ok w t \<longleftrightarrow>
     (case (main_co w t, running w t) of
        (None, None) \<Rightarrow> True
      | (Some m, Some r) \<Rightarrow>
          (case (cos w m, cos w r) of
             (Some M, Some R) \<Rightarrow> \<not> m_stack M \<and> on_stack (locals w t) = r \<and> m_state R = RUNNING \<and>
               (r \<noteq> m \<longrightarrow> m_stack R \<and> m_state M = YIELD \<and> m_ctx M = m)
           | _ \<Rightarrow> False)
      | _ \<Rightarrow> False)"

definition co_ok :: "world \<Rightarrow> nat \<Rightarrow> bool" where
  "co_ok w c \<longleftrightarrow>
     (case cos w c of
        None \<Rightarrow> True
      | Some C \<Rightarrow> c < next_co w \<and>
          (m_stack C \<longrightarrow> (m_state C \<in> {INIT, YIELD} \<longrightarrow> m_ctx C = c) \<and> (m_state C = RUNNING \<longrightarrow> (\<exists>t. running w t = Some c))))"

definition apart :: "world \<Rightarrow> bool" where
  "apart w \<longleftrightarrow> (\<forall>t u. running w t \<noteq> None \<and> running w t = running w u \<longrightarrow> t = u) \<and>
     (\<forall>t u. main_co w t \<noteq> None \<and> main_co w t = main_co w u \<longrightarrow> t = u)"

definition co_inv :: "world \<Rightarrow> bool" where
  "co_inv w \<longleftrightarrow> (\<forall>t. thread_ok w t) \<and> (\<forall>c. co_ok w c) \<and> apart w"

definition counted :: "world \<Rightarrow> bool" where
  "counted w \<longleftrightarrow> finite (dom (cos w)) \<and> s_co_cnt w = int (card (dom (cos w)))"

lemmas co_defs = upd_co_def upd_local_def swapcontext_def after_resume_def Let_def

lemma co_inv_D:
  assumes "co_inv w"
  shows "thread_ok w t" "co_ok w c" "apart w"
  using assms by (simp_all add: co_inv_def)

text \<open>The coroutines a thread refers to are not those of another thread.\<close>

lemma threads_apart:
  assumes "co_inv w" "u \<noteq> t" "main_co w t = Some c \<or> running w t = Some c"
  shows "main_co w u \<noteq> Some c \<and> running w u \<noteq> Some c"
proof -
  have "main_co w t \<noteq> None \<longrightarrow> main_co w u \<noteq> main_co w t" "running w t \<noteq> None \<longrightarrow> running w u \<noteq> running w t"
    using co_inv_D(3) [OF assms(1)] assms(2) unfolding apart_def by metis+
  then show ?thesis
    using co_inv_D(1) [OF assms(1), of t] co_inv_D(1) [OF assms(1), of u] assms(3)
    by (auto simp: thread_ok_def split: option.splits)
qed

lemma thread_ok_frame:
  assumes "thread_ok w u" "locals w' u = locals w u"
    "\<And>c. main_co w u = Some c \<or> running w u = Some c \<Longrightarrow> cos w' c = cos w c"
  shows "thread_ok w' u"
  using assms by (auto simp: thread_ok_def split: option.splits)

lemma co_ok_frame:
  assumes "co_ok w e" "cos w' e = cos w e" "next_co w \<le> next_co w'"
    "\<And>u co. running w u = Some e \<Longrightarrow> cos w e = Some co \<Longrightarrow> m_stack co \<Longrightarrow> running w' u = Some e"
  shows "co_ok w' e"
  using assms by (auto simp: co_ok_def split: option.splits)

lemma thread_E:
  assumes "co_inv w" "main_co w t = Some m"
  obtains r M R where "running w t = Some r" "cos w m = Some M" "cos w r = Some R" "\<not> m_stack M"
    "on_stack (locals w t) = r" "m_state R = RUNNING"
    "r \<noteq> m \<longrightarrow> m_stack R \<and> m_state M = YIELD \<and> m_ctx M = m"
  using co_inv_D(1) [OF assms(1), of t] assms(2)
  by (auto simp: thread_ok_def split: option.splits)

text \<open>A step of a thread changes the coroutines it refers to and coroutines that do not run.\<close>

lemma co_inv_step:
  assumes inv: "co_inv w"
    and other: "\<And>u. u \<noteq> t \<Longrightarrow> locals w' u = locals w u"
    and same: "\<And>c u. u \<noteq> t \<Longrightarrow> main_co w u = Some c \<or> running w u = Some c \<Longrightarrow> cos w' c = cos w c"
    and own: "thread_ok w' t" "\<And>c. co_ok w' c"
    and fresh: "\<And>c u. u \<noteq> t \<Longrightarrow> main_co w' t = Some c \<Longrightarrow> main_co w u \<noteq> Some c"
      "\<And>c u. u \<noteq> t \<Longrightarrow> running w' t = Some c \<Longrightarrow> running w u \<noteq> Some c"
  shows "co_inv w'"
proof -
  have "thread_ok w' u" for u
    using thread_ok_frame [OF co_inv_D(1) [OF inv, of u], of w'] other same own(1) by (cases "u = t") auto
  moreover have "apart w'"
    using co_inv_D(3) [OF inv] other fresh unfolding apart_def by (metis option.exhaust)
  ultimately show ?thesis using own(2) by (simp add: co_inv_def)
qed

lemma co_inv_resume:
  assumes "co_inv w" "resume t c w = Inr w'" "running w t = main_co w t" "cos w c = Some co" "m_stack co"
  shows "co_inv w'"
proof -
  obtain m where m: "main_co w t = Some m" "m_state co \<in> {INIT, YIELD}"
    using assms(2,4) by (auto simp: resume_def split: option.splits if_splits)
  obtain M where M: "cos w m = Some M" "\<not> m_stack M" "on_stack (locals w t) = m"
    using thread_E [OF assms(1) m(1)] assms(3) m(1) by (metis option.inject)
  have cm: "c \<noteq> m" using M assms(4,5) by auto
  have ctx: "m_ctx co = c" "c < next_co w" using co_inv_D(2) [OF assms(1), of c] assms(4,5) m(2) by (auto simp: co_ok_def)
  have run: "running w u \<noteq> Some c \<and> main_co w u \<noteq> Some c" for u
    using co_inv_D(1) [OF assms(1), of u] assms(4,5) m(2) by (auto simp: thread_ok_def split: option.splits)
  have w': "w' = w\<lparr>cos := (cos w)(m \<mapsto> M\<lparr>m_state := YIELD, m_ctx := m\<rparr>, c \<mapsto> co\<lparr>m_state := RUNNING\<rparr>),
      locals := (locals w)(t := (locals w t)\<lparr>s_t_running_co := Some c, on_stack := c\<rparr>)\<rparr>"
    using assms(2) cm m M assms(4) ctx by (auto simp: resume_def co_defs fun_eq_iff)
  show ?thesis
  proof (rule co_inv_step [OF assms(1), where t = t])
    show "co_ok w' e" for e
    proof (cases "e = c \<or> e = m")
      case True
      then show ?thesis
        using co_inv_D(2) [OF assms(1), of m] M cm ctx by (auto simp: w' co_ok_def)
    next
      case False
      then show ?thesis
        using m assms(3) by (intro co_ok_frame [OF co_inv_D(2) [OF assms(1)]]) (auto simp: w')
    qed
  qed (use threads_apart [OF assms(1), of _ t m] m run assms(3-5) cm M in \<open>auto simp: w' thread_ok_def\<close>)
qed


text \<open>Leaving a coroutine for the main one, by \<^verbatim>\<open>yield\<close> or at its end.\<close>

lemma co_inv_leave:
  assumes inv: "co_inv w" and t: "running w t = Some r" "main_co w t = Some m" "r \<noteq> m"
    and f: "\<And>co. m_stack (f co) = m_stack co" "\<And>co. m_state (f co) \<in> {YIELD, TERMINAL, EXCEPT}"
  shows "co_inv (after_resume t m (swapcontext t r m (upd_co r f w)))" (is "co_inv ?w")
proof -
  obtain M R where M: "cos w m = Some M" "cos w r = Some R" "\<not> m_stack M"
    "on_stack (locals w t) = r" "m_stack R" "m_ctx M = m"
    using thread_E [OF inv t(2)] t by (metis option.inject)
  have w': "?w = w\<lparr>cos := (cos w)(m \<mapsto> M\<lparr>m_state := RUNNING\<rparr>, r \<mapsto> (f R)\<lparr>m_ctx := r\<rparr>),
      locals := (locals w)(t := (locals w t)\<lparr>s_t_running_co := Some m, on_stack := m\<rparr>)\<rparr>"
    using t(3) M by (auto simp: co_defs fun_eq_iff)
  show ?thesis
  proof (rule co_inv_step [OF inv, where t = t])
    show "co_ok ?w e" for e
    proof (cases "e = r \<or> e = m")
      case True
      then show ?thesis
        using co_inv_D(2) [OF inv, of m] co_inv_D(2) [OF inv, of r] M t(3) f(2) [of R] f(1) [of R] by (auto simp: w' co_ok_def)
    next
      case False
      then show ?thesis
        using t M(2,5) by (intro co_ok_frame [OF co_inv_D(2) [OF inv]]) (auto simp: w')
    qed
  qed (use threads_apart [OF inv, of _ t m] threads_apart [OF inv, of _ t r] t M in \<open>auto simp: w' thread_ok_def\<close>)
qed

lemma Yield_leaves:
  assumes "running w t = Some r" "main_co w t = Some m" "r \<noteq> m" "cos w m = Some M"
  shows "Yield t w = Inr (after_resume t m (swapcontext t r m (upd_co r (\<lambda>co. co\<lparr>m_state := YIELD\<rparr>) w)))"
  using assms by (auto simp: Yield_def co_defs fun_eq_iff)

lemma co_inv_yield:
  assumes "co_inv w" "Yield t w = Inr w'"
  shows "co_inv w'"
proof (cases "running w t")
  case None
  then show ?thesis using assms by (simp add: Yield_def)
next
  case (Some r)
  then obtain m where m: "main_co w t = Some m" "r \<noteq> m" using assms(2) by (auto simp: Yield_def split: option.splits if_splits)
  obtain M where M: "cos w m = Some M" using thread_E [OF assms(1) m(1)] by metis
  have "w' = after_resume t m (swapcontext t r m (upd_co r (\<lambda>co. co\<lparr>m_state := YIELD\<rparr>) w))"
    using assms(2) Yield_leaves [OF Some m M] by simp
  then show ?thesis using co_inv_leave [OF assms(1) Some m] by simp
qed

lemma co_inv_end:
  assumes "co_inv w" "Run_end t threw w = Inr w'" "running w t \<noteq> main_co w t"
  shows "co_inv w'"
proof -
  obtain r m where t: "running w t = Some r" "main_co w t = Some m" "r \<noteq> m"
    and w': "w' = after_resume t m (swapcontext t r m (upd_co r (\<lambda>co. if threw then co\<lparr>m_state := EXCEPT\<rparr> else co\<lparr>m_fn := False, m_state := TERMINAL\<rparr>) w))"
    using assms(2,3) by (auto simp: Run_end_def Let_def split: option.splits)
  show ?thesis unfolding w' by (rule co_inv_leave [OF assms(1) t]) auto
qed

lemma next_co_fresh:
  assumes "co_inv w" "next_co w \<le> c"
  shows "cos w c = None" "main_co w t \<noteq> Some c" "running w t \<noteq> Some c"
  using co_inv_D(2) [OF assms(1), of c] co_inv_D(1) [OF assms(1), of t] assms(2)
  by (auto simp: co_ok_def thread_ok_def split: option.splits)

lemma co_inv_new_with_main:
  assumes "co_inv w" "main_co w t = Some m" "Coroutine_new d t n w = (c, w')"
  shows "co_inv w'"
proof (rule co_inv_step [OF assms(1), where t = t])
  have w': "c = next_co w" "locals w' = locals w" "next_co w' = next_co w + 1"
    "\<And>e. e \<noteq> c \<Longrightarrow> cos w' e = cos w e" "\<exists>C. cos w' c = Some C \<and> m_state C = INIT \<and> m_ctx C = c"
    using assms(2,3) by (auto simp: Coroutine_new_def Let_def)
  note f = next_co_fresh [OF assms(1), of c]
  show "co_ok w' e" for e
    using co_ok_frame [OF co_inv_D(2) [OF assms(1)], where w' = w' and e = e] w' by (cases "e = c") (auto simp: co_ok_def)
  show "cos w' e = cos w e" if "main_co w u = Some e \<or> running w u = Some e" for e u
    using f w' that by force
  then show "thread_ok w' t" using thread_ok_frame [OF co_inv_D(1) [OF assms(1), of t], of w'] w' by simp
qed (use assms threads_apart [OF assms(1), of _ t] in \<open>auto simp: Coroutine_new_def Let_def\<close>)

lemma co_inv_main:
  assumes "co_inv w" "main_co w t = None" "Coroutine_main t w = (m, w')"
  shows "co_inv (upd_local t (\<lambda>l. l\<lparr>s_t_main_co := Some m, s_t_running_co := Some m, on_stack := m\<rparr>) w')" (is "co_inv ?w")
proof (rule co_inv_step [OF assms(1), where t = t])
  have w': "m = next_co w" "\<And>u. u \<noteq> t \<Longrightarrow> locals ?w u = locals w u" "next_co ?w = next_co w + 1" "main_co ?w t = Some m"
    "running ?w t = Some m" "on_stack (locals ?w t) = m"
    "\<And>e. e \<noteq> m \<Longrightarrow> cos ?w e = cos w e" "\<exists>C. cos ?w m = Some C \<and> m_state C = RUNNING \<and> m_ctx C = m \<and> \<not> m_stack C"
    using assms(2,3) by (auto simp: Coroutine_main_def Let_def upd_local_def)
  note f = next_co_fresh [OF assms(1), of m]
  have run: "running w t = None" using co_inv_D(1) [OF assms(1), of t] assms(2) by (auto simp: thread_ok_def split: option.splits)
  show "locals ?w u = locals w u" if "u \<noteq> t" for u using w'(2) that .
  show "co_ok ?w e" for e
  proof (cases "e = m")
    case True
    then show ?thesis using w'(1,3,8) by (auto simp: co_ok_def)
  next
    case False
    have "running ?w u = Some e" if "running w u = Some e" for u
      using that run w'(2) [of u] by (cases "u = t") auto
    then show ?thesis using False w'(3,7) by (intro co_ok_frame [OF co_inv_D(2) [OF assms(1)]]) auto
  qed
  show "cos ?w e = cos w e" if "main_co w u = Some e \<or> running w u = Some e" for e u
    using f w' that by force
  show "thread_ok ?w t" using w'(4-6,8) by (auto simp: thread_ok_def)
  show "main_co w u \<noteq> Some e" if "main_co ?w t = Some e" for e u using f w' that by auto
  show "running w u \<noteq> Some e" if "running ?w t = Some e" for e u using f w' that by auto
qed

lemma co_inv_new:
  assumes "co_inv w" "Coroutine_new d t n w = (c, w')"
  shows "co_inv w'"
proof (cases "main_co w t")
  case None
  obtain m v where v: "Coroutine_main t w = (m, v)" by fastforce
  let ?v = "upd_local t (\<lambda>l. l\<lparr>s_t_main_co := Some m, s_t_running_co := Some m, on_stack := m\<rparr>) v"
  have m: "main_co ?v t = Some m" by (simp add: upd_local_def)
  have "Coroutine_new d t n ?v = (c, w')" using assms(2) None v m by (simp add: Coroutine_new_def)
  then show ?thesis using co_inv_new_with_main co_inv_main [OF assms(1) None v] m by blast
next
  case (Some m)
  then show ?thesis using co_inv_new_with_main assms by blast
qed

lemma co_inv_reset:
  assumes "co_inv w" "co_reset c w = Inr (b, w')"
  shows "co_inv w'"
proof (cases b)
  case True
  then obtain C where C: "cos w c = Some C" "m_stack C" "m_state C \<in> {INIT, TERMINAL, EXCEPT}"
    using assms(2) by (auto simp: co_reset_def split: option.splits if_splits)
  have w': "locals w' = locals w" "next_co w' = next_co w" "\<And>e. e \<noteq> c \<Longrightarrow> cos w' e = cos w e"
    "\<exists>D. cos w' c = Some D \<and> m_stack D \<and> m_ctx D = c \<and> m_state D = INIT"
    using assms(2) C by (auto simp: co_reset_def co_defs)
  have run: "running w u \<noteq> Some c \<and> main_co w u \<noteq> Some c" for u
    using co_inv_D(1) [OF assms(1), of u] C by (auto simp: thread_ok_def split: option.splits)
  show ?thesis
  proof (rule co_inv_step [OF assms(1), where t = 0])
    show "co_ok w' e" for e
      using co_ok_frame [OF co_inv_D(2) [OF assms(1)], where w' = w' and e = e] co_inv_D(2) [OF assms(1), of c] w' C
      by (cases "e = c") (auto simp: co_ok_def)
    show "cos w' e = cos w e" if "main_co w u = Some e \<or> running w u = Some e" for e u
      using run w' that by force
    then show "thread_ok w' 0" using thread_ok_frame [OF co_inv_D(1) [OF assms(1), of 0], of w'] w' by simp
  qed (use threads_apart [OF assms(1), of _ 0] w' in \<open>auto\<close>)
qed (use assms in \<open>auto simp: co_reset_def Let_def split: option.splits if_splits\<close>)

lemma co_inv_delete:
  assumes "co_inv w" "(\<forall>u. running w u \<noteq> Some c \<and> main_co w u \<noteq> Some c) \<and> cos w c = Some C \<and> m_stack C \<or>
      running w t = Some c \<and> main_co w t = Some c"
  shows "co_inv (Coroutine_delete t c w)" (is "co_inv ?w")
proof (rule co_inv_step [OF assms(1), where t = t])
  have other: "running w u \<noteq> Some c \<and> main_co w u \<noteq> Some c" if "u \<noteq> t" for u
    using assms(2) threads_apart [OF assms(1) that] by blast
  have t: "thread_ok w t" by (rule co_inv_D(1) [OF assms(1)])
  show "locals ?w u = locals w u" if "u \<noteq> t" for u
    using that by (auto simp: Coroutine_delete_def upd_local_def Let_def split: option.splits)
  show "cos ?w e = cos w e" if "u \<noteq> t" "main_co w u = Some e \<or> running w u = Some e" for e u
    using other [OF that(1)] that(2) by (auto simp: Coroutine_delete_def upd_local_def Let_def split: option.splits)
  show "thread_ok ?w t"
    using t assms(2) by (auto simp: Coroutine_delete_def upd_local_def Let_def thread_ok_def split: option.splits)
  show "main_co w u \<noteq> Some e" if "u \<noteq> t" "main_co ?w t = Some e" for e u
    using that threads_apart [OF assms(1) that(1), of e]
    by (auto simp: Coroutine_delete_def upd_local_def Let_def split: option.splits if_splits)
  show "running w u \<noteq> Some e" if "u \<noteq> t" "running ?w t = Some e" for e u
    using that threads_apart [OF assms(1) that(1), of e]
    by (auto simp: Coroutine_delete_def upd_local_def Let_def split: option.splits if_splits)
  show "co_ok ?w e" for e
  proof (cases "e = c")
    case True
    then show ?thesis by (auto simp: Coroutine_delete_def co_ok_def Let_def upd_local_def split: option.splits)
  next
    case False
    then show ?thesis using t assms(2)
      by (intro co_ok_frame [OF co_inv_D(2) [OF assms(1)]])
        (auto simp: Coroutine_delete_def upd_local_def Let_def thread_ok_def split: option.splits)
  qed
qed

lemma co_inv_initial: "co_inv initial"
  by (auto simp: co_inv_def initial_def thread_ok_def co_ok_def apart_def)

lemma co_step_inv: "co_step t w w' \<Longrightarrow> co_inv w \<Longrightarrow> co_inv w'"
  by (induction rule: co_step.induct)
    (blast intro: co_inv_new co_inv_resume co_inv_yield co_inv_end co_inv_reset co_inv_delete)+

lemma co_reach_inv: "co_reach w \<Longrightarrow> co_inv w"
  by (induction rule: co_reach.induct) (auto intro: co_inv_initial co_step_inv)

section \<open>The number of coroutines\<close>

lemma counted_same: "counted w \<Longrightarrow> dom (cos w') = dom (cos w) \<Longrightarrow> s_co_cnt w' = s_co_cnt w \<Longrightarrow> counted w'"
  by (simp add: counted_def)

lemma counted_insert:
  "counted w \<Longrightarrow> cos w c = None \<Longrightarrow> cos w' = (cos w)(c \<mapsto> C) \<Longrightarrow> s_co_cnt w' = s_co_cnt w + 1 \<Longrightarrow> counted w'"
  by (auto simp: counted_def domIff)

lemma upd_frame [simp]:
  "dom (cos (upd_co c f w)) = dom (cos w)" "s_co_cnt (upd_co c f w) = s_co_cnt w"
  "dom (cos (upd_local t g w)) = dom (cos w)" "s_co_cnt (upd_local t g w) = s_co_cnt w"
  "dom (cos (swapcontext t a b w)) = dom (cos w)" "s_co_cnt (swapcontext t a b w) = s_co_cnt w"
  "dom (cos (after_resume t a w)) = dom (cos w)" "s_co_cnt (after_resume t a w) = s_co_cnt w"
  by (auto simp: co_defs)

lemma counted_new:
  assumes "counted w" "co_inv w" "Coroutine_new d t n w = (c, w')"
  shows "counted w'"
proof -
  have fresh: "cos w (next_co w) = None" "cos w (Suc (next_co w)) = None" using next_co_fresh(1) [OF assms(2)] by auto
  show ?thesis
    using assms(1,3) fresh by (auto simp: Coroutine_new_def Coroutine_main_def Let_def counted_def upd_local_def domIff split: option.splits)
qed

lemma counted_delete: "counted w \<Longrightarrow> counted (Coroutine_delete t c w)"
proof -
  have "int (card (A - {c})) = int (card A) - 1" if "finite A" "c \<in> A" for A :: "nat set"
    using that card.remove [of A c] by simp
  then show "counted w \<Longrightarrow> counted (Coroutine_delete t c w)"
    by (auto simp: Coroutine_delete_def counted_def upd_local_def Let_def domI split: option.splits)
qed

lemma co_step_counted: "co_step t w w' \<Longrightarrow> counted w \<Longrightarrow> co_inv w \<Longrightarrow> counted w'"
proof (induction rule: co_step.induct)
  case (step_resume t c w w' co)
  then show ?case by (auto simp: resume_def Let_def counted_def split: option.splits if_splits)
next
  case (step_yield t w w')
  then show ?case by (auto simp: Yield_def Let_def counted_def split: option.splits if_splits)
next
  case (step_end t threw w w')
  then show ?case by (auto simp: Run_end_def Let_def counted_def split: option.splits if_splits)
next
  case (step_reset c w b w' t)
  then show ?case by (auto simp: co_reset_def Let_def counted_def split: option.splits if_splits)
qed (auto intro: counted_new counted_delete)

lemma co_reach_counted: "co_reach w \<Longrightarrow> counted w"
proof (induction rule: co_reach.induct)
  case reach_initial
  then show ?case by (simp add: initial_def counted_def)
next
  case (reach_step w t w')
  then show ?case using co_step_counted co_reach_inv by blast
qed

section \<open>Theorems\<close>


text \<open>Two threads, each of which resumed a coroutine of its own.\<close>

abbreviation co_then :: "co_error + world \<Rightarrow> (world \<Rightarrow> world) \<Rightarrow> world" where
  "co_then r f \<equiv> (case r of Inr w \<Rightarrow> f w | Inl e \<Rightarrow> initial)"

definition one_running :: world where
  "one_running = co_then (resume 0 1 (snd (Coroutine_new 131072 0 0 initial))) id"

definition two_running :: world where
  "two_running = co_then (resume 1 3 (snd (Coroutine_new 131072 1 4096 one_running))) id"

lemmas co_ops = Coroutine_new_def Coroutine_main_def resume_def Yield_def Run_end_def co_defs initial_def

lemma reach_new: "co_reach w \<Longrightarrow> co_reach (snd (Coroutine_new d t n w))"
  by (metis reach_step step_new surjective_pairing)

lemma reach_resume:
  "co_reach w \<Longrightarrow> running w t = main_co w t \<Longrightarrow> main_co w t \<noteq> None \<Longrightarrow>
   (case cos w c of None \<Rightarrow> False | Some co \<Rightarrow> m_stack co \<and> m_state co = INIT) \<Longrightarrow> co_reach (co_then (resume t c w) id)"
  using reach_step [OF _ step_resume, of w t c] by (fastforce simp: resume_def Let_def split: option.splits)

lemma two_running_reached: "co_reach two_running"
  unfolding two_running_def one_running_def
  by (intro reach_resume reach_new reach_initial) (simp_all add: co_ops)


text \<open>
  The main coroutine gets control back. A coroutine with a stack that is new or has yielded
  is resumed and then the thread executes on its stack; when it yields, or returns, or throws,
  the thread is on the stack of the main coroutine again, all other coroutines and threads are as
  before, and the coroutine is in the state that tells the scheduler what to do with it. A
  coroutine that ended can be reset and is new again, with a new id.
\<close>

theorem resume_returns:
  assumes "co_reach w" "main_co w t = Some m" "running w t = Some m"
    "cos w c = Some co" "m_stack co" "m_state co \<in> {INIT, YIELD}"
  shows "\<exists>w1 M. resume t c w = Inr w1 \<and> running w1 t = Some c \<and> on_stack (locals w1 t) = c \<and>
    cos w m = Some M \<and>
    Yield t w1 = Inr (w\<lparr>cos := (cos w)(m \<mapsto> M\<lparr>m_ctx := m\<rparr>, c \<mapsto> co\<lparr>m_state := YIELD\<rparr>)\<rparr>) \<and>
    Run_end t True w1 = Inr (w\<lparr>cos := (cos w)(m \<mapsto> M\<lparr>m_ctx := m\<rparr>, c \<mapsto> co\<lparr>m_state := EXCEPT\<rparr>)\<rparr>) \<and>
    Run_end t False w1 = Inr (w\<lparr>cos := (cos w)(m \<mapsto> M\<lparr>m_ctx := m\<rparr>, c \<mapsto> co\<lparr>m_fn := False, m_state := TERMINAL\<rparr>)\<rparr>) \<and>
    (\<forall>threw w2. Run_end t threw w1 = Inr w2 \<longrightarrow>
       co_reset c w2 = Inr (True, w2\<lparr>s_co_id := s_co_id w + 1,
         cos := (cos w2)(c \<mapsto> co\<lparr>m_fn := True, m_id := s_co_id w + 1, m_state := INIT\<rparr>)\<rparr>))"
proof -
  note inv = co_reach_inv [OF assms(1)]
  obtain M where M: "cos w m = Some M" "\<not> m_stack M" "on_stack (locals w t) = m" "m_state M = RUNNING"
    using thread_E [OF inv assms(2)] assms(3) by (metis option.inject)
  have cm: "c \<noteq> m" using M assms(4,5) by auto
  have ctx: "m_ctx co = c" using co_inv_D(2) [OF inv, of c] assms(4-6) by (auto simp: co_ok_def)
  have l: "(locals w t)\<lparr>on_stack := m, s_t_running_co := Some m\<rparr> = locals w t" "w\<lparr>cos := X, locals := locals w\<rparr> = w\<lparr>cos := X\<rparr>" for X
    using assms(2,3) M(3) by auto
  have up: "M\<lparr>m_ctx := m, m_state := RUNNING\<rparr> = M\<lparr>m_ctx := m\<rparr>"
    "co\<lparr>m_state := RUNNING, m_state := s, m_ctx := c\<rparr> = co\<lparr>m_state := s\<rparr>"
    "co\<lparr>m_state := RUNNING, m_fn := b, m_state := s, m_ctx := c\<rparr> = co\<lparr>m_fn := b, m_state := s\<rparr>" for s b using M(4) ctx by auto
  let ?w1 = "w\<lparr>cos := (cos w)(m \<mapsto> M\<lparr>m_state := YIELD, m_ctx := m\<rparr>, c \<mapsto> co\<lparr>m_state := RUNNING\<rparr>),
      locals := (locals w)(t := (locals w t)\<lparr>s_t_running_co := Some c, on_stack := c\<rparr>)\<rparr>"
  have r: "resume t c w = Inr ?w1"
    using cm assms(2-6) M ctx by (auto simp: resume_def co_defs fun_eq_iff)
  have y: "after_resume t m (swapcontext t c m (upd_co c f ?w1)) =
      w\<lparr>cos := (cos w)(m \<mapsto> M\<lparr>m_ctx := m\<rparr>, c \<mapsto> (f (co\<lparr>m_state := RUNNING\<rparr>))\<lparr>m_ctx := c\<rparr>)\<rparr>" for f
    using cm assms(2,3) M by (simp add: co_defs fun_upd_twist l up(1))
  have e: "Run_end t threw ?w1 = Inr (w\<lparr>cos := (cos w)(m \<mapsto> M\<lparr>m_ctx := m\<rparr>, c \<mapsto>
      (if threw then co\<lparr>m_state := EXCEPT\<rparr> else co\<lparr>m_fn := False, m_state := TERMINAL\<rparr>))\<rparr>)" for threw
    using y [of "\<lambda>co. if threw then co\<lparr>m_state := EXCEPT\<rparr> else co\<lparr>m_fn := False, m_state := TERMINAL\<rparr>"] assms(2) up(2,3)
    by (cases threw) (simp_all add: Run_end_def)
  have "Yield t ?w1 = Inr (w\<lparr>cos := (cos w)(m \<mapsto> M\<lparr>m_ctx := m\<rparr>, c \<mapsto> co\<lparr>m_state := YIELD\<rparr>)\<rparr>)"
    using cm assms(2) y [of "\<lambda>co. co\<lparr>m_state := YIELD\<rparr>"] by (subst Yield_leaves [where r = c and m = m]) (auto simp: up(2) [of YIELD, simplified])
  moreover have "co_reset c w2 = Inr (True, w2\<lparr>s_co_id := s_co_id w + 1,
         cos := (cos w2)(c \<mapsto> co\<lparr>m_fn := True, m_id := s_co_id w + 1, m_state := INIT\<rparr>)\<rparr>)" if "Run_end t threw ?w1 = Inr w2" for threw w2
    using that assms(5) ctx by (cases threw) (auto simp: e co_reset_def co_defs)
  ultimately show ?thesis using r M(1) e by (intro exI [of _ ?w1] exI [of _ M]) simp
qed

theorem resume_returns_witness:
  "\<exists>w1. resume 0 1 (snd (Coroutine_new 131072 0 0 initial)) = Inr w1 \<and> running w1 0 = Some 1 \<and>
     (\<exists>w2 co. Yield 0 w1 = Inr w2 \<and> cos w2 1 = Some co \<and> m_state co = YIELD \<and> running w2 0 = Some 0)"
  using resume_returns [OF reach_new [OF reach_initial, of 131072 0 0], of 0 0 1] by (fastforce simp: co_ops)

text \<open>
  Resuming from a coroutine that is not the main one confuses the two. When the resumed
  coroutine yields, the thread continues on the stack of the coroutine that resumed it, but the
  main coroutine counts as running; the next \<^verbatim>\<open>yield\<close> there fails with an assertion, and the
  coroutine stays in state \<open>RUNNING\<close>.
\<close>

theorem nested_resume:
  assumes "co_reach w" "main_co w t = Some m" "running w t = Some r" "r \<noteq> m"
    "cos w c = Some co" "m_stack co" "m_state co \<in> {INIT, YIELD}"
  shows "\<exists>w1 w2 R. resume t c w = Inr w1 \<and> Yield t w1 = Inr w2 \<and>
    on_stack (locals w2 t) = r \<and> GetRunningCo t w2 = Some m \<and> Yield t w2 = Inl AssertFailed \<and>
    cos w2 r = Some R \<and> m_state R = RUNNING"
proof -
  note inv = co_reach_inv [OF assms(1)]
  obtain M R where M: "cos w m = Some M" "cos w r = Some R" "\<not> m_stack M" "on_stack (locals w t) = r" "m_state R = RUNNING"
    using thread_E [OF inv assms(2)] assms(3) by (metis option.inject)
  have cm: "c \<noteq> m" "c \<noteq> r" using M assms(5-7) by auto
  have ctx: "m_ctx co = c" using co_inv_D(2) [OF inv, of c] assms(5-7) by (auto simp: co_ok_def)
  have "resume t c w = Inr (w\<lparr>cos := (cos w)(m \<mapsto> M\<lparr>m_state := YIELD, m_ctx := r\<rparr>, c \<mapsto> co\<lparr>m_state := RUNNING\<rparr>),
      locals := (locals w)(t := (locals w t)\<lparr>s_t_running_co := Some c, on_stack := c\<rparr>)\<rparr>)"
    using cm assms(2-7) M ctx by (auto simp: resume_def co_defs fun_eq_iff)
  then show ?thesis
    using cm assms(2-7) M ctx by (auto simp: Yield_leaves [where r = c and m = m] co_defs GetRunningCo_def Yield_def)
qed

theorem nested_resume_witness:
  "\<exists>w1 w2 R. resume 0 2 (snd (Coroutine_new 131072 0 0 one_running)) = Inr w1 \<and> Yield 0 w1 = Inr w2 \<and>
     on_stack (locals w2 0) = 1 \<and> GetRunningCo 0 w2 = Some 0 \<and> Yield 0 w2 = Inl AssertFailed \<and>
     cos w2 1 = Some R \<and> m_state R = RUNNING"
proof -
  have "co_reach (snd (Coroutine_new 131072 0 0 one_running))"
    unfolding one_running_def by (intro reach_resume reach_new reach_initial) (simp_all add: co_ops)
  then show ?thesis
    using nested_resume [of "snd (Coroutine_new 131072 0 0 one_running)" 0 0 1 2] by (simp add: one_running_def co_ops)
qed

end
