(* ===== verification/Scheduler.thy ===== *)
theory Scheduler
  imports Coroutine
begin

text \<open>
  The scheduler, \<^verbatim>\<open>src/scheduler.h\<close> and \<^verbatim>\<open>src/scheduler.cc\<close>: a queue of tasks and threads that run
  \<^verbatim>\<open>Scheduler::run\<close>. A state holds the object, the world of coroutines and, for every thread, the
  place in \<^verbatim>\<open>run\<close> or \<^verbatim>\<open>idle\<close> it has reached; \<open>thread_step\<close> takes one thread to its next place, and
  threads interleave at these places. A place ends where the code takes the lock, reads or
  writes one of the shared counters, waits, or switches context; \<^verbatim>\<open>schedule\<close> and \<^verbatim>\<open>stop\<close> are one
  step each. \<open>accepted\<close>, \<open>taken\<close> and \<open>handled\<close> are records of the past that no operation reads:
  the tasks that \<^verbatim>\<open>schedule\<close> accepted, who took which task out of the queue, and whether the task
  was resumed.
\<close>

section \<open>State\<close>

record Task =
  m_co :: "nat option"
  m_thread_id :: nat

record Scheduler =
  m_name :: string
  m_use_main_thread :: bool
  m_thread_cnt :: u64
  m_main_thread_id :: nat
  m_is_stopping :: bool
  m_is_stopped :: bool
  m_threads :: "string list"
  m_semaphore :: nat
  m_idle_cnt :: nat
  m_tasks :: "Task list"

text \<open>
  Places: before \<^verbatim>\<open>run\<close>, the top of its loop, before and after the tickle of an iteration (with
  the task and the flag \<^verbatim>\<open>need_tickle\<close>), inside a task, inside \<^verbatim>\<open>idle\<close> (top of its loop, before
  counting itself idle, waiting, woken up), and at the end of \<^verbatim>\<open>run\<close>.
\<close>

datatype place =
    Off | Starting | Loop | Chosen "Task option" bool | Decide "Task option" bool | InTask nat
  | IdleTop | IdleInc | IdleWait | IdleWoken | Leaving | LeavingTickle | Left

record sched_state =
  sched :: Scheduler
  co_world :: world
  places :: "nat \<Rightarrow> place"
  idle_co :: "nat \<Rightarrow> nat option"
  accepted :: "Task list"
  taken :: "(nat \<times> Task) list"
  handled :: "(nat \<times> Task \<times> bool) list"

section \<open>Operations\<close>

definition Scheduler_new :: "string \<Rightarrow> bool \<Rightarrow> u64 \<Rightarrow> nat \<Rightarrow> Scheduler" where
  "Scheduler_new name use_main_thread thread_cnt cur =
     \<lparr>m_name = name, m_use_main_thread = use_main_thread,
      m_thread_cnt = (if use_main_thread then thread_cnt - 1 else thread_cnt),
      m_main_thread_id = cur, m_is_stopping = False, m_is_stopped = True, m_threads = [],
      m_semaphore = 0, m_idle_cnt = 0, m_tasks = []\<rparr>"

text \<open>\<^verbatim>\<open>start\<close>: the threads it creates have the ids \<open>tids\<close>; the caller runs too if it is to be used.\<close>

definition start :: "nat list \<Rightarrow> nat \<Rightarrow> Scheduler \<Rightarrow> (nat \<Rightarrow> place) \<Rightarrow> Scheduler \<times> (nat \<Rightarrow> place)" where
  "start tids cur S p =
     (if \<not> m_is_stopped S \<or> m_is_stopping S then (S, p)
      else (S\<lparr>m_is_stopped := False, m_is_stopping := False,
              m_threads := m_threads S @ map (\<lambda>i. m_name S @ show_base 10 (i + 1)) [0..<unat (m_thread_cnt S)]\<rparr>,
            \<lambda>t. if t \<in> set tids \<or> m_use_main_thread S \<and> t = cur then Starting else p t))"

definition tickle :: "Scheduler \<Rightarrow> Scheduler" where
  "tickle S = (if m_idle_cnt S > 0 then S\<lparr>m_semaphore := m_semaphore S + 1\<rparr> else S)"

definition stop :: "Scheduler \<Rightarrow> Scheduler" where
  "stop S = (if m_is_stopped S then S else tickle (S\<lparr>m_is_stopping := True\<rparr>))"

text \<open>
  The constructors of \<^verbatim>\<open>Task\<close>: from a coroutine, from a pointer to one (which is emptied), from
  a function and from a pointer to one. A function becomes a new coroutine of the calling thread.
\<close>

definition Task_co :: "nat option \<Rightarrow> nat \<Rightarrow> Task" where
  "Task_co c tid = \<lparr>m_co = c, m_thread_id = tid\<rparr>"

definition Task_co_ptr :: "nat option \<Rightarrow> nat \<Rightarrow> Task \<times> nat option" where
  "Task_co_ptr c tid = (\<lparr>m_co = c, m_thread_id = tid\<rparr>, None)"

definition Task_fn :: "nat \<Rightarrow> nat \<Rightarrow> nat \<Rightarrow> world \<Rightarrow> Task \<times> world" where
  "Task_fn d cur tid w = (case Coroutine_new d cur 0 w of (c, w') \<Rightarrow> (\<lparr>m_co = Some c, m_thread_id = tid\<rparr>, w'))"

definition Task_fn_ptr :: "nat \<Rightarrow> nat \<Rightarrow> nat \<Rightarrow> world \<Rightarrow> Task \<times> world" where
  "Task_fn_ptr d cur tid w = (case Coroutine_new d cur tid w of (c, w') \<Rightarrow> (\<lparr>m_co = Some c, m_thread_id = tid\<rparr>, w'))"

definition schedule :: "Task \<Rightarrow> Scheduler \<Rightarrow> bool \<times> Scheduler" where
  "schedule v S =
     (if m_is_stopping S then (False, S)
      else let need_tickle = (m_tasks S = []);
               S1 = S\<lparr>m_tasks := m_tasks S @ [v]\<rparr>
           in (True, if need_tickle \<and> m_idle_cnt S1 > 0 then tickle S1 else S1))"

definition schedules :: "Task list \<Rightarrow> Scheduler \<Rightarrow> bool \<times> Scheduler" where
  "schedules vs S =
     (if m_is_stopping S then (False, S)
      else let need_tickle = (m_tasks S = []);
               S1 = S\<lparr>m_tasks := m_tasks S @ vs\<rparr>
           in (True, if need_tickle \<and> m_idle_cnt S1 > 0 then tickle S1 else S1))"

text \<open>
  The search for a task in \<^verbatim>\<open>run\<close>. A task without a coroutine is erased and the loop goes on with
  the iterator that was erased, which is undefined behaviour: the value \<open>None\<close>.
\<close>

fun pick_loop :: "nat \<Rightarrow> Task list \<Rightarrow> (Task option \<times> bool \<times> Task list) option" where
  "pick_loop cur [] = Some (None, False, [])"
| "pick_loop cur (x # xs) =
     (if m_thread_id x \<noteq> 0 \<and> m_thread_id x \<noteq> cur then
        (case pick_loop cur xs of
           None \<Rightarrow> None
         | Some (task, need_tickle, ys) \<Rightarrow> Some (task, True, x # ys))
      else if m_co x = None then None
      else Some (Some x, False, xs))"

definition run_pick :: "nat \<Rightarrow> Scheduler \<Rightarrow> (Task option \<times> bool \<times> Scheduler) option" where
  "run_pick cur S =
     (case pick_loop cur (m_tasks S) of
        None \<Rightarrow> None
      | Some (task, need_tickle, ys) \<Rightarrow>
          Some (task, need_tickle \<or> ys \<noteq> [] \<and> m_idle_cnt S > 0, S\<lparr>m_tasks := ys\<rparr>))"

section \<open>The threads\<close>

datatype outcome = Blocked | Crash | Next sched_state

definition goto :: "nat \<Rightarrow> place \<Rightarrow> sched_state \<Rightarrow> sched_state" where
  "goto t p s = s\<lparr>places := (places s)(t := p)\<rparr>"

definition on_sched :: "(Scheduler \<Rightarrow> Scheduler) \<Rightarrow> sched_state \<Rightarrow> sched_state" where
  "on_sched f s = s\<lparr>sched := f (sched s)\<rparr>"

text \<open>A switch of context: the thread goes to place \<open>p\<close>, or an assertion failed.\<close>

definition switch :: "nat \<Rightarrow> place \<Rightarrow> co_error + world \<Rightarrow> sched_state \<Rightarrow> outcome" where
  "switch t p r s = (case r of Inl e \<Rightarrow> Crash | Inr w \<Rightarrow> Next (goto t p (s\<lparr>co_world := w\<rparr>)))"

definition run_begin :: "nat \<Rightarrow> nat \<Rightarrow> sched_state \<Rightarrow> outcome" where
  "run_begin d t s =
     (case Coroutine_new d t 0 (co_world s) of
        (c, w) \<Rightarrow> Next (goto t Loop (s\<lparr>co_world := w, idle_co := (idle_co s)(t := Some c)\<rparr>)))"

definition run_loop :: "nat \<Rightarrow> sched_state \<Rightarrow> outcome" where
  "run_loop t s =
     (case run_pick t (sched s) of
        None \<Rightarrow> Crash
      | Some (task, need_tickle, S) \<Rightarrow>
          Next (goto t (Chosen task need_tickle)
            (s\<lparr>sched := S, taken := taken s @ (case task of None \<Rightarrow> [] | Some x \<Rightarrow> [(t, x)])\<rparr>)))"

definition handle :: "nat \<Rightarrow> Task \<Rightarrow> bool \<Rightarrow> sched_state \<Rightarrow> sched_state" where
  "handle t x b s = s\<lparr>handled := handled s @ [(t, x, b)]\<rparr>"

definition resume_idle :: "nat \<Rightarrow> sched_state \<Rightarrow> outcome" where
  "resume_idle t s = (case idle_co s t of None \<Rightarrow> Crash | Some c \<Rightarrow> switch t IdleTop (resume t c (co_world s)) s)"

definition run_decide :: "nat \<Rightarrow> Task option \<Rightarrow> bool \<Rightarrow> sched_state \<Rightarrow> outcome" where
  "run_decide t task need_tickle s =
     (case task of
        Some x \<Rightarrow>
          (case m_co x of
             None \<Rightarrow> Crash
           | Some c \<Rightarrow>
               (case cos (co_world s) c of
                  None \<Rightarrow> Crash
                | Some co \<Rightarrow>
                    if m_state co \<in> {INIT, YIELD} then switch t (InTask c) (resume t c (co_world s)) (handle t x True s)
                    else Next (goto t Loop (handle t x False s))))
      | None \<Rightarrow>
          if m_is_stopping (sched s) then
            if t = m_main_thread_id (sched s) \<and> m_thread_cnt (sched s) \<noteq> 0
            then resume_idle t s
            else Next (goto t Leaving s)
          else if need_tickle then Next (goto t Loop s)
          else resume_idle t s)"

text \<open>\<^verbatim>\<open>idle\<close>, a coroutine that waits for the semaphore and yields to \<^verbatim>\<open>run\<close>.\<close>

definition idle_top :: "nat \<Rightarrow> sched_state \<Rightarrow> outcome" where
  "idle_top t s =
     (if m_is_stopping (sched s) then
        if m_main_thread_id (sched s) = t \<and> m_thread_cnt (sched s) > 0 then Next (goto t IdleInc s)
        else switch t Loop (Run_end t False (co_world s)) s
      else Next (goto t IdleInc s))"

definition thread_step :: "nat \<Rightarrow> nat \<Rightarrow> sched_state \<Rightarrow> outcome" where
  "thread_step d t s =
     (case places s t of
        Starting \<Rightarrow> run_begin d t s
      | Loop \<Rightarrow> run_loop t s
      | Chosen task need_tickle \<Rightarrow> Next (goto t (Decide task need_tickle) (if need_tickle then on_sched tickle s else s))
      | Decide task need_tickle \<Rightarrow> run_decide t task need_tickle s
      | IdleTop \<Rightarrow> idle_top t s
      | IdleInc \<Rightarrow> Next (goto t IdleWait (on_sched (\<lambda>S. S\<lparr>m_idle_cnt := m_idle_cnt S + 1\<rparr>) s))
      | IdleWait \<Rightarrow>
          if m_semaphore (sched s) = 0 then Blocked
          else Next (goto t IdleWoken (on_sched (\<lambda>S. S\<lparr>m_semaphore := m_semaphore S - 1\<rparr>) s))
      | IdleWoken \<Rightarrow>
          switch t Loop (Yield t (co_world s)) (on_sched (\<lambda>S. S\<lparr>m_idle_cnt := m_idle_cnt S - 1\<rparr>) s)
      | Leaving \<Rightarrow> Next (goto t LeavingTickle (on_sched (\<lambda>S. S\<lparr>m_thread_cnt := m_thread_cnt S - 1\<rparr>) s))
      | LeavingTickle \<Rightarrow> Next (goto t Left (on_sched tickle s))
      | _ \<Rightarrow> Blocked)"

text \<open>What the tasks and other threads do: schedule, make a coroutine, stop; a task yields or ends.\<close>

definition do_schedule :: "Task \<Rightarrow> sched_state \<Rightarrow> sched_state" where
  "do_schedule x s = (case schedule x (sched s) of
     (ok, S) \<Rightarrow> s\<lparr>sched := S, accepted := accepted s @ (if ok then [x] else [])\<rparr>)"

definition do_schedule_fn :: "(nat \<Rightarrow> nat \<Rightarrow> nat \<Rightarrow> world \<Rightarrow> Task \<times> world) \<Rightarrow> nat \<Rightarrow> nat \<Rightarrow> nat \<Rightarrow> sched_state \<Rightarrow> sched_state" where
  "do_schedule_fn mk d t tid s =
     (if m_is_stopping (sched s) then s
      else case mk d t tid (co_world s) of (x, w) \<Rightarrow> do_schedule x (s\<lparr>co_world := w\<rparr>))"

inductive sched_step :: "nat \<Rightarrow> nat \<Rightarrow> sched_state \<Rightarrow> sched_state \<Rightarrow> bool" where
  step_thread: "thread_step d t s = Next s' \<Longrightarrow> sched_step d t s s'"
| step_schedule: "cos (co_world s) c = Some co \<Longrightarrow> m_stack co \<Longrightarrow> (\<forall>u. idle_co s u \<noteq> Some c) \<Longrightarrow>
    sched_step d t s (do_schedule (Task_co (Some c) tid) s)"
| step_schedule_fn: "mk \<in> {Task_fn, Task_fn_ptr} \<Longrightarrow> places s t = Off \<or> (\<exists>c. places s t = InTask c) \<Longrightarrow>
    sched_step d t s (do_schedule_fn mk d t tid s)"
| step_stop: "sched_step d t s (on_sched stop s)"
| step_task_yields: "places s t = InTask c \<Longrightarrow> Yield t (co_world s) = Inr w \<Longrightarrow>
    sched_step d t s (goto t Loop (s\<lparr>co_world := w\<rparr>))"
| step_task_ends: "places s t = InTask c \<Longrightarrow> Run_end t threw (co_world s) = Inr w \<Longrightarrow>
    sched_step d t s (goto t Loop (s\<lparr>co_world := w\<rparr>))"

definition started :: "string \<Rightarrow> bool \<Rightarrow> u64 \<Rightarrow> nat \<Rightarrow> nat list \<Rightarrow> world \<Rightarrow> sched_state" where
  "started name use_main cnt cur tids w =
     (case start tids cur (Scheduler_new name use_main cnt cur) (\<lambda>t. Off) of
        (S, p) \<Rightarrow> \<lparr>sched = S, co_world = w, places = p, idle_co = \<lambda>t. None, accepted = [], taken = [], handled = []\<rparr>)"

text \<open>
  A start: thread ids are distinct and not 0, as many threads are made as \<^verbatim>\<open>m_thread_cnt\<close> says, and
  the threads that will run the scheduler are not inside a coroutine.
\<close>

definition good_start :: "bool \<Rightarrow> u64 \<Rightarrow> nat \<Rightarrow> nat list \<Rightarrow> world \<Rightarrow> bool" where
  "good_start use_main cnt cur tids w \<longleftrightarrow>
     distinct (cur # tids) \<and> 0 \<notin> set (cur # tids) \<and> cnt \<noteq> 0 \<and>
     unat cnt = length tids + (if use_main then 1 else 0) \<and>
     co_reach w \<and> list_all (\<lambda>t. running w t = main_co w t) (cur # tids)"

inductive sched_reach :: "nat \<Rightarrow> sched_state \<Rightarrow> bool" for d where
  reach_start: "good_start use_main cnt cur tids w \<Longrightarrow> sched_reach d (started name use_main cnt cur tids w)"
| reach_sched: "sched_reach d s \<Longrightarrow> sched_step d t s s' \<Longrightarrow> sched_reach d s'"


section \<open>The queue\<close>

lemma pick_loop_spec:
  "pick_loop cur xs = Some (task, need, ys) \<Longrightarrow>
   (case task of
      None \<Rightarrow> ys = xs \<and> list_all (\<lambda>x. m_thread_id x \<notin> {0, cur}) xs
    | Some x \<Rightarrow> \<exists>as bs. xs = as @ x # bs \<and> ys = as @ bs \<and> m_thread_id x \<in> {0, cur} \<and> m_co x \<noteq> None \<and>
        list_all (\<lambda>a. m_thread_id a \<notin> {0, cur}) as)"
proof (induction xs arbitrary: task need ys)
  case (Cons x xs)
  show ?case
  proof (cases "m_thread_id x \<noteq> 0 \<and> m_thread_id x \<noteq> cur")
    case True
    then obtain n zs where p: "pick_loop cur xs = Some (task, n, zs)" "ys = x # zs"
      using Cons.prems by (auto split: option.splits)
    show ?thesis
    proof (cases task)
      case None
      then show ?thesis using Cons.IH [OF p(1)] p(2) True by simp
    next
      case (Some y)
      then obtain as bs where "xs = as @ y # bs" "zs = as @ bs" "m_thread_id y \<in> {0, cur}" "m_co y \<noteq> None"
        "list_all (\<lambda>a. m_thread_id a \<notin> {0, cur}) as"
        using Cons.IH [OF p(1)] by auto
      then have "x # xs = (x # as) @ y # bs \<and> ys = (x # as) @ bs \<and> m_thread_id y \<in> {0, cur} \<and> m_co y \<noteq> None \<and>
        list_all (\<lambda>a. m_thread_id a \<notin> {0, cur}) (x # as)"
        using p(2) True by simp
      then show ?thesis unfolding Some option.case by blast
    qed
  next
    case False
    then have x: "task = Some x" "x # xs = [] @ x # xs \<and> ys = [] @ xs \<and> m_thread_id x \<in> {0, cur} \<and> m_co x \<noteq> None \<and>
        list_all (\<lambda>a. m_thread_id a \<notin> {0, cur}) []"
      using Cons.prems by (auto split: if_splits)
    show ?thesis unfolding x(1) option.case using x(2) by blast
  qed
qed simp

lemma pick_loop_total: "list_all (\<lambda>x. m_co x \<noteq> None) xs \<Longrightarrow> pick_loop cur xs \<noteq> None"
  by (induction xs) (auto split: option.splits)

abbreviation of_class :: "nat \<Rightarrow> Task list \<Rightarrow> Task list" where
  "of_class k \<equiv> filter (\<lambda>x. m_thread_id x = k)"

lemma pick_loop_fifo:
  assumes "pick_loop cur xs = Some (task, need, ys)"
  shows "of_class k xs = of_class k (case task of None \<Rightarrow> [] | Some x \<Rightarrow> [x]) @ of_class k ys"
proof (cases task)
  case None
  then show ?thesis using pick_loop_spec [OF assms] by simp
next
  case (Some x)
  then obtain as bs where x: "xs = as @ x # bs" "ys = as @ bs" "m_thread_id x \<in> {0, cur}"
    "list_all (\<lambda>a. m_thread_id a \<notin> {0, cur}) as"
    using pick_loop_spec [OF assms] by auto
  have "of_class (m_thread_id x) as = []" using x(3,4) by (auto simp: list_all_iff filter_empty_conv)
  then show ?thesis using Some x by auto
qed

definition in_hand :: "place \<Rightarrow> Task list" where
  "in_hand p = (case p of Chosen (Some x) b \<Rightarrow> [x] | Decide (Some x) b \<Rightarrow> [x] | _ \<Rightarrow> [])"

text \<open>
  Tasks are taken in the order in which they were accepted, among the tasks for any thread and
  among those for one thread, and each once; a thread takes no task of another thread, and it
  handles the tasks it took one after the other.
\<close>

definition queue_inv :: "sched_state \<Rightarrow> bool" where
  "queue_inv s \<longleftrightarrow>
     (\<forall>k. of_class k (accepted s) = of_class k (map snd (taken s)) @ of_class k (m_tasks (sched s))) \<and>
     (\<forall>(t, x) \<in> set (taken s). m_thread_id x \<in> {0, t}) \<and>
     (\<forall>t. map snd (filter (\<lambda>(u, x). u = t) (taken s)) =
        map (\<lambda>(u, x, b). x) (filter (\<lambda>(u, x, b). u = t) (handled s)) @ in_hand (places s t))"

lemma queue_inv_same:
  assumes "queue_inv s" "m_tasks (sched s') = m_tasks (sched s)" "accepted s' = accepted s" "taken s' = taken s"
    "handled s' = handled s" "\<And>t. in_hand (places s' t) = in_hand (places s t)"
  shows "queue_inv s'"
  using assms by (simp add: queue_inv_def)

lemma sched_fields [simp]:
  "m_tasks (tickle S) = m_tasks S" "m_tasks (stop S) = m_tasks S" "m_is_stopping (tickle S) = m_is_stopping S"
  "m_main_thread_id (tickle S) = m_main_thread_id S" "m_main_thread_id (stop S) = m_main_thread_id S"
  "m_thread_cnt (tickle S) = m_thread_cnt S" "m_thread_cnt (stop S) = m_thread_cnt S"
  "m_idle_cnt (tickle S) = m_idle_cnt S" "m_idle_cnt (stop S) = m_idle_cnt S"
  by (simp_all add: tickle_def stop_def)

lemma state_fields [simp]:
  "sched (goto t p s) = sched s" "co_world (goto t p s) = co_world s" "places (goto t p s) = (places s)(t := p)"
  "idle_co (goto t p s) = idle_co s" "accepted (goto t p s) = accepted s" "taken (goto t p s) = taken s"
  "handled (goto t p s) = handled s"
  "sched (on_sched f s) = f (sched s)" "co_world (on_sched f s) = co_world s" "places (on_sched f s) = places s"
  "idle_co (on_sched f s) = idle_co s" "accepted (on_sched f s) = accepted s" "taken (on_sched f s) = taken s"
  "handled (on_sched f s) = handled s"
  "sched (handle t x b s) = sched s" "co_world (handle t x b s) = co_world s" "places (handle t x b s) = places s"
  "idle_co (handle t x b s) = idle_co s" "accepted (handle t x b s) = accepted s" "taken (handle t x b s) = taken s"
  "handled (handle t x b s) = handled s @ [(t, x, b)]"
  by (simp_all add: goto_def on_sched_def handle_def)

lemma switch_Next: "switch t p r s = Next s' \<longleftrightarrow> (\<exists>w. r = Inr w \<and> s' = goto t p (s\<lparr>co_world := w\<rparr>))"
  by (auto simp: switch_def split: sum.splits)

lemma queue_inv_loop:
  assumes "queue_inv s" "run_loop t s = Next s'" "in_hand (places s t) = []"
  shows "queue_inv s'"
proof -
  obtain task need ys where p: "pick_loop t (m_tasks (sched s)) = Some (task, need, ys)"
    and s': "s' = goto t (Chosen task (need \<or> ys \<noteq> [] \<and> m_idle_cnt (sched s) > 0))
            (s\<lparr>sched := (sched s)\<lparr>m_tasks := ys\<rparr>, taken := taken s @ (case task of None \<Rightarrow> [] | Some x \<Rightarrow> [(t, x)])\<rparr>)"
    using assms(2) by (auto simp: run_loop_def run_pick_def split: option.splits)
  have "m_thread_id x \<in> {0, t}" if "task = Some x" for x using pick_loop_spec [OF p] that by auto
  then show ?thesis
    using assms(1,3) pick_loop_fifo [OF p] by (cases task) (auto simp: queue_inv_def s' in_hand_def)
qed

lemma run_decide_Next:
  assumes "run_decide t task need s = Next s'"
  obtains (resumed) x c w where "task = Some x" "m_co x = Some c" "resume t c (co_world s) = Inr w"
      "s' = goto t (InTask c) ((handle t x True s)\<lparr>co_world := w\<rparr>)"
    | (dropped) x where "task = Some x" "s' = goto t Loop (handle t x False s)"
    | (idle) c w where "task = None" "idle_co s t = Some c" "resume t c (co_world s) = Inr w" "s' = goto t IdleTop (s\<lparr>co_world := w\<rparr>)"
        "m_is_stopping (sched s) \<longrightarrow> t = m_main_thread_id (sched s) \<and> m_thread_cnt (sched s) \<noteq> 0"
    | (leave) "task = None" "s' = goto t Leaving s" "m_is_stopping (sched s)"
        "t \<noteq> m_main_thread_id (sched s) \<or> m_thread_cnt (sched s) = 0"
    | (again) "task = None" "s' = goto t Loop s"
  using assms
  by (auto simp: run_decide_def resume_idle_def switch_Next split: option.splits if_splits)

lemma queue_inv_decide:
  assumes "queue_inv s" "run_decide t task need s = Next s'" "places s t = Decide task need"
  shows "queue_inv s'"
  using assms(2)
proof (cases rule: run_decide_Next)
  case (resumed x c w)
  then show ?thesis using assms(1,3) by (auto simp: queue_inv_def in_hand_def)
next
  case (dropped x)
  then show ?thesis using assms(1,3) by (auto simp: queue_inv_def in_hand_def)
qed (use assms(1,3) in \<open>auto simp: queue_inv_def in_hand_def\<close>)

lemma queue_inv_thread:
  assumes "queue_inv s" "thread_step d t s = Next s'"
  shows "queue_inv s'"
proof (cases "places s t")
  case Loop
  then show ?thesis using assms queue_inv_loop [OF assms(1)] by (simp add: thread_step_def in_hand_def)
next
  case (Decide task need)
  then show ?thesis using assms queue_inv_decide [OF assms(1)] by (simp add: thread_step_def)
next
  case (Chosen task need)
  then show ?thesis using assms by (auto simp: thread_step_def in_hand_def intro!: queue_inv_same [OF assms(1)])
next
  case Starting
  then show ?thesis using assms
    by (auto simp: thread_step_def run_begin_def in_hand_def split: prod.splits intro!: queue_inv_same [OF assms(1)])
next
  case IdleTop
  then show ?thesis using assms
    by (auto simp: thread_step_def idle_top_def switch_Next in_hand_def split: if_splits intro!: queue_inv_same [OF assms(1)])
qed (use assms in \<open>auto simp: thread_step_def switch_Next in_hand_def split: if_splits intro!: queue_inv_same [OF assms(1)]\<close>)

lemma queue_inv_schedule: "queue_inv s \<Longrightarrow> queue_inv (do_schedule x s)"
  by (auto simp: do_schedule_def schedule_def queue_inv_def Let_def)

lemma queue_inv_step: "sched_step d t s s' \<Longrightarrow> queue_inv s \<Longrightarrow> queue_inv s'"
proof (induction rule: sched_step.induct)
  case (step_thread d t s s')
  then show ?case using queue_inv_thread by blast
next
  case (step_schedule_fn mk s t d tid)
  then show ?case
    by (auto simp: do_schedule_fn_def split: prod.splits intro!: queue_inv_schedule queue_inv_same [OF step_schedule_fn(3)])
qed (auto intro!: queue_inv_schedule intro: queue_inv_same simp: in_hand_def)

lemma queue_inv_reach: "sched_reach d s \<Longrightarrow> queue_inv s"
proof (induction rule: sched_reach.induct)
  case (reach_start use_main cnt cur tids w name)
  then show ?case by (auto simp: queue_inv_def started_def start_def Scheduler_new_def in_hand_def)
qed (rule queue_inv_step)

section \<open>Effects of context switches\<close>

text \<open>At the main coroutine of \<open>t\<close>, and inside the coroutine \<open>c\<close> on \<open>t\<close>.\<close>

definition at_main :: "world \<Rightarrow> nat \<Rightarrow> bool" where
  "at_main w t \<longleftrightarrow> main_co w t \<noteq> None \<and> running w t = main_co w t"

definition inside :: "world \<Rightarrow> nat \<Rightarrow> nat \<Rightarrow> bool" where
  "inside w t c \<longleftrightarrow> main_co w t \<noteq> None \<and> main_co w t \<noteq> Some c \<and> running w t = Some c"

text \<open>A coroutine with a stack in one of the states \<open>A\<close>.\<close>

definition co_in :: "State set \<Rightarrow> world \<Rightarrow> nat \<Rightarrow> bool" where
  "co_in A w c \<longleftrightarrow> (case cos w c of None \<Rightarrow> False | Some co \<Rightarrow> m_stack co \<and> m_state co \<in> A)"

definition other_threads :: "nat \<Rightarrow> nat \<Rightarrow> world \<Rightarrow> world \<Rightarrow> bool" where
  "other_threads t c w w' \<longleftrightarrow> (\<forall>u. u \<noteq> t \<longrightarrow> locals w' u = locals w u) \<and>
     (\<forall>e A. e \<noteq> c \<longrightarrow> co_in A w e \<longrightarrow> co_in A w' e)"

lemma co_in_mono: "co_in A w c \<Longrightarrow> A \<subseteq> B \<Longrightarrow> co_in B w c"
  by (auto simp: co_in_def split: option.splits)

lemma resume_effect:
  assumes "co_reach w" "at_main w t" "co_in {INIT, YIELD} w c"
  obtains w' where "resume t c w = Inr w'" "co_reach w'" "inside w' t c" "other_threads t c w w'" "co_in UNIV w' c"
proof -
  note inv = co_reach_inv [OF assms(1)]
  obtain m where m: "main_co w t = Some m" "running w t = Some m" using assms(2) by (auto simp: at_main_def)
  obtain M where M: "cos w m = Some M" "\<not> m_stack M" using thread_E [OF inv m(1)] by metis
  obtain co where co: "cos w c = Some co" "m_stack co" "m_state co \<in> {INIT, YIELD}"
    using assms(3) by (auto simp: co_in_def split: option.splits)
  have cm: "c \<noteq> m" using M co by auto
  obtain w' where w': "resume t c w = Inr w'" using co m by (auto simp: resume_def Let_def)
  show ?thesis
  proof (rule that [OF w'])
    show "co_reach w'" using reach_step [OF assms(1) step_resume [OF w']] m co by simp
    show "inside w' t c" using w' m co cm by (auto simp: inside_def resume_def co_defs)
    show "other_threads t c w w'" using w' m co M cm
      by (auto simp: other_threads_def resume_def co_defs co_in_def)
    show "co_in UNIV w' c" using w' m co cm by (auto simp: co_in_def resume_def co_defs)
  qed
qed

lemma leave_effect:
  assumes "co_reach w" "inside w t c"
  shows "\<exists>w'. Yield t w = Inr w' \<and> co_reach w' \<and> at_main w' t \<and> other_threads t c w w' \<and> co_in {YIELD} w' c"
    "\<exists>w'. Run_end t b w = Inr w' \<and> co_reach w' \<and> at_main w' t \<and> other_threads t c w w' \<and> co_in {TERMINAL, EXCEPT} w' c"
proof -
  note inv = co_reach_inv [OF assms(1)]
  obtain m where m: "main_co w t = Some m" "running w t = Some c" "c \<noteq> m" using assms(2) by (auto simp: inside_def)
  obtain M R where M: "cos w m = Some M" "\<not> m_stack M" "cos w c = Some R" "m_stack R"
    using thread_E [OF inv m(1)] m(2,3) by (metis option.inject)
  have y: "Yield t w = Inr (after_resume t m (swapcontext t c m (upd_co c (\<lambda>co. co\<lparr>m_state := YIELD\<rparr>) w)))"
    by (rule Yield_leaves [OF m(2,1,3) M(1)])
  then show "\<exists>w'. Yield t w = Inr w' \<and> co_reach w' \<and> at_main w' t \<and> other_threads t c w w' \<and> co_in {YIELD} w' c"
    using reach_step [OF assms(1) step_yield [OF y]] m M
    by (auto simp: at_main_def other_threads_def co_in_def co_defs)
  obtain w' where e: "Run_end t b w = Inr w'" using m by (auto simp: Run_end_def Let_def)
  then show "\<exists>w'. Run_end t b w = Inr w' \<and> co_reach w' \<and> at_main w' t \<and> other_threads t c w w' \<and> co_in {TERMINAL, EXCEPT} w' c"
    using reach_step [OF assms(1) step_end [OF e]] m M
    by (auto simp: at_main_def other_threads_def co_in_def co_defs Run_end_def)
qed

lemma new_effect:
  assumes "co_reach w" "Coroutine_new d t n w = (c, w')"
  shows "co_reach w'" "\<And>u. u \<noteq> t \<Longrightarrow> locals w' u = locals w u" "\<And>A e. co_in A w e \<Longrightarrow> co_in A w' e"
    "co_in {INIT} w' c" "\<not> co_in UNIV w c"
    "running w t = main_co w t \<Longrightarrow> at_main w' t" "inside w t e \<Longrightarrow> inside w' t e" "at_main w t \<Longrightarrow> at_main w' t"
proof -
  note inv = co_reach_inv [OF assms(1)]
  have f: "cos w (next_co w) = None" "cos w (Suc (next_co w)) = None" using next_co_fresh(1) [OF inv] by auto
  show "co_reach w'" using reach_step [OF assms(1) step_new [OF assms(2)]] .
  show "locals w' u = locals w u" if "u \<noteq> t" for u
    using assms(2) that by (auto simp: Coroutine_new_def Coroutine_main_def Let_def upd_local_def split: option.splits)
  show "co_in A w' e" if "co_in A w e" for A e
    using assms(2) that f
    by (auto simp: Coroutine_new_def Coroutine_main_def Let_def upd_local_def co_in_def split: option.splits if_splits)
  show "co_in {INIT} w' c" "\<not> co_in UNIV w c" using assms(2) f
    by (auto simp: Coroutine_new_def Coroutine_main_def Let_def upd_local_def co_in_def split: option.splits)
  show "at_main w' t" if "running w t = main_co w t"
    using assms(2) that by (auto simp: Coroutine_new_def Coroutine_main_def Let_def upd_local_def at_main_def split: option.splits)
  then show "at_main w' t" if "at_main w t" using that by (simp add: at_main_def)
  show "inside w' t e" if "inside w t e"
    using assms(2) that by (auto simp: Coroutine_new_def Coroutine_main_def Let_def upd_local_def inside_def split: option.splits)
qed

section \<open>The threads\<close>

abbreviation in_idle :: "place \<Rightarrow> bool" where
  "in_idle p \<equiv> p \<in> {IdleTop, IdleInc, IdleWait, IdleWoken}"

abbreviation finished :: "place \<Rightarrow> bool" where
  "finished p \<equiv> p \<in> {LeavingTickle, Left}"

text \<open>
  A thread in \<^verbatim>\<open>run\<close> is at its main coroutine, a thread in a task or in \<^verbatim>\<open>idle\<close> inside that
  coroutine. The idle coroutine of a thread can be resumed, or it ended because the scheduler
  stops, and then the thread will not resume it again.
\<close>

definition idle_fine :: "sched_state \<Rightarrow> nat \<Rightarrow> bool" where
  "idle_fine s t \<longleftrightarrow>
     (case idle_co s t of
        None \<Rightarrow> False
      | Some i \<Rightarrow> co_in UNIV (co_world s) i \<and> (in_idle (places s t) \<or> finished (places s t) \<or> co_in {INIT, YIELD} (co_world s) i \<or>
          m_is_stopping (sched s) \<and> (t \<noteq> m_main_thread_id (sched s) \<or> m_thread_cnt (sched s) = 0)))"

definition thread_fine :: "sched_state \<Rightarrow> nat \<Rightarrow> bool" where
  "thread_fine s t \<longleftrightarrow>
     (case places s t of
        Off \<Rightarrow> idle_co s t = None
      | Starting \<Rightarrow> idle_co s t = None \<and> running (co_world s) t = main_co (co_world s) t
      | InTask c \<Rightarrow> inside (co_world s) t c \<and> (\<forall>u. idle_co s u \<noteq> Some c) \<and> co_in UNIV (co_world s) c \<and> idle_fine s t
      | p \<Rightarrow> (if in_idle p then \<exists>i. idle_co s t = Some i \<and> inside (co_world s) t i else at_main (co_world s) t) \<and> idle_fine s t)"

definition task_fine :: "sched_state \<Rightarrow> Task \<Rightarrow> bool" where
  "task_fine s x \<longleftrightarrow> (\<exists>c. m_co x = Some c \<and> co_in UNIV (co_world s) c \<and> (\<forall>u. idle_co s u \<noteq> Some c))"

definition active :: "sched_state \<Rightarrow> nat set" where
  "active s = {t. t \<noteq> m_main_thread_id (sched s) \<and> places s t \<noteq> Off \<and> \<not> finished (places s t)}"

definition world_inv :: "sched_state \<Rightarrow> bool" where
  "world_inv s \<longleftrightarrow> co_reach (co_world s) \<and> (\<forall>t. thread_fine s t) \<and>
     (\<forall>t u c. idle_co s t = Some c \<and> idle_co s u = Some c \<longrightarrow> t = u) \<and>
     (\<forall>x \<in> set (m_tasks (sched s)). task_fine s x) \<and> (\<forall>t. \<forall>x \<in> set (in_hand (places s t)). task_fine s x)"

text \<open>The counter of threads, as long as the main thread is not finished, and the counter of idle threads.\<close>

definition count_inv :: "sched_state \<Rightarrow> bool" where
  "count_inv s \<longleftrightarrow> finite {t. places s t \<noteq> Off} \<and>
     (\<not> finished (places s (m_main_thread_id (sched s))) \<longrightarrow> unat (m_thread_cnt (sched s)) = card (active s)) \<and>
     m_idle_cnt (sched s) = card {t. places s t \<in> {IdleWait, IdleWoken}}"

lemma count_inv_finite: "count_inv s \<Longrightarrow> A \<subseteq> {t. places s t \<noteq> Off} \<Longrightarrow> finite A"
  unfolding count_inv_def using finite_subset by blast

lemma count_inv_same:
  assumes "count_inv s" "m_main_thread_id (sched s') = m_main_thread_id (sched s)"
    "m_thread_cnt (sched s') = m_thread_cnt (sched s)" "m_idle_cnt (sched s') = m_idle_cnt (sched s)"
    "places s' = (places s)(t := p)" "(places s t = Off) = (p = Off)"
    "finished (places s t) = finished p"
    "(places s t \<in> {IdleWait, IdleWoken}) = (p \<in> {IdleWait, IdleWoken})"
  shows "count_inv s'"
proof -
  have "{t. places s' t \<noteq> Off} = {t. places s t \<noteq> Off}" "active s' = active s"
    "{t. places s' t \<in> {IdleWait, IdleWoken}} = {t. places s t \<in> {IdleWait, IdleWoken}}"
    "finished (places s' u) = finished (places s u)" for u
    using assms(2,5-8) unfolding active_def by auto
  then show ?thesis using assms(1-4) by (simp add: count_inv_def)
qed

lemma count_inv_idle:
  assumes "count_inv s" "places s t = IdleInc \<and> p = IdleWait \<and> n = m_idle_cnt (sched s) + 1 \<or>
      places s t = IdleWoken \<and> p = Loop \<and> n = m_idle_cnt (sched s) - 1"
  shows "count_inv (goto t p (on_sched (\<lambda>S. S\<lparr>m_idle_cnt := n\<rparr>) s\<lparr>co_world := w\<rparr>))" (is "count_inv ?s")
proof -
  let ?I = "{t. places s t \<in> {IdleWait, IdleWoken}}"
  have fin: "finite ?I" by (rule count_inv_finite [OF assms(1)]) auto
  have "{u. places ?s u \<noteq> Off} = {u. places s u \<noteq> Off}" "active ?s = active s"
    "finished (places ?s u) = finished (places s u)" for u
    using assms(2) unfolding active_def by auto
  moreover have "{u. places ?s u \<in> {IdleWait, IdleWoken}} = (if p = IdleWait then insert t ?I else ?I - {t})"
    "t \<in> ?I \<longleftrightarrow> p = Loop"
    using assms(2) by auto
  ultimately show ?thesis using assms fin by (auto simp: count_inv_def card_Diff_singleton)
qed

lemma count_inv_leave:
  assumes "count_inv s" "places s t = Leaving"
  shows "count_inv (goto t LeavingTickle (on_sched (\<lambda>S. S\<lparr>m_thread_cnt := m_thread_cnt S - 1\<rparr>) s))" (is "count_inv ?s")
proof -
  have p: "{u. places ?s u \<noteq> Off} = {u. places s u \<noteq> Off}"
    "{u. places ?s u \<in> {IdleWait, IdleWoken}} = {u. places s u \<in> {IdleWait, IdleWoken}}"
    using assms(2) by auto
  have "unat (m_thread_cnt (sched s) - 1) = card (active ?s)"
    if "\<not> finished (places ?s (m_main_thread_id (sched s)))"
  proof -
    have t: "t \<noteq> m_main_thread_id (sched s)" "\<not> finished (places s (m_main_thread_id (sched s)))" using that by (auto split: if_splits)
    then have a: "t \<in> active s" "active ?s = active s - {t}" using assms(2) by (auto simp: active_def)
    have fin: "finite (active s)" by (rule count_inv_finite [OF assms(1)]) (auto simp: active_def)
    have c: "unat (m_thread_cnt (sched s)) = card (active s)" using assms(1) t by (simp add: count_inv_def)
    then have "m_thread_cnt (sched s) \<noteq> 0" using a(1) fin by auto
    then have "unat (m_thread_cnt (sched s) - 1) = card (active s) - 1" using c unat_minus_one by metis
    then show ?thesis using a card_Diff_singleton by metis
  qed
  then show ?thesis using assms(1) p by (simp add: count_inv_def)
qed

lemma count_inv_thread:
  assumes "count_inv s" "thread_step d t s = Next s'"
  shows "count_inv s'"
proof (cases "places s t")
  case Loop
  then show ?thesis using assms
    by (auto simp: thread_step_def run_loop_def run_pick_def split: option.splits intro!: count_inv_same [OF assms(1)])
next
  case (Decide task need)
  then have "run_decide t task need s = Next s'" using assms(2) by (simp add: thread_step_def)
  then show ?thesis
    by (cases rule: run_decide_Next) (use Decide in \<open>auto intro!: count_inv_same [OF assms(1)]\<close>)
next
  case Starting
  then show ?thesis using assms
    by (auto simp: thread_step_def run_begin_def split: prod.splits intro!: count_inv_same [OF assms(1)])
next
  case IdleTop
  then show ?thesis using assms
    by (auto simp: thread_step_def idle_top_def switch_Next split: if_splits intro!: count_inv_same [OF assms(1)])
next
  case IdleInc
  then show ?thesis using assms(2) count_inv_idle [OF assms(1), of t IdleWait "m_idle_cnt (sched s) + 1" "co_world s"]
    by (auto simp: thread_step_def on_sched_def)
next
  case IdleWoken
  then obtain w where "s' = goto t Loop ((on_sched (\<lambda>S. S\<lparr>m_idle_cnt := m_idle_cnt S - 1\<rparr>) s)\<lparr>co_world := w\<rparr>)"
    using assms(2) by (auto simp: thread_step_def switch_Next)
  then show ?thesis using IdleWoken count_inv_idle [OF assms(1), of t Loop "m_idle_cnt (sched s) - 1" w]
    by (auto simp: on_sched_def)
next
  case Leaving
  then show ?thesis using assms(2) count_inv_leave [OF assms(1)] by (auto simp: thread_step_def)
qed (use assms in \<open>auto simp: thread_step_def split: if_splits intro!: count_inv_same [OF assms(1)]\<close>)

lemma count_inv_world: "count_inv s \<Longrightarrow> count_inv (s\<lparr>co_world := w\<rparr>)"
  by (simp add: count_inv_def active_def)

lemma count_inv_schedule: "count_inv s \<Longrightarrow> count_inv (do_schedule x s)"
  by (simp add: count_inv_def active_def do_schedule_def schedule_def Let_def)

lemma count_inv_step: "sched_step d t s s' \<Longrightarrow> count_inv s \<Longrightarrow> count_inv s'"
proof (induction rule: sched_step.induct)
  case (step_thread d t s s')
  then show ?case using count_inv_thread by blast
next
  case (step_schedule_fn mk s t d tid)
  then show ?case by (auto simp: do_schedule_fn_def split: prod.splits intro!: count_inv_schedule count_inv_world)
next
  case (step_stop d t s)
  then show ?case by (simp add: count_inv_def active_def)
qed (auto intro!: count_inv_schedule intro: count_inv_same)

lemma thread_fine_idle: "thread_fine s u \<Longrightarrow> idle_co s u = Some i \<Longrightarrow> idle_fine s u"
  by (cases "places s u") (auto simp: thread_fine_def)

lemma idle_exists: "world_inv s \<Longrightarrow> idle_co s u = Some i \<Longrightarrow> co_in UNIV (co_world s) i"
  using thread_fine_idle [of s u i] by (simp add: world_inv_def idle_fine_def)

lemma world_invD:
  assumes "world_inv s"
  shows "co_reach (co_world s)" "thread_fine s t" "idle_co s t = Some c \<Longrightarrow> idle_co s u = Some c \<Longrightarrow> t = u"
    "x \<in> set (m_tasks (sched s)) \<Longrightarrow> task_fine s x" "x \<in> set (in_hand (places s t)) \<Longrightarrow> task_fine s x"
  using assms by (auto simp: world_inv_def)

lemma thread_fine_frame:
  assumes "thread_fine s u" "places s' u = places s u" "idle_co s' u = idle_co s u"
    "locals (co_world s') u = locals (co_world s) u"
    "\<And>i A. idle_co s u = Some i \<Longrightarrow> co_in A (co_world s) i \<Longrightarrow> co_in A (co_world s') i"
    "\<And>c. co_in UNIV (co_world s) c \<Longrightarrow> co_in UNIV (co_world s') c"
    "\<And>c v. co_in UNIV (co_world s) c \<Longrightarrow> idle_co s v \<noteq> Some c \<Longrightarrow> idle_co s' v \<noteq> Some c"
    "m_main_thread_id (sched s') = m_main_thread_id (sched s)" "m_is_stopping (sched s) \<Longrightarrow> m_is_stopping (sched s')"
    "u = m_main_thread_id (sched s) \<Longrightarrow> m_thread_cnt (sched s) = 0 \<Longrightarrow> \<not> finished (places s u) \<Longrightarrow> m_thread_cnt (sched s') = 0"
  shows "thread_fine s' u"
proof -
  have i: "idle_fine s u \<Longrightarrow> idle_fine s' u"
    using assms(2,3,5,6,8-10) unfolding idle_fine_def by (auto split: option.splits)
  show ?thesis
  proof (cases "places s u")
    case (InTask c)
    then show ?thesis using assms(1-4,6,7) i by (auto simp: thread_fine_def inside_def)
  qed (use assms(1-4) i in \<open>auto simp: thread_fine_def inside_def at_main_def\<close>)
qed

lemma world_inv_frame:
  assumes inv: "world_inv s" and reach: "co_reach (co_world s')"
    and other: "\<And>u. u \<noteq> t \<Longrightarrow> places s' u = places s u" "\<And>u. u \<noteq> t \<Longrightarrow> idle_co s' u = idle_co s u"
      "\<And>u. u \<noteq> t \<Longrightarrow> locals (co_world s') u = locals (co_world s) u"
    and co: "\<And>u i A. u \<noteq> t \<Longrightarrow> idle_co s u = Some i \<Longrightarrow> co_in A (co_world s) i \<Longrightarrow> co_in A (co_world s') i"
      "\<And>c. co_in UNIV (co_world s) c \<Longrightarrow> co_in UNIV (co_world s') c"
    and flags: "m_main_thread_id (sched s') = m_main_thread_id (sched s)" "m_is_stopping (sched s) \<Longrightarrow> m_is_stopping (sched s')"
      "\<And>u. u = m_main_thread_id (sched s) \<Longrightarrow> u \<noteq> t \<Longrightarrow> m_thread_cnt (sched s) = 0 \<Longrightarrow> \<not> finished (places s u) \<Longrightarrow> m_thread_cnt (sched s') = 0"
    and own: "thread_fine s' t"
    and idle: "idle_co s' t = idle_co s t \<or> (\<exists>i. idle_co s' t = Some i \<and> \<not> co_in UNIV (co_world s) i)"
    and tasks: "\<And>x. x \<in> set (m_tasks (sched s')) \<or> x \<in> set (in_hand (places s' t)) \<Longrightarrow>
      x \<in> set (m_tasks (sched s)) \<or> x \<in> set (in_hand (places s t)) \<or> task_fine s' x"
  shows "world_inv s'"
proof -
  have ni: "idle_co s' v \<noteq> Some c" if "co_in UNIV (co_world s) c" "idle_co s v \<noteq> Some c" for c v
    using that other(2) [of v] idle by (cases "v = t") auto
  have tf: "task_fine s x \<Longrightarrow> task_fine s' x" for x
    using co(2) ni unfolding task_fine_def by blast
  have th: "thread_fine s' u" for u
  proof (cases "u = t")
    case False
    show ?thesis
      by (rule thread_fine_frame [OF world_invD(2) [OF inv]]) (use other False co ni flags in auto)
  qed (use own in simp)
  have "u = v" if "idle_co s' u = Some c" "idle_co s' v = Some c" for u v c
    using that idle other(2) idle_exists [OF inv] world_invD(3) [OF inv] by metis
  moreover have "task_fine s' x" if "x \<in> set (m_tasks (sched s'))" for x
    using tasks that tf world_invD(4,5) [OF inv] by blast
  moreover have "task_fine s' x" if "x \<in> set (in_hand (places s' u))" for x u
    using tasks that tf world_invD(4,5) [OF inv] other(1) by (cases "u = t") (blast, metis)
  ultimately show ?thesis using reach th unfolding world_inv_def by blast
qed

text \<open>The switches of a thread between its main coroutine and others.\<close>

lemma world_inv_resume:
  assumes inv: "world_inv s" and t: "at_main (co_world s) t" "co_in {INIT, YIELD} (co_world s) c"
    and p: "in_idle p \<and> idle_co s t = Some c \<or> p = InTask c \<and> (\<forall>u. idle_co s u \<noteq> Some c)" "in_hand p = []"
    and i: "idle_fine s t" "\<not> finished (places s t)" "\<not> in_idle (places s t)"
  obtains w where "resume t c (co_world s) = Inr w" "world_inv (goto t p (s\<lparr>co_world := w\<rparr>))"
proof -
  obtain w where w: "resume t c (co_world s) = Inr w" "co_reach w" "inside w t c" "other_threads t c (co_world s) w" "co_in UNIV w c"
    using resume_effect [OF world_invD(1) [OF inv] t] .
  show ?thesis
  proof (rule that [OF w(1)], rule world_inv_frame [OF inv, where t = t])
    show "co_in UNIV (co_world (goto t p (s\<lparr>co_world := w\<rparr>))) e" if "co_in UNIV (co_world s) e" for e
      using that w(4,5) by (cases "e = c") (auto simp: other_threads_def)
    show "co_in A (co_world (goto t p (s\<lparr>co_world := w\<rparr>))) j" if "u \<noteq> t" "idle_co s u = Some j" "co_in A (co_world s) j" for u j A
    proof -
      have "j \<noteq> c" using that p(1) world_invD(3) [OF inv, of u j t] by auto
      then show ?thesis using that w(4) by (auto simp: other_threads_def)
    qed
    show "thread_fine (goto t p (s\<lparr>co_world := w\<rparr>)) t"
    proof (cases "in_idle p")
      case True
      then have "idle_co s t = Some c" using p(1) by auto
      then show ?thesis using True w(3,5) by (auto simp: thread_fine_def idle_fine_def)
    next
      case False
      then have c: "p = InTask c" "\<forall>u. idle_co s u \<noteq> Some c" using p(1) by auto
      obtain j where j: "idle_co s t = Some j" using i(1) by (auto simp: idle_fine_def split: option.splits)
      then have "\<And>A. co_in A (co_world s) j \<Longrightarrow> co_in A w j" using c w(4) by (auto simp: other_threads_def)
      then have "idle_fine (goto t p (s\<lparr>co_world := w\<rparr>)) t" using i j c(1) by (auto simp: idle_fine_def)
      then show ?thesis using c w(3,5) by (simp add: thread_fine_def)
    qed
  qed (use w p in \<open>auto simp: other_threads_def\<close>)
qed

lemma world_inv_leave:
  assumes inv: "world_inv s" and t: "inside (co_world s) t c"
    and w: "co_reach w" "at_main w t" "other_threads t c (co_world s) w" "co_in B w c"
    and c: "idle_co s t = Some c \<and> (B \<subseteq> {INIT, YIELD} \<or> m_is_stopping (sched s) \<and> (t \<noteq> m_main_thread_id (sched s) \<or> m_thread_cnt (sched s) = 0)) \<or>
      (\<forall>u. idle_co s u \<noteq> Some c)"
    and i: "idle_fine s t" "\<not> finished (places s t)" "in_idle (places s t) \<longrightarrow> idle_co s t = Some c"
    and S: "sched s' = (sched s)\<lparr>m_idle_cnt := n\<rparr>" "co_world s' = w" "places s' = (places s)(t := Loop)" "idle_co s' = idle_co s"
  shows "world_inv s'"
proof (rule world_inv_frame [OF inv, where t = t])
  have B: "co_in UNIV w c" using w(4) co_in_mono by blast
  show "co_in UNIV (co_world s') e" if "co_in UNIV (co_world s) e" for e
    using that w(3) B S(2) by (cases "e = c") (auto simp: other_threads_def)
  show "co_in A (co_world s') j" if "u \<noteq> t" "idle_co s u = Some j" "co_in A (co_world s) j" for u j A
  proof -
    have "j \<noteq> c" using that c world_invD(3) [OF inv, of u j t] by auto
    then show ?thesis using that w(3) S(2) by (auto simp: other_threads_def)
  qed
  have "idle_fine s' t"
  proof (cases "idle_co s t = Some c")
    case True
    then show ?thesis using c B w(4) S co_in_mono [of B w c "{INIT, YIELD}"] by (auto simp: idle_fine_def)
  next
    case False
    then show ?thesis using i w(3) S by (auto simp: idle_fine_def other_threads_def split: option.splits)
  qed
  then show "thread_fine s' t" using w(2) S by (simp add: thread_fine_def)
qed (use w S in \<open>auto simp: other_threads_def in_hand_def\<close>)

text \<open>A step of \<open>t\<close> that touches neither coroutines nor tasks.\<close>

lemma world_inv_quiet:
  assumes inv: "world_inv s" and S: "co_world s' = co_world s" "idle_co s' = idle_co s" "places s' = (places s)(t := p)"
      "m_tasks (sched s') = m_tasks (sched s)" "set (in_hand p) \<subseteq> set (in_hand (places s t))"
      "m_main_thread_id (sched s') = m_main_thread_id (sched s)" "m_is_stopping (sched s) \<Longrightarrow> m_is_stopping (sched s')"
    and cnt: "m_thread_cnt (sched s') = m_thread_cnt (sched s) \<or>
      (t = m_main_thread_id (sched s) \<and> finished p \<or> (finished (places s (m_main_thread_id (sched s))) \<or> m_thread_cnt (sched s) \<noteq> 0))"
    and p: "p \<noteq> Off" "p \<noteq> Starting" "\<forall>c. p \<noteq> InTask c" "places s t \<noteq> Off" "places s t \<noteq> Starting" "\<forall>c. places s t \<noteq> InTask c"
      "in_idle p = in_idle (places s t)" "finished (places s t) \<Longrightarrow> finished p"
  shows "world_inv s'"
proof (rule world_inv_frame [OF inv, where t = t])
  have "thread_fine s t" by (rule world_invD(2) [OF inv])
  then show "thread_fine s' t"
    using S p cnt by (cases "places s t"; cases p) (auto simp: thread_fine_def idle_fine_def split: option.splits)
qed (use world_invD(1) [OF inv] S cnt in auto)

definition safe_step :: "outcome \<Rightarrow> bool" where
  "safe_step r = (case r of Crash \<Rightarrow> False | Blocked \<Rightarrow> True | Next s \<Rightarrow> world_inv s)"

lemma safe_begin:
  assumes "world_inv s" "places s t = Starting"
  shows "safe_step (run_begin d t s)"
proof -
  obtain c w where n: "Coroutine_new d t 0 (co_world s) = (c, w)" by fastforce
  note e = new_effect [OF world_invD(1) [OF assms(1)] n]
  have t: "idle_co s t = None" "running (co_world s) t = main_co (co_world s) t"
    using world_invD(2) [OF assms(1), of t] assms(2) by (auto simp: thread_fine_def)
  have "world_inv (goto t Loop (s\<lparr>co_world := w, idle_co := (idle_co s)(t := Some c)\<rparr>))"
  proof (rule world_inv_frame [OF assms(1), where t = t])
    show "thread_fine (goto t Loop (s\<lparr>co_world := w, idle_co := (idle_co s)(t := Some c)\<rparr>)) t"
      using e(4,6) t co_in_mono [OF e(4), of UNIV] co_in_mono [OF e(4), of "{INIT, YIELD}"]
      by (auto simp: thread_fine_def idle_fine_def)
  qed (use e in \<open>auto simp: in_hand_def\<close>)
  then show ?thesis by (simp add: safe_step_def run_begin_def n)
qed

lemma safe_loop:
  assumes "world_inv s" "places s t = Loop"
  shows "safe_step (run_loop t s)"
proof -
  have "list_all (\<lambda>x. m_co x \<noteq> None) (m_tasks (sched s))"
    using world_invD(4) [OF assms(1)] by (auto simp: list_all_iff task_fine_def)
  then obtain task need ys where p: "pick_loop t (m_tasks (sched s)) = Some (task, need, ys)"
    using pick_loop_total [of "m_tasks (sched s)" t] by (cases "pick_loop t (m_tasks (sched s))") auto
  have sub: "set ys \<subseteq> set (m_tasks (sched s))" "\<And>x. task = Some x \<Longrightarrow> x \<in> set (m_tasks (sched s))"
    using pick_loop_spec [OF p] by (auto split: option.splits)
  let ?s = "goto t (Chosen task (need \<or> ys \<noteq> [] \<and> m_idle_cnt (sched s) > 0))
      (s\<lparr>sched := (sched s)\<lparr>m_tasks := ys\<rparr>, taken := taken s @ (case task of None \<Rightarrow> [] | Some x \<Rightarrow> [(t, x)])\<rparr>)"
  have "world_inv ?s"
  proof (rule world_inv_frame [OF assms(1), where t = t])
    show "thread_fine ?s t" using world_invD(2) [OF assms(1), of t] assms(2)
      by (auto simp: thread_fine_def idle_fine_def split: option.splits)
    show "x \<in> set (m_tasks (sched s)) \<or> x \<in> set (in_hand (places s t)) \<or> task_fine ?s x"
      if "x \<in> set (m_tasks (sched ?s)) \<or> x \<in> set (in_hand (places ?s t))" for x
      using that sub by (auto simp: in_hand_def split: option.splits)
  qed (use world_invD(1) [OF assms(1)] in auto)
  then show ?thesis by (simp add: safe_step_def run_loop_def run_pick_def p)
qed

lemma safe_resume_idle:
  assumes "world_inv s" "places s t = Decide None need" "m_is_stopping (sched s) \<Longrightarrow> t = m_main_thread_id (sched s) \<and> m_thread_cnt (sched s) \<noteq> 0"
  shows "safe_step (resume_idle t s)"
proof -
  have t: "at_main (co_world s) t" "idle_fine s t" using world_invD(2) [OF assms(1), of t] assms(2) by (auto simp: thread_fine_def)
  obtain i where i: "idle_co s t = Some i" "co_in {INIT, YIELD} (co_world s) i"
    using t(2) assms(2,3) by (auto simp: idle_fine_def split: option.splits)
  obtain w where "resume t i (co_world s) = Inr w" "world_inv (goto t IdleTop (s\<lparr>co_world := w\<rparr>))"
    by (rule world_inv_resume [OF assms(1) t(1) i(2), where p = IdleTop]) (use i t assms(2) in \<open>auto simp: in_hand_def\<close>)
  then show ?thesis by (simp add: safe_step_def resume_idle_def i switch_def)
qed

lemma world_inv_handle: "world_inv s \<Longrightarrow> world_inv (handle t x b s)"
proof -
  have "thread_fine s u \<Longrightarrow> thread_fine (handle t x b s) u" for u by (rule thread_fine_frame) auto
  then show "world_inv s \<Longrightarrow> world_inv (handle t x b s)" by (simp add: world_inv_def task_fine_def)
qed

lemma safe_decide:
  assumes "world_inv s" "places s t = Decide task need"
  shows "safe_step (run_decide t task need s)"
proof (cases task)
  case None
  have "world_inv (goto t Leaving s)" "world_inv (goto t Loop s)"
    using assms(2) None by (auto intro!: world_inv_quiet [OF assms(1)] simp: in_hand_def)
  then show ?thesis using safe_resume_idle [OF assms(1)] assms(2) None
    by (auto simp: run_decide_def safe_step_def)
next
  case (Some x)
  have inv: "world_inv (handle t x b s)" for b by (rule world_inv_handle [OF assms(1)])
  have t: "at_main (co_world s) t" "idle_fine (handle t x b s) t" for b
    using world_invD(2) [OF inv, of b t] assms(2) by (auto simp: thread_fine_def)
  have "task_fine s x" using world_invD(5) [OF assms(1), of x t] assms(2) Some by (simp add: in_hand_def)
  then obtain c where c: "m_co x = Some c" "co_in UNIV (co_world s) c" "\<forall>u. idle_co s u \<noteq> Some c"
    by (auto simp: task_fine_def)
  then obtain co where co: "cos (co_world s) c = Some co" "m_stack co" by (auto simp: co_in_def split: option.splits)
  show ?thesis
  proof (cases "m_state co \<in> {INIT, YIELD}")
    case True
    have "co_in {INIT, YIELD} (co_world s) c" using True co by (simp add: co_in_def)
    then obtain w where "resume t c (co_world s) = Inr w" "world_inv (goto t (InTask c) ((handle t x True s)\<lparr>co_world := w\<rparr>))"
      by (rule_tac world_inv_resume [OF inv [of True], of t c "InTask c"])
        (use t c assms(2) in \<open>auto simp: in_hand_def\<close>)
    then show ?thesis using True c co Some by (simp add: run_decide_def safe_step_def switch_def)
  next
    case False
    have "world_inv (goto t Loop (handle t x False s))"
      using assms(2) by (auto intro!: world_inv_quiet [OF inv] simp: in_hand_def)
    then show ?thesis using False c co Some by (simp add: run_decide_def safe_step_def)
  qed
qed

lemma safe_idle_top:
  assumes "world_inv s" "places s t = IdleTop"
  shows "safe_step (idle_top t s)"
proof -
  obtain i where i: "idle_co s t = Some i" "inside (co_world s) t i" "idle_fine s t"
    using world_invD(2) [OF assms(1), of t] assms(2) by (auto simp: thread_fine_def)
  obtain w where w: "Run_end t False (co_world s) = Inr w" "co_reach w" "at_main w t" "other_threads t i (co_world s) w"
      "co_in {TERMINAL, EXCEPT} w i"
    using leave_effect(2) [OF world_invD(1) [OF assms(1)] i(2), of False] by blast
  have "world_inv (goto t Loop (s\<lparr>co_world := w\<rparr>))"
    if "m_is_stopping (sched s)" "t \<noteq> m_main_thread_id (sched s) \<or> m_thread_cnt (sched s) = 0"
    by (rule world_inv_leave [OF assms(1) i(2) w(2-5), of _ "m_idle_cnt (sched s)"]) (use i that assms(2) in auto)
  moreover have "world_inv (goto t IdleInc s)"
    using assms(2) by (auto intro!: world_inv_quiet [OF assms(1)] simp: in_hand_def)
  ultimately show ?thesis using w(1) by (auto simp: idle_top_def safe_step_def switch_def word_gt_0)
qed

lemma safe_thread_step:
  assumes "world_inv s" "count_inv s"
  shows "safe_step (thread_step d t s)"
proof (cases "places s t")
  case IdleWoken
  obtain i where i: "idle_co s t = Some i" "inside (co_world s) t i" "idle_fine s t"
    using world_invD(2) [OF assms(1), of t] IdleWoken by (auto simp: thread_fine_def)
  obtain w where w: "Yield t (co_world s) = Inr w" "co_reach w" "at_main w t" "other_threads t i (co_world s) w" "co_in {YIELD} w i"
    using leave_effect(1) [OF world_invD(1) [OF assms(1)] i(2)] by blast
  have "world_inv (goto t Loop ((on_sched (\<lambda>S. S\<lparr>m_idle_cnt := m_idle_cnt S - 1\<rparr>) s)\<lparr>co_world := w\<rparr>))"
    by (rule world_inv_leave [OF assms(1) i(2) w(2-5), of _ "m_idle_cnt (sched s) - 1"]) (use i IdleWoken in auto)
  then show ?thesis using IdleWoken w(1) by (simp add: thread_step_def safe_step_def switch_def)
next
  case Leaving
  have "t \<in> active s \<or> t = m_main_thread_id (sched s)" using Leaving by (auto simp: active_def)
  then have "t = m_main_thread_id (sched s) \<or> finished (places s (m_main_thread_id (sched s))) \<or> m_thread_cnt (sched s) \<noteq> 0"
    using assms(2) count_inv_finite [OF assms(2), of "active s"] by (auto simp: count_inv_def active_def)
  then have "world_inv (goto t LeavingTickle (on_sched (\<lambda>S. S\<lparr>m_thread_cnt := m_thread_cnt S - 1\<rparr>) s))"
    using Leaving by (auto intro!: world_inv_quiet [OF assms(1)] simp: in_hand_def)
  then show ?thesis using Leaving by (simp add: thread_step_def safe_step_def)
next
  case (Chosen task need)
  then have "world_inv (goto t (Decide task need) (if need then on_sched tickle s else s))"
    by (auto intro!: world_inv_quiet [OF assms(1)] simp: in_hand_def split: option.splits)
  then show ?thesis using Chosen by (simp add: thread_step_def safe_step_def)
next
  case IdleInc
  then have "world_inv (goto t IdleWait (on_sched (\<lambda>S. S\<lparr>m_idle_cnt := m_idle_cnt S + 1\<rparr>) s))"
    by (auto intro!: world_inv_quiet [OF assms(1)] simp: in_hand_def)
  then show ?thesis using IdleInc by (simp add: thread_step_def safe_step_def)
next
  case IdleWait
  then have "world_inv (goto t IdleWoken (on_sched (\<lambda>S. S\<lparr>m_semaphore := m_semaphore S - 1\<rparr>) s))"
    by (auto intro!: world_inv_quiet [OF assms(1)] simp: in_hand_def)
  then show ?thesis using IdleWait by (simp add: thread_step_def safe_step_def)
next
  case LeavingTickle
  then have "world_inv (goto t Left (on_sched tickle s))"
    by (auto intro!: world_inv_quiet [OF assms(1)] simp: in_hand_def)
  then show ?thesis using LeavingTickle by (simp add: thread_step_def safe_step_def)
qed (use assms(1) in \<open>auto simp: thread_step_def safe_step_def [of Blocked] intro: safe_begin safe_loop safe_decide safe_idle_top\<close>)

lemma do_schedule_fields [simp]:
  "co_world (do_schedule x s) = co_world s" "places (do_schedule x s) = places s" "idle_co (do_schedule x s) = idle_co s"
  "m_main_thread_id (sched (do_schedule x s)) = m_main_thread_id (sched s)"
  "m_is_stopping (sched (do_schedule x s)) = m_is_stopping (sched s)"
  "m_thread_cnt (sched (do_schedule x s)) = m_thread_cnt (sched s)"
  "m_tasks (sched (do_schedule x s)) = m_tasks (sched s) @ (if m_is_stopping (sched s) then [] else [x])"
  by (simp_all add: do_schedule_def schedule_def Let_def)

lemma world_inv_schedule:
  assumes "world_inv s" "task_fine s x"
  shows "world_inv (do_schedule x s)"
proof -
  have "thread_fine s u \<Longrightarrow> thread_fine (do_schedule x s) u" for u
    by (rule thread_fine_frame) auto
  then show ?thesis using assms unfolding world_inv_def by (auto simp: task_fine_def)
qed

lemma world_inv_schedule_fn:
  assumes "world_inv s" "mk \<in> {Task_fn, Task_fn_ptr}" "places s t = Off \<or> (\<exists>c. places s t = InTask c)"
  shows "world_inv (do_schedule_fn mk d t tid s)"
proof (cases "m_is_stopping (sched s)")
  case False
  obtain n c w where n: "Coroutine_new d t n (co_world s) = (c, w)" "mk d t tid (co_world s) = (\<lparr>m_co = Some c, m_thread_id = tid\<rparr>, w)"
    using assms(2)
    by (cases "Coroutine_new d t 0 (co_world s)"; cases "Coroutine_new d t tid (co_world s)")
      (auto simp: Task_fn_def Task_fn_ptr_def)
  note e = new_effect [OF world_invD(1) [OF assms(1)] n(1)]
  have "world_inv (s\<lparr>co_world := w\<rparr>)"
  proof (rule world_inv_frame [OF assms(1), where t = t])
    show "thread_fine (s\<lparr>co_world := w\<rparr>) t"
      using assms(3) world_invD(2) [OF assms(1), of t] e(3,7)
      by (auto simp: thread_fine_def idle_fine_def split: option.splits)
  qed (use e in auto)
  moreover have "task_fine (s\<lparr>co_world := w\<rparr>) \<lparr>m_co = Some c, m_thread_id = tid\<rparr>"
    using co_in_mono [OF e(4), of UNIV] e(5) idle_exists [OF assms(1)] by (auto simp: task_fine_def)
  ultimately show ?thesis using world_inv_schedule False n(2) by (simp add: do_schedule_fn_def)
qed (use assms in \<open>simp add: do_schedule_fn_def\<close>)

lemma world_inv_task_leaves:
  assumes "world_inv s" "places s t = InTask c" "Yield t (co_world s) = Inr w \<or> Run_end t b (co_world s) = Inr w"
  shows "world_inv (goto t Loop (s\<lparr>co_world := w\<rparr>))"
proof -
  have t: "inside (co_world s) t c" "\<forall>u. idle_co s u \<noteq> Some c" "idle_fine s t"
    using world_invD(2) [OF assms(1), of t] assms(2) by (auto simp: thread_fine_def)
  obtain B where w: "co_reach w" "at_main w t" "other_threads t c (co_world s) w" "co_in B w c"
    using leave_effect(1) [OF world_invD(1) [OF assms(1)] t(1)] leave_effect(2) [OF world_invD(1) [OF assms(1)] t(1), of b] assms(3)
    by auto
  show ?thesis
    by (rule world_inv_leave [OF assms(1) t(1) w, of _ "m_idle_cnt (sched s)"]) (use t assms(2) in auto)
qed

lemma world_inv_stop: "world_inv s \<Longrightarrow> world_inv (on_sched stop s)"
proof -
  have "thread_fine s u \<Longrightarrow> thread_fine (on_sched stop s) u" for u
    by (rule thread_fine_frame) (auto simp: stop_def)
  then show "world_inv s \<Longrightarrow> world_inv (on_sched stop s)" by (simp add: world_inv_def task_fine_def)
qed

lemma world_inv_step: "sched_step d t s s' \<Longrightarrow> world_inv s \<and> count_inv s \<Longrightarrow> world_inv s'"
proof (induction rule: sched_step.induct)
  case (step_thread d t s s')
  then show ?case using safe_thread_step [of s d t] by (simp add: safe_step_def)
next
  case (step_schedule s c co d t tid)
  then have "task_fine s (Task_co (Some c) tid)" by (simp add: task_fine_def Task_co_def co_in_def)
  then show ?case using step_schedule world_inv_schedule by blast
qed (auto intro: world_inv_schedule_fn world_inv_task_leaves world_inv_stop)

lemma started_inv:
  assumes "good_start use_main cnt cur tids w"
  shows "world_inv (started name use_main cnt cur tids w) \<and> count_inv (started name use_main cnt cur tids w)"
proof -
  let ?s = "started name use_main cnt cur tids w"
  have g: "distinct tids" "cur \<notin> set tids" "unat cnt = length tids + (if use_main then 1 else 0)" "cnt \<noteq> 0"
    "co_reach w" "\<And>t. t = cur \<or> t \<in> set tids \<Longrightarrow> running w t = main_co w t"
    using assms by (auto simp: good_start_def list_all_iff)
  have p: "places ?s t = (if t \<in> set tids \<or> use_main \<and> t = cur then Starting else Off)"
    "co_world ?s = w" "idle_co ?s = (\<lambda>t. None)" "m_tasks (sched ?s) = []" "m_main_thread_id (sched ?s) = cur"
    "m_thread_cnt (sched ?s) = (if use_main then cnt - 1 else cnt)" "m_idle_cnt (sched ?s) = 0" for t
    by (auto simp: started_def start_def Scheduler_new_def)
  have "thread_fine ?s t" for t using g(6) p by (auto simp: thread_fine_def)
  then have "world_inv ?s" using g(5) p(1-4) by (auto simp: world_inv_def in_hand_def)
  moreover have "active ?s = set tids" using g(2) p(1,5) by (auto simp: active_def)
  moreover have "unat (cnt - 1) = unat cnt - 1" using g(4) by (rule unat_minus_one)
  ultimately show ?thesis using g(1,3) p(1,5-7) by (auto simp: count_inv_def distinct_card)
qed

lemma sched_reach_inv: "sched_reach d s \<Longrightarrow> world_inv s \<and> count_inv s"
proof (induction rule: sched_reach.induct)
  case (reach_start use_main cnt cur tids w name)
  show ?case using started_inv [OF reach_start] by simp
next
  case (reach_sched s t s')
  then show ?case using world_inv_step count_inv_step by blast
qed

section \<open>Theorems\<close>

text \<open>
  C3: No task is lost in the queue, none is taken twice, and order is kept. Among the tasks for
  any thread, and among those for a given thread, the accepted ones are those taken so far
  followed by those in the queue; a thread takes only tasks for itself or for any thread; and of
  what it took, it has handled everything but at most the task in its hand.
\<close>

theorem tasks_taken_once_in_order:
  assumes "sched_reach d s"
  shows "(\<forall>k. filter (\<lambda>x. m_thread_id x = k) (accepted s) =
        filter (\<lambda>x. m_thread_id x = k) (map snd (taken s)) @ filter (\<lambda>x. m_thread_id x = k) (m_tasks (sched s))) \<and>
     list_all (\<lambda>(t, x). m_thread_id x \<in> {0, t}) (taken s) \<and>
     (\<forall>t. map snd (filter (\<lambda>(u, x). u = t) (taken s)) =
        map (\<lambda>(u, x, b). x) (filter (\<lambda>(u, x, b). u = t) (handled s)) @ in_hand (places s t))"
  using queue_inv_reach [OF assms] by (simp add: queue_inv_def list_all_iff)

definition go :: "nat \<Rightarrow> sched_state \<Rightarrow> sched_state" where
  "go t s = (case thread_step 131072 t s of Next s' \<Rightarrow> s' | _ \<Rightarrow> s)"

lemma reach_go: "sched_reach 131072 s \<Longrightarrow> sched_reach 131072 (go t s)"
  using reach_sched [OF _ step_thread] by (auto simp: go_def split: outcome.splits)

lemma reach_fn: "sched_reach d s \<Longrightarrow> places s t = Off \<or> (\<exists>c. places s t = InTask c) \<Longrightarrow> sched_reach d (do_schedule_fn Task_fn d t tid s)"
  using reach_sched [OF _ step_schedule_fn] by blast

text \<open>Thread 1 made a scheduler with two threads, 2 and 3, and schedules a task.\<close>

definition two_threads :: sched_state where
  "two_threads = do_schedule_fn Task_fn 131072 1 0 (started ''s'' False 2 1 [2, 3] initial)"

lemma two_threads_reached: "sched_reach 131072 two_threads"
  unfolding two_threads_def
proof (rule reach_fn [OF reach_start])
  show "good_start False 2 1 [2, 3] initial" using reach_initial by (auto simp: good_start_def initial_def)
qed (simp add: started_def start_def Scheduler_new_def)

lemmas run_simps = two_threads_def started_def start_def Scheduler_new_def do_schedule_fn_def do_schedule_def schedule_def
  Task_fn_def Coroutine_new_def Coroutine_main_def upd_local_def initial_def tickle_def Let_def
  go_def thread_step_def run_begin_def run_loop_def run_pick_def run_decide_def goto_def switch_def handle_def on_sched_def
  resume_idle_def idle_top_def resume_def swapcontext_def upd_co_def

theorem tasks_taken_once_in_order_witness:
  "let s = go 3 (go 3 two_threads); x = \<lparr>m_co = Some 1, m_thread_id = 0\<rparr> in
     filter (\<lambda>x. m_thread_id x = 0) (accepted s) = [x] \<and> in_hand (places s 3) = [x]"
proof -
  let ?s = "go 3 (go 3 two_threads)"
  have t: "taken ?s = [(3, \<lparr>m_co = Some 1, m_thread_id = 0\<rparr>)]" "m_tasks (sched ?s) = []" "handled ?s = []"
    by (simp_all add: run_simps)
  show ?thesis
    using tasks_taken_once_in_order [OF reach_go [OF reach_go [OF two_threads_reached]], of 3 3] t
    by (auto simp: Let_def elim: allE [of _ 0] allE [of _ 3])
qed



text \<open>All threads wait although a task is in the queue.\<close>

definition asleep :: "sched_state \<Rightarrow> bool" where
  "asleep s \<longleftrightarrow> (\<forall>t. places s t \<in> {Off, IdleWait}) \<and> m_semaphore (sched s) = 0 \<and> m_tasks (sched s) \<noteq> []"

lemma asleep_blocked: "asleep s \<Longrightarrow> thread_step d t s = Blocked"
  by (auto simp: asleep_def thread_step_def dest!: spec [of _ t])

lemma asleep_schedule: "asleep s \<Longrightarrow> asleep (do_schedule x s)"
  by (auto simp: asleep_def do_schedule_def schedule_def Let_def)

lemma asleep_fold: "asleep s \<Longrightarrow> asleep (fold do_schedule xs s)"
  by (induction xs arbitrary: s) (auto intro: asleep_schedule)

definition one_thread :: sched_state where
  "one_thread = started ''s'' False 1 1 [2] initial"

lemma one_thread_reached: "sched_reach 131072 one_thread"
  unfolding one_thread_def
proof (rule reach_start)
  show "good_start False 1 1 [2] initial" using reach_initial by (auto simp: good_start_def initial_def)
qed

definition overslept :: sched_state where
  "overslept = go 2 (do_schedule_fn Task_fn 131072 1 0 (go 2 (go 2 (go 2 (go 2 (go 2 one_thread))))))"

text \<open>
  A wake-up can be lost. When a task is scheduled after the last thread has looked at the
  empty queue and before it counts itself idle, nobody posts the semaphore: every thread waits
  although a task is in the queue. No later \<^verbatim>\<open>schedule\<close> helps, since the queue is not empty any more.
\<close>

theorem lost_wakeup:
  "\<exists>s. sched_reach 131072 s \<and> places s 2 = IdleWait \<and> m_tasks (sched s) \<noteq> [] \<and> \<not> m_is_stopping (sched s) \<and>
     (\<forall>xs t. thread_step 131072 t (fold do_schedule xs s) = Blocked)"
proof (intro exI conjI)
  have off: "places (go 2 (go 2 (go 2 (go 2 (go 2 one_thread))))) 1 = Off"
    by (simp add: run_simps one_thread_def)
  show "sched_reach 131072 overslept"
    unfolding overslept_def by (intro reach_go reach_fn one_thread_reached disjI1 off)
  show "places overslept 2 = IdleWait" "m_tasks (sched overslept) \<noteq> []" "\<not> m_is_stopping (sched overslept)"
    by (simp_all add: overslept_def run_simps one_thread_def)
  have "asleep overslept" by (simp add: asleep_def overslept_def run_simps one_thread_def)
  then show "\<forall>xs t. thread_step 131072 t (fold do_schedule xs overslept) = Blocked"
    using asleep_fold asleep_blocked by blast
qed

text \<open>
  A task whose coroutine still runs on another thread is dropped. A coroutine that is scheduled
  again before it has yielded may be taken by another thread, which throws the task away (with a
  message about a null coroutine), so that the coroutine is not resumed after it yields.
\<close>

theorem running_task_dropped:
  assumes "sched_reach d s" "places s t = Decide (Some x) need" "m_co x = Some c" "places s u = InTask c"
  shows "thread_step d t s = Next (goto t Loop (handle t x False s))"
proof -
  note inv = sched_reach_inv [OF assms(1)]
  have "running (co_world s) u = Some c" using world_invD(2) [of s u] inv assms(4) by (auto simp: thread_fine_def inside_def)
  then obtain co where "cos (co_world s) c = Some co" "m_state co = RUNNING"
    using co_inv_D(1) [OF co_reach_inv [OF world_invD(1)], of s u] inv by (auto simp: thread_ok_def split: option.splits)
  then show ?thesis using assms(2,3) by (simp add: thread_step_def run_decide_def)
qed

definition scheduled_again :: sched_state where
  "scheduled_again = go 2 (go 2 (go 2 (do_schedule (Task_co (Some 1) 0) (go 3 (go 3 (go 3 (go 3 two_threads)))))))"

theorem running_task_dropped_witness:
  "handled (go 2 scheduled_again) = [(3, \<lparr>m_co = Some 1, m_thread_id = 0\<rparr>, True), (2, \<lparr>m_co = Some 1, m_thread_id = 0\<rparr>, False)] \<and>
   m_tasks (sched (go 2 scheduled_again)) = []"
proof -
  let ?s = "go 3 (go 3 (go 3 (go 3 two_threads)))"
  have "sched_reach 131072 ?s" by (intro reach_go two_threads_reached)
  moreover have "\<exists>co. cos (co_world ?s) 1 = Some co \<and> m_stack co" "\<forall>u. idle_co ?s u \<noteq> Some 1"
    by (simp_all add: run_simps)
  ultimately have "sched_reach 131072 (do_schedule (Task_co (Some 1) 0) ?s)"
    using reach_sched [OF _ step_schedule] by metis
  then have "sched_reach 131072 scheduled_again" unfolding scheduled_again_def by (intro reach_go)
  moreover have "places scheduled_again 2 = Decide (Some \<lparr>m_co = Some 1, m_thread_id = 0\<rparr>) False" "places scheduled_again 3 = InTask 1"
    "handled scheduled_again = [(3, \<lparr>m_co = Some 1, m_thread_id = 0\<rparr>, True)]" "m_tasks (sched scheduled_again) = []"
    by (simp_all add: scheduled_again_def run_simps Task_co_def)
  ultimately show ?thesis using running_task_dropped [of 131072 scheduled_again 2 "\<lparr>m_co = Some 1, m_thread_id = 0\<rparr>" False 1 3]
    by (simp add: go_def)
qed

text \<open>
  A task made from a pointer to a function, as for the callbacks of events, has a stack as large
  as the number of its thread; one made from a function has a stack of the default size.
\<close>

lemma fn_ptr_stack_is_thread_id:
  assumes "Task_fn_ptr d cur tid w = (x, w')" "Task_fn d cur tid w = (y, v)" "m_co x = Some c" "m_co y = Some e"
  shows "\<exists>C E. cos w' c = Some C \<and> m_stack_size C = (if tid = 0 then d else tid) \<and> cos v e = Some E \<and> m_stack_size E = d"
  using assms by (auto simp: Task_fn_ptr_def Task_fn_def Coroutine_new_def Let_def)

end
