(* ===== verification/Timer.thy ===== *)
theory Timer
  imports StdSet
begin

text \<open>
  The timer manager of \<^verbatim>\<open>src/timer.cc\<close>. Timers are shared objects: \<open>tm_heap\<close> maps the address
  of each to its fields, \<open>m_timers\<close> is the \<^verbatim>\<open>std::set\<close> of their addresses, ordered by the
  comparator that reads the due time through the pointer. The clock (\<^verbatim>\<open>Millisecond()\<close>) and the
  address of a new object are arguments. Each operation runs under the write lock, so an
  interleaving of threads is a sequence of operations. \<open>on_timer_refresh\<close> is counted in
  \<open>tm_refresh\<close>. Times are integers: an expiry time beyond the range of \<^verbatim>\<open>time_t\<close> is not modelled.
\<close>

section \<open>Data\<close>

datatype 'f callback = Callback 'f | CondCallback nat 'f

record 'f timer =
  t_id :: u64
  t_interval :: int
  t_loop :: bool
  t_next_time :: int
  t_cb :: "'f callback option"

record 'f timer_manager =
  tm_heap :: "nat \<rightharpoonup> 'f timer"
  m_timers :: "nat list"
  s_timer_id :: u64
  tm_refresh :: nat

definition next_time :: "(nat \<rightharpoonup> 'f timer) \<Rightarrow> nat \<Rightarrow> int" where
  "next_time h a = (case h a of Some t \<Rightarrow> t_next_time t | None \<Rightarrow> 0)"

fun Comparator :: "(nat \<rightharpoonup> 'f timer) \<Rightarrow> nat option \<Rightarrow> nat option \<Rightarrow> bool" where
  "Comparator h l None = True"
| "Comparator h None (Some r) = False"
| "Comparator h (Some l) (Some r) =
     (if next_time h l > next_time h r then False
      else if next_time h l < next_time h r then True
      else l < r)"

definition timer_less :: "(nat \<rightharpoonup> 'f timer) \<Rightarrow> nat \<Rightarrow> nat \<Rightarrow> bool" where
  "timer_less h a b = Comparator h (Some a) (Some b)"

definition on_timer_refresh :: "'f timer_manager \<Rightarrow> 'f timer_manager" where
  "on_timer_refresh tm = tm\<lparr>tm_refresh := tm_refresh tm + 1\<rparr>"

definition TimerManager_new :: "(nat \<rightharpoonup> 'f timer) \<Rightarrow> 'f timer_manager" where
  "TimerManager_new h = \<lparr>tm_heap = h, m_timers = [], s_timer_id = 0, tm_refresh = 0\<rparr>"

section \<open>Operations\<close>

text \<open>\<^verbatim>\<open>m_timers.begin() == m_timers.find(timer)\<close>, on a set that is not empty.\<close>

definition is_begin :: "(nat \<rightharpoonup> 'f timer) \<Rightarrow> nat \<Rightarrow> nat list \<Rightarrow> bool" where
  "is_begin h a ts \<longleftrightarrow> ts \<noteq> [] \<and> set_find (timer_less h) a ts = Some (hd ts)"

definition Timer_new :: "int \<Rightarrow> u64 \<Rightarrow> int \<Rightarrow> bool \<Rightarrow> 'f callback option \<Rightarrow> 'f timer" where
  "Timer_new now i ms loop cb =
     \<lparr>t_id = i, t_interval = ms, t_loop = loop, t_next_time = now + ms, t_cb = cb\<rparr>"

definition add_timer ::
    "nat \<Rightarrow> int \<Rightarrow> int \<Rightarrow> 'f callback option \<Rightarrow> bool \<Rightarrow> 'f timer_manager \<Rightarrow> nat \<times> 'f timer_manager" where
  "add_timer addr now interval cb loop tm =
     (let i = s_timer_id tm + 1;
          h = (tm_heap tm)(addr \<mapsto> Timer_new now i interval loop cb);
          ts = set_insert (timer_less h) addr (m_timers tm);
          tm1 = tm\<lparr>tm_heap := h, m_timers := ts, s_timer_id := i\<rparr>
      in (addr, if is_begin h addr ts then on_timer_refresh tm1 else tm1))"

text \<open>
  \<^verbatim>\<open>add_cond_timer\<close> binds the condition into the callback; \<^verbatim>\<open>loop\<close> is not passed on, so the
  default of \<open>add_timer\<close> applies.
\<close>

definition add_cond_timer ::
    "nat \<Rightarrow> int \<Rightarrow> int \<Rightarrow> 'f \<Rightarrow> nat \<Rightarrow> bool \<Rightarrow> 'f timer_manager \<Rightarrow> nat \<times> 'f timer_manager" where
  "add_cond_timer addr now interval cb cond loop tm =
     add_timer addr now interval (Some (CondCallback cond cb)) False tm"

text \<open>Running a callback: a conditional one runs only while its object is alive.\<close>

fun run_callback :: "(nat \<Rightarrow> bool) \<Rightarrow> 'f callback \<Rightarrow> 'f option" where
  "run_callback alive (Callback f) = Some f"
| "run_callback alive (CondCallback cond f) = (if alive cond then Some f else None)"

definition is_valid_timer :: "nat option \<Rightarrow> 'f timer_manager \<Rightarrow> bool" where
  "is_valid_timer timer tm \<longleftrightarrow>
     set_find (Comparator (tm_heap tm)) timer (map Some (m_timers tm)) \<noteq> None"

text \<open>\<open>None\<close> where the pointer is null and would be dereferenced.\<close>

definition reset_timer :: "nat option \<Rightarrow> int \<Rightarrow> 'f timer_manager \<Rightarrow> 'f timer_manager option" where
  "reset_timer timer interval tm =
     (case timer of
        None \<Rightarrow> None
      | Some a \<Rightarrow>
          (case tm_heap tm a of
             None \<Rightarrow> None
           | Some t \<Rightarrow>
               if t_interval t = interval then Some tm
               else
                 let h = (tm_heap tm)(a \<mapsto> t\<lparr>t_interval := interval\<rparr>);
                     ts = (if set_find (timer_less h) a (m_timers tm) = None
                           then set_insert (timer_less h) a (m_timers tm)
                           else set_insert (timer_less h) a (set_erase (timer_less h) a (m_timers tm)));
                     tm1 = tm\<lparr>tm_heap := h, m_timers := ts\<rparr>
                 in Some (if is_begin h a ts then on_timer_refresh tm1 else tm1)))"

definition drop_cb :: "'f timer \<Rightarrow> 'f timer" where
  "drop_cb t = t\<lparr>t_cb := None\<rparr>"

definition cancel_timer :: "nat option \<Rightarrow> 'f timer_manager \<Rightarrow> bool \<times> 'f timer_manager" where
  "cancel_timer timer tm =
     (case timer of
        None \<Rightarrow> (False, tm)
      | Some a \<Rightarrow>
          if set_find (timer_less (tm_heap tm)) a (m_timers tm) = None then (False, tm)
          else
            let need_refresh = is_begin (tm_heap tm) a (m_timers tm);
                ts = set_erase (timer_less (tm_heap tm)) a (m_timers tm);
                tm1 = tm\<lparr>m_timers := ts, tm_heap := (tm_heap tm)(a := map_option drop_cb (tm_heap tm a))\<rparr>
            in (True, if need_refresh then on_timer_refresh tm1 else tm1))"

fun cancel_loop :: "nat list \<Rightarrow> (nat \<rightharpoonup> 'f timer) \<Rightarrow> (nat \<rightharpoonup> 'f timer)" where
  "cancel_loop [] h = h"
| "cancel_loop (a # ts) h = cancel_loop ts (h(a := map_option drop_cb (h a)))"

definition cancel_all_timer :: "'f timer_manager \<Rightarrow> 'f timer_manager" where
  "cancel_all_timer tm =
     on_timer_refresh (tm\<lparr>tm_heap := cancel_loop (m_timers tm) (tm_heap tm), m_timers := []\<rparr>)"

definition next_timer_left_time :: "int \<Rightarrow> 'f timer_manager \<Rightarrow> int" where
  "next_timer_left_time now tm =
     (case m_timers tm of
        [] \<Rightarrow> - 1
      | a # _ \<Rightarrow>
          if now \<ge> next_time (tm_heap tm) a then 0
          else let left_time = next_time (tm_heap tm) a - now in if left_time < 0 then 0 else left_time)"

fun expired_prefix :: "(nat \<rightharpoonup> 'f timer) \<Rightarrow> int \<Rightarrow> nat list \<Rightarrow> nat list" where
  "expired_prefix h now [] = []"
| "expired_prefix h now (a # ts) = (if next_time h a > now then [] else a # expired_prefix h now ts)"

text \<open>What the second loop does to the fields of an expired timer.\<close>

definition rearm :: "int \<Rightarrow> 'f timer \<Rightarrow> 'f timer" where
  "rearm now t = (if t_loop t then t\<lparr>t_next_time := t_interval t + now\<rparr> else drop_cb t)"

fun expire_loop ::
    "int \<Rightarrow> nat list \<Rightarrow> 'f timer_manager \<Rightarrow> 'f callback option list \<Rightarrow> 'f timer_manager \<times> 'f callback option list" where
  "expire_loop now [] tm cbs = (tm, cbs)"
| "expire_loop now (a # es) tm cbs =
     (case tm_heap tm a of
        None \<Rightarrow> expire_loop now es tm cbs
      | Some t \<Rightarrow>
          let ts = set_erase (timer_less (tm_heap tm)) a (m_timers tm);
              h = (tm_heap tm)(a \<mapsto> rearm now t)
          in expire_loop now es
               (tm\<lparr>tm_heap := h, m_timers := (if t_loop t then set_insert (timer_less h) a ts else ts)\<rparr>)
               (cbs @ [t_cb t]))"

definition all_expired_cbs :: "int \<Rightarrow> 'f timer_manager \<Rightarrow> 'f timer_manager \<times> 'f callback option list" where
  "all_expired_cbs now tm =
     (if m_timers tm = [] then (tm, [])
      else expire_loop now (expired_prefix (tm_heap tm) now (m_timers tm)) tm [])"

section \<open>The order of the timers\<close>

lemma timer_less_iff:
  "timer_less h a b \<longleftrightarrow> next_time h a < next_time h b \<or> next_time h a = next_time h b \<and> a < b"
  by (auto simp: timer_less_def)

interpretation tl: total_comparator "timer_less h" for h :: "nat \<rightharpoonup> 'f timer"
  by unfold_locales (auto simp: timer_less_iff)

definition tm_inv :: "'f timer_manager \<Rightarrow> bool" where
  "tm_inv tm \<longleftrightarrow> sorted_wrt (timer_less (tm_heap tm)) (m_timers tm) \<and> set (m_timers tm) \<subseteq> dom (tm_heap tm)"

lemma tm_invE:
  assumes "tm_inv tm"
  obtains "sorted_wrt (timer_less (tm_heap tm)) (m_timers tm)" "set (m_timers tm) \<subseteq> dom (tm_heap tm)"
  using assms by (simp add: tm_inv_def)

text \<open>Changing a timer that is not in the set, or not its due time, keeps the order.\<close>

lemma sorted_frame:
  assumes "sorted_wrt (timer_less h) ts" "\<And>a. a \<in> set ts \<Longrightarrow> next_time h' a = next_time h a"
  shows "sorted_wrt (timer_less h') ts"
  using assms(2) by (intro tl.sorted_agree [OF assms(1)]) (simp add: timer_less_iff)

lemma next_time_upd: "next_time (h(a := x)) b = (if b = a then (case x of Some t \<Rightarrow> t_next_time t | None \<Rightarrow> 0) else next_time h b)"
  by (simp add: next_time_def)

lemma is_begin_iff:
  "sorted_wrt (timer_less h) ts \<Longrightarrow> a \<in> set ts \<Longrightarrow>
     is_begin h a ts \<longleftrightarrow> (\<forall>b \<in> set ts. b = a \<or> timer_less h a b)"
proof (cases ts)
  case (Cons b bs)
  assume *: "sorted_wrt (timer_less h) ts" "a \<in> set ts"
  then have "is_begin h a ts \<longleftrightarrow> b = a" using tl.set_find_mem [of h ts a] by (auto simp: is_begin_def Cons)
  moreover have "b = a \<longleftrightarrow> (\<forall>x \<in> set ts. x = a \<or> timer_less h a x)"
  proof
    assume "\<forall>x \<in> set ts. x = a \<or> timer_less h a x"
    then show "b = a" using tl.hd_least [of h b bs a] * by (simp add: Cons)
  qed (use * in \<open>simp add: Cons\<close>)
  ultimately show ?thesis by blast
qed simp

lemma null_not_found: "set_find (Comparator h) None (map Some ts) = None"
  by (induction ts) auto

lemma found_Some: "set_find (Comparator h) (Some a) (map Some ts) = map_option Some (set_find (timer_less h) a ts)"
  by (induction ts) (auto simp: timer_less_def)

lemma is_valid_timer_iff: "tm_inv tm \<Longrightarrow> is_valid_timer p tm \<longleftrightarrow> (\<exists>a. p = Some a \<and> a \<in> set (m_timers tm))"
  by (cases p) (auto simp: is_valid_timer_def null_not_found found_Some tm_inv_def tl.set_find_mem)

section \<open>Effect of the operations\<close>

lemma refresh_simps [simp]:
  "tm_heap (on_timer_refresh tm) = tm_heap tm" "m_timers (on_timer_refresh tm) = m_timers tm"
  "s_timer_id (on_timer_refresh tm) = s_timer_id tm" "tm_refresh (on_timer_refresh tm) = tm_refresh tm + 1"
  "tm_inv (on_timer_refresh tm) = tm_inv tm"
  by (simp_all add: on_timer_refresh_def tm_inv_def)

lemma add_timer_effect:
  assumes "tm_inv tm" "tm_heap tm addr = None" "add_timer addr now interval cb loop tm = (p, tm')"
  shows "p = addr" "tm_inv tm'" "set (m_timers tm') = insert addr (set (m_timers tm))"
    "tm_heap tm' = (tm_heap tm)(addr \<mapsto> Timer_new now (s_timer_id tm + 1) interval loop cb)"
    "tm_refresh tm' = tm_refresh tm + (if \<forall>b \<in> set (m_timers tm). now + interval < next_time (tm_heap tm) b \<or>
        now + interval = next_time (tm_heap tm) b \<and> addr < b then 1 else 0)"
proof -
  let ?h = "(tm_heap tm)(addr \<mapsto> Timer_new now (s_timer_id tm + 1) interval loop cb)"
  have fresh: "addr \<notin> set (m_timers tm)" using assms(1,2) by (auto simp: tm_inv_def)
  from assms(1) have "sorted_wrt (timer_less (tm_heap tm)) (m_timers tm)" by (rule tm_invE)
  then have s: "sorted_wrt (timer_less ?h) (m_timers tm)"
    by (rule sorted_frame) (use fresh in \<open>auto simp: next_time_upd\<close>)
  let ?ts = "set_insert (timer_less ?h) addr (m_timers tm)"
  have ts: "set ?ts = insert addr (set (m_timers tm))" "sorted_wrt (timer_less ?h) ?ts"
    by (rule tl.set_insert_mem [OF s]) (rule tl.sorted_set_insert [OF s])
  have tm': "m_timers tm' = ?ts" "tm_heap tm' = ?h" "p = addr"
      "tm_refresh tm' = tm_refresh tm + (if is_begin ?h addr ?ts then 1 else 0)"
    using assms(3) by (auto simp: add_timer_def Let_def split: if_splits)
  then show "p = addr" "set (m_timers tm') = insert addr (set (m_timers tm))" "tm_heap tm' = ?h" using ts by simp_all
  show "tm_inv tm'" using tm' ts assms(1) by (auto simp: tm_inv_def)
  have "is_begin ?h addr ?ts \<longleftrightarrow> (\<forall>b \<in> set (m_timers tm). timer_less ?h addr b)"
    using is_begin_iff [OF ts(2)] ts(1) fresh by auto
  then show "tm_refresh tm' = tm_refresh tm + (if \<forall>b \<in> set (m_timers tm). now + interval < next_time (tm_heap tm) b \<or>
        now + interval = next_time (tm_heap tm) b \<and> addr < b then 1 else 0)"
    using tm'(4) fresh by (auto simp: timer_less_iff next_time_upd Timer_new_def)
qed

lemma cancel_timer_effect:
  assumes "tm_inv tm" "a \<in> set (m_timers tm)"
  shows "\<exists>tm'. cancel_timer (Some a) tm = (True, tm') \<and> tm_inv tm' \<and> set (m_timers tm') = set (m_timers tm) - {a} \<and>
     tm_heap tm' = (tm_heap tm)(a := map_option drop_cb (tm_heap tm a))"
proof -
  let ?h = "tm_heap tm" and ?h' = "(tm_heap tm)(a := map_option drop_cb (tm_heap tm a))"
  from assms(1) have s: "sorted_wrt (timer_less ?h) (m_timers tm)" by (rule tm_invE)
  let ?ts = "set_erase (timer_less ?h) a (m_timers tm)"
  have ts: "set ?ts = set (m_timers tm) - {a}" "sorted_wrt (timer_less ?h) ?ts"
    by (rule tl.set_erase_mem [OF s]) (rule tl.sorted_set_erase [OF s])
  have "sorted_wrt (timer_less ?h') ?ts" by (rule sorted_frame [OF ts(2)]) (simp add: next_time_upd ts(1))
  moreover have "set_find (timer_less ?h) a (m_timers tm) = Some a" using tl.set_find_mem [OF s, of a] assms(2) by simp
  ultimately show ?thesis using assms ts(1) by (auto simp: cancel_timer_def Let_def tm_inv_def)
qed

lemma cancel_timer_absent: "tm_inv tm \<Longrightarrow> a \<notin> set (m_timers tm) \<Longrightarrow> cancel_timer (Some a) tm = (False, tm)"
  by (auto simp: cancel_timer_def tm_inv_def tl.set_find_mem)

lemma cancel_loop_eq:
  "distinct ts \<Longrightarrow> cancel_loop ts h b = (if b \<in> set ts then map_option drop_cb (h b) else h b)"
  by (induction ts h rule: cancel_loop.induct) auto

lemma rearm_next_time: "next_time (h(a \<mapsto> rearm now t)) b =
    (if b = a then if t_loop t then t_interval t + now else t_next_time t else next_time h b)"
  by (simp add: next_time_upd rearm_def drop_cb_def)

lemma expire_step:
  fixes now :: int and tm :: "'f timer_manager"
  assumes "tm_inv tm" "a \<in> set (m_timers tm)" "tm_heap tm a = Some t"
  defines "h \<equiv> (tm_heap tm)(a \<mapsto> rearm now t)"
  defines "ts \<equiv> set_erase (timer_less (tm_heap tm)) a (m_timers tm)"
  defines "tm1 \<equiv> tm\<lparr>tm_heap := h, m_timers := (if t_loop t then set_insert (timer_less h) a ts else ts)\<rparr>"
  shows "tm_inv tm1" "set (m_timers tm1) = (if t_loop t then set (m_timers tm) else set (m_timers tm) - {a})"
proof -
  from assms(1) have s: "sorted_wrt (timer_less (tm_heap tm)) (m_timers tm)" by (rule tm_invE)
  have ts: "set ts = set (m_timers tm) - {a}" "sorted_wrt (timer_less (tm_heap tm)) ts"
    unfolding ts_def by (rule tl.set_erase_mem [OF s]) (rule tl.sorted_set_erase [OF s])
  have st: "sorted_wrt (timer_less h) ts" by (rule sorted_frame [OF ts(2)]) (simp add: h_def rearm_next_time ts(1))
  note ins = tl.set_insert_mem [OF st, of a] tl.sorted_set_insert [OF st, of a]
  show "set (m_timers tm1) = (if t_loop t then set (m_timers tm) else set (m_timers tm) - {a})"
    using ins(1) ts(1) assms(2) by (auto simp: tm1_def)
  then show "tm_inv tm1" using ins(2) st assms(1-3) by (auto simp: tm_inv_def tm1_def h_def)
qed

lemma expire_loop_effect:
  assumes "tm_inv tm" "distinct es" "set es \<subseteq> set (m_timers tm)" "expire_loop now es tm cbs = (tm', cbs')"
  shows "tm_inv tm' \<and>
     set (m_timers tm') = set (m_timers tm) - {a \<in> set es. \<not> t_loop (the (tm_heap tm a))} \<and>
     (\<forall>a. tm_heap tm' a = (if a \<in> set es then map_option (rearm now) (tm_heap tm a) else tm_heap tm a)) \<and>
     cbs' = cbs @ map (\<lambda>a. t_cb (the (tm_heap tm a))) es \<and> tm_refresh tm' = tm_refresh tm"
  using assms
proof (induction es arbitrary: tm cbs)
  case (Cons a es)
  obtain t where t: "tm_heap tm a = Some t" using Cons.prems(1,3) by (auto simp: tm_inv_def)
  define h where "h = (tm_heap tm)(a \<mapsto> rearm now t)"
  define ts where "ts = set_erase (timer_less (tm_heap tm)) a (m_timers tm)"
  define tm1 where "tm1 = tm\<lparr>tm_heap := h, m_timers := (if t_loop t then set_insert (timer_less h) a ts else ts)\<rparr>"
  have "a \<in> set (m_timers tm)" using Cons.prems(3) by simp
  note step = expire_step [OF Cons.prems(1) this t, where now = now, folded h_def ts_def, folded tm1_def]
  have "expire_loop now es tm1 (cbs @ [t_cb t]) = (tm', cbs')"
    using Cons.prems(4) t by (cases "t_loop t") (simp_all add: Let_def tm1_def h_def ts_def)
  moreover have "set es \<subseteq> set (m_timers tm1)" using Cons.prems(2,3) step(2) by auto
  ultimately have IH: "tm_inv tm' \<and>
     set (m_timers tm') = set (m_timers tm1) - {b \<in> set es. \<not> t_loop (the (tm_heap tm1 b))} \<and>
     (\<forall>b. tm_heap tm' b = (if b \<in> set es then map_option (rearm now) (tm_heap tm1 b) else tm_heap tm1 b)) \<and>
     cbs' = (cbs @ [t_cb t]) @ map (\<lambda>b. t_cb (the (tm_heap tm1 b))) es \<and> tm_refresh tm' = tm_refresh tm1"
    using Cons.prems(2) by (intro Cons.IH [OF step(1)]) simp_all
  have h1: "tm_heap tm1 b = (if b = a then Some (rearm now t) else tm_heap tm b)" for b by (simp add: tm1_def h_def)
  have na: "a \<notin> set es" using Cons.prems(2) by simp
  have "set (m_timers tm') = set (m_timers tm) - {b \<in> set (a # es). \<not> t_loop (the (tm_heap tm b))}"
    using IH step(2) t na by (auto simp: h1)
  moreover have "map (\<lambda>b. t_cb (the (tm_heap tm1 b))) es = map (\<lambda>b. t_cb (the (tm_heap tm b))) es"
    using na by (auto simp: h1)
  moreover have "tm_refresh tm1 = tm_refresh tm" by (simp add: tm1_def)
  ultimately show ?case using IH t na by (auto simp: h1)
qed simp

lemma expired_prefix_eq: "expired_prefix h now ts = takeWhile (\<lambda>a. next_time h a \<le> now) ts"
  by (induction ts) auto

text \<open>In an ordered set the expired timers are those in front.\<close>

lemma expired_prefix_set:
  "sorted_wrt (timer_less h) ts \<Longrightarrow> set (expired_prefix h now ts) = {a \<in> set ts. next_time h a \<le> now}"
proof (induction ts)
  case (Cons a ts)
  then show ?case by (auto simp: timer_less_iff)
qed simp

lemma all_expired_effect:
  assumes "tm_inv tm" "all_expired_cbs now tm = (tm', cbs)"
  defines "due \<equiv> takeWhile (\<lambda>a. next_time (tm_heap tm) a \<le> now) (m_timers tm)"
  shows "tm_inv tm'" "cbs = map (\<lambda>a. t_cb (the (tm_heap tm a))) due"
    "set due = {a \<in> set (m_timers tm). next_time (tm_heap tm) a \<le> now}"
    "set (m_timers tm') = set (m_timers tm) - {a \<in> set due. \<not> t_loop (the (tm_heap tm a))}"
    "\<forall>a. tm_heap tm' a = (if a \<in> set due then map_option (rearm now) (tm_heap tm a) else tm_heap tm a)"
    "tm_refresh tm' = tm_refresh tm"
proof -
  from assms(1) have s: "sorted_wrt (timer_less (tm_heap tm)) (m_timers tm)" by (rule tm_invE)
  have due: "due = expired_prefix (tm_heap tm) now (m_timers tm)" by (simp add: due_def expired_prefix_eq)
  then show sd: "set due = {a \<in> set (m_timers tm). next_time (tm_heap tm) a \<le> now}" using expired_prefix_set [OF s] by simp
  have d: "distinct due" using tl.sorted_distinct [OF s] by (simp add: due_def)
  have "expire_loop now due tm [] = (tm', cbs)"
    using assms(2) due by (auto simp: all_expired_cbs_def split: if_splits)
  from expire_loop_effect [OF assms(1) d _ this] sd
  show "tm_inv tm'" "cbs = map (\<lambda>a. t_cb (the (tm_heap tm a))) due"
    "set (m_timers tm') = set (m_timers tm) - {a \<in> set due. \<not> t_loop (the (tm_heap tm a))}"
    "\<forall>a. tm_heap tm' a = (if a \<in> set due then map_option (rearm now) (tm_heap tm a) else tm_heap tm a)"
    "tm_refresh tm' = tm_refresh tm"
    by auto
qed

lemma reset_timer_effect:
  assumes "tm_inv tm" "tm_heap tm a = Some t" "t_interval t \<noteq> interval"
  shows "\<exists>tm'. reset_timer (Some a) interval tm = Some tm' \<and> tm_inv tm' \<and> set (m_timers tm') = insert a (set (m_timers tm)) \<and>
     tm_heap tm' = (tm_heap tm)(a \<mapsto> t\<lparr>t_interval := interval\<rparr>) \<and> next_time (tm_heap tm') = next_time (tm_heap tm)"
proof -
  let ?h = "(tm_heap tm)(a \<mapsto> t\<lparr>t_interval := interval\<rparr>)" and ?ts = "m_timers tm"
  have nt: "next_time ?h = next_time (tm_heap tm)" using assms(2) by (auto simp: next_time_def fun_eq_iff)
  from assms(1) have "sorted_wrt (timer_less (tm_heap tm)) ?ts" by (rule tm_invE)
  then have s: "sorted_wrt (timer_less ?h) ?ts" by (rule sorted_frame) (simp add: nt)
  note e = tl.sorted_set_erase [OF s, of a] tl.set_erase_mem [OF s, of a]
  define ts' where "ts' = (if set_find (timer_less ?h) a ?ts = None then set_insert (timer_less ?h) a ?ts
      else set_insert (timer_less ?h) a (set_erase (timer_less ?h) a ?ts))"
  have ts': "sorted_wrt (timer_less ?h) ts'" "set ts' = insert a (set ?ts)"
    using tl.sorted_set_insert [OF s, of a] tl.set_insert_mem [OF s, of a]
      tl.sorted_set_insert [OF e(1), of a] tl.set_insert_mem [OF e(1), of a] e(2) by (auto simp: ts'_def)
  have "reset_timer (Some a) interval tm =
      Some (if is_begin ?h a ts' then on_timer_refresh (tm\<lparr>tm_heap := ?h, m_timers := ts'\<rparr>) else tm\<lparr>tm_heap := ?h, m_timers := ts'\<rparr>)"
    using assms(2,3) by (simp add: reset_timer_def Let_def ts'_def)
  moreover have "tm_inv (tm\<lparr>tm_heap := ?h, m_timers := ts'\<rparr>)" using ts' assms(1) by (auto simp: tm_inv_def)
  ultimately show ?thesis using ts' nt by auto
qed

lemma left_time_min:
  assumes "tm_inv tm"
  shows "next_timer_left_time now tm =
     (if m_timers tm = [] then - 1 else max 0 (Min (next_time (tm_heap tm) ` set (m_timers tm)) - now))"
proof (cases "m_timers tm")
  case (Cons a ts)
  from assms have "sorted_wrt (timer_less (tm_heap tm)) (m_timers tm)" by (rule tm_invE)
  then have "\<forall>b \<in> set (m_timers tm). next_time (tm_heap tm) a \<le> next_time (tm_heap tm) b"
    by (auto simp: Cons timer_less_iff)
  then have "Min (next_time (tm_heap tm) ` set (m_timers tm)) = next_time (tm_heap tm) a"
    by (intro Min_eqI) (auto simp: Cons)
  then show ?thesis by (simp add: next_timer_left_time_def Cons)
qed (simp add: next_timer_left_time_def)

section \<open>Properties\<close>

text \<open>
  C13: the set of timers stays ordered by due time and address, with every element a live
  timer, under every operation of the manager: adding a new timer, cancelling one or all,
  resetting, and collecting what has expired.
\<close>

theorem timer_manager_invariant:
  assumes "tm_inv tm"
  shows "(tm_heap tm addr = None \<longrightarrow> tm_inv (snd (add_timer addr now interval cb loop tm))) \<and>
     tm_inv (snd (cancel_timer p tm)) \<and> tm_inv (cancel_all_timer tm) \<and>
     (\<forall>tm'. reset_timer p interval tm = Some tm' \<longrightarrow> tm_inv tm') \<and> tm_inv (fst (all_expired_cbs now tm))"
proof (intro conjI allI impI)
  show "tm_inv (snd (add_timer addr now interval cb loop tm))" if "tm_heap tm addr = None"
    using add_timer_effect(2) [OF assms that, of now interval cb loop] by (cases "add_timer addr now interval cb loop tm") simp
  show "tm_inv (snd (cancel_timer p tm))"
  proof (cases p)
    case (Some a)
    show ?thesis
    proof (cases "a \<in> set (m_timers tm)")
      case True
      from cancel_timer_effect [OF assms True] obtain tm' where "cancel_timer (Some a) tm = (True, tm')" "tm_inv tm'" by blast
      with Some show ?thesis by simp
    next
      case False
      with Some cancel_timer_absent [OF assms] assms show ?thesis by simp
    qed
  qed (simp add: cancel_timer_def assms)
  show "tm_inv (cancel_all_timer tm)" by (simp add: cancel_all_timer_def) (simp add: tm_inv_def)
  show "tm_inv tm'" if r: "reset_timer p interval tm = Some tm'" for tm'
  proof -
    obtain a t where a: "p = Some a" "tm_heap tm a = Some t" using r by (auto simp: reset_timer_def split: option.splits)
    show ?thesis using r a assms reset_timer_effect [OF assms a(2), of interval]
      by (cases "t_interval t = interval") (auto simp: reset_timer_def)
  qed
  show "tm_inv (fst (all_expired_cbs now tm))" 
    using all_expired_effect(1) [OF assms, of now] by (cases "all_expired_cbs now tm") simp
qed

theorem timer_manager_invariant_witness:
  "tm_inv (snd (add_timer 7 100 5 (Some (Callback ())) False (TimerManager_new Map.empty)))"
proof -
  have "tm_inv (TimerManager_new Map.empty)" by (simp add: tm_inv_def TimerManager_new_def)
  from timer_manager_invariant [OF this, of 7 100 5 "Some (Callback ())" False None]
  show ?thesis by (simp add: TimerManager_new_def)
qed

text \<open>
  C9: collecting expired timers takes exactly those that are due, in the order of their due
  times, and returns their callbacks. One-shot timers leave the set and lose their callback,
  repeating ones stay and are due one interval after now, all others are untouched. When
  the intervals of repeating timers are positive, no timer that is due remains.
\<close>

theorem all_expired_exact:
  assumes "tm_inv tm" "all_expired_cbs now tm = (tm', cbs)"
  shows "\<exists>due. sorted_wrt (timer_less (tm_heap tm)) due \<and>
     set due = {a \<in> set (m_timers tm). next_time (tm_heap tm) a \<le> now} \<and>
     cbs = map (\<lambda>a. t_cb (the (tm_heap tm a))) due \<and>
     set (m_timers tm') = {a \<in> set (m_timers tm). a \<in> set due \<longrightarrow> t_loop (the (tm_heap tm a))} \<and>
     (\<forall>a. tm_heap tm' a = (if a \<in> set due then map_option (rearm now) (tm_heap tm a) else tm_heap tm a)) \<and>
     ((\<forall>a \<in> set (m_timers tm). 0 < t_interval (the (tm_heap tm a))) \<longrightarrow>
        (\<forall>a \<in> set (m_timers tm'). now < next_time (tm_heap tm') a))"
proof -
  let ?due = "takeWhile (\<lambda>a. next_time (tm_heap tm) a \<le> now) (m_timers tm)"
  note e = all_expired_effect [OF assms]
  from assms(1) have "sorted_wrt (timer_less (tm_heap tm)) (m_timers tm)" by (rule tm_invE)
  then have "sorted_wrt (timer_less (tm_heap tm)) ?due" by simp
  moreover have "now < next_time (tm_heap tm') a"
    if pos: "\<forall>a \<in> set (m_timers tm). 0 < t_interval (the (tm_heap tm a))" and a: "a \<in> set (m_timers tm')" for a
  proof -
    obtain t where t: "tm_heap tm a = Some t" using a e(4) assms(1) by (auto simp: tm_inv_def)
    have "a \<in> set (m_timers tm)" using a e(4) by blast
    show ?thesis
    proof (cases "a \<in> set ?due")
      case True
      then have "t_loop t" using a e(4) t by auto
      then show ?thesis using True e(5) t pos \<open>a \<in> set (m_timers tm)\<close> by (auto simp: next_time_def rearm_def)
    next
      case False
      then show ?thesis using e(3,5) t \<open>a \<in> set (m_timers tm)\<close> by (auto simp: next_time_def)
    qed
  qed
  ultimately show ?thesis using e(2-5) by (intro exI [of _ ?due]) auto
qed

text \<open>A manager with a one-shot timer due at 105 and a repeating one due at 103.\<close>

definition two_timers :: "nat timer_manager" where
  "two_timers = snd (add_timer 2 100 3 (Some (Callback 20)) True
     (snd (add_timer 4 100 5 (Some (Callback 10)) False (TimerManager_new Map.empty))))"

lemma two_timers_inv: "tm_inv two_timers" "m_timers two_timers = [2, 4]"
  "tm_heap two_timers 4 = Some (Timer_new 100 1 5 False (Some (Callback 10)))"
  "tm_heap two_timers 2 = Some (Timer_new 100 2 3 True (Some (Callback 20)))"
  by (simp_all add: two_timers_def add_timer_def TimerManager_new_def Let_def is_begin_def timer_less_iff next_time_upd Timer_new_def tm_inv_def)

lemma two_timers_due: "next_time (tm_heap two_timers) 2 = 103" "next_time (tm_heap two_timers) 4 = 105"
  by (simp_all add: next_time_def two_timers_inv Timer_new_def)

theorem all_expired_exact_witness:
  "snd (all_expired_cbs 104 two_timers) = [Some (Callback 20)]"
proof -
  obtain tm' cbs where x: "all_expired_cbs 104 two_timers = (tm', cbs)" by force
  from all_expired_exact [OF two_timers_inv(1) x] obtain due where
    d: "sorted_wrt (timer_less (tm_heap two_timers)) due" "set due = {a \<in> set (m_timers two_timers). next_time (tm_heap two_timers) a \<le> 104}"
      "cbs = map (\<lambda>a. t_cb (the (tm_heap two_timers a))) due"
    by (elim exE conjE) (rule that)
  have "{a \<in> set [2, 4]. next_time (tm_heap two_timers) a \<le> 104} = set [2]"
    using two_timers_due by (simp add: Collect_disj_eq conj_disj_distribR Collect_conv_if)
  then have "due = [2]" using d(2) by (intro tl.sorted_unique [OF d(1)]) (simp_all add: two_timers_inv)
  then show ?thesis using x d(3) by (simp add: two_timers_inv Timer_new_def)
qed

text \<open>
  the time to sleep is the time until the earliest timer is due, 0 when it is overdue
  and -1 when there is none; waking up after that time collects at least one callback.
\<close>

theorem sleep_until_next_timer:
  assumes "tm_inv tm"
  shows "next_timer_left_time now tm =
       (if m_timers tm = [] then - 1 else max 0 (Min (next_time (tm_heap tm) ` set (m_timers tm)) - now)) \<and>
     (m_timers tm \<noteq> [] \<longrightarrow> snd (all_expired_cbs (now + next_timer_left_time now tm) tm) \<noteq> [])"
proof -
  have "snd (all_expired_cbs (now + next_timer_left_time now tm) tm) \<noteq> []" if ne: "m_timers tm \<noteq> []"
  proof -
    let ?t = "now + next_timer_left_time now tm"
    obtain a ts where ts: "m_timers tm = a # ts" using ne by (cases "m_timers tm") auto
    have "next_time (tm_heap tm) a \<le> ?t" by (simp add: next_timer_left_time_def ts Let_def)
    then have "takeWhile (\<lambda>a. next_time (tm_heap tm) a \<le> ?t) (m_timers tm) \<noteq> []" by (simp add: ts)
    moreover obtain tm' cbs where x: "all_expired_cbs ?t tm = (tm', cbs)" by force
    ultimately show ?thesis using all_expired_effect(2) [OF assms x] by simp
  qed
  then show ?thesis using left_time_min [OF assms] by blast
qed

theorem sleep_until_next_timer_witness: "next_timer_left_time 101 two_timers = 2"
  using sleep_until_next_timer [OF two_timers_inv(1), of 101] by (simp add: two_timers_inv next_time_def Timer_new_def)

text \<open>
  \<open>reset_timer\<close> with another interval does not move the due time, it only changes the
  interval of the following rounds; and a timer that was cancelled is put back into the set
  by it, without a callback.
\<close>

theorem reset_keeps_due_time:
  assumes "tm_inv tm" "tm_heap tm a = Some t" "t_interval t \<noteq> interval" "a \<in> set (m_timers tm)"
  shows "\<exists>tm1 tm2 tm3. reset_timer (Some a) interval tm = Some tm1 \<and> set (m_timers tm1) = set (m_timers tm) \<and>
     next_time (tm_heap tm1) = next_time (tm_heap tm) \<and>
     cancel_timer (Some a) tm = (True, tm2) \<and> \<not> is_valid_timer (Some a) tm2 \<and>
     reset_timer (Some a) interval tm2 = Some tm3 \<and> is_valid_timer (Some a) tm3 \<and> t_cb (the (tm_heap tm3 a)) = None"
proof -
  obtain tm1 where 1: "reset_timer (Some a) interval tm = Some tm1" "set (m_timers tm1) = insert a (set (m_timers tm))"
      "next_time (tm_heap tm1) = next_time (tm_heap tm)"
    using reset_timer_effect [OF assms(1-3)] by blast
  obtain tm2 where 2: "cancel_timer (Some a) tm = (True, tm2)" "tm_inv tm2" "set (m_timers tm2) = set (m_timers tm) - {a}"
      "tm_heap tm2 a = Some (drop_cb t)"
    using cancel_timer_effect [OF assms(1,4)] assms(2) by auto
  have "t_interval (drop_cb t) \<noteq> interval" using assms(3) by (simp add: drop_cb_def)
  from reset_timer_effect [OF 2(2,4) this] obtain tm3 where 3: "reset_timer (Some a) interval tm2 = Some tm3" "tm_inv tm3"
      "a \<in> set (m_timers tm3)" "tm_heap tm3 a = Some (drop_cb t\<lparr>t_interval := interval\<rparr>)" by auto
  show ?thesis using 1 2 3 assms(4) by (auto simp: is_valid_timer_iff drop_cb_def)
qed

theorem reset_keeps_due_time_witness:
  "\<exists>tm1. reset_timer (Some 4) 50 two_timers = Some tm1 \<and> next_time (tm_heap tm1) 4 = 105"
  using reset_keeps_due_time [OF two_timers_inv(1,3), of 50]
  by (auto simp: two_timers_inv two_timers_due Timer_new_def)

text \<open>
  a new timer is valid until it is cancelled, is due one interval from now, and wakes the
  event loop exactly when it comes before all others; cancelling it restores the set.
\<close>

theorem add_then_cancel:
  assumes "tm_inv tm" "tm_heap tm addr = None" "add_timer addr now interval cb loop tm = (p, tm1)"
  shows "is_valid_timer (Some p) tm1 \<and> next_time (tm_heap tm1) p = now + interval \<and>
     (tm_refresh tm1 = tm_refresh tm + 1 \<longleftrightarrow> (\<forall>b \<in> set (m_timers tm). now + interval < next_time (tm_heap tm) b \<or>
        now + interval = next_time (tm_heap tm) b \<and> addr < b)) \<and>
     (\<exists>tm2. cancel_timer (Some p) tm1 = (True, tm2) \<and> m_timers tm2 = m_timers tm \<and> \<not> is_valid_timer (Some p) tm2)"
proof -
  note a = add_timer_effect [OF assms]
  have "addr \<in> set (m_timers tm1)" using a(3) by simp
  from cancel_timer_effect [OF a(2) this] obtain tm2 where c: "cancel_timer (Some addr) tm1 = (True, tm2)" "tm_inv tm2"
      "set (m_timers tm2) = set (m_timers tm1) - {addr}"
      "tm_heap tm2 = (tm_heap tm1)(addr := map_option drop_cb (tm_heap tm1 addr))" by blast
  have fresh: "addr \<notin> set (m_timers tm)" using assms(1,2) by (auto simp: tm_inv_def)
  have "sorted_wrt (timer_less (tm_heap tm2)) (m_timers tm)"
    using assms(1) fresh by (elim tm_invE) (erule sorted_frame, auto simp: c(4) a(4) next_time_upd)
  moreover have "sorted_wrt (timer_less (tm_heap tm2)) (m_timers tm2)" using c(2) by (rule tm_invE)
  moreover have "set (m_timers tm2) = set (m_timers tm)" using c(3) a(3) fresh by auto
  ultimately have "m_timers tm2 = m_timers tm" by (metis tl.sorted_unique)
  moreover have "next_time (tm_heap tm1) addr = now + interval" by (simp add: a(4) next_time_upd Timer_new_def)
  ultimately show ?thesis using a(1,2,3,5) c fresh by (auto simp: is_valid_timer_iff)
qed

theorem add_then_cancel_witness:
  "is_valid_timer (Some 3) (snd (add_timer 3 100 1 None False two_timers))"
proof -
  have h: "tm_heap two_timers 3 = None"
    by (simp add: two_timers_def add_timer_def TimerManager_new_def Let_def is_begin_def timer_less_iff next_time_upd Timer_new_def)
  obtain p tm1 where x: "add_timer 3 100 1 None False two_timers = (p, tm1)" by force
  have "p = 3" using x by (simp add: add_timer_def Let_def)
  with add_then_cancel [OF two_timers_inv(1) h x] x show ?thesis by simp
qed

end
