(* ===== verification/Iomanager.thy ===== *)
theory Iomanager
  imports Scheduler Timer
begin

text \<open>
  The I/O manager, \<^verbatim>\<open>src/iomanager.cc\<close>: for every descriptor a context with the events that are
  waited for and who waits for them, the registration with epoll, and the loop of the idle
  coroutine. It is a scheduler and a timer manager, so its state has the records of \<open>Scheduler\<close> and
  \<open>Timer\<close>; the pipe that wakes \<^verbatim>\<open>epoll_wait\<close> is the number of bytes in it. \<^verbatim>\<open>epoll_ctl\<close> is an argument
  on a state of the kernel; what is asked of it is the locale \<open>epoll\<close>. Every operation is one
  step. A null scheduler, a context out of range and the use of a thread id that was never set are
  the value \<open>None\<close>.
\<close>

section \<open>State\<close>

definition NONE :: u32 where "NONE = 0"
definition READ :: u32 where "READ = 1"
definition WRITE :: u32 where "WRITE = 4"

lemmas status_defs = NONE_def READ_def WRITE_def

text \<open>Constants of \<^verbatim>\<open>sys/epoll.h\<close>.\<close>

definition EPOLLIN :: u32 where "EPOLLIN = 1"
definition EPOLLOUT :: u32 where "EPOLLOUT = 4"
definition EPOLLERR :: u32 where "EPOLLERR = 8"
definition EPOLLHUP :: u32 where "EPOLLHUP = 16"
definition EPOLLET :: u32 where "EPOLLET = 2147483648"

lemmas epoll_defs = EPOLLIN_def EPOLLOUT_def EPOLLERR_def EPOLLHUP_def EPOLLET_def

datatype ctl_op = CTL_ADD | CTL_MOD | CTL_DEL

type_synonym 'k ctl = "ctl_op \<Rightarrow> nat \<Rightarrow> u32 \<Rightarrow> 'k \<Rightarrow> int \<times> 'k"

record EventContext =
  ec_scheduler :: bool
  ec_thread_id :: "nat option"
  ec_co :: "nat option"
  ec_cb :: bool

record Context =
  c_fd :: nat
  statuses :: u32
  ec_read :: EventContext
  ec_write :: EventContext

record 'k IOManager =
  iom :: Scheduler
  iom_world :: world
  iom_timers :: "nat timer_manager"
  m_tickle_pipe :: nat
  m_appending_event_cnt :: u64
  m_contexts :: "Context list"
  kernel :: 'k

section \<open>Contexts\<close>

text \<open>A context as \<^verbatim>\<open>new Context\<close> makes it: \<^verbatim>\<open>thread_id\<close> has no initial value.\<close>

definition EventContext_new :: EventContext where
  "EventContext_new = \<lparr>ec_scheduler = False, ec_thread_id = None, ec_co = None, ec_cb = False\<rparr>"

definition Context_new :: "nat \<Rightarrow> Context" where
  "Context_new fd = \<lparr>c_fd = fd, statuses = NONE, ec_read = EventContext_new, ec_write = EventContext_new\<rparr>"

definition get_event_context :: "u32 \<Rightarrow> Context \<Rightarrow> EventContext" where
  "get_event_context status ctx = (if status = READ then ec_read ctx else ec_write ctx)"

definition upd_event_context :: "u32 \<Rightarrow> (EventContext \<Rightarrow> EventContext) \<Rightarrow> Context \<Rightarrow> Context" where
  "upd_event_context status f ctx =
     (if status = READ then ctx\<lparr>ec_read := f (ec_read ctx)\<rparr> else ctx\<lparr>ec_write := f (ec_write ctx)\<rparr>)"

definition reset_event_context :: "EventContext \<Rightarrow> EventContext" where
  "reset_event_context e = e\<lparr>ec_thread_id := Some 0, ec_co := None, ec_cb := False, ec_scheduler := False\<rparr>"

definition fd_context_resize :: "nat \<Rightarrow> Context list \<Rightarrow> Context list" where
  "fd_context_resize n cs = (if n \<le> length cs then cs else cs @ map Context_new [length cs..<n])"

section \<open>Scheduling\<close>

definition iom_tickle :: "'k IOManager \<Rightarrow> 'k IOManager" where
  "iom_tickle m = (if m_idle_cnt (iom m) > 0 then m\<lparr>m_tickle_pipe := m_tickle_pipe m + 1\<rparr> else m)"

definition iom_on_timer_refresh :: "'k IOManager \<Rightarrow> 'k IOManager" where
  "iom_on_timer_refresh m = iom_tickle m"

text \<open>\<^verbatim>\<open>schedule\<close> and \<^verbatim>\<open>schedules\<close> of \<^verbatim>\<open>scheduler.h\<close> with the virtual \<^verbatim>\<open>tickle\<close> of the I/O manager.\<close>

definition iom_schedules :: "Task list \<Rightarrow> 'k IOManager \<Rightarrow> bool \<times> 'k IOManager" where
  "iom_schedules vs m =
     (if m_is_stopping (iom m) then (False, m)
      else let need_tickle = (m_tasks (iom m) = []);
               m1 = m\<lparr>iom := (iom m)\<lparr>m_tasks := m_tasks (iom m) @ vs\<rparr>\<rparr>
           in (True, if need_tickle \<and> m_idle_cnt (iom m1) > 0 then iom_tickle m1 else m1))"

definition iom_schedule :: "Task \<Rightarrow> 'k IOManager \<Rightarrow> bool \<times> 'k IOManager" where
  "iom_schedule v m = iom_schedules [v] m"

definition trigger_event :: "nat \<Rightarrow> nat \<Rightarrow> u32 \<Rightarrow> Context \<Rightarrow> 'k IOManager \<Rightarrow> (Context \<times> 'k IOManager) option" where
  "trigger_event d cur status ctx m =
     (if statuses ctx AND status = 0 then Some (ctx, m)
      else
        let ctx1 = ctx\<lparr>statuses := statuses ctx AND NOT status\<rparr>;
            e = get_event_context status ctx1
        in if \<not> ec_scheduler e then None
           else (case ec_thread_id e of
               None \<Rightarrow> None
             | Some tid \<Rightarrow>
                 let m1 = (case ec_co e of
                     Some c \<Rightarrow> snd (iom_schedule (fst (Task_co_ptr (Some c) tid)) m)
                   | None \<Rightarrow>
                       if m_is_stopping (iom m) then m
                       else (case Task_fn_ptr d cur tid (iom_world m) of (x, w) \<Rightarrow> snd (iom_schedule x (m\<lparr>iom_world := w\<rparr>))))
                 in Some (upd_event_context status reset_event_context ctx1, m1)))"

section \<open>Registration\<close>

definition IOManager_new :: "string \<Rightarrow> bool \<Rightarrow> u64 \<Rightarrow> nat \<Rightarrow> world \<Rightarrow> nat timer_manager \<Rightarrow> 'k \<Rightarrow> 'k IOManager" where
  "IOManager_new name use_main cnt cur w tm k =
     \<lparr>iom = Scheduler_new name use_main cnt cur, iom_world = w, iom_timers = tm, m_tickle_pipe = 0,
      m_appending_event_cnt = 0, m_contexts = fd_context_resize 128 [], kernel = k\<rparr>"

text \<open>The destructor cancels the timers; the descriptors and contexts it releases are gone with it.\<close>

definition IOManager_delete :: "'k IOManager \<Rightarrow> nat timer_manager" where
  "IOManager_delete m = cancel_all_timer (iom_timers m)"

definition put_context :: "nat \<Rightarrow> Context \<Rightarrow> 'k IOManager \<Rightarrow> 'k IOManager" where
  "put_context fd ctx m = m\<lparr>m_contexts := (m_contexts m)[fd := ctx]\<rparr>"

text \<open>The contexts after \<^verbatim>\<open>add_event\<close> has made room for \<open>fd\<close>.\<close>

definition context_for :: "nat \<Rightarrow> 'k IOManager \<Rightarrow> 'k IOManager" where
  "context_for fd m =
     (if length (m_contexts m) > fd then m
      else m\<lparr>m_contexts := fd_context_resize (3 * fd div 2) (m_contexts m)\<rparr>)"

definition add_event :: "'k ctl \<Rightarrow> nat \<Rightarrow> bool \<Rightarrow> nat \<Rightarrow> u32 \<Rightarrow> bool \<Rightarrow> 'k IOManager \<Rightarrow> (bool \<times> 'k IOManager) option" where
  "add_event ctl cur has_scheduler fd status cb m =
     (let m1 = context_for fd m
      in if length (m_contexts m1) \<le> fd then None
         else
           let ctx = m_contexts m1 ! fd in
           if statuses ctx AND status \<noteq> 0 then Some (False, m1)
           else
             let (r, k) = ctl (if statuses ctx \<noteq> 0 then CTL_MOD else CTL_ADD) fd (statuses ctx OR status OR EPOLLET) (kernel m1)
             in if r \<noteq> 0 then Some (False, m1\<lparr>kernel := k\<rparr>)
                else
                  let f = (\<lambda>e. if cb then e\<lparr>ec_scheduler := has_scheduler, ec_cb := True\<rparr>
                               else e\<lparr>ec_scheduler := has_scheduler, ec_co := GetRunningCo cur (iom_world m1), ec_thread_id := Some cur\<rparr>)
                  in Some (True, put_context fd (upd_event_context status f (ctx\<lparr>statuses := statuses ctx OR status\<rparr>))
                       (m1\<lparr>kernel := k, m_appending_event_cnt := m_appending_event_cnt m1 + 1\<rparr>)))"

definition del_event :: "'k ctl \<Rightarrow> nat \<Rightarrow> u32 \<Rightarrow> 'k IOManager \<Rightarrow> (bool \<times> 'k IOManager) option" where
  "del_event ctl fd status m =
     (if length (m_contexts m) \<le> fd then Some (False, m)
      else
        let ctx = m_contexts m ! fd in
        if statuses ctx AND status = 0 then Some (False, m)
        else
          let new_status = statuses ctx AND NOT status;
              (r, k) = ctl (if new_status \<noteq> 0 then CTL_MOD else CTL_DEL) fd (EPOLLET OR new_status) (kernel m)
          in if r \<noteq> 0 then Some (False, m\<lparr>kernel := k\<rparr>)
             else Some (True, put_context fd (upd_event_context new_status reset_event_context (ctx\<lparr>statuses := new_status\<rparr>))
                    (m\<lparr>kernel := k, m_appending_event_cnt := m_appending_event_cnt m - 1\<rparr>)))"

definition cancel_event :: "'k ctl \<Rightarrow> nat \<Rightarrow> nat \<Rightarrow> nat \<Rightarrow> u32 \<Rightarrow> 'k IOManager \<Rightarrow> (bool \<times> 'k IOManager) option" where
  "cancel_event ctl d cur fd status m =
     (if length (m_contexts m) \<le> fd then Some (False, m)
      else
        let ctx = m_contexts m ! fd in
        if statuses ctx AND status = 0 then Some (False, m)
        else
          let new_status = statuses ctx AND NOT status;
              (r, k) = ctl (if new_status \<noteq> 0 then CTL_MOD else CTL_DEL) fd (EPOLLET OR new_status) (kernel m)
          in if r \<noteq> 0 then Some (False, m\<lparr>kernel := k\<rparr>)
             else (case trigger_event d cur status ctx (m\<lparr>kernel := k, m_appending_event_cnt := m_appending_event_cnt m - 1\<rparr>) of
                 None \<Rightarrow> None
               | Some (ctx', m') \<Rightarrow> Some (True, put_context fd ctx' m')))"

text \<open>\<^verbatim>\<open>if (statuses & status) { trigger_event(status); --m_appending_event_cnt; }\<close>\<close>

definition trigger_if :: "nat \<Rightarrow> nat \<Rightarrow> bool \<Rightarrow> u32 \<Rightarrow> Context \<times> 'k IOManager \<Rightarrow> (Context \<times> 'k IOManager) option" where
  "trigger_if d cur b status = (\<lambda>(ctx, m).
     if b then
       (case trigger_event d cur status ctx m of
          None \<Rightarrow> None
        | Some (ctx', m') \<Rightarrow> Some (ctx', m'\<lparr>m_appending_event_cnt := m_appending_event_cnt m' - 1\<rparr>))
     else Some (ctx, m))"

definition cancel_all_event :: "'k ctl \<Rightarrow> nat \<Rightarrow> nat \<Rightarrow> nat \<Rightarrow> 'k IOManager \<Rightarrow> (bool \<times> 'k IOManager) option" where
  "cancel_all_event ctl d cur fd m =
     (if length (m_contexts m) \<le> fd then Some (False, m)
      else
        let ctx = m_contexts m ! fd in
        if statuses ctx = 0 then Some (False, m)
        else
          let (r, k) = ctl CTL_DEL fd NONE (kernel m)
          in if r \<noteq> 0 then Some (False, m\<lparr>kernel := k\<rparr>)
             else (case trigger_if d cur (statuses ctx AND READ \<noteq> 0) READ (ctx, m\<lparr>kernel := k\<rparr>) of
                 None \<Rightarrow> None
               | Some (ctx1, m1) \<Rightarrow>
                   (case trigger_if d cur (statuses ctx1 AND WRITE \<noteq> 0) WRITE (ctx1, m1) of
                      None \<Rightarrow> None
                    | Some (ctx2, m2) \<Rightarrow> if statuses ctx2 \<noteq> NONE then None else Some (True, put_context fd ctx2 m2))))"

section \<open>The idle coroutine\<close>

definition EPOLL_MAX_TIMEOUT :: int where "EPOLL_MAX_TIMEOUT = 5000"

definition epoll_timeout :: "int \<Rightarrow> int" where
  "epoll_timeout left =
     (let n = (if left < 0 then EPOLL_MAX_TIMEOUT else left)
      in if n > EPOLL_MAX_TIMEOUT then EPOLL_MAX_TIMEOUT else n)"

text \<open>
  The inner loop: around \<^verbatim>\<open>epoll_wait\<close>, which returned \<open>rt\<close>, the thread counts as idle; the loop ends
  when there are events, a timer is due or the scheduler stops.
\<close>

definition wait_begin :: "int \<Rightarrow> 'k IOManager \<Rightarrow> int \<times> 'k IOManager" where
  "wait_begin now m =
     (epoll_timeout (next_timer_left_time now (iom_timers m)), m\<lparr>iom := (iom m)\<lparr>m_idle_cnt := m_idle_cnt (iom m) + 1\<rparr>\<rparr>)"

definition wait_end :: "int \<Rightarrow> int \<Rightarrow> 'k IOManager \<Rightarrow> bool \<times> 'k IOManager" where
  "wait_end now rt m =
     (rt > 0 \<or> next_timer_left_time now (iom_timers m) \<le> 0 \<or> m_is_stopping (iom m),
      m\<lparr>iom := (iom m)\<lparr>m_idle_cnt := m_idle_cnt (iom m) - 1\<rparr>\<rparr>)"

text \<open>The callbacks of the timers that are due become tasks for any thread.\<close>

fun callback_tasks :: "nat \<Rightarrow> nat \<Rightarrow> nat \<Rightarrow> world \<Rightarrow> Task list \<times> world" where
  "callback_tasks d cur 0 w = ([], w)"
| "callback_tasks d cur (Suc n) w =
     (case Task_fn d cur 0 w of (x, w1) \<Rightarrow> (case callback_tasks d cur n w1 of (xs, w2) \<Rightarrow> (x # xs, w2)))"

definition idle_timers :: "nat \<Rightarrow> nat \<Rightarrow> int \<Rightarrow> 'k IOManager \<Rightarrow> 'k IOManager" where
  "idle_timers d cur now m =
     (case all_expired_cbs now (iom_timers m) of
        (tm, cbs) \<Rightarrow>
          let m1 = m\<lparr>iom_timers := tm\<rparr>
          in if m_is_stopping (iom m1) then m1
             else (case callback_tasks d cur (length cbs) (iom_world m1) of
                     (xs, w) \<Rightarrow> snd (iom_schedules xs (m1\<lparr>iom_world := w\<rparr>))))"

datatype ready = Tickle | Ready nat u32

definition real_status :: "u32 \<Rightarrow> u32" where
  "real_status events =
     (let ev = (if events AND (EPOLLERR OR EPOLLHUP) \<noteq> 0 then events OR (EPOLLIN OR EPOLLOUT) else events);
          s0 = NONE;
          s1 = (if ev AND EPOLLIN \<noteq> 0 then READ else s0)
      in if ev AND EPOLLOUT \<noteq> 0 then WRITE else s1)"

definition idle_event :: "'k ctl \<Rightarrow> nat \<Rightarrow> nat \<Rightarrow> ready \<Rightarrow> 'k IOManager \<Rightarrow> 'k IOManager option" where
  "idle_event ctl d cur event m =
     (case event of
        Tickle \<Rightarrow> Some (m\<lparr>m_tickle_pipe := 0\<rparr>)
      | Ready fd events \<Rightarrow>
          if length (m_contexts m) \<le> fd then None
          else
            let ctx = m_contexts m ! fd; real = real_status events in
            if statuses ctx AND real = NONE then Some m
            else
              let left_status = statuses ctx AND NOT real;
                  (r, k) = ctl (if left_status \<noteq> 0 then CTL_MOD else CTL_DEL) (c_fd ctx) (EPOLLET OR left_status) (kernel m)
              in if r \<noteq> 0 then Some (m\<lparr>kernel := k\<rparr>)
                 else (case trigger_if d cur (real AND READ \<noteq> 0) READ (ctx, m\<lparr>kernel := k\<rparr>) of
                     None \<Rightarrow> None
                   | Some (ctx1, m1) \<Rightarrow>
                       (case trigger_if d cur (real AND WRITE \<noteq> 0) WRITE (ctx1, m1) of
                          None \<Rightarrow> None
                        | Some (ctx2, m2) \<Rightarrow> Some (put_context fd ctx2 m2))))"

fun idle_events :: "'k ctl \<Rightarrow> nat \<Rightarrow> nat \<Rightarrow> ready list \<Rightarrow> 'k IOManager \<Rightarrow> 'k IOManager option" where
  "idle_events ctl d cur [] m = Some m"
| "idle_events ctl d cur (e # es) m =
     (case idle_event ctl d cur e m of None \<Rightarrow> None | Some m' \<Rightarrow> idle_events ctl d cur es m')"

text \<open>Whether the idle coroutine ends, or yields and goes on.\<close>

definition idle_ends :: "nat \<Rightarrow> 'k IOManager \<Rightarrow> bool" where
  "idle_ends cur m \<longleftrightarrow> m_is_stopping (iom m) \<and> m_tasks (iom m) = [] \<and>
     (if m_main_thread_id (iom m) = cur then m_thread_cnt (iom m) = 0 else True)"

definition idle_round :: "'k ctl \<Rightarrow> nat \<Rightarrow> nat \<Rightarrow> int \<Rightarrow> ready list \<Rightarrow> 'k IOManager \<Rightarrow> (bool \<times> 'k IOManager) option" where
  "idle_round ctl d cur now es m =
     (case idle_events ctl d cur es (idle_timers d cur now m) of
        None \<Rightarrow> None
      | Some m' \<Rightarrow> Some (idle_ends cur m', m'))"

section \<open>The contract of epoll\<close>

text \<open>
  \<open>interest\<close> gives the events that are registered for a descriptor (the pipe apart). A call that
  succeeds registers them or takes them away, a call that fails changes nothing.
\<close>

locale epoll =
  fixes ctl :: "'k ctl" and interest :: "'k \<Rightarrow> nat \<Rightarrow> u32 option"
  assumes ctl_done: "ctl ctlop fd ev k = (0, k') \<Longrightarrow>
      interest k' = (interest k)(fd := if ctlop = CTL_DEL then None else Some ev)"
    and ctl_failed: "ctl ctlop fd ev k = (r, k') \<Longrightarrow> r \<noteq> 0 \<Longrightarrow> interest k' = interest k"

text \<open>The statuses of a context: none, \<open>READ\<close>, \<open>WRITE\<close> or both.\<close>

definition registered :: "Context \<Rightarrow> nat" where
  "registered ctx = (if statuses ctx AND READ \<noteq> 0 then 1 else 0) + (if statuses ctx AND WRITE \<noteq> 0 then 1 else 0)"

definition context_fine :: "nat \<Rightarrow> Context \<Rightarrow> bool" where
  "context_fine fd ctx \<longleftrightarrow> c_fd ctx = fd \<and> statuses ctx \<in> {0, 1, 4, 5}"

definition mask_of :: "Context \<Rightarrow> u32 option" where
  "mask_of ctx = (if statuses ctx = 0 then None else Some (EPOLLET OR statuses ctx))"

definition iom_inv :: "('k \<Rightarrow> nat \<Rightarrow> u32 option) \<Rightarrow> 'k IOManager \<Rightarrow> bool" where
  "iom_inv interest m \<longleftrightarrow>
     128 \<le> length (m_contexts m) \<and> (\<forall>fd < length (m_contexts m). context_fine fd (m_contexts m ! fd)) \<and>
     m_appending_event_cnt m = of_nat (sum_list (map registered (m_contexts m))) \<and>
     (\<forall>fd. interest (kernel m) fd = (if fd < length (m_contexts m) then mask_of (m_contexts m ! fd) else None))"

lemma sum_list_update_nat:
  fixes f :: "'a \<Rightarrow> nat"
  shows "i < length xs \<Longrightarrow> sum_list (map f (xs[i := v])) + f (xs ! i) = sum_list (map f xs) + f v"
  by (induction xs arbitrary: i) (auto simp: nth_Cons split: nat.splits)

lemma iom_inv_put:
  assumes "iom_inv interest m" "fd < length (m_contexts m)" "m_contexts m' = (m_contexts m)[fd := ctx]"
    "context_fine fd ctx" "interest (kernel m') = (interest (kernel m))(fd := mask_of ctx)"
    "m_appending_event_cnt m' + of_nat (registered (m_contexts m ! fd)) = m_appending_event_cnt m + of_nat (registered ctx)"
  shows "iom_inv interest m'"
proof -
  have "of_nat (sum_list (map registered (m_contexts m')) + registered (m_contexts m ! fd)) =
      (of_nat (sum_list (map registered (m_contexts m)) + registered ctx) :: u64)"
    using sum_list_update_nat [OF assms(2), of registered ctx] assms(3) by simp
  then have "m_appending_event_cnt m' + of_nat (registered (m_contexts m ! fd)) =
      of_nat (sum_list (map registered (m_contexts m'))) + of_nat (registered (m_contexts m ! fd))"
    using assms(1,6) by (simp add: iom_inv_def)
  then have "m_appending_event_cnt m' = of_nat (sum_list (map registered (m_contexts m')))"
    by (rule add_right_imp_eq)
  then show ?thesis using assms(1-5) by (auto simp: iom_inv_def nth_list_update)
qed

lemma iom_inv_same:
  assumes "iom_inv interest m" "m_contexts m' = m_contexts m" "interest (kernel m') = interest (kernel m)"
    "m_appending_event_cnt m' = m_appending_event_cnt m"
  shows "iom_inv interest m'"
  using assms by (simp add: iom_inv_def)

lemma schedules_frame [simp]:
  "kernel (snd (iom_schedules xs m)) = kernel m" "m_contexts (snd (iom_schedules xs m)) = m_contexts m"
  "m_appending_event_cnt (snd (iom_schedules xs m)) = m_appending_event_cnt m"
  by (simp_all add: iom_schedules_def iom_tickle_def Let_def)

lemma upd_event_fields [simp]:
  "c_fd (upd_event_context st f ctx) = c_fd ctx" "statuses (upd_event_context st f ctx) = statuses ctx"
  by (simp_all add: upd_event_context_def)

lemma trigger_frame:
  assumes "trigger_event d cur st ctx m = Some (ctx', m')" "st \<in> {READ, WRITE}" "statuses ctx \<in> {0, 1, 4, 5}"
  shows "kernel m' = kernel m" "m_contexts m' = m_contexts m" "m_appending_event_cnt m' = m_appending_event_cnt m"
    "c_fd ctx' = c_fd ctx" "statuses ctx' = statuses ctx AND NOT st"
  using assms
  by (auto simp: trigger_event_def iom_schedule_def Let_def status_defs split: if_splits option.splits prod.splits)

lemma status_bits:
  assumes "x \<in> {0, 1, 4, 5 :: u32}" "st \<in> {READ, WRITE}"
  shows "x AND NOT st \<in> {0, 1, 4, 5}" "x OR st \<in> {0, 1, 4, 5}"
  using assms by (auto simp: status_defs)

lemma registered_minus:
  assumes "statuses ctx \<in> {0, 1, 4, 5}" "st \<in> {READ, WRITE}" "statuses ctx AND st \<noteq> 0" "statuses ctx' = statuses ctx AND NOT st"
  shows "registered ctx = registered ctx' + 1"
  using assms by (auto simp: registered_def status_defs)

lemma registered_plus:
  assumes "statuses ctx \<in> {0, 1, 4, 5}" "st \<in> {READ, WRITE}" "statuses ctx AND st = 0" "statuses ctx' = statuses ctx OR st"
  shows "registered ctx' = registered ctx + 1"
  using assms by (auto simp: registered_def status_defs)

lemma iom_invD:
  assumes "iom_inv interest m" "fd < length (m_contexts m)"
  shows "c_fd (m_contexts m ! fd) = fd" "statuses (m_contexts m ! fd) \<in> {0, 1, 4, 5}"
  using assms by (auto simp: iom_inv_def context_fine_def)

lemma trigger_if_frame:
  assumes "trigger_if d cur b st (ctx, m) = Some (ctx', m')" "st \<in> {READ, WRITE}" "statuses ctx \<in> {0, 1, 4, 5}"
    "b = (statuses ctx AND st \<noteq> 0)"
  shows "kernel m' = kernel m" "m_contexts m' = m_contexts m" "c_fd ctx' = c_fd ctx" "statuses ctx' = statuses ctx AND NOT st"
    "m_appending_event_cnt m' + of_nat (registered ctx) = m_appending_event_cnt m + of_nat (registered ctx')"
proof -
  have "kernel m' = kernel m \<and> m_contexts m' = m_contexts m \<and> c_fd ctx' = c_fd ctx \<and> statuses ctx' = statuses ctx AND NOT st \<and>
     m_appending_event_cnt m' + of_nat (registered ctx) = m_appending_event_cnt m + of_nat (registered ctx')"
  proof (cases b)
    case True
    then obtain m1 where t: "trigger_event d cur st ctx m = Some (ctx', m1)"
      "m' = m1\<lparr>m_appending_event_cnt := m_appending_event_cnt m1 - 1\<rparr>"
      using assms(1) by (auto simp: trigger_if_def split: option.splits)
    note f = trigger_frame [OF t(1) assms(2,3)]
    have "registered ctx = registered ctx' + 1" using registered_minus [OF assms(3,2) _ f(5)] True assms(4) by simp
    then show ?thesis using f t(2) by simp
  next
    case False
    then have "ctx' = ctx" "m' = m" "statuses ctx AND st = 0" using assms(1,4) by (simp_all add: trigger_if_def)
    moreover have "statuses ctx AND NOT st = statuses ctx"
      using assms(2,3) \<open>statuses ctx AND st = 0\<close> by (auto simp: status_defs)
    ultimately show ?thesis by simp
  qed
  then show "kernel m' = kernel m" "m_contexts m' = m_contexts m" "c_fd ctx' = c_fd ctx" "statuses ctx' = statuses ctx AND NOT st"
    "m_appending_event_cnt m' + of_nat (registered ctx) = m_appending_event_cnt m + of_nat (registered ctx')" by simp_all
qed

lemma context_for_inv:
  assumes "iom_inv interest m"
  shows "iom_inv interest (context_for fd m)" "fd < length (m_contexts (context_for fd m))" "kernel (context_for fd m) = kernel m"
proof -
  have len: "128 \<le> length (m_contexts m)" using assms by (simp add: iom_inv_def)
  show "fd < length (m_contexts (context_for fd m))" using len by (auto simp: context_for_def fd_context_resize_def)
  show "kernel (context_for fd m) = kernel m" by (simp add: context_for_def)
  have "registered (Context_new i) = 0" "mask_of (Context_new i) = None" "context_fine i (Context_new i)" for i
    by (simp_all add: registered_def mask_of_def context_fine_def Context_new_def NONE_def)
  then show "iom_inv interest (context_for fd m)"
    using assms by (auto simp: iom_inv_def context_for_def fd_context_resize_def nth_append comp_def)
qed

context epoll
begin

lemma add_event_inv:
  assumes "iom_inv interest m" "st \<in> {READ, WRITE}" "add_event ctl cur hs fd st cb m = Some (b, m')"
  shows "iom_inv interest m'"
proof -
  let ?m = "context_for fd m"
  let ?ctx = "m_contexts ?m ! fd"
  note m1 = context_for_inv [OF assms(1), of fd]
  note c = iom_invD [OF m1(1,2)]
  obtain r k where r: "ctl (if statuses ?ctx \<noteq> 0 then CTL_MOD else CTL_ADD) fd (statuses ?ctx OR st OR EPOLLET) (kernel ?m) = (r, k)"
    by fastforce
  show ?thesis
  proof (cases "statuses ?ctx AND st = 0 \<and> r = 0")
    case False
    then show ?thesis using assms(3) r m1(1,2) ctl_failed [OF r] unfolding add_event_def Let_def
      by (auto split: if_splits intro!: iom_inv_same [OF m1(1)])
  next
    case True
    then obtain f where m': "m' = put_context fd (upd_event_context st f (?ctx\<lparr>statuses := statuses ?ctx OR st\<rparr>))
                       (?m\<lparr>kernel := k, m_appending_event_cnt := m_appending_event_cnt ?m + 1\<rparr>)"
      using assms(3) r m1(2) unfolding add_event_def Let_def by (auto split: if_splits)
    have "statuses ?ctx OR st \<noteq> 0" using assms(2) c(2) by (auto simp: status_defs)
    then show ?thesis
      using r True ctl_done [of "if statuses ?ctx \<noteq> 0 then CTL_MOD else CTL_ADD" fd "statuses ?ctx OR st OR EPOLLET" "kernel ?m" k]
        registered_plus [OF c(2) assms(2), of "upd_event_context st f (?ctx\<lparr>statuses := statuses ?ctx OR st\<rparr>)"] status_bits [OF c(2) assms(2)] c(1)
      by (intro iom_inv_put [OF m1(1,2)])
        (auto simp: m' put_context_def context_fine_def mask_of_def ac_simps)
  qed
qed

text \<open>What \<^verbatim>\<open>epoll_ctl\<close> leaves registered when the statuses go down to \<open>x\<close>.\<close>

lemma ctl_left:
  assumes "ctl (if x \<noteq> 0 then CTL_MOD else CTL_DEL) fd (EPOLLET OR x) k = (0, k')" "statuses ctx = x"
  shows "interest k' = (interest k)(fd := mask_of ctx)"
  using ctl_done [OF assms(1)] assms(2) by (auto simp: mask_of_def)

lemma del_event_inv:
  assumes "iom_inv interest m" "st \<in> {READ, WRITE}" "del_event ctl fd st m = Some (b, m')"
  shows "iom_inv interest m'"
proof (cases "fd < length (m_contexts m)")
  case True
  let ?ctx = "m_contexts m ! fd" and ?n = "statuses (m_contexts m ! fd) AND NOT st"
  note c = iom_invD [OF assms(1) True]
  obtain r k where r: "ctl (if ?n \<noteq> 0 then CTL_MOD else CTL_DEL) fd (EPOLLET OR ?n) (kernel m) = (r, k)" by fastforce
  show ?thesis
  proof (cases "statuses ?ctx AND st \<noteq> 0 \<and> r = 0")
    case False
    then show ?thesis using assms(1,3) r True ctl_failed [OF r] unfolding del_event_def Let_def
      by (auto split: if_splits intro!: iom_inv_same [OF assms(1)])
  next
    case ok: True
    then have m': "m' = put_context fd (upd_event_context ?n reset_event_context (?ctx\<lparr>statuses := ?n\<rparr>))
        (m\<lparr>kernel := k, m_appending_event_cnt := m_appending_event_cnt m - 1\<rparr>)"
      using assms(3) r True by (auto simp: del_event_def Let_def)
    show ?thesis
      using r ok c(1) ctl_left [of ?n fd "kernel m" k "upd_event_context ?n reset_event_context (?ctx\<lparr>statuses := ?n\<rparr>)"]
        registered_minus [OF c(2) assms(2), of "upd_event_context ?n reset_event_context (?ctx\<lparr>statuses := ?n\<rparr>)"] status_bits [OF c(2) assms(2)]
      by (intro iom_inv_put [OF assms(1) True]) (auto simp: m' put_context_def context_fine_def)
  qed
qed (use assms in \<open>simp add: del_event_def\<close>)

lemma cancel_event_inv:
  assumes "iom_inv interest m" "st \<in> {READ, WRITE}" "cancel_event ctl d cur fd st m = Some (b, m')"
  shows "iom_inv interest m'"
proof (cases "fd < length (m_contexts m)")
  case True
  let ?ctx = "m_contexts m ! fd" and ?n = "statuses (m_contexts m ! fd) AND NOT st"
  note c = iom_invD [OF assms(1) True]
  obtain r k where r: "ctl (if ?n \<noteq> 0 then CTL_MOD else CTL_DEL) fd (EPOLLET OR ?n) (kernel m) = (r, k)" by fastforce
  show ?thesis
  proof (cases "statuses ?ctx AND st \<noteq> 0 \<and> r = 0")
    case False
    then show ?thesis using assms(1,3) r True ctl_failed [OF r] unfolding cancel_event_def Let_def
      by (auto split: if_splits intro!: iom_inv_same [OF assms(1)])
  next
    case ok: True
    then obtain ctx m1 where t: "trigger_event d cur st ?ctx (m\<lparr>kernel := k, m_appending_event_cnt := m_appending_event_cnt m - 1\<rparr>) = Some (ctx, m1)"
      "m' = put_context fd ctx m1"
      using assms(3) r True by (auto simp: cancel_event_def Let_def split: option.splits)
    note f = trigger_frame [OF t(1) assms(2) c(2)]
    show ?thesis
      using r ok c(1) f ctl_left [of ?n fd "kernel m" k ctx] registered_minus [OF c(2) assms(2) _ f(5)] status_bits(1) [OF c(2) assms(2)]
      by (intro iom_inv_put [OF assms(1) True]) (auto simp: t(2) put_context_def context_fine_def)
  qed
qed (use assms in \<open>simp add: cancel_event_def\<close>)

text \<open>Both triggers, as in \<^verbatim>\<open>cancel_all_event\<close> and \<^verbatim>\<open>idle\<close>, after the call to epoll.\<close>

lemma triggers_inv:
  assumes inv: "iom_inv interest m" "fd < length (m_contexts m)"
    and t: "trigger_if d cur a READ (m_contexts m ! fd, m\<lparr>kernel := k\<rparr>) = Some (ctx1, m1)"
      "trigger_if d cur b WRITE (ctx1, m1) = Some (ctx2, m2)"
    and ab: "a = (statuses (m_contexts m ! fd) AND READ \<noteq> 0) \<or> \<not> a \<and> ctx1 = m_contexts m ! fd \<and> m1 = m\<lparr>kernel := k\<rparr>"
      "b = (statuses ctx1 AND WRITE \<noteq> 0) \<or> \<not> b \<and> ctx2 = ctx1 \<and> m2 = m1"
    and k: "interest k = (interest (kernel m))(fd := mask_of ctx2)"
  shows "iom_inv interest (put_context fd ctx2 m2)"
proof -
  let ?ctx = "m_contexts m ! fd"
  note c = iom_invD [OF inv]
  have 1: "kernel m1 = k \<and> m_contexts m1 = m_contexts m \<and> c_fd ctx1 = fd \<and> statuses ctx1 \<in> {0, 1, 4, 5} \<and>
      m_appending_event_cnt m1 + of_nat (registered ?ctx) = m_appending_event_cnt m + of_nat (registered ctx1)"
    using ab(1) trigger_if_frame [OF t(1) _ c(2)] c status_bits(1) [OF c(2), of READ] by auto
  have 2: "kernel m2 = k \<and> m_contexts m2 = m_contexts m \<and> c_fd ctx2 = fd \<and> statuses ctx2 \<in> {0, 1, 4, 5} \<and>
      m_appending_event_cnt m2 + of_nat (registered ctx1) = m_appending_event_cnt m1 + of_nat (registered ctx2)"
    using ab(2) trigger_if_frame [OF t(2)] 1 status_bits(1) [of "statuses ctx1" WRITE] by auto
  have "m_appending_event_cnt m2 + of_nat (registered ?ctx) + of_nat (registered ctx1) =
      m_appending_event_cnt m + of_nat (registered ctx2) + of_nat (registered ctx1)"
    using 1 2 by (metis (no_types, opaque_lifting) add.assoc add.commute)
  then have "m_appending_event_cnt m2 + of_nat (registered ?ctx) = m_appending_event_cnt m + of_nat (registered ctx2)"
    by (rule add_right_imp_eq)
  then show ?thesis using 2 k by (intro iom_inv_put [OF inv]) (auto simp: put_context_def context_fine_def)
qed

lemma cancel_all_event_inv:
  assumes "iom_inv interest m" "cancel_all_event ctl d cur fd m = Some (b, m')"
  shows "iom_inv interest m'"
proof (cases "fd < length (m_contexts m) \<and> statuses (m_contexts m ! fd) \<noteq> 0")
  case True
  let ?ctx = "m_contexts m ! fd"
  note c = iom_invD [OF assms(1)]
  obtain r k where r: "ctl CTL_DEL fd NONE (kernel m) = (r, k)" by fastforce
  show ?thesis
  proof (cases "r = 0")
    case False
    then show ?thesis using assms True r ctl_failed [OF r]
      by (auto simp: cancel_all_event_def Let_def intro!: iom_inv_same [OF assms(1)])
  next
    case ok: True
    obtain ctx1 m1 ctx2 m2 where t: "trigger_if d cur (statuses ?ctx AND READ \<noteq> 0) READ (?ctx, m\<lparr>kernel := k\<rparr>) = Some (ctx1, m1)"
        "trigger_if d cur (statuses ctx1 AND WRITE \<noteq> 0) WRITE (ctx1, m1) = Some (ctx2, m2)" "statuses ctx2 = NONE"
        "m' = put_context fd ctx2 m2"
      using assms(2) True r ok by (auto simp: cancel_all_event_def Let_def split: option.splits if_splits)
    have "interest k = (interest (kernel m))(fd := mask_of ctx2)"
      using ctl_done [of CTL_DEL fd NONE "kernel m" k] r ok t(3) by (simp add: mask_of_def NONE_def)
    then show ?thesis using triggers_inv [OF assms(1) _ t(1,2)] True t(4) by simp
  qed
qed (use assms in \<open>auto simp: cancel_all_event_def Let_def split: if_splits\<close>)

lemma real_status_cases: "real_status ev \<in> {NONE, READ, WRITE}"
  by (simp add: real_status_def Let_def)

lemma idle_event_inv:
  assumes "iom_inv interest m" "idle_event ctl d cur e m = Some m'"
  shows "iom_inv interest m'"
proof (cases e)
  case Tickle
  then show ?thesis using assms by (auto simp: idle_event_def intro!: iom_inv_same [OF assms(1)])
next
  case (Ready fd ev)
  let ?ctx = "m_contexts m ! fd" and ?r = "real_status ev"
  let ?n = "statuses ?ctx AND NOT ?r"
  have len: "fd < length (m_contexts m)" using assms(2) Ready by (auto simp: idle_event_def split: if_splits)
  note c = iom_invD [OF assms(1) len]
  show ?thesis
  proof (cases "statuses ?ctx AND ?r = 0")
    case True
    then show ?thesis using assms len Ready by (simp add: idle_event_def NONE_def)
  next
    case False
    obtain r k where r: "ctl (if ?n \<noteq> 0 then CTL_MOD else CTL_DEL) fd (EPOLLET OR ?n) (kernel m) = (r, k)" by fastforce
    show ?thesis
    proof (cases "r = 0")
      case False
      then show ?thesis using assms Ready len r c(1) \<open>statuses ?ctx AND ?r \<noteq> 0\<close> ctl_failed [OF r]
        by (auto simp: idle_event_def Let_def NONE_def intro!: iom_inv_same [OF assms(1)])
    next
      case True
      obtain ctx1 m1 ctx2 m2 where t: "trigger_if d cur (?r AND READ \<noteq> 0) READ (?ctx, m\<lparr>kernel := k\<rparr>) = Some (ctx1, m1)"
          "trigger_if d cur (?r AND WRITE \<noteq> 0) WRITE (ctx1, m1) = Some (ctx2, m2)" "m' = put_context fd ctx2 m2"
        using assms(2) Ready len r c(1) False True by (auto simp: idle_event_def Let_def NONE_def split: option.splits)
      have ab: "((?r AND READ \<noteq> 0) = (statuses ?ctx AND READ \<noteq> 0) \<or> \<not> (?r AND READ \<noteq> 0) \<and> ctx1 = ?ctx \<and> m1 = m\<lparr>kernel := k\<rparr>) \<and>
        ((?r AND WRITE \<noteq> 0) = (statuses ctx1 AND WRITE \<noteq> 0) \<or> \<not> (?r AND WRITE \<noteq> 0) \<and> ctx2 = ctx1 \<and> m2 = m1) \<and>
        statuses ctx2 = ?n"
        using real_status_cases [of ev]
      proof (elim insertE emptyE)
        assume R: "?r = READ"
        then have b: "?r AND READ \<noteq> 0" "?r AND WRITE = 0" "statuses ?ctx AND READ \<noteq> 0" using False by (auto simp: status_defs)
        then have "ctx2 = ctx1" "m2 = m1" using t(2) by (simp_all add: trigger_if_def)
        then show ?thesis using b R trigger_if_frame(4) [OF t(1) _ c(2)] by simp
      next
        assume R: "?r = WRITE"
        then have b: "?r AND READ = 0" "?r AND WRITE \<noteq> 0" "statuses ?ctx AND WRITE \<noteq> 0" using False by (auto simp: status_defs)
        then have "ctx1 = ?ctx" "m1 = m\<lparr>kernel := k\<rparr>" using t(1) by (simp_all add: trigger_if_def)
        then show ?thesis using b R c(2) trigger_if_frame(4) [OF t(2)] by simp
      qed (use False in \<open>simp add: NONE_def\<close>)
      then have st: "statuses ctx2 = ?n" by simp
      have "interest k = (interest (kernel m))(fd := mask_of ctx2)"
        using ctl_left [OF _ st, of fd "kernel m" k] r True by simp
      then show ?thesis using triggers_inv [OF assms(1) len t(1,2)] ab t(3) by blast
    qed
  qed
qed

lemma idle_events_inv: "iom_inv interest m \<Longrightarrow> idle_events ctl d cur es m = Some m' \<Longrightarrow> iom_inv interest m'"
  by (induction es arbitrary: m) (auto split: option.splits intro: idle_event_inv)

lemma idle_round_inv:
  assumes "iom_inv interest m" "idle_round ctl d cur now es m = Some (b, m')"
  shows "iom_inv interest m'"
proof -
  have "iom_inv interest (idle_timers d cur now m)"
    by (rule iom_inv_same [OF assms(1)]) (auto simp: idle_timers_def Let_def split: prod.splits)
  then show ?thesis using assms(2) idle_events_inv by (auto simp: idle_round_def split: option.splits)
qed

end

section \<open>Epoll as a table\<close>

text \<open>
  What the manual says of \<^verbatim>\<open>epoll_ctl\<close>: adding fails for a descriptor that is registered, changing
  and deleting fail for one that is not.
\<close>

definition table_ctl :: "(nat \<rightharpoonup> u32) ctl" where
  "table_ctl ctlop fd ev k =
     (case (ctlop, k fd) of
        (CTL_ADD, None) \<Rightarrow> (0, k(fd \<mapsto> ev))
      | (CTL_MOD, Some _) \<Rightarrow> (0, k(fd \<mapsto> ev))
      | (CTL_DEL, Some _) \<Rightarrow> (0, k(fd := None))
      | _ \<Rightarrow> (-1, k))"

interpretation table: epoll table_ctl "\<lambda>k. k"
  by unfold_locales (auto simp: table_ctl_def split: ctl_op.splits option.splits)

section \<open>Theorems\<close>

text \<open>The operations, as they are called one after the other.\<close>

datatype iom_op = Add nat bool nat u32 bool | Del nat u32 | Cancel nat nat u32 | CancelAll nat nat | Round nat int "ready list"

fun iom_do :: "'k ctl \<Rightarrow> nat \<Rightarrow> iom_op \<Rightarrow> 'k IOManager \<Rightarrow> (bool \<times> 'k IOManager) option" where
  "iom_do ctl d (Add cur hs fd st cb) m = add_event ctl cur hs fd st cb m"
| "iom_do ctl d (Del fd st) m = del_event ctl fd st m"
| "iom_do ctl d (Cancel cur fd st) m = cancel_event ctl d cur fd st m"
| "iom_do ctl d (CancelAll cur fd) m = cancel_all_event ctl d cur fd m"
| "iom_do ctl d (Round cur now es) m = idle_round ctl d cur now es m"

fun iom_run :: "'k ctl \<Rightarrow> nat \<Rightarrow> iom_op list \<Rightarrow> 'k IOManager \<Rightarrow> 'k IOManager option" where
  "iom_run ctl d [] m = Some m"
| "iom_run ctl d (x # xs) m = (case iom_do ctl d x m of None \<Rightarrow> None | Some (b, m') \<Rightarrow> iom_run ctl d xs m')"

fun one_event :: "iom_op \<Rightarrow> bool" where
  "one_event (Add cur hs fd st cb) = (st \<in> {READ, WRITE})"
| "one_event (Del fd st) = (st \<in> {READ, WRITE})"
| "one_event (Cancel cur fd st) = (st \<in> {READ, WRITE})"
| "one_event x = True"

lemma iom_run_inv:
  assumes "epoll ctl interest"
  shows "iom_inv interest m \<Longrightarrow> list_all one_event xs \<Longrightarrow> iom_run ctl d xs m = Some m' \<Longrightarrow> iom_inv interest m'"
proof (induction xs arbitrary: m)
  case (Cons x xs)
  then obtain b m1 where m1: "iom_do ctl d x m = Some (b, m1)" "iom_run ctl d xs m1 = Some m'" by (auto split: option.splits)
  have "iom_inv interest m1"
    using Cons.prems(1,2) m1(1)
    by (cases x) (auto intro: epoll.add_event_inv [OF assms] epoll.del_event_inv [OF assms] epoll.cancel_event_inv [OF assms]
      epoll.cancel_all_event_inv [OF assms] epoll.idle_round_inv [OF assms])
  then show ?case using Cons.IH Cons.prems(2) m1(2) by simp
qed simp

lemma iom_inv_new: "(\<And>fd. interest k fd = None) \<Longrightarrow> iom_inv interest (IOManager_new name um cnt cur w tm k)"
  by (auto simp: iom_inv_def IOManager_new_def fd_context_resize_def Context_new_def context_fine_def registered_def mask_of_def
    NONE_def comp_def)

text \<open>
  C4: The books of the I/O manager agree. After any sequence of registrations, cancellations and
  rounds of the idle coroutine, successful or not, the counter of pending events is the number of
  registered events, and epoll has registered for a descriptor exactly what its context says.
\<close>

theorem iom_bookkeeping:
  assumes "epoll ctl interest" "\<forall>fd. interest k fd = None" "list_all one_event xs"
    "iom_run ctl d xs (IOManager_new name um cnt cur w tm k) = Some m"
  shows "m_appending_event_cnt m = of_nat (sum_list (map registered (m_contexts m))) \<and>
     (\<forall>fd. interest (kernel m) fd =
       (if fd < length (m_contexts m) \<and> statuses (m_contexts m ! fd) \<noteq> 0 then Some (EPOLLET OR statuses (m_contexts m ! fd)) else None))"
  using iom_run_inv [OF assms(1) iom_inv_new assms(3,4)] assms(2) by (auto simp: iom_inv_def mask_of_def)

definition new_iom :: "(nat \<rightharpoonup> u32) IOManager" where
  "new_iom = IOManager_new ''iom'' False 1 1 one_running (TimerManager_new Map.empty) Map.empty"

text \<open>Thread 0, inside coroutine 1, waits for reading from and writing to descriptor 7.\<close>

lemma new_iom_contexts: "m_contexts new_iom = map Context_new [0..<128]" "kernel new_iom = Map.empty" "m_appending_event_cnt new_iom = 0"
  by (simp_all add: new_iom_def IOManager_new_def fd_context_resize_def)

definition both_waiting :: "(nat \<rightharpoonup> u32) IOManager" where
  "both_waiting = new_iom\<lparr>kernel := [7 \<mapsto> EPOLLET OR 5], m_appending_event_cnt := 2,
     m_contexts := (map Context_new [0..<128])[7 := \<lparr>c_fd = 7, statuses = 5,
       ec_read = \<lparr>ec_scheduler = True, ec_thread_id = Some 0, ec_co = Some 1, ec_cb = False\<rparr>,
       ec_write = \<lparr>ec_scheduler = True, ec_thread_id = Some 0, ec_co = Some 1, ec_cb = False\<rparr>\<rparr>]\<rparr>"

lemma both_waiting_run: "iom_run table_ctl 131072 [Add 0 True 7 READ False, Add 0 True 7 WRITE False] new_iom = Some both_waiting"
proof -
  have g: "GetRunningCo 0 one_running = Some 1" by (simp add: GetRunningCo_def one_running_def co_ops)
  have w: "iom_world new_iom = one_running" by (simp add: new_iom_def IOManager_new_def)
  show ?thesis
    by (simp add: add_event_def context_for_def new_iom_contexts Let_def table_ctl_def put_context_def Context_new_def w g
      upd_event_context_def EventContext_new_def status_defs both_waiting_def epoll_defs)
qed

theorem iom_bookkeeping_witness:
  "m_appending_event_cnt both_waiting = of_nat (sum_list (map registered (m_contexts both_waiting)))"
  using iom_bookkeeping [OF table.epoll_axioms _ _ both_waiting_run [unfolded new_iom_def]] by simp

text \<open>Triggering an event schedules the coroutine that waits for it.\<close>

lemma trigger_wakes:
  assumes "statuses ctx AND st \<noteq> 0"
    "get_event_context st ctx = \<lparr>ec_scheduler = True, ec_thread_id = Some tid, ec_co = Some c, ec_cb = cb\<rparr>"
  shows "\<exists>m1. trigger_event d cur st ctx m =
      Some (upd_event_context st reset_event_context (ctx\<lparr>statuses := statuses ctx AND NOT st\<rparr>), m1) \<and>
    m_tasks (iom m1) = m_tasks (iom m) @ (if m_is_stopping (iom m) then [] else [\<lparr>m_co = Some c, m_thread_id = tid\<rparr>]) \<and>
    m_contexts m1 = m_contexts m \<and> m_appending_event_cnt m1 = m_appending_event_cnt m \<and> kernel m1 = kernel m"
proof -
  have "get_event_context st (ctx\<lparr>statuses := x\<rparr>) = get_event_context st ctx" for x by (simp add: get_event_context_def)
  then show ?thesis
    using assms by (auto simp: trigger_event_def Let_def iom_schedule_def iom_schedules_def iom_tickle_def Task_co_ptr_def)
qed

lemma ready_wakes:
  assumes "iom_inv interest m" "fd < length (m_contexts m)" "st \<in> {READ, WRITE}" "statuses (m_contexts m ! fd) AND st \<noteq> 0"
    "get_event_context st (m_contexts m ! fd) = \<lparr>ec_scheduler = True, ec_thread_id = Some tid, ec_co = Some c, ec_cb = cb\<rparr>"
    "ev = (if st = READ then EPOLLIN else EPOLLOUT)"
    "left = statuses (m_contexts m ! fd) AND NOT st"
    "ctl (if left \<noteq> 0 then CTL_MOD else CTL_DEL) fd (EPOLLET OR left) (kernel m) = (0, k)"
  shows "\<exists>m' ctx. idle_event ctl d cur (Ready fd ev) m = Some m' \<and>
     m_tasks (iom m') = m_tasks (iom m) @ (if m_is_stopping (iom m) then [] else [\<lparr>m_co = Some c, m_thread_id = tid\<rparr>]) \<and>
     m_contexts m' = (m_contexts m)[fd := ctx] \<and> statuses ctx = left \<and> ec_co (get_event_context st ctx) = None \<and>
     m_appending_event_cnt m' = m_appending_event_cnt m - 1 \<and> kernel m' = k"
proof -
  note c = iom_invD [OF assms(1,2)]
  have r: "real_status ev = st" using assms(3,6) by (auto simp: real_status_def status_defs epoll_defs)
  obtain m1 where t: "trigger_event d cur st (m_contexts m ! fd) (m\<lparr>kernel := k\<rparr>) =
      Some (upd_event_context st reset_event_context ((m_contexts m ! fd)\<lparr>statuses := left\<rparr>), m1)"
    "m_tasks (iom m1) = m_tasks (iom m) @ (if m_is_stopping (iom m) then [] else [\<lparr>m_co = Some c, m_thread_id = tid\<rparr>])"
    "m_contexts m1 = m_contexts m" "m_appending_event_cnt m1 = m_appending_event_cnt m" "kernel m1 = k"
    using trigger_wakes [OF assms(4,5), of d cur "m\<lparr>kernel := k\<rparr>"] unfolding assms(7) by auto
  have "ec_co (get_event_context st (upd_event_context st reset_event_context ctx)) = None" for ctx
    by (simp add: get_event_context_def upd_event_context_def reset_event_context_def)
  moreover have "idle_event ctl d cur (Ready fd ev) m =
      Some (put_context fd (upd_event_context st reset_event_context ((m_contexts m ! fd)\<lparr>statuses := left\<rparr>))
        (m1\<lparr>m_appending_event_cnt := m_appending_event_cnt m1 - 1\<rparr>))"
  proof -
    have bits: "READ AND READ \<noteq> 0" "READ AND WRITE = 0" "WRITE AND READ = 0" "WRITE AND WRITE \<noteq> 0" by (simp_all add: status_defs)
    have n: "(statuses (m_contexts m ! fd) AND st = NONE) = False" using assms(4) by (simp add: NONE_def)
    have l: "(length (m_contexts m) \<le> fd) = False" using assms(2) by simp
    show ?thesis
      using assms(3) t(1) bits
      by (auto simp: idle_event_def Let_def r n l assms(7) [symmetric] assms(8) c(1) trigger_if_def)
  qed
  ultimately show ?thesis
    by (intro exI [of _ "put_context fd (upd_event_context st reset_event_context ((m_contexts m ! fd)\<lparr>statuses := left\<rparr>))
        (m1\<lparr>m_appending_event_cnt := m_appending_event_cnt m1 - 1\<rparr>)"]
      exI [of _ "upd_event_context st reset_event_context ((m_contexts m ! fd)\<lparr>statuses := left\<rparr>)"])
      (simp add: t put_context_def)
qed

text \<open>
  A ready descriptor wakes who waits for it. When epoll reports that a descriptor can be read
  (or written) and a coroutine waits for that, a task with this coroutine for its thread is put at
  the end of the queue, the event is no longer registered, and no other context changes. While
  the scheduler stops, the coroutine is forgotten instead.
\<close>

theorem event_wakes_waiter:
  assumes "iom_inv interest m" "fd < length (m_contexts m)" "st \<in> {READ, WRITE}" "statuses (m_contexts m ! fd) AND st \<noteq> 0"
    "get_event_context st (m_contexts m ! fd) = \<lparr>ec_scheduler = True, ec_thread_id = Some tid, ec_co = Some c, ec_cb = cb\<rparr>"
    "ev = (if st = READ then EPOLLIN else EPOLLOUT)"
    "left = statuses (m_contexts m ! fd) AND NOT st"
    "ctl (if left \<noteq> 0 then CTL_MOD else CTL_DEL) fd (EPOLLET OR left) (kernel m) = (0, k)"
  shows "\<exists>m' ctx. idle_event ctl d cur (Ready fd ev) m = Some m' \<and>
     m_tasks (iom m') = m_tasks (iom m) @ (if m_is_stopping (iom m) then [] else [\<lparr>m_co = Some c, m_thread_id = tid\<rparr>]) \<and>
     m_contexts m' = (m_contexts m)[fd := ctx] \<and> statuses ctx = left \<and> ec_co (get_event_context st ctx) = None \<and>
     m_appending_event_cnt m' = m_appending_event_cnt m - 1 \<and> kernel m' = k"
  by (rule ready_wakes [OF assms(1-7), of ctl k]) (rule assms(8))

text \<open>What the witnesses need of \<open>both_waiting\<close>.\<close>

lemma both_waiting_at: "m_contexts both_waiting ! 7 = \<lparr>c_fd = 7, statuses = 5,
       ec_read = \<lparr>ec_scheduler = True, ec_thread_id = Some 0, ec_co = Some 1, ec_cb = False\<rparr>,
       ec_write = \<lparr>ec_scheduler = True, ec_thread_id = Some 0, ec_co = Some 1, ec_cb = False\<rparr>\<rparr>"
    "length (m_contexts both_waiting) = 128" "kernel both_waiting = [7 \<mapsto> EPOLLET OR 5]"
    "m_is_stopping (iom both_waiting) = False" "m_tasks (iom both_waiting) = []"
  by (simp_all add: both_waiting_def new_iom_def IOManager_new_def Scheduler_new_def)

lemma both_waiting_inv: "iom_inv (\<lambda>k. k) both_waiting"
  using iom_run_inv [OF table.epoll_axioms iom_inv_new _ both_waiting_run [unfolded new_iom_def]] by simp

theorem event_wakes_waiter_witness:
  "\<exists>m'. idle_event table_ctl 131072 0 (Ready 7 EPOLLIN) both_waiting = Some m' \<and>
     m_tasks (iom m') = [\<lparr>m_co = Some 1, m_thread_id = 0\<rparr>] \<and> kernel m' = [7 \<mapsto> EPOLLET OR 4]"
proof -
  have "table_ctl CTL_MOD 7 (EPOLLET OR 4) (kernel both_waiting) = (0, [7 \<mapsto> EPOLLET OR 4])"
    by (simp add: table_ctl_def both_waiting_at)
  then obtain m' where "idle_event table_ctl 131072 0 (Ready 7 EPOLLIN) both_waiting = Some m'"
      "m_tasks (iom m') = m_tasks (iom both_waiting) @ [\<lparr>m_co = Some 1, m_thread_id = 0\<rparr>]" "kernel m' = [7 \<mapsto> EPOLLET OR 4]"
    using event_wakes_waiter [OF both_waiting_inv, of 7 READ 0 1 False EPOLLIN 4 table_ctl "[7 \<mapsto> EPOLLET OR 4]" 131072 0]
    unfolding both_waiting_at(1,2,4) by (simp add: get_event_context_def READ_def) blast
  then show ?thesis by (simp add: both_waiting_at)
qed

text \<open>
  An error or a hang-up does not wake a reader. If epoll reports \<^verbatim>\<open>EPOLLERR\<close> or \<^verbatim>\<open>EPOLLHUP\<close> for
  a descriptor on which only reading is awaited, the idle coroutine skips the event: nothing is
  scheduled and nothing changes. (The registration is edge triggered, so epoll does not repeat it.)
\<close>

theorem error_misses_reader:
  assumes "fd < length (m_contexts m)" "statuses (m_contexts m ! fd) = READ" "ev AND (EPOLLERR OR EPOLLHUP) \<noteq> 0"
  shows "idle_event ctl d cur (Ready fd ev) m = Some m"
proof -
  have "bit ((ev OR (EPOLLIN OR EPOLLOUT)) AND EPOLLOUT) 2" by (simp add: epoll_defs bit_simps)
  then have "(ev OR (EPOLLIN OR EPOLLOUT)) AND EPOLLOUT \<noteq> 0" by auto
  then have "real_status ev = WRITE" using assms(3) by (simp add: real_status_def)
  then show ?thesis using assms(1,2) by (simp add: idle_event_def status_defs)
qed

theorem error_misses_reader_witness:
  "idle_event table_ctl 131072 0 (Ready 3 EPOLLHUP) (new_iom\<lparr>m_contexts := replicate 5 ((Context_new 3)\<lparr>statuses := READ\<rparr>)\<rparr>) =
     Some (new_iom\<lparr>m_contexts := replicate 5 ((Context_new 3)\<lparr>statuses := READ\<rparr>)\<rparr>)"
  by (rule error_misses_reader) (simp_all add: epoll_defs)

text \<open>
  \<^verbatim>\<open>del_event\<close> clears the wrong side. With both events registered, deleting one forgets who
  waits for the other, which stays registered: when it is ready, or is cancelled, a null scheduler
  is used.
\<close>

theorem del_event_forgets_other:
  assumes "fd < length (m_contexts m)" "c_fd (m_contexts m ! fd) = fd" "statuses (m_contexts m ! fd) = READ OR WRITE"
    "(st, other) \<in> {(READ, WRITE), (WRITE, READ)}"
    "ctl CTL_MOD fd (EPOLLET OR other) (kernel m) = (0, k)" "ctl CTL_DEL fd EPOLLET k = (0, k')"
  shows "\<exists>m'. del_event ctl fd st m = Some (True, m') \<and>
     statuses (m_contexts m' ! fd) = other \<and> get_event_context st (m_contexts m' ! fd) = get_event_context st (m_contexts m ! fd) \<and>
     ec_co (get_event_context other (m_contexts m' ! fd)) = None \<and>
     cancel_event ctl d cur fd other m' = None \<and>
     idle_event ctl d cur (Ready fd (if other = READ then EPOLLIN else EPOLLOUT)) m' = None"
proof -
  let ?ctx = "upd_event_context other reset_event_context ((m_contexts m ! fd)\<lparr>statuses := other\<rparr>)"
  let ?m = "put_context fd ?ctx (m\<lparr>kernel := k, m_appending_event_cnt := m_appending_event_cnt m - 1\<rparr>)"
  have b: "(READ OR WRITE) AND st \<noteq> 0" "(READ OR WRITE) AND NOT st = other" "other AND other \<noteq> 0" "other AND NOT other = 0" "other \<noteq> 0"
    "real_status (if other = READ then EPOLLIN else EPOLLOUT) = other"
    using assms(4) by (auto simp: status_defs real_status_def epoll_defs)
  have ec: "\<not> ec_scheduler (get_event_context other (?ctx\<lparr>statuses := x\<rparr>))" "ec_co (get_event_context other ?ctx) = None"
    "get_event_context st ?ctx = get_event_context st (m_contexts m ! fd)" for x
    using assms(4) by (auto simp: get_event_context_def upd_event_context_def reset_event_context_def status_defs)
  have t: "trigger_event d cur other ?ctx M = None" for M :: "'a IOManager"
    using b(3) ec(1) by (simp add: trigger_event_def Let_def)
  have at: "m_contexts ?m ! fd = ?ctx" "(length (m_contexts ?m) \<le> fd) = False" "kernel ?m = k" using assms(1) by (simp_all add: put_context_def)
  have st: "statuses ?ctx = other" "c_fd ?ctx = fd" using assms(2) by simp_all
  have "del_event ctl fd st m = Some (True, ?m)" using assms(1,3,5) b by (simp add: del_event_def Let_def)
  moreover have "cancel_event ctl d cur fd other ?m = None"
    using assms(6) b by (simp add: cancel_event_def Let_def at st t)
  moreover have "idle_event ctl d cur (Ready fd ev) ?m = None" if ev: "real_status ev = other" for ev
  proof -
    have "trigger_if d cur (other AND READ \<noteq> 0) READ (?ctx, M) = None \<or>
        trigger_if d cur (other AND READ \<noteq> 0) READ (?ctx, M) = Some (?ctx, M) \<and>
        trigger_if d cur (other AND WRITE \<noteq> 0) WRITE (?ctx, M) = None" for M :: "'a IOManager"
    proof (cases "other = READ")
      case True
      then have "other AND READ \<noteq> 0" by (simp add: status_defs)
      then show ?thesis using t [of M] True by (simp add: trigger_if_def)
    next
      case False
      then have "other = WRITE" "other AND READ = 0" "other AND WRITE \<noteq> 0" using assms(4) by (auto simp: status_defs)
      then show ?thesis using t [of M] by (simp add: trigger_if_def)
    qed
    from this [of "?m\<lparr>kernel := k'\<rparr>"] show ?thesis
      using assms(6) b(3,4) by (auto simp: idle_event_def Let_def at st ev assms(2) NONE_def)
  qed
  ultimately show ?thesis using ec at st b(6) by (intro exI [of _ ?m]) simp
qed

theorem del_event_forgets_other_witness:
  "\<exists>m'. del_event table_ctl 7 READ both_waiting = Some (True, m') \<and>
     idle_event table_ctl 131072 0 (Ready 7 EPOLLOUT) m' = None"
  using del_event_forgets_other [of 7 both_waiting READ WRITE table_ctl "[7 \<mapsto> EPOLLET OR WRITE]" "(\<lambda>_. None)(7 := None)" 131072 0]
  by (auto simp: both_waiting_at table_ctl_def status_defs)

lemma epoll_timeout_bounds: "0 \<le> epoll_timeout left" "epoll_timeout left \<le> 5000" "0 \<le> left \<Longrightarrow> epoll_timeout left \<le> left"
  by (simp_all add: epoll_timeout_def EPOLL_MAX_TIMEOUT_def Let_def)

lemma callback_tasks_length: "callback_tasks d cur n w = (xs, w') \<Longrightarrow> length xs = n"
  by (induction n arbitrary: w xs) (auto split: prod.splits)

lemma idle_timers_tasks:
  assumes "tm_inv (iom_timers m)"
  shows "\<exists>xs. m_tasks (iom (idle_timers d cur now m)) = m_tasks (iom m) @ xs \<and>
     length xs = (if m_is_stopping (iom m) then 0
       else card {a \<in> set (m_timers (iom_timers m)). next_time (tm_heap (iom_timers m)) a \<le> now})"
proof -
  obtain tm cbs where e: "all_expired_cbs now (iom_timers m) = (tm, cbs)" by fastforce
  obtain xs w where x: "callback_tasks d cur (length cbs) (iom_world m) = (xs, w)" by fastforce
  note p = all_expired_effect [OF assms e]
  have "distinct (m_timers (iom_timers m))" using tm_invE [OF assms] tl.sorted_distinct by metis
  then have "length cbs = card {a \<in> set (m_timers (iom_timers m)). next_time (tm_heap (iom_timers m)) a \<le> now}"
    unfolding p(2) p(3) [symmetric] by (simp add: distinct_card)
  then show ?thesis
    using callback_tasks_length [OF x] e x
    by (auto simp: idle_timers_def Let_def iom_schedules_def iom_tickle_def)
qed

text \<open>
  C22: The idle coroutine serves the timers. It sleeps until the next timer is due at most, and
  never more than five seconds; the count of idle threads is as before when it wakes up; and the
  round that follows puts exactly one task into the queue for every timer that is due, or drops
  them all when the scheduler stops.
\<close>

theorem idle_serves_timers:
  assumes "tm_inv (iom_timers m)"
  shows "0 \<le> fst (wait_begin now m) \<and> fst (wait_begin now m) \<le> 5000 \<and>
     list_all (\<lambda>a. now + fst (wait_begin now m) \<le> max now (next_time (tm_heap (iom_timers m)) a)) (m_timers (iom_timers m)) \<and>
     snd (wait_end now' rt (snd (wait_begin now m))) = m \<and>
     (\<exists>xs. m_tasks (iom (idle_timers d cur now m)) = m_tasks (iom m) @ xs \<and>
        length xs = (if m_is_stopping (iom m) then 0
          else card {a \<in> set (m_timers (iom_timers m)). next_time (tm_heap (iom_timers m)) a \<le> now}))"
proof -
  have "now + fst (wait_begin now m) \<le> max now (next_time (tm_heap (iom_timers m)) a)" if a: "a \<in> set (m_timers (iom_timers m))" for a
  proof -
    let ?n = "Min (next_time (tm_heap (iom_timers m)) ` set (m_timers (iom_timers m)))"
    have "?n \<le> next_time (tm_heap (iom_timers m)) a" using a by (intro Min_le) auto
    moreover have "next_timer_left_time now (iom_timers m) = max 0 (?n - now)" using left_time_min [OF assms, of now] a by auto
    ultimately have "0 \<le> next_timer_left_time now (iom_timers m)" "now + next_timer_left_time now (iom_timers m) \<le> max now (next_time (tm_heap (iom_timers m)) a)"
      by linarith+
    then show ?thesis using epoll_timeout_bounds(3) [of "next_timer_left_time now (iom_timers m)"] by (simp add: wait_begin_def)
  qed
  then show ?thesis
    using epoll_timeout_bounds idle_timers_tasks [OF assms] by (auto simp: list_all_iff wait_begin_def wait_end_def)
qed

theorem idle_serves_timers_witness:
  "\<exists>xs. m_tasks (iom (idle_timers 131072 0 104 (new_iom\<lparr>iom_timers := two_timers\<rparr>))) = xs \<and> length xs = 1 \<and>
     fst (wait_begin 101 (new_iom\<lparr>iom_timers := two_timers\<rparr>)) \<le> 2"
proof -
  have "{a \<in> set (m_timers two_timers). next_time (tm_heap two_timers) a \<le> 104} = {2}"
    by (auto simp: two_timers_inv two_timers_due)
  then show ?thesis
    using idle_serves_timers [of "new_iom\<lparr>iom_timers := two_timers\<rparr>" 104 0 0 131072 0]
      idle_serves_timers [of "new_iom\<lparr>iom_timers := two_timers\<rparr>" 101 0 0 131072 0]
    by (auto simp: two_timers_inv two_timers_due new_iom_def IOManager_new_def Scheduler_new_def)
qed

end
