(* ===== verification/Hook.thy ===== *)
theory Hook
  imports Iomanager Fdmanager
begin

text \<open>
  The hooked system calls of \<^verbatim>\<open>src/hook.cc\<close>. The original functions are arguments: \<open>raw\<close> gives the
  result, what else was delivered, and \<^verbatim>\<open>errno\<close> of a call. A call that would block suspends the
  coroutine: \<open>suspend\<close> arms the timer, registers the event and yields; what the rest of the
  program does until the coroutine is resumed is the argument \<open>he_wake\<close>, which may do anything to
  the state; \<open>io_timeout\<close> is the callback of the timer. \<open>Crash\<close> is a null pointer, a failed
  assertion or an access out of bounds.
\<close>

section \<open>State\<close>

text \<open>\<open>h_canceled\<close> holds the \<^verbatim>\<open>SocketIoState\<close> objects by number; \<^verbatim>\<open>errno\<close> belongs to the thread.\<close>

record ('e, 'n) hooks =
  t_enable_hook :: bool
  h_fds :: fd_table
  h_kernel :: Fdmanager.kernel
  h_iom :: "'e IOManager option"
  h_errno :: int
  h_states :: nat
  h_canceled :: "nat \<Rightarrow> bool"
  h_net :: 'n

text \<open>
  The thread, its scheduler, the size of stacks, the clock, the allocator of timers, the configured
  timeouts, and the rest of the program.
\<close>

record ('e, 'n) hook_env =
  he_ctl :: "'e ctl"
  he_cur :: nat
  he_scheduler :: bool
  he_stack :: nat
  he_now :: "('e, 'n) hooks \<Rightarrow> int"
  he_addr :: "('e, 'n) hooks \<Rightarrow> nat"
  g_connect_timeout :: u64
  g_recv_timeout :: u64
  g_send_timeout :: u64
  he_wake :: "('e, 'n) hooks \<Rightarrow> ('e, 'n) hooks"

datatype 'r hooked = Crash | Return 'r

type_synonym ('a, 'n) raw = "'n \<Rightarrow> ((int \<times> 'a) \<times> int) \<times> 'n"

definition EINTR :: int where "EINTR = 4"
definition EBADF :: int where "EBADF = 9"
definition EAGAIN :: int where "EAGAIN = 11"
definition ETIMEDOUT :: int where "ETIMEDOUT = 110"
definition EINPROGRESS :: int where "EINPROGRESS = 115"

lemmas errno_defs = EINTR_def EBADF_def EAGAIN_def ETIMEDOUT_def EINPROGRESS_def

text \<open>Division of C, for a positive divisor.\<close>

definition cdiv :: "int \<Rightarrow> int \<Rightarrow> int" where
  "cdiv a b = sgn a * (abs a div b)"

definition enable_hook :: "bool \<Rightarrow> ('e, 'n) hooks \<Rightarrow> ('e, 'n) hooks" where
  "enable_hook hook h = h\<lparr>t_enable_hook := hook\<rparr>"

text \<open>Calling an original function.\<close>

definition call :: "('a, 'n) raw \<Rightarrow> ('e, 'n) hooks \<Rightarrow> (int \<times> 'a) \<times> ('e, 'n) hooks" where
  "call f h = (case f (h_net h) of ((r, err), net) \<Rightarrow> (r, h\<lparr>h_net := net, h_errno := if fst r = -1 then err else h_errno h\<rparr>))"

definition find_fd :: "int \<Rightarrow> ('e, 'n) hooks \<Rightarrow> fd_entity option option" where
  "find_fd fd h = map_option fst (get_fd fd False (h_fds h) (h_kernel h))"

definition put_entity :: "int \<Rightarrow> fd_entity \<Rightarrow> ('e, 'n) hooks \<Rightarrow> ('e, 'n) hooks" where
  "put_entity fd e h = h\<lparr>h_fds := (h_fds h)[nat fd := Some e]\<rparr>"

section \<open>Waiting for an event\<close>

text \<open>A change of the timers that asks for a refresh calls the virtual function of the I/O manager.\<close>

definition with_timers :: "nat timer_manager \<Rightarrow> 'e IOManager \<Rightarrow> 'e IOManager" where
  "with_timers tm m =
     (let m1 = m\<lparr>iom_timers := tm\<rparr> in
      if tm_refresh tm \<noteq> tm_refresh (iom_timers m) then iom_on_timer_refresh m1 else m1)"

definition iom_cancel_timer :: "nat option \<Rightarrow> ('e, 'n) hooks \<Rightarrow> ('e, 'n) hooks hooked" where
  "iom_cancel_timer timer h =
     (case h_iom h of
        None \<Rightarrow> Crash
      | Some m \<Rightarrow> Return (h\<lparr>h_iom := Some (with_timers (snd (cancel_timer timer (iom_timers m))) m)\<rparr>))"

definition arm_timer :: "('e, 'n) hook_env \<Rightarrow> nat \<Rightarrow> int \<Rightarrow> ('e, 'n) hooks \<Rightarrow> 'e IOManager \<Rightarrow> nat option \<times> 'e IOManager" where
  "arm_timer he i timeout h m =
     (case add_cond_timer (he_addr he h) (he_now he h) timeout i i False (iom_timers m) of (a, tm) \<Rightarrow> (Some a, with_timers tm m))"

datatype ('e, 'n) suspension = SCrash | NotAdded "nat option" "('e, 'n) hooks" | Suspended "nat option" "('e, 'n) hooks"

definition suspend :: "('e, 'n) hook_env \<Rightarrow> nat \<Rightarrow> int \<Rightarrow> u32 \<Rightarrow> bool \<Rightarrow> int \<Rightarrow> ('e, 'n) hooks \<Rightarrow> ('e, 'n) suspension" where
  "suspend he i fd status timed timeout h =
     (case h_iom h of
        None \<Rightarrow> SCrash
      | Some m \<Rightarrow>
          (case (if timed then arm_timer he i timeout h m else (None, m)) of
             (timer, m1) \<Rightarrow>
               (case add_event (he_ctl he) (he_cur he) (he_scheduler he) (nat fd) status False m1 of
                  None \<Rightarrow> SCrash
                | Some (False, m2) \<Rightarrow> NotAdded timer (h\<lparr>h_iom := Some m2\<rparr>)
                | Some (True, m2) \<Rightarrow>
                    (case Yield (he_cur he) (iom_world m2) of
                       Inl e \<Rightarrow> SCrash
                     | Inr w \<Rightarrow> Suspended timer (h\<lparr>h_iom := Some (m2\<lparr>iom_world := w\<rparr>)\<rparr>)))))"

text \<open>The callback of the timer, while the object is alive.\<close>

definition io_timeout :: "('e, 'n) hook_env \<Rightarrow> nat \<Rightarrow> nat \<Rightarrow> int \<Rightarrow> u32 \<Rightarrow> ('e, 'n) hooks \<Rightarrow> ('e, 'n) hooks hooked" where
  "io_timeout he cur i fd status h =
     (if h_canceled h i then Return h
      else (case h_iom h of
          None \<Rightarrow> Crash
        | Some m \<Rightarrow>
            (case cancel_event (he_ctl he) (he_stack he) cur (nat fd) status m of
               None \<Rightarrow> Crash
             | Some (b, m1) \<Rightarrow> Return (h\<lparr>h_canceled := (h_canceled h)(i := True), h_iom := Some m1\<rparr>))))"

section \<open>Transfers\<close>

text \<open>
  The loop of \<^verbatim>\<open>do_socket_io\<close>. After a wake-up \<^verbatim>\<open>continue\<close> evaluates the condition of the loop, with \<^verbatim>\<open>errno\<close>
  as it is then.
\<close>

partial_function (option) io_loop ::
    "('e, 'n) hook_env \<Rightarrow> nat \<Rightarrow> int \<Rightarrow> ('a, 'n) raw \<Rightarrow> u32 \<Rightarrow> int \<Rightarrow> ('e, 'n) hooks \<Rightarrow> ((int \<times> 'a) \<times> ('e, 'n) hooks) hooked option" where
  "io_loop he i fd func status timeout h =
     (case call func h of
        ((n, x), h1) \<Rightarrow>
          if n = -1 \<and> h_errno h1 = EAGAIN then
            (case suspend he i fd status (timeout \<ge> 0) timeout h1 of
               SCrash \<Rightarrow> Some Crash
             | NotAdded timer h2 \<Rightarrow>
                 (case iom_cancel_timer timer h2 of Crash \<Rightarrow> Some Crash | Return h3 \<Rightarrow> Some (Return ((-1, x), h3)))
             | Suspended timer h2 \<Rightarrow>
                 (case iom_cancel_timer timer (he_wake he h2) of
                    Crash \<Rightarrow> Some Crash
                  | Return h3 \<Rightarrow>
                      if h_canceled h3 i then Some (Return ((-1, x), h3\<lparr>h_errno := ETIMEDOUT\<rparr>))
                      else if h_errno h3 = EINTR \<or> h_errno h3 = EAGAIN then io_loop he i fd func status timeout h3
                      else Some (Return ((-1, x), h3))))
          else if n = -1 \<and> h_errno h1 = EINTR then io_loop he i fd func status timeout h1
          else Some (Return ((n, x), h1)))"

definition io_time :: "('e, 'n) hook_env \<Rightarrow> u32 \<Rightarrow> fd_entity \<Rightarrow> int" where
  "io_time he status e =
     (if status AND READ \<noteq> 0 then signed_take_bit 31 (uint (recv_timeout (g_recv_timeout he) e))
      else if status AND WRITE \<noteq> 0 then signed_take_bit 31 (uint (send_timeout (g_send_timeout he) e))
      else -1)"

text \<open>\<open>dflt\<close> stands for what is delivered when the original function was not called.\<close>

definition do_socket_io ::
    "('e, 'n) hook_env \<Rightarrow> int \<Rightarrow> ('a, 'n) raw \<Rightarrow> u32 \<Rightarrow> 'a \<Rightarrow> ('e, 'n) hooks \<Rightarrow> ((int \<times> 'a) \<times> ('e, 'n) hooks) hooked option" where
  "do_socket_io he fd func status dflt h =
     (if \<not> t_enable_hook h then Some (Return (call func h))
      else (case find_fd fd h of
          None \<Rightarrow> Some Crash
        | Some None \<Rightarrow> Some (Return (call func h))
        | Some (Some e) \<Rightarrow>
            if m_is_closed e then Some (Return ((-1, dflt), h\<lparr>h_errno := EBADF\<rparr>))
            else if \<not> m_is_socket e \<or> m_is_user_nonblock e then Some (Return (call func h))
            else io_loop he (h_states h) fd func status (io_time he status e)
                   (h\<lparr>h_states := h_states h + 1, h_canceled := (h_canceled h)(h_states h := False)\<rparr>)))"

definition hook_accept :: "('e, 'n) hook_env \<Rightarrow> int \<Rightarrow> (unit, 'n) raw \<Rightarrow> ('e, 'n) hooks \<Rightarrow> (int \<times> ('e, 'n) hooks) hooked option" where
  "hook_accept he socket accept_f h =
     (case do_socket_io he socket accept_f READ () h of
        None \<Rightarrow> None
      | Some Crash \<Rightarrow> Some Crash
      | Some (Return ((fd, _), h1)) \<Rightarrow>
          if fd \<ge> 0 then
            (case get_fd fd True (h_fds h1) (h_kernel h1) of
               None \<Rightarrow> Some Crash
             | Some (e, ds, k) \<Rightarrow> Some (Return (fd, h1\<lparr>h_fds := ds, h_kernel := k\<rparr>)))
          else Some (Return (fd, h1)))"

text \<open>\<^verbatim>\<open>read\<close>, \<^verbatim>\<open>readv\<close>, \<^verbatim>\<open>recv\<close>, \<^verbatim>\<open>recvfrom\<close> and \<^verbatim>\<open>recvmsg\<close>; \<^verbatim>\<open>write\<close>, \<^verbatim>\<open>writev\<close>, \<^verbatim>\<open>send\<close>, \<^verbatim>\<open>sendto\<close> and \<^verbatim>\<open>sendmsg\<close>.\<close>

definition hook_read :: "('e, 'n) hook_env \<Rightarrow> int \<Rightarrow> (byte list, 'n) raw \<Rightarrow> ('e, 'n) hooks \<Rightarrow> ((int \<times> byte list) \<times> ('e, 'n) hooks) hooked option" where
  "hook_read he fd func h = do_socket_io he fd func READ [] h"

definition hook_write :: "('e, 'n) hook_env \<Rightarrow> int \<Rightarrow> (unit, 'n) raw \<Rightarrow> ('e, 'n) hooks \<Rightarrow> ((int \<times> unit) \<times> ('e, 'n) hooks) hooked option" where
  "hook_write he fd func h = do_socket_io he fd func WRITE () h"

section \<open>Sockets\<close>

definition hook_socket :: "(unit, 'n) raw \<Rightarrow> ('e, 'n) hooks \<Rightarrow> (int \<times> ('e, 'n) hooks) hooked" where
  "hook_socket socket_f h =
     (case call socket_f h of
        ((fd, _), h1) \<Rightarrow>
          if \<not> t_enable_hook h \<or> fd = -1 then Return (fd, h1)
          else (case get_fd fd True (h_fds h1) (h_kernel h1) of
              None \<Rightarrow> Crash
            | Some (None, ds, k) \<Rightarrow> Crash
            | Some (Some e, ds, k) \<Rightarrow> Return (m_fd e, h1\<lparr>h_fds := ds, h_kernel := k\<rparr>)))"

text \<open>The end of \<^verbatim>\<open>connect\<close>: \<open>getsockopt_f\<close> delivers the pending error of the socket.\<close>

definition connect_result :: "(int, 'n) raw \<Rightarrow> ('e, 'n) hooks \<Rightarrow> int \<times> ('e, 'n) hooks" where
  "connect_result getsockopt_f h =
     (case call getsockopt_f h of
        ((rt, err), h1) \<Rightarrow>
          if rt = -1 then (-1, h1) else if err = 0 then (0, h1) else (-1, h1\<lparr>h_errno := err\<rparr>))"

definition hook_connect ::
    "('e, 'n) hook_env \<Rightarrow> int \<Rightarrow> (unit, 'n) raw \<Rightarrow> (int, 'n) raw \<Rightarrow> ('e, 'n) hooks \<Rightarrow> (int \<times> ('e, 'n) hooks) hooked" where
  "hook_connect he sockfd connect_f getsockopt_f h =
     (let direct = (case call connect_f h of ((n, _), h1) \<Rightarrow> (n, h1)) in
      if \<not> t_enable_hook h then Return direct
      else (case find_fd sockfd h of
          None \<Rightarrow> Crash
        | Some None \<Rightarrow> Return (-1, h\<lparr>h_errno := EBADF\<rparr>)
        | Some (Some e) \<Rightarrow>
            if m_is_closed e then Return (-1, h\<lparr>h_errno := EBADF\<rparr>)
            else if \<not> m_is_socket e \<or> m_is_user_nonblock e then Return direct
            else
              (case direct of
                 (n, h1) \<Rightarrow>
                   if n = 0 then Return (n, h1)
                   else if n \<noteq> -1 \<or> h_errno h1 \<noteq> EINPROGRESS then Return (n, h1)
                   else
                     let i = h_states h1; t = connect_timeout (g_connect_timeout he) e;
                         h2 = h1\<lparr>h_states := i + 1, h_canceled := (h_canceled h1)(i := False)\<rparr>
                     in (case suspend he i sockfd WRITE (t > 0) (uint t) h2 of
                           SCrash \<Rightarrow> Crash
                         | NotAdded timer h3 \<Rightarrow>
                             (case iom_cancel_timer timer h3 of
                                Crash \<Rightarrow> Crash
                              | Return h4 \<Rightarrow> Return (connect_result getsockopt_f (h4\<lparr>h_canceled := (h_canceled h4)(i := True)\<rparr>)))
                         | Suspended timer h3 \<Rightarrow>
                             (case iom_cancel_timer timer (he_wake he h3) of
                                Crash \<Rightarrow> Crash
                              | Return h4 \<Rightarrow>
                                  if h_canceled h4 i then Return (-1, h4\<lparr>h_errno := ETIMEDOUT\<rparr>)
                                  else Return (connect_result getsockopt_f h4))))))"

definition hook_close :: "('e, 'n) hook_env \<Rightarrow> int \<Rightarrow> (unit, 'n) raw \<Rightarrow> ('e, 'n) hooks \<Rightarrow> (int \<times> ('e, 'n) hooks) hooked" where
  "hook_close he fildes close_f h =
     (let finish = (\<lambda>h. case call close_f h of ((n, _), h1) \<Rightarrow> Return (n, h1)) in
      if \<not> t_enable_hook h then finish h
      else (case find_fd fildes h of
          None \<Rightarrow> Crash
        | Some None \<Rightarrow> finish h
        | Some (Some e) \<Rightarrow>
            (case (case h_iom h of
                     None \<Rightarrow> Some h
                   | Some m \<Rightarrow> map_option (\<lambda>(b, m1). h\<lparr>h_iom := Some m1\<rparr>) (cancel_all_event (he_ctl he) (he_stack he) (he_cur he) (nat fildes) m)) of
               None \<Rightarrow> Crash
             | Some h1 \<Rightarrow>
                 (case del_fd fildes (h_fds h1) of
                    None \<Rightarrow> Crash
                  | Some ds \<Rightarrow> finish (h1\<lparr>h_fds := ds\<rparr>)))))"

section \<open>Flags and options\<close>

text \<open>\<^verbatim>\<open>arg &= !O_NONBLOCK\<close> clears every flag.\<close>

definition fcntl_setfl :: "int \<Rightarrow> (u32 \<Rightarrow> (unit, 'n) raw) \<Rightarrow> u32 \<Rightarrow> ('e, 'n) hooks \<Rightarrow> (int \<times> ('e, 'n) hooks) hooked" where
  "fcntl_setfl fildes fcntl_f arg h =
     (let finish = (\<lambda>arg h. case call (fcntl_f arg) h of ((n, _), h1) \<Rightarrow> Return (n, h1)) in
      case find_fd fildes h of
        None \<Rightarrow> Crash
      | Some None \<Rightarrow> finish arg h
      | Some (Some e) \<Rightarrow>
          if \<not> m_is_socket e \<or> m_is_closed e then finish arg h
          else finish (if m_is_sys_nonblock e then arg OR O_NONBLOCK else arg AND 0)
                 (put_entity fildes (e\<lparr>m_is_user_nonblock := arg AND O_NONBLOCK \<noteq> 0\<rparr>) h))"

text \<open>Flags are results here, so they are words.\<close>

definition fcntl_getfl :: "int \<Rightarrow> ('n \<Rightarrow> u32 \<times> 'n) \<Rightarrow> ('e, 'n) hooks \<Rightarrow> (u32 \<times> ('e, 'n) hooks) hooked" where
  "fcntl_getfl fildes fcntl_f h =
     (case fcntl_f (h_net h) of
        (flag, net) \<Rightarrow>
          let h1 = h\<lparr>h_net := net\<rparr> in
          (case find_fd fildes h1 of
             None \<Rightarrow> Crash
           | Some None \<Rightarrow> Return (flag, h1)
           | Some (Some e) \<Rightarrow>
               if \<not> m_is_socket e \<or> m_is_closed e then Return (flag, h1)
               else if m_is_user_nonblock e then Return (flag OR O_NONBLOCK, h1)
               else Return (flag AND NOT O_NONBLOCK, h1)))"

text \<open>
  The commands of \<^verbatim>\<open>fcntl\<close> on Linux. The argument after the command is variadic: the hook reads it as an integer, as a pointer or not at all, depending
  on the command, and reading what was not passed is undefined. \<open>fcntl_f\<close> is the original function with the argument it is given.
\<close>

datatype 'p fcntl_arg = NoArg | IntArg u32 | PtrArg 'p

definition F_SETFL :: int where "F_SETFL = 4"
definition F_GETFL :: int where "F_GETFL = 3"

text \<open>\<^verbatim>\<open>F_DUPFD\<close>, \<^verbatim>\<open>F_DUPFD_CLOEXEC\<close>, \<^verbatim>\<open>F_SETFD\<close>, \<^verbatim>\<open>F_SETOWN\<close>, \<^verbatim>\<open>F_SETSIG\<close>,
  \<^verbatim>\<open>F_SETLEASE\<close>, \<^verbatim>\<open>F_SETPIPE_SZ\<close>, \<^verbatim>\<open>F_ADD_SEALS\<close>, \<^verbatim>\<open>F_NOTIFY\<close>.\<close>

definition int_cmds :: "int list" where
  "int_cmds = [0, 1030, 2, 8,
     10, 1024, 1031, 1033, 1026]"

text \<open>\<^verbatim>\<open>F_GETFD\<close>, \<^verbatim>\<open>F_GETOWN\<close>, \<^verbatim>\<open>F_GETSIG\<close>, \<^verbatim>\<open>F_GETLEASE\<close>, \<^verbatim>\<open>F_GETPIPE_SZ\<close>.\<close>

definition no_arg_cmds :: "int list" where
  "no_arg_cmds = [1, 9, 11, 1025, 1032]"

text \<open>\<^verbatim>\<open>F_SETLK\<close>, \<^verbatim>\<open>F_SETLKW\<close>, \<^verbatim>\<open>F_GETLK\<close>; \<^verbatim>\<open>F_GETOWN_EX\<close>, \<^verbatim>\<open>F_SETOWN_EX\<close>.\<close>

definition lock_cmds :: "int list" where
  "lock_cmds = [6, 7, 5]"

definition owner_cmds :: "int list" where
  "owner_cmds = [16, 15]"

lemmas fcntl_cmd_defs = F_SETFL_def F_GETFL_def int_cmds_def no_arg_cmds_def lock_cmds_def owner_cmds_def

definition hook_fcntl ::
    "int \<Rightarrow> int \<Rightarrow> 'p fcntl_arg \<Rightarrow> (int \<Rightarrow> 'p fcntl_arg \<Rightarrow> (unit, 'n) raw) \<Rightarrow> ('e, 'n) hooks \<Rightarrow> (int \<times> ('e, 'n) hooks) hooked" where
  "hook_fcntl fildes cmd ap fcntl_f h =
     (let finish = (\<lambda>arg. case call (fcntl_f cmd arg) h of ((n, _), h1) \<Rightarrow> Return (n, h1)) in
      if cmd = F_SETFL then
        (case ap of IntArg arg \<Rightarrow> fcntl_setfl fildes (\<lambda>arg. fcntl_f cmd (IntArg arg)) arg h | _ \<Rightarrow> Crash)
      else if cmd = F_GETFL then
        (case call (fcntl_f cmd NoArg) h of
           ((n, _), h1) \<Rightarrow>
             (case fcntl_getfl fildes (\<lambda>net. (word_of_int n, net)) h1 of Crash \<Rightarrow> Crash | Return (flag, h2) \<Rightarrow> Return (sint flag, h2)))
      else if cmd \<in> set int_cmds then (case ap of IntArg arg \<Rightarrow> finish (IntArg arg) | _ \<Rightarrow> Crash)
      else if cmd \<in> set no_arg_cmds then finish NoArg
      else if cmd \<in> set lock_cmds then (case ap of PtrArg arg \<Rightarrow> finish (PtrArg arg) | _ \<Rightarrow> Crash)
      else if cmd \<in> set owner_cmds then (case ap of PtrArg arg \<Rightarrow> finish (PtrArg arg) | _ \<Rightarrow> Crash)
      else finish NoArg)"

definition hook_getsockopt :: "(unit, 'n) raw \<Rightarrow> ('e, 'n) hooks \<Rightarrow> (int \<times> ('e, 'n) hooks) hooked" where
  "hook_getsockopt getsockopt_f h = (case call getsockopt_f h of ((n, _), h1) \<Rightarrow> Return (n, h1))"

definition FIONBIO :: u64 where "FIONBIO = 0x5421"

definition hook_ioctl :: "int \<Rightarrow> u64 \<Rightarrow> int \<Rightarrow> (unit, 'n) raw \<Rightarrow> ('e, 'n) hooks \<Rightarrow> (int \<times> ('e, 'n) hooks) hooked" where
  "hook_ioctl fd request arg ioctl_f h =
     (let finish = (\<lambda>h. case call ioctl_f h of ((n, _), h1) \<Rightarrow> Return (n, h1)) in
      if request = FIONBIO then
        (case find_fd fd h of
           None \<Rightarrow> Crash
         | Some None \<Rightarrow> finish h
         | Some (Some e) \<Rightarrow>
             if \<not> m_is_socket e \<or> m_is_closed e then finish h
             else finish (put_entity fd (e\<lparr>m_is_user_nonblock := arg \<noteq> 0\<rparr>) h))
      else finish h)"

definition SO_SOCKET_LEVEL :: int where "SO_SOCKET_LEVEL = 1"
definition SO_RCVTIMEO :: int where "SO_RCVTIMEO = 20"
definition SO_SNDTIMEO :: int where "SO_SNDTIMEO = 21"

text \<open>The timeouts are stored while the hooks are off. \<open>(sec, usec)\<close> is the \<^verbatim>\<open>timeval\<close>.\<close>

definition hook_setsockopt :: "int \<Rightarrow> int \<Rightarrow> int \<Rightarrow> int \<times> int \<Rightarrow> (unit, 'n) raw \<Rightarrow> ('e, 'n) hooks \<Rightarrow> (int \<times> ('e, 'n) hooks) hooked" where
  "hook_setsockopt sockfd level optname v setsockopt_f h =
     (let finish = (\<lambda>h. case call setsockopt_f h of ((n, _), h1) \<Rightarrow> Return (n, h1));
          ms = word_of_int (fst v * 1000 + cdiv (snd v) 1000)
      in if t_enable_hook h then finish h
         else if level = SO_SOCKET_LEVEL \<and> (optname = SO_RCVTIMEO \<or> optname = SO_SNDTIMEO) then
           (case find_fd sockfd h of
              None \<Rightarrow> Crash
            | Some None \<Rightarrow> finish h
            | Some (Some e) \<Rightarrow>
                finish (put_entity sockfd (if optname = SO_RCVTIMEO then e\<lparr>m_recv_timeout := ms\<rparr> else e\<lparr>m_send_timeout := ms\<rparr>) h))
         else finish h)"

section \<open>Sleeping\<close>

text \<open>A timer whose callback schedules the coroutine; then the coroutine yields.\<close>

definition sleep_ms :: "('e, 'n) hook_env \<Rightarrow> nat \<Rightarrow> int \<Rightarrow> ('e, 'n) hooks \<Rightarrow> (int \<times> ('e, 'n) hooks) hooked" where
  "sleep_ms he cb ms h =
     (case h_iom h of
        None \<Rightarrow> Crash
      | Some m \<Rightarrow>
          (case add_timer (he_addr he h) (he_now he h) ms (Some (Callback cb)) False (iom_timers m) of
             (a, tm) \<Rightarrow>
               let m1 = with_timers tm m in
               (case Yield (he_cur he) (iom_world m1) of
                  Inl e \<Rightarrow> Crash
                | Inr w \<Rightarrow> Return (0, he_wake he (h\<lparr>h_iom := Some (m1\<lparr>iom_world := w\<rparr>)\<rparr>)))))"

definition hook_sleep :: "('e, 'n) hook_env \<Rightarrow> nat \<Rightarrow> (u32 \<Rightarrow> (unit, 'n) raw) \<Rightarrow> u32 \<Rightarrow> ('e, 'n) hooks \<Rightarrow> (int \<times> ('e, 'n) hooks) hooked" where
  "hook_sleep he cb sleep_f seconds h =
     (if \<not> t_enable_hook h then (case call (sleep_f seconds) h of ((n, _), h1) \<Rightarrow> Return (n, h1))
      else sleep_ms he cb (uint (seconds * 1000)) h)"

definition hook_usleep :: "('e, 'n) hook_env \<Rightarrow> nat \<Rightarrow> (u32 \<Rightarrow> (unit, 'n) raw) \<Rightarrow> u32 \<Rightarrow> ('e, 'n) hooks \<Rightarrow> (int \<times> ('e, 'n) hooks) hooked" where
  "hook_usleep he cb usleep_f usec h =
     (if \<not> t_enable_hook h then (case call (usleep_f usec) h of ((n, _), h1) \<Rightarrow> Return (n, h1))
      else sleep_ms he cb (uint usec) h)"

text \<open>Without hooks \<^verbatim>\<open>nanosleep\<close> calls itself.\<close>

partial_function (option) hook_nanosleep ::
    "('e, 'n) hook_env \<Rightarrow> nat \<Rightarrow> int \<Rightarrow> int \<Rightarrow> ('e, 'n) hooks \<Rightarrow> (int \<times> ('e, 'n) hooks) hooked option" where
  "hook_nanosleep he cb tv_sec tv_nsec h =
     (if \<not> t_enable_hook h then hook_nanosleep he cb tv_sec tv_nsec h
      else Some (sleep_ms he cb (tv_sec * 1000 + cdiv tv_nsec 10000000) h))"

section \<open>Lemmas\<close>

lemma with_timers_frame [simp]:
  "m_contexts (with_timers tm m) = m_contexts m" "kernel (with_timers tm m) = kernel m" "iom (with_timers tm m) = iom m"
  "iom_world (with_timers tm m) = iom_world m" "m_appending_event_cnt (with_timers tm m) = m_appending_event_cnt m"
  "iom_timers (with_timers tm m) = tm"
  by (simp_all add: with_timers_def iom_on_timer_refresh_def iom_tickle_def Let_def)

lemma arm_timer_frame:
  "arm_timer he i timeout h m = (timer, m1) \<Longrightarrow>
   m_contexts m1 = m_contexts m \<and> kernel m1 = kernel m \<and> iom m1 = iom m \<and> iom_world m1 = iom_world m \<and>
   m_appending_event_cnt m1 = m_appending_event_cnt m"
  by (auto simp: arm_timer_def split: prod.splits)

lemma status_back:
  assumes "S \<in> {0, 1, 4, 5 :: u32}" "st \<in> {READ, WRITE}" "S AND st = 0"
  shows "(S OR st) AND NOT st = S" "(S OR st) AND st \<noteq> 0"
  using assms by (auto simp: status_defs)

text \<open>Registering an event for the running coroutine.\<close>

lemma add_event_registers:
  assumes "iom_inv interest m" "fd < length (m_contexts m)" "st \<in> {READ, WRITE}" "statuses (m_contexts m ! fd) AND st = 0"
    "ctl (if statuses (m_contexts m ! fd) \<noteq> 0 then CTL_MOD else CTL_ADD) fd (statuses (m_contexts m ! fd) OR st OR EPOLLET) (kernel m) = (0, k)"
    "GetRunningCo cur (iom_world m) = Some c"
  shows "\<exists>m1. add_event ctl cur True fd st False m = Some (True, m1) \<and> fd < length (m_contexts m1) \<and>
     statuses (m_contexts m1 ! fd) = statuses (m_contexts m ! fd) OR st \<and>
     get_event_context st (m_contexts m1 ! fd) =
       \<lparr>ec_scheduler = True, ec_thread_id = Some cur, ec_co = Some c, ec_cb = ec_cb (get_event_context st (m_contexts m ! fd))\<rparr> \<and>
     kernel m1 = k \<and> iom m1 = iom m \<and> iom_world m1 = iom_world m"
  using assms(2,4-6)
  by (auto simp: add_event_def context_for_def Let_def put_context_def get_event_context_def upd_event_context_def)

lemma find_put: "find_fd fd h = Some (Some e) \<Longrightarrow> find_fd fd (put_entity fd e1 h\<lparr>h_net := net\<rparr>) = Some (Some e1)"
  by (auto simp: find_fd_def get_fd_def put_entity_def split: if_splits)

lemma flag_back:
  "arg AND O_NONBLOCK \<noteq> 0 \<Longrightarrow> (arg OR O_NONBLOCK) OR O_NONBLOCK = arg"
  "arg AND O_NONBLOCK = 0 \<Longrightarrow> (arg OR O_NONBLOCK) AND NOT O_NONBLOCK = arg"
proof -
  have b: "bit O_NONBLOCK n \<longleftrightarrow> n = 11" for n
  proof -
    have e: "O_NONBLOCK = push_bit 11 1" by (simp add: O_NONBLOCK_def)
    show ?thesis unfolding e by (auto simp: bit_simps simp del: push_bit_of_1)
  qed
  have "arg AND O_NONBLOCK \<noteq> 0 \<longleftrightarrow> bit arg 11" by (auto simp: bit_eq_iff [of "arg AND O_NONBLOCK" 0] bit_and_iff b)
  then show "arg AND O_NONBLOCK \<noteq> 0 \<Longrightarrow> (arg OR O_NONBLOCK) OR O_NONBLOCK = arg"
    "arg AND O_NONBLOCK = 0 \<Longrightarrow> (arg OR O_NONBLOCK) AND NOT O_NONBLOCK = arg"
    by (auto intro!: bit_word_eqI simp: bit_simps b)
qed

lemma nanosleep_hangs: "\<not> t_enable_hook h \<Longrightarrow> hook_nanosleep he cb sec ns h = None"
proof (rule ccontr)
  assume off: "\<not> t_enable_hook h" and "hook_nanosleep he cb sec ns h \<noteq> None"
  then obtain r where "hook_nanosleep he cb sec ns h = Some r" by blast
  then show False using off
    by (induction rule: hook_nanosleep.raw_induct [rotated, consumes 1]) (auto split: if_splits)
qed

lemma call_errno: "call f h = ((n, x), h1) \<Longrightarrow> n \<noteq> -1 \<Longrightarrow> h_errno h1 = h_errno h"
  by (auto simp: call_def split: prod.splits)

lemma iom_cancel_timer_frame:
  "iom_cancel_timer timer h = Return h1 \<Longrightarrow> h_errno h1 = h_errno h \<and> h_canceled h1 = h_canceled h \<and> h_net h1 = h_net h"
  by (auto simp: iom_cancel_timer_def split: option.splits)

lemma not_added_frame: "suspend he i fd st timed timeout h = NotAdded timer h1 \<Longrightarrow> h_errno h1 = h_errno h"
  by (auto simp: suspend_def split: option.splits prod.splits bool.splits sum.splits)

text \<open>What the loop may return, whatever happens while the coroutine is suspended.\<close>

fun io_outcome :: "('e, 'n) hook_env \<Rightarrow> nat \<Rightarrow> int \<Rightarrow> ('a, 'n) raw \<Rightarrow> u32 \<Rightarrow> int \<Rightarrow> ((int \<times> 'a) \<times> ('e, 'n) hooks) hooked \<Rightarrow> bool" where
  "io_outcome he i fd func st timeout Crash = True"
| "io_outcome he i fd func st timeout (Return ((n, x), h1)) \<longleftrightarrow>
     (if n \<noteq> -1 then \<exists>h0. call func h0 = ((n, x), h1)
      else h_errno h1 \<notin> {EAGAIN, EINTR} \<or>
        (h_errno h1 = EAGAIN \<and> (\<exists>h0 timer h2. suspend he i fd st (timeout \<ge> 0) timeout h0 = NotAdded timer h2 \<and> iom_cancel_timer timer h2 = Return h1)))"

lemma io_loop_outcome:
  assumes "io_loop he i fd func st timeout h = Some r"
  shows "io_outcome he i fd func st timeout r"
  using assms
proof (induction rule: io_loop.raw_induct [rotated, consumes 1, case_names step])
  case (step loop he i fd func st timeout h r)
  obtain n x h1 where c: "call func h = ((n, x), h1)" by (metis prod.exhaust)
  show ?case
  proof (cases "n = -1 \<and> h_errno h1 = EAGAIN")
    case False
    then show ?thesis using step c by (auto split: if_splits)
  next
    case True
    show ?thesis
    proof (cases "suspend he i fd st (timeout \<ge> 0) timeout h1")
      case SCrash
      then show ?thesis using step(2) c True by auto
    next
      case (NotAdded timer h2)
      then show ?thesis using step(2) c True not_added_frame [OF NotAdded] iom_cancel_timer_frame [of timer h2]
        by (auto simp: errno_defs split: hooked.splits) blast
    next
      case (Suspended timer h2)
      then show ?thesis using step c True by (auto simp: errno_defs split: hooked.splits if_splits)
    qed
  qed
qed

text \<open>Suspending the running coroutine, when epoll accepts the registration.\<close>

lemma suspends:
  assumes "h_iom h = Some m" "iom_inv interest m" "nat fd < length (m_contexts m)"
    "st \<in> {READ, WRITE}" "S = statuses (m_contexts m ! nat fd)" "S AND st = 0" "he_scheduler he"
    "he_ctl he (if S \<noteq> 0 then CTL_MOD else CTL_ADD) (nat fd) (S OR st OR EPOLLET) (kernel m) = (0, k1)"
    "running (iom_world m) (he_cur he) = Some c" "main_co (iom_world m) (he_cur he) = Some mc" "c \<noteq> mc"
  obtains timer m0 m1 w where "suspend he i fd st timed timeout h = Suspended timer (h\<lparr>h_iom := Some (m1\<lparr>iom_world := w\<rparr>)\<rparr>)"
    "iom_inv interest m0" "add_event (he_ctl he) (he_cur he) True (nat fd) st False m0 = Some (True, m1)"
    "nat fd < length (m_contexts m1)" "statuses (m_contexts m1 ! nat fd) = S OR st" "kernel m1 = k1" "iom m1 = iom m"
    "get_event_context st (m_contexts m1 ! nat fd) =
       \<lparr>ec_scheduler = True, ec_thread_id = Some (he_cur he), ec_co = Some c, ec_cb = ec_cb (get_event_context st (m_contexts m ! nat fd))\<rparr>"
proof -
  obtain timer m0 where a: "(if timed then arm_timer he i timeout h m else (None, m)) = (timer, m0)" by fastforce
  have m0: "m_contexts m0 = m_contexts m" "kernel m0 = kernel m" "iom m0 = iom m" "iom_world m0 = iom_world m"
      "m_appending_event_cnt m0 = m_appending_event_cnt m"
    using a arm_timer_frame [of he i timeout h m timer m0] by (auto split: if_splits)
  have i0: "iom_inv interest m0" by (rule iom_inv_same [OF assms(2)]) (simp_all add: m0)
  have run: "GetRunningCo (he_cur he) (iom_world m0) = Some c" using assms(9) by (simp add: GetRunningCo_def m0)
  obtain m1 where e: "add_event (he_ctl he) (he_cur he) True (nat fd) st False m0 = Some (True, m1)" "nat fd < length (m_contexts m1)"
     "statuses (m_contexts m1 ! nat fd) = S OR st" "kernel m1 = k1" "iom m1 = iom m" "iom_world m1 = iom_world m"
     "get_event_context st (m_contexts m1 ! nat fd) =
       \<lparr>ec_scheduler = True, ec_thread_id = Some (he_cur he), ec_co = Some c, ec_cb = ec_cb (get_event_context st (m_contexts m ! nat fd))\<rparr>"
    using add_event_registers [OF i0 _ assms(4) _ _ run, of "nat fd" "he_ctl he" k1] assms(3,5,6,8) unfolding m0 by auto
  obtain w where y: "Yield (he_cur he) (iom_world m1) = Inr w" using assms(9-11) by (simp add: Yield_def e(6) Let_def)
  have "suspend he i fd st timed timeout h = Suspended timer (h\<lparr>h_iom := Some (m1\<lparr>iom_world := w\<rparr>)\<rparr>)"
    using assms(1,7) a e(1) y by (simp add: suspend_def)
  then show thesis using that i0 e by blast
qed

section \<open>Theorems\<close>

text \<open>A program with one thread and one coroutine on it, for the examples; \<^verbatim>\<open>errno\<close> survives the suspension.\<close>

definition hook_example :: "(nat \<rightharpoonup> u32, byte list list) hook_env" where
  "hook_example = \<lparr>he_ctl = table_ctl, he_cur = 0, he_scheduler = True, he_stack = 131072, he_now = (\<lambda>h. 0), he_addr = (\<lambda>h. 3),
     g_connect_timeout = 5000, g_recv_timeout = 5000, g_send_timeout = 5000, he_wake = (\<lambda>h. h)\<rparr>"

definition hooks_example :: "(nat \<rightharpoonup> u32, byte list list) hooks" where
  "hooks_example = \<lparr>t_enable_hook = True,
     h_fds = (replicate 60 None)[7 := Some \<lparr>m_is_init = True, m_is_sys_nonblock = True, m_is_user_nonblock = False, m_is_socket = True,
        m_is_closed = False, m_fd = 7, m_connect_timeout = 0, m_recv_timeout = 0, m_send_timeout = 0\<rparr>],
     h_kernel = \<lparr>k_fstat = (\<lambda>_. Some True), k_flags = (\<lambda>_. O_NONBLOCK)\<rparr>, h_iom = Some new_iom, h_errno = 0,
     h_states = 0, h_canceled = (\<lambda>_. False), h_net = []\<rparr>"

definition fcntl_example :: "u32 \<Rightarrow> (nat \<rightharpoonup> u32, u32) hooks" where
  "fcntl_example flags = \<lparr>t_enable_hook = True, h_fds = h_fds hooks_example, h_kernel = h_kernel hooks_example, h_iom = None, h_errno = 0,
     h_states = 0, h_canceled = (\<lambda>_. False), h_net = flags\<rparr>"

lemma hooks_example_simps:
  "running one_running 0 = Some 1" "main_co one_running 0 = Some 0" "iom_inv (\<lambda>k. k) new_iom" "iom_world new_iom = one_running"
  "\<not> m_is_stopping (iom new_iom)" "m_tasks (iom new_iom) = []" "tm_heap (iom_timers new_iom) = Map.empty" "tm_inv (iom_timers new_iom)"
  unfolding new_iom_def by (simp_all add: iom_inv_new) (simp_all add: one_running_def co_ops IOManager_new_def Scheduler_new_def TimerManager_new_def tm_inv_def)

text \<open>A source of bytes that has nothing yet where the packet is empty.\<close>

fun read_example :: "(byte list, byte list list) raw" where
  "read_example ([] # ps) = (((-1, []), EAGAIN), ps)"
| "read_example (p # ps) = (((int (length p), p), 0), ps)"
| "read_example [] = (((0, []), 0), [])"

text \<open>The coroutine that reads is suspended, and \<open>env\<close> is the program until it runs again.\<close>

lemma suspend_example:
  obtains timer h1 m where "suspend (hook_example\<lparr>he_wake := wake\<rparr>) i 7 READ b t (hooks_example\<lparr>h_net := ps, h_errno := r, h_states := q, h_canceled := g\<rparr>) =
      Suspended timer h1" "h1 = hooks_example\<lparr>h_net := ps, h_errno := r, h_states := q, h_canceled := g, h_iom := Some m\<rparr>"
  by (rule suspends [of "hooks_example\<lparr>h_net := ps, h_errno := r, h_states := q, h_canceled := g\<rparr>" new_iom "\<lambda>k. k" 7 READ 0 "hook_example\<lparr>he_wake := wake\<rparr>" "[7 \<mapsto> READ OR EPOLLET]" 1 0 i b t])
    (simp_all add: hook_example_def hooks_example_def hooks_example_simps new_iom_contexts table_ctl_def Context_new_def status_defs)

lemma cancel_example: "h_iom h = Some m \<Longrightarrow> \<exists>m1. iom_cancel_timer timer h = Return (h\<lparr>h_iom := Some m1\<rparr>)"
  by (auto simp: iom_cancel_timer_def)

lemma read_waits:
  assumes "p \<noteq> []"
  obtains h1 where "io_loop (hook_example\<lparr>he_wake := \<lambda>h. h\<rparr>) i 7 read_example READ t
      (hooks_example\<lparr>h_net := [] # p # ps, h_errno := r, h_states := q, h_canceled := \<lambda>_. False\<rparr>) = Some (Return ((int (length p), p), h1))"
proof -
  let ?he = "hook_example\<lparr>he_wake := \<lambda>h. h\<rparr>"
    and ?h = "hooks_example\<lparr>h_net := [] # p # ps, h_errno := r, h_states := q, h_canceled := \<lambda>_. False\<rparr>"
    and ?h1 = "hooks_example\<lparr>h_net := p # ps, h_errno := EAGAIN, h_states := q, h_canceled := \<lambda>_. False\<rparr>"
  obtain timer m where s: "suspend (hook_example\<lparr>he_wake := \<lambda>h. h\<rparr>) i 7 READ (t \<ge> 0) t ?h1 = Suspended timer (?h1\<lparr>h_iom := Some m\<rparr>)"
    by (rule suspend_example [where wake = "\<lambda>h. h" and i = i and b = "t \<ge> 0" and t = t and ps = "p # ps" and r = EAGAIN and q = q and g = "\<lambda>_. False"]) blast
  obtain m1 where c: "iom_cancel_timer timer (?h1\<lparr>h_iom := Some m\<rparr>) = Return (?h1\<lparr>h_iom := Some m1\<rparr>)"
    using cancel_example [of "?h1\<lparr>h_iom := Some m\<rparr>" m timer] by auto
  have "call read_example (?h1\<lparr>h_iom := Some m1\<rparr>) = ((int (length p), p), ?h1\<lparr>h_iom := Some m1, h_net := ps\<rparr>)"
    using assms by (cases p) (simp_all add: call_def)
  moreover have "call read_example (hooks_example\<lparr>h_net := [] # p # ps, h_errno := r, h_states := q, h_canceled := \<lambda>_. False\<rparr>) = ((-1, []), ?h1)"
    by (simp add: call_def)
  ultimately show thesis using s c
    by (intro that) (simp add: io_loop.simps [of ?he i 7 read_example READ t ?h] io_loop.simps [of ?he i 7 read_example READ t "?h1\<lparr>h_iom := Some m1\<rparr>"])
qed

text \<open>
  C28: A call that has to wait is woken. When a hooked call would block inside a coroutine and epoll
  accepts the registration, the coroutine is suspended, and from there both what it waits for
  and the timeout put a task with this coroutine for its thread into the queue: the event when epoll
  reports the descriptor ready, and the callback of the timer, which also marks the call as
  cancelled. This joins the hooks with the I/O manager, coroutines and the scheduler.
\<close>

theorem blocked_call_is_woken:
  assumes "epoll (he_ctl he) interest" "h_iom h = Some m" "iom_inv interest m" "0 \<le> fd" "nat fd < length (m_contexts m)"
    "st \<in> {READ, WRITE}" "S = statuses (m_contexts m ! nat fd)" "S AND st = 0" "he_scheduler he" "\<not> m_is_stopping (iom m)"
    "he_ctl he (if S \<noteq> 0 then CTL_MOD else CTL_ADD) (nat fd) (S OR st OR EPOLLET) (kernel m) = (0, k1)"
    "he_ctl he (if S \<noteq> 0 then CTL_MOD else CTL_DEL) (nat fd) (EPOLLET OR S) k1 = (0, k2)"
    "running (iom_world m) (he_cur he) = Some c" "main_co (iom_world m) (he_cur he) = Some mc" "c \<noteq> mc" "\<not> h_canceled h i"
  shows "\<exists>timer h1 m1. suspend he i fd st timed timeout h = Suspended timer h1 \<and> h_iom h1 = Some m1 \<and>
     (\<exists>m2. idle_event (he_ctl he) d cur (Ready (nat fd) (if st = READ then EPOLLIN else EPOLLOUT)) m1 = Some m2 \<and>
        m_tasks (iom m2) = m_tasks (iom m) @ [\<lparr>m_co = Some c, m_thread_id = he_cur he\<rparr>]) \<and>
     (\<exists>h2 m2. io_timeout he cur i fd st h1 = Return h2 \<and> h_canceled h2 i \<and> h_iom h2 = Some m2 \<and>
        m_tasks (iom m2) = m_tasks (iom m) @ [\<lparr>m_co = Some c, m_thread_id = he_cur he\<rparr>])"
proof -
  obtain timer m0 m1 w where s: "suspend he i fd st timed timeout h = Suspended timer (h\<lparr>h_iom := Some (m1\<lparr>iom_world := w\<rparr>)\<rparr>)"
    and i0: "iom_inv interest m0"
    and e: "add_event (he_ctl he) (he_cur he) True (nat fd) st False m0 = Some (True, m1)"
     "nat fd < length (m_contexts m1)" "statuses (m_contexts m1 ! nat fd) = S OR st" "kernel m1 = k1" "iom m1 = iom m"
     "get_event_context st (m_contexts m1 ! nat fd) =
       \<lparr>ec_scheduler = True, ec_thread_id = Some (he_cur he), ec_co = Some c, ec_cb = ec_cb (get_event_context st (m_contexts m ! nat fd))\<rparr>"
    by (rule suspends [OF assms(2,3,5-9,11,13-15)])
  let ?m1 = "m1\<lparr>iom_world := w\<rparr>" and ?h1 = "h\<lparr>h_iom := Some (m1\<lparr>iom_world := w\<rparr>)\<rparr>"
  have "iom_inv interest m1" by (rule epoll.add_event_inv [OF assms(1) i0 assms(6) e(1)])
  then have i1: "iom_inv interest ?m1" by (rule iom_inv_same) simp_all
  have "S \<in> {0, 1, 4, 5}" using iom_invD [OF assms(3,5)] assms(7) by simp
  note b = status_back [OF this assms(6,8)]
  have "\<exists>m2 ctx. idle_event (he_ctl he) d cur (Ready (nat fd) (if st = READ then EPOLLIN else EPOLLOUT)) ?m1 = Some m2 \<and>
      m_tasks (iom m2) = m_tasks (iom ?m1) @ (if m_is_stopping (iom ?m1) then [] else [\<lparr>m_co = Some c, m_thread_id = he_cur he\<rparr>]) \<and>
     m_contexts m2 = (m_contexts ?m1)[nat fd := ctx] \<and> statuses ctx = S \<and> ec_co (get_event_context st ctx) = None \<and>
     m_appending_event_cnt m2 = m_appending_event_cnt ?m1 - 1 \<and> kernel m2 = k2"
    by (rule ready_wakes [OF i1, of "nat fd" st]) (use e assms(6,12) b in \<open>simp_all\<close>)
  then have ready: "\<exists>m2. idle_event (he_ctl he) d cur (Ready (nat fd) (if st = READ then EPOLLIN else EPOLLOUT)) ?m1 = Some m2 \<and>
      m_tasks (iom m2) = m_tasks (iom m) @ [\<lparr>m_co = Some c, m_thread_id = he_cur he\<rparr>]"
    using assms(10) by (auto simp: e(5))
  let ?m = "?m1\<lparr>kernel := k2, m_appending_event_cnt := m_appending_event_cnt m1 - 1\<rparr>"
  have st1: "statuses (m_contexts m1 ! nat fd) AND st \<noteq> 0" using e(3) b by simp
  obtain ctx m2 where t: "trigger_event (he_stack he) cur st (m_contexts m1 ! nat fd) ?m = Some (ctx, m2)"
      "m_tasks (iom m2) = m_tasks (iom m) @ [\<lparr>m_co = Some c, m_thread_id = he_cur he\<rparr>]"
    using trigger_wakes [OF st1 e(6), of "he_stack he" cur ?m] assms(10) by (auto simp: e(5))
  have "cancel_event (he_ctl he) (he_stack he) cur (nat fd) st ?m1 = Some (True, put_context (nat fd) ctx m2)"
    using e(2-4) b assms(12) t(1) by (simp add: cancel_event_def Let_def)
  then have "\<exists>h2 m3. io_timeout he cur i fd st ?h1 = Return h2 \<and> h_canceled h2 i \<and> h_iom h2 = Some m3 \<and>
        m_tasks (iom m3) = m_tasks (iom m) @ [\<lparr>m_co = Some c, m_thread_id = he_cur he\<rparr>]"
    using assms(16) t(2) by (simp add: io_timeout_def put_context_def)
  then show ?thesis using s ready by auto
qed


theorem blocked_call_is_woken_witness:
  "\<exists>h1 m1 m2. suspend hook_example 0 7 READ True 100 hooks_example = Suspended (Some 3) h1 \<and> h_iom h1 = Some m1 \<and>
     idle_event table_ctl 131072 0 (Ready 7 EPOLLIN) m1 = Some m2 \<and> m_tasks (iom m2) = [\<lparr>m_co = Some 1, m_thread_id = 0\<rparr>]"
proof -
  obtain timer h1 m1 m2 where r: "suspend hook_example 0 7 READ True 100 hooks_example = Suspended timer h1" "h_iom h1 = Some m1"
     "idle_event table_ctl 131072 0 (Ready 7 EPOLLIN) m1 = Some m2" "m_tasks (iom m2) = [\<lparr>m_co = Some 1, m_thread_id = 0\<rparr>]"
    using blocked_call_is_woken [of hook_example "\<lambda>k. k" hooks_example new_iom 7 READ 0 "[7 \<mapsto> READ OR EPOLLET]" "Map.empty(7 := None)" 1 0 0 True 100 131072 0]
    by (auto simp: hook_example_def hooks_example_def table.epoll_axioms hooks_example_simps new_iom_contexts table_ctl_def Context_new_def status_defs)
  moreover have "timer = Some 3"
    using r(1) by (auto simp: suspend_def arm_timer_def add_cond_timer_def add_timer_def hook_example_def hooks_example_def Let_def
      split: option.splits prod.splits bool.splits sum.splits)
  ultimately show ?thesis by blast
qed

text \<open>
  C29: A blocking call on a hooked socket does not report that it would block, nor that it was
  interrupted, whatever the rest of the program does while the coroutine is suspended. It returns
  what the original function returned in one of its calls, or fails with another error, or with
  \<^verbatim>\<open>EAGAIN\<close> for one reason: the event could not be registered with the I/O manager.
\<close>

theorem blocking_call_outcome:
  assumes "t_enable_hook h" "find_fd fd h = Some (Some e)" "m_is_socket e" "\<not> m_is_user_nonblock e" "\<not> m_is_closed e"
    "do_socket_io he fd func st dflt h = Some (Return ((n, x), h1))"
  shows "if n \<noteq> -1 then \<exists>h0. call func h0 = ((n, x), h1)
     else h_errno h1 \<notin> {EAGAIN, EINTR} \<or>
       (h_errno h1 = EAGAIN \<and> (\<exists>h0 timer h2. suspend he (h_states h) fd st (io_time he st e \<ge> 0) (io_time he st e) h0 = NotAdded timer h2 \<and>
          iom_cancel_timer timer h2 = Return h1))"
proof -
  have "io_loop he (h_states h) fd func st (io_time he st e)
      (h\<lparr>h_states := h_states h + 1, h_canceled := (h_canceled h)(h_states h := False)\<rparr>) = Some (Return ((n, x), h1))"
    using assms by (simp add: do_socket_io_def)
  from io_loop_outcome [OF this] show ?thesis by simp
qed

theorem blocking_call_outcome_witness:
  "\<exists>h1 h0. do_socket_io hook_example 7 read_example READ [] (hooks_example\<lparr>h_net := [[], [104]]\<rparr>) = Some (Return ((1, [104]), h1)) \<and>
     call read_example h0 = ((1, [104]), h1)"
proof -
  let ?h = "hooks_example\<lparr>h_net := [[], [104]]\<rparr>"
  obtain e where e: "find_fd 7 ?h = Some (Some e)" "m_is_socket e" "\<not> m_is_user_nonblock e" "\<not> m_is_closed e" "io_time hook_example READ e = 5000"
    by (simp add: find_fd_def get_fd_def hooks_example_def io_time_def status_defs recv_timeout_def hook_example_def)
  obtain h1 where r: "io_loop (hook_example\<lparr>he_wake := \<lambda>h. h\<rparr>) 0 7 read_example READ 5000
      (hooks_example\<lparr>h_net := [[], [104]], h_errno := 0, h_states := 1, h_canceled := \<lambda>_. False\<rparr>) = Some (Return ((1, [104]), h1))"
    by (rule read_waits [where p = "[104]" and i = 0 and t = 5000 and ps = "[]" and r = 0 and q = 1]) simp_all
  have "?h\<lparr>h_states := h_states ?h + 1, h_canceled := (h_canceled ?h)(h_states ?h := False)\<rparr> =
      hooks_example\<lparr>h_net := [[], [104]], h_errno := 0, h_states := 1, h_canceled := \<lambda>_. False\<rparr>"
    by (simp add: hooks_example_def fun_eq_iff)
  then have d: "do_socket_io hook_example 7 read_example READ [] ?h = Some (Return ((1, [104]), h1))"
    using r e by (simp add: do_socket_io_def hooks_example_def hook_example_def)
  show ?thesis using blocking_call_outcome [OF _ e(1-4) d] d by (auto simp: hooks_example_def)
qed



text \<open>
  The flags of a socket that the hooks have made non-blocking. Setting flags with \<^verbatim>\<open>fcntl\<close> keeps
  the descriptor non-blocking in the kernel, whatever the user asked for, and reading them back
  gives exactly what the user set. \<open>setfl\<close> and \<open>getfl\<close> are the original calls on a state in which \<open>flags_of\<close>
  are the flags of the descriptor.
\<close>

theorem fcntl_round_trip:
  assumes "find_fd fd h = Some (Some e)" "m_is_socket e" "m_is_sys_nonblock e" "\<not> m_is_closed e"
    "\<And>a net. \<exists>net'. setfl a net = (((0, ()), 0), net') \<and> flags_of net' = a" "\<And>net. getfl net = (flags_of net, net)"
  shows "\<exists>h1. fcntl_setfl fd setfl arg h = Return (0, h1) \<and> flags_of (h_net h1) = arg OR O_NONBLOCK \<and> fcntl_getfl fd getfl h1 = Return (arg, h1)"
proof -
  obtain net where n: "setfl (arg OR O_NONBLOCK) (h_net h) = (((0, ()), 0), net)" "flags_of net = arg OR O_NONBLOCK" using assms(5) by blast
  let ?h1 = "put_entity fd (e\<lparr>m_is_user_nonblock := arg AND O_NONBLOCK \<noteq> 0\<rparr>) h\<lparr>h_net := net\<rparr>"
  have "fcntl_setfl fd setfl arg h = Return (0, ?h1)"
    using assms(1-4) n(1) by (simp add: fcntl_setfl_def call_def put_entity_def)
  moreover have "find_fd fd ?h1 = Some (Some (e\<lparr>m_is_user_nonblock := arg AND O_NONBLOCK \<noteq> 0\<rparr>))" by (rule find_put [OF assms(1)])
  ultimately show ?thesis using assms(2,4,6) n(2) flag_back [of arg]
    by (intro exI [of _ ?h1]) (simp add: fcntl_getfl_def Let_def)
qed

theorem fcntl_round_trip_witness:
  "\<exists>h1. fcntl_setfl 7 (\<lambda>a net. (((0, ()), 0), a)) 2 (fcntl_example 5) = Return (0, h1) \<and> h_net h1 = 0x802 \<and>
     fcntl_getfl 7 (\<lambda>net. (net, net)) h1 = Return (2, h1)"
proof -
  obtain e where "find_fd 7 (fcntl_example 5) = Some (Some e)" "m_is_socket e" "m_is_sys_nonblock e" "\<not> m_is_closed e"
    by (simp add: find_fd_def get_fd_def fcntl_example_def hooks_example_def)
  then show ?thesis
    using fcntl_round_trip [of 7 "fcntl_example 5" e "\<lambda>a net. (((0, ()), 0), a)" id "\<lambda>net. (net, net)" 2] by (simp add: O_NONBLOCK_def)
qed

text \<open>
  The whole call. With an argument of the kind that the command takes, all commands but those on the status flags go
  through to the original function with their argument. A command the hook does not name loses its argument, whatever it
  was, so that \<^verbatim>\<open>F_OFD_SETLK\<close> (37) gets no lock and \<^verbatim>\<open>F_SET_RW_HINT\<close> (1036) no hint.
\<close>

definition cmd_arg_ok :: "int \<Rightarrow> 'p fcntl_arg \<Rightarrow> bool" where
  "cmd_arg_ok cmd ap \<longleftrightarrow>
     (case ap of
        NoArg \<Rightarrow> cmd \<in> set no_arg_cmds
      | IntArg a \<Rightarrow> cmd \<in> set int_cmds
      | PtrArg p \<Rightarrow> cmd \<in> set lock_cmds \<union> set owner_cmds)"

theorem fcntl_passes_on:
  assumes "cmd_arg_ok cmd ap"
  shows "hook_fcntl fd cmd ap fcntl_f h = (case call (fcntl_f cmd ap) h of ((n, _), h1) \<Rightarrow> Return (n, h1))"
  using assms by (cases ap) (auto simp: hook_fcntl_def cmd_arg_ok_def fcntl_cmd_defs)

theorem fcntl_drops_argument:
  assumes "cmd \<notin> {F_SETFL, F_GETFL} \<union> set int_cmds \<union> set no_arg_cmds \<union> set lock_cmds \<union> set owner_cmds"
  shows "hook_fcntl fd cmd ap fcntl_f h = (case call (fcntl_f cmd NoArg) h of ((n, _), h1) \<Rightarrow> Return (n, h1))"
  using assms by (auto simp: hook_fcntl_def)

theorem fcntl_drops_argument_witness:
  "hook_fcntl 7 37 (PtrArg x) (\<lambda>c a net. (((if a = NoArg then -1 else 0, ()), 14), net)) (fcntl_example 5) =
     Return (-1, (fcntl_example 5)\<lparr>h_errno := 14\<rparr>)"
  using fcntl_drops_argument [of 37 7 "PtrArg x" "\<lambda>c a net. (((if a = NoArg then -1 else 0, ()), 14), net)" "fcntl_example 5"]
  by (simp add: fcntl_cmd_defs call_def)

text \<open>
  The flags of a socket that could not be read: the result -1 of the original function is taken for flags, and the bit of
  \<^verbatim>\<open>O_NONBLOCK\<close> cleared in it, unless the user has asked for non-blocking calls. The caller gets -2049, which is no error code.
\<close>

theorem fcntl_getfl_error:
  assumes "find_fd fd h = Some (Some e)" "m_is_socket e" "\<not> m_is_closed e" "fcntl_f F_GETFL NoArg (h_net h) = (((-1, ()), err), net)"
  shows "hook_fcntl fd F_GETFL ap fcntl_f h = Return (if m_is_user_nonblock e then -1 else -2049, h\<lparr>h_net := net, h_errno := err\<rparr>)"
proof -
  have "find_fd fd (h\<lparr>h_net := net, h_errno := err\<rparr>) = Some (Some e)" using assms(1) by (simp add: find_fd_def)
  moreover have "sint (- 1 OR O_NONBLOCK) = -1" "sint (- 1 AND NOT O_NONBLOCK) = -2049" by (simp_all add: O_NONBLOCK_def)
  ultimately show ?thesis using assms
    by (simp add: hook_fcntl_def fcntl_cmd_defs call_def fcntl_getfl_def Let_def)
qed

text \<open>The call returned to a program in which the callback \<open>cb\<close> is among those that expire from time \<open>due\<close> on, and no earlier.\<close>

definition sleeps_until :: "nat \<Rightarrow> int \<Rightarrow> (int \<times> ('e, 'n) hooks) hooked \<Rightarrow> bool" where
  "sleeps_until cb due r \<longleftrightarrow> (\<exists>h1 m1. r = Return (0, h1) \<and> h_iom h1 = Some m1 \<and>
     (\<forall>now. Some (Callback cb) \<in> set (snd (all_expired_cbs now (iom_timers m1))) \<longleftrightarrow> due \<le> now))"

lemma sleep_ms_due:
  assumes "h_iom h = Some m" "running (iom_world m) (he_cur he) = Some c" "main_co (iom_world m) (he_cur he) = Some mc" "c \<noteq> mc"
    "he_wake he = (\<lambda>h. h)" "tm_inv (iom_timers m)" "tm_heap (iom_timers m) (he_addr he h) = None"
    "\<forall>t \<in> ran (tm_heap (iom_timers m)). t_cb t \<noteq> Some (Callback cb)"
  shows "sleeps_until cb (he_now he h + ms) (sleep_ms he cb ms h)"
proof -
  obtain a tm where t: "add_timer (he_addr he h) (he_now he h) ms (Some (Callback cb)) False (iom_timers m) = (a, tm)" by fastforce
  note e = add_timer_effect [OF assms(6,7) t]
  obtain w where "Yield (he_cur he) (iom_world (with_timers tm m)) = Inr w" using assms(2-4) by (simp add: Yield_def Let_def)
  then have r: "sleep_ms he cb ms h = Return (0, h\<lparr>h_iom := Some (with_timers tm m\<lparr>iom_world := w\<rparr>)\<rparr>)"
    using assms(1,5) t by (simp add: sleep_ms_def Let_def)
  have "Some (Callback cb) \<in> set (snd (all_expired_cbs now tm)) \<longleftrightarrow> he_now he h + ms \<le> now" for now
  proof -
    obtain tm1 cbs where x: "all_expired_cbs now tm = (tm1, cbs)" by fastforce
    have c: "t_cb (the (tm_heap tm b)) = Some (Callback cb) \<longleftrightarrow> b = he_addr he h" if "b \<in> set (m_timers tm)" for b
    proof (cases "b = he_addr he h")
      case False
      then have "b \<in> set (m_timers (iom_timers m))" using that e(3) by simp
      then obtain t where "tm_heap (iom_timers m) b = Some t" using assms(6) by (auto simp: tm_inv_def)
      then show ?thesis using False assms(8) by (auto simp: e(4) ran_def)
    qed (simp add: e(4) Timer_new_def)
    have n: "next_time (tm_heap tm) (he_addr he h) = he_now he h + ms" by (simp add: e(4) next_time_def Timer_new_def)
    have "Some (Callback cb) \<in> set cbs \<longleftrightarrow>
        (\<exists>b \<in> set (m_timers tm). next_time (tm_heap tm) b \<le> now \<and> t_cb (the (tm_heap tm b)) = Some (Callback cb))"
      unfolding all_expired_effect(2) [OF e(2) x] using all_expired_effect(3) [OF e(2) x] by (auto simp: image_iff)
    also have "\<dots> \<longleftrightarrow> he_now he h + ms \<le> now" using c n e(3) by auto
    finally show ?thesis using x by simp
  qed
  then show ?thesis by (simp add: sleeps_until_def r)
qed

text \<open>
  How long the sleeping calls sleep under hooks. The callback that schedules the coroutine
  expires for \<^verbatim>\<open>sleep\<close> after the seconds as milliseconds in 32 bits; for \<^verbatim>\<open>usleep\<close> after as many milliseconds
  as microseconds were asked for; for \<^verbatim>\<open>nanosleep\<close> after the seconds and a tenth of the milliseconds of its
  nanoseconds. Without hooks \<^verbatim>\<open>nanosleep\<close> calls itself for ever.
\<close>

theorem sleep_durations:
  assumes "t_enable_hook h" "h_iom h = Some m" "running (iom_world m) (he_cur he) = Some c" "main_co (iom_world m) (he_cur he) = Some mc" "c \<noteq> mc"
    "he_wake he = (\<lambda>h. h)" "tm_inv (iom_timers m)" "tm_heap (iom_timers m) (he_addr he h) = None"
    "\<forall>t \<in> ran (tm_heap (iom_timers m)). t_cb t \<noteq> Some (Callback cb)" "0 \<le> ns"
  shows "sleeps_until cb (he_now he h + 1000 * uint s mod 2 ^ 32) (hook_sleep he cb sleep_f s h) \<and>
    sleeps_until cb (he_now he h + uint us) (hook_usleep he cb usleep_f us h) \<and>
    (\<exists>r. hook_nanosleep he cb sec ns h = Some r \<and> sleeps_until cb (he_now he h + (1000 * sec + ns div 10 ^ 7)) r) \<and>
    hook_nanosleep he cb sec ns (enable_hook False h) = None"
proof -
  note d = sleep_ms_due [OF assms(2-9)]
  have "uint (s * 1000) = 1000 * uint s mod 2 ^ 32" by (simp add: uint_word_ariths mult.commute)
  moreover have "cdiv ns 10000000 = ns div 10 ^ 7" using assms(10) by (cases "ns = 0") (simp_all add: cdiv_def)
  ultimately show ?thesis
    using d [of "1000 * uint s mod 2 ^ 32"] d [of "uint us"] d [of "1000 * sec + ns div 10 ^ 7"] assms(1) nanosleep_hangs [of "enable_hook False h"]
    by (simp add: hook_sleep_def hook_usleep_def hook_nanosleep.simps [of he cb sec ns h] enable_hook_def mult.commute)
qed

theorem sleep_durations_witness:
  "sleeps_until 9 2000 (hook_sleep hook_example 9 (\<lambda>_ n. (((0, ()), 0), n)) 2 hooks_example) \<and>
   sleeps_until 9 2000000 (hook_usleep hook_example 9 (\<lambda>_ n. (((0, ()), 0), n)) 2000000 hooks_example)"
  using sleep_durations [of hooks_example new_iom hook_example 1 0 9 0 2 "\<lambda>_ n. (((0, ()), 0), n)" 2000000 "\<lambda>_ n. (((0, ()), 0), n)" 0]
  by (simp add: hooks_example_def hook_example_def hooks_example_simps)

end
