(* ===== verification/SslSocket.thy ===== *)
theory SslSocket
  imports Sockets
begin

text \<open>
  The SSL socket of \<^verbatim>\<open>src/socket.cc\<close>: a socket with an OpenSSL context and session. The functions of
  OpenSSL are the record \<open>ssl_api\<close>; what is asked of reading and writing a session is the locale
  \<open>tls\<close>, from which a stream over an SSL socket gets the contract of a stream. The value \<open>None\<close> of an
  operation is a null context or session handed to OpenSSL, an access of the table of descriptors
  outside its bounds, or a failed assertion.
\<close>

section \<open>Data\<close>

datatype ssl_method = SSLv23_client_method | SSLv23_server_method

text \<open>
  Contexts and sessions are handles; their state is in the world. \<open>SSL_read\<close> returns its result and
  the bytes it stored, \<open>SSL_write\<close> is given the bytes and their number as an \<^verbatim>\<open>int\<close>.
\<close>

record ('w, 'c, 'l) ssl_api =
  SSL_CTX_new :: "ssl_method \<Rightarrow> 'w \<Rightarrow> 'c option \<times> 'w"
  SSL_new :: "'c option \<Rightarrow> 'w \<Rightarrow> 'l option \<times> 'w"
  SSL_set_fd :: "'l \<Rightarrow> int \<Rightarrow> 'w \<Rightarrow> 'w"
  SSL_accept :: "'l \<Rightarrow> 'w \<Rightarrow> int \<times> 'w"
  SSL_connect :: "'l \<Rightarrow> 'w \<Rightarrow> int \<times> 'w"
  SSL_write :: "'l \<Rightarrow> byte list \<Rightarrow> int \<Rightarrow> 'w \<Rightarrow> int \<times> 'w"
  SSL_read :: "'l \<Rightarrow> int \<Rightarrow> 'w \<Rightarrow> (int \<times> byte list) \<times> 'w"
  use_certificate_chain_file :: "'c \<Rightarrow> string \<Rightarrow> 'w \<Rightarrow> int \<times> 'w"
  use_PrivateKey_file :: "'c \<Rightarrow> string \<Rightarrow> 'w \<Rightarrow> int \<times> 'w"
  check_private_key :: "'c \<Rightarrow> 'w \<Rightarrow> int"

record ('c, 'l) SSLSocket =
  ssl_base :: Socket
  m_ctx :: "'c option"
  m_ssl :: "'l option"

definition SSLSocket_new :: "int \<Rightarrow> int \<Rightarrow> int \<Rightarrow> ('c, 'l) SSLSocket" where
  "SSLSocket_new family type protocol = \<lparr>ssl_base = Socket_new family type protocol, m_ctx = None, m_ssl = None\<rparr>"

definition SSL_CreateTCP :: "sock_address \<Rightarrow> ('c, 'l) SSLSocket" where
  "SSL_CreateTCP a = SSLSocket_new (a_family a) SOCK_STREAM 0"

definition SSL_CreateTCPSocket :: "('c, 'l) SSLSocket" where
  "SSL_CreateTCPSocket = SSLSocket_new (uint AF_INET) SOCK_STREAM 0"

definition SSL_CreateTCPSocket6 :: "('c, 'l) SSLSocket" where
  "SSL_CreateTCPSocket6 = SSLSocket_new (uint AF_INET6) SOCK_STREAM 0"

section \<open>Sessions\<close>

text \<open>A new session on the context and the descriptor, then the handshake.\<close>

definition handshake ::
    "('w, 'c, 'l) ssl_api \<Rightarrow> ('l \<Rightarrow> 'w \<Rightarrow> int \<times> 'w) \<Rightarrow> ('c, 'l) SSLSocket \<Rightarrow> 'w \<Rightarrow> (bool \<times> ('c, 'l) SSLSocket \<times> 'w) option" where
  "handshake api shake s w =
     (case SSL_new api (m_ctx s) w of
        (None, w1) \<Rightarrow> None
      | (Some l, w1) \<Rightarrow>
          (case shake l (SSL_set_fd api l (m_sock (ssl_base s)) w1) of
             (r, w2) \<Rightarrow> Some (r = 1, s\<lparr>m_ssl := Some l\<rparr>, w2)))"

definition SSLSocket_init ::
    "'k os_world socket_sys \<Rightarrow> ('k os_world, 'c, 'l) ssl_api \<Rightarrow> int \<Rightarrow> ('c, 'l) SSLSocket \<Rightarrow> 'k os_world \<Rightarrow>
     (bool \<times> ('c, 'l) SSLSocket \<times> 'k os_world) option" where
  "SSLSocket_init sys api sock s w =
     (case Socket_init sys sock (ssl_base s) w of
        None \<Rightarrow> None
      | Some (v, b, w1) \<Rightarrow>
          let s1 = s\<lparr>ssl_base := b\<rparr> in
          if v then handshake api (SSL_accept api) s1 w1 else Some (False, s1, w1))"

definition SSLSocket_connect ::
    "'k os_world socket_sys \<Rightarrow> ('k os_world, 'c, 'l) ssl_api \<Rightarrow> sock_address \<Rightarrow> u64 \<Rightarrow> ('c, 'l) SSLSocket \<Rightarrow> 'k os_world \<Rightarrow>
     (bool \<times> ('c, 'l) SSLSocket \<times> 'k os_world) option" where
  "SSLSocket_connect sys api addr timeout_ms s w =
     (case Socket_connect sys addr timeout_ms (ssl_base s) w of
        None \<Rightarrow> None
      | Some (v, b, w1) \<Rightarrow>
          let s1 = s\<lparr>ssl_base := b\<rparr> in
          if v then
            (case SSL_CTX_new api SSLv23_client_method w1 of
               (c, w2) \<Rightarrow> handshake api (SSL_connect api) (s1\<lparr>m_ctx := c\<rparr>) w2)
          else Some (False, s1, w1))"

definition SSLSocket_bind :: "'w socket_sys \<Rightarrow> sock_address \<Rightarrow> ('c, 'l) SSLSocket \<Rightarrow> 'w \<Rightarrow> bool \<times> ('c, 'l) SSLSocket \<times> 'w" where
  "SSLSocket_bind sys addr s w = (case Socket_bind sys addr (ssl_base s) w of (v, b, w1) \<Rightarrow> (v, s\<lparr>ssl_base := b\<rparr>, w1))"

definition SSLSocket_listen :: "'w socket_sys \<Rightarrow> int \<Rightarrow> ('c, 'l) SSLSocket \<Rightarrow> 'w \<Rightarrow> bool \<times> 'w" where
  "SSLSocket_listen sys backlog s w = Socket_listen sys backlog (ssl_base s) w"

definition SSLSocket_close :: "'k sys \<Rightarrow> ('c, 'l) SSLSocket \<Rightarrow> 'k \<Rightarrow> bool \<times> ('c, 'l) SSLSocket \<times> 'k" where
  "SSLSocket_close sys s w = (case Socket_close sys (ssl_base s) w of (v, b, w1) \<Rightarrow> (v, s\<lparr>ssl_base := b\<rparr>, w1))"

text \<open>The new object shares the context; when it is not returned its destructor closes it.\<close>

definition SSLSocket_accept ::
    "'k os_world socket_sys \<Rightarrow> ('k os_world, 'c, 'l) ssl_api \<Rightarrow> ('c, 'l) SSLSocket \<Rightarrow> 'k os_world \<Rightarrow>
     (('c, 'l) SSLSocket option \<times> 'k os_world) option" where
  "SSLSocket_accept sys api s w =
     (let b = ssl_base s; new = SSLSocket_new (m_family b) (m_type b) (m_protocol b) in
      case so_accept sys (m_sock b) w of
        (sock, w1) \<Rightarrow>
          if sock = -1 then Some (None, w1)
          else (case SSLSocket_init sys api sock (new\<lparr>m_ctx := m_ctx s\<rparr>) w1 of
              None \<Rightarrow> None
            | Some (True, s1, w2) \<Rightarrow> Some (Some s1, w2)
            | Some (False, s1, w2) \<Rightarrow> Some (None, snd (snd (SSLSocket_close (so_sys sys) s1 w2)))))"

section \<open>Transfers\<close>

definition SSLSocket_send :: "('w, 'c, 'l) ssl_api \<Rightarrow> ('c, 'l) SSLSocket \<Rightarrow> byte list \<Rightarrow> 'w \<Rightarrow> int \<times> 'w" where
  "SSLSocket_send api s buffer w =
     (case m_ssl s of None \<Rightarrow> (-1, w) | Some l \<Rightarrow> SSL_write api l buffer (to_int (int (length buffer))) w)"

fun ssl_send_loop :: "('w, 'c, 'l) ssl_api \<Rightarrow> 'l \<Rightarrow> byte list list \<Rightarrow> int \<Rightarrow> 'w \<Rightarrow> int \<times> 'w" where
  "ssl_send_loop api l [] tot w = (tot, w)"
| "ssl_send_loop api l (b # bs) tot w =
     (case SSL_write api l b (to_int (int (length b))) w of
        (tmp, w1) \<Rightarrow>
          if tmp \<le> 0 then (tmp, w1)
          else if tmp \<noteq> to_int (int (length b)) then (tot + tmp, w1)
          else ssl_send_loop api l bs (tot + tmp) w1)"

definition SSLSocket_send_iov :: "('w, 'c, 'l) ssl_api \<Rightarrow> ('c, 'l) SSLSocket \<Rightarrow> byte list list \<Rightarrow> 'w \<Rightarrow> int \<times> 'w" where
  "SSLSocket_send_iov api s buffers w =
     (case m_ssl s of None \<Rightarrow> (-1, w) | Some l \<Rightarrow> ssl_send_loop api l buffers 0 w)"

text \<open>The test is on the context, the call on the session.\<close>

definition SSLSocket_recv :: "('w, 'c, 'l) ssl_api \<Rightarrow> ('c, 'l) SSLSocket \<Rightarrow> nat \<Rightarrow> 'w \<Rightarrow> ((int \<times> byte list) \<times> 'w) option" where
  "SSLSocket_recv api s len w =
     (if m_ctx s \<noteq> None then
        (case m_ssl s of None \<Rightarrow> None | Some l \<Rightarrow> Some (SSL_read api l (to_int (int len)) w))
      else Some ((-1, []), w))"

text \<open>
  \<open>lens\<close> are the sizes of the buffers left; every read is given the size \<open>first\<close> of the first one
  (\<^verbatim>\<open>buffers->iov_len\<close>). The result has what was stored from the start of each buffer.
\<close>

fun ssl_recv_loop ::
    "('w, 'c, 'l) ssl_api \<Rightarrow> 'l \<Rightarrow> nat \<Rightarrow> nat list \<Rightarrow> int \<Rightarrow> byte list list \<Rightarrow> 'w \<Rightarrow> (int \<times> byte list list) \<times> 'w" where
  "ssl_recv_loop api l first [] tot got w = ((tot, got), w)"
| "ssl_recv_loop api l first (n # ns) tot got w =
     (case SSL_read api l (to_int (int first)) w of
        ((tmp, bs), w1) \<Rightarrow>
          if tmp \<le> 0 then ((tmp, got @ [bs]), w1)
          else if tmp \<noteq> to_int (int n) then ((tot + tmp, got @ [bs]), w1)
          else ssl_recv_loop api l first ns (tot + tmp) (got @ [bs]) w1)"

definition SSLSocket_recv_iov :: "('w, 'c, 'l) ssl_api \<Rightarrow> ('c, 'l) SSLSocket \<Rightarrow> nat list \<Rightarrow> 'w \<Rightarrow> (int \<times> byte list list) \<times> 'w" where
  "SSLSocket_recv_iov api s lens w =
     (case m_ssl s of
        None \<Rightarrow> ((-1, []), w)
      | Some l \<Rightarrow> (case lens of [] \<Rightarrow> ((0, []), w) | n # ns \<Rightarrow> ssl_recv_loop api l n lens 0 [] w))"

text \<open>Datagrams fail an assertion.\<close>

definition SSLSocket_send_to :: "('c, 'l) SSLSocket \<Rightarrow> byte list \<Rightarrow> sock_address \<Rightarrow> 'w \<Rightarrow> (int \<times> 'w) option" where
  "SSLSocket_send_to s buffer addr w = None"

definition SSLSocket_recv_from :: "('c, 'l) SSLSocket \<Rightarrow> nat \<Rightarrow> sock_address \<Rightarrow> 'w \<Rightarrow> ((int \<times> byte list) \<times> 'w) option" where
  "SSLSocket_recv_from s len addr w = None"

definition SSLSocket_send_to_iov :: "('c, 'l) SSLSocket \<Rightarrow> byte list list \<Rightarrow> sock_address \<Rightarrow> 'w \<Rightarrow> (int \<times> 'w) option" where
  "SSLSocket_send_to_iov s buffers addr w = None"

definition SSLSocket_recv_from_iov :: "('c, 'l) SSLSocket \<Rightarrow> nat list \<Rightarrow> sock_address \<Rightarrow> 'w \<Rightarrow> ((int \<times> byte list list) \<times> 'w) option" where
  "SSLSocket_recv_from_iov s lens addr w = None"

definition load_certificates ::
    "('w, 'c, 'l) ssl_api \<Rightarrow> string \<Rightarrow> string \<Rightarrow> ('c, 'l) SSLSocket \<Rightarrow> 'w \<Rightarrow> (bool \<times> ('c, 'l) SSLSocket \<times> 'w) option" where
  "load_certificates api cert_file key_file s w =
     (case SSL_CTX_new api SSLv23_server_method w of
        (None, w1) \<Rightarrow> None
      | (Some c, w1) \<Rightarrow>
          let s1 = s\<lparr>m_ctx := Some c\<rparr> in
          (case use_certificate_chain_file api c cert_file w1 of
             (r, w2) \<Rightarrow>
               if r \<noteq> 1 then Some (False, s1, w2)
               else (case use_PrivateKey_file api c key_file w2 of
                   (r, w3) \<Rightarrow>
                     if r \<noteq> 1 then Some (False, s1, w3)
                     else Some (check_private_key api c w3 = 1, s1, w3))))"

section \<open>Streams\<close>

text \<open>
  \<^verbatim>\<open>SocketStream\<close> over an SSL socket with a context and a session, as \<open>connect\<close> and \<open>accept\<close> leave it;
  its calls are virtual. The last case of \<open>SSLStream_read\<close> does not occur.
\<close>

type_synonym ('c, 'l) session = "Socket \<times> 'c \<times> 'l"

fun session_socket :: "('c, 'l) session \<Rightarrow> ('c, 'l) SSLSocket" where
  "session_socket (b, c, l) = \<lparr>ssl_base = b, m_ctx = Some c, m_ssl = Some l\<rparr>"

fun SSLStream_read :: "('w, 'c, 'l) ssl_api \<Rightarrow> nat \<Rightarrow> ('c, 'l) session \<times> 'w \<Rightarrow> (int \<times> byte list) \<times> (('c, 'l) session \<times> 'w)" where
  "SSLStream_read api len ((b, c, l), w) =
     (if \<not> m_is_connected b then ((-1, []), ((b, c, l), w))
      else case SSLSocket_recv api (session_socket (b, c, l)) len w of
          Some (r, w1) \<Rightarrow> (r, ((b, c, l), w1))
        | None \<Rightarrow> ((-1, []), ((b, c, l), w)))"

fun SSLStream_write :: "('w, 'c, 'l) ssl_api \<Rightarrow> byte list \<Rightarrow> ('c, 'l) session \<times> 'w \<Rightarrow> int \<times> (('c, 'l) session \<times> 'w)" where
  "SSLStream_write api buffer ((b, c, l), w) =
     (if \<not> m_is_connected b then (-1, ((b, c, l), w))
      else case SSLSocket_send api (session_socket (b, c, l)) buffer w of (r, w1) \<Rightarrow> (r, ((b, c, l), w1)))"

fun SSLStream_close :: "'w sys \<Rightarrow> ('c, 'l) session \<times> 'w \<Rightarrow> ('c, 'l) session \<times> 'w" where
  "SSLStream_close sys ((b, c, l), w) =
     (case SSLSocket_close sys (session_socket (b, c, l)) w of (v, s, w1) \<Rightarrow> ((ssl_base s, c, l), w1))"

definition SSLStream_ops :: "'w sys \<Rightarrow> ('w, 'c, 'l) ssl_api \<Rightarrow> (('c, 'l) session \<times> 'w) Stream" where
  "SSLStream_ops sys api = \<lparr>st_read = SSLStream_read api, st_write = SSLStream_write api, st_close = SSLStream_close sys\<rparr>"

section \<open>What is asked of OpenSSL\<close>

locale tls =
  fixes api :: "('w, 'c, 'l) ssl_api" and incoming :: "'l \<Rightarrow> 'w \<Rightarrow> byte list" and outgoing :: "'l \<Rightarrow> 'w \<Rightarrow> byte list"
    and writable :: "'l \<Rightarrow> 'w \<Rightarrow> bool"
  assumes read_delivers: "0 < n \<Longrightarrow> n < 2 ^ 31 \<Longrightarrow> incoming l w \<noteq> [] \<Longrightarrow>
      \<exists>bs w'. SSL_read api l (int n) w = ((int (length bs), bs), w') \<and> bs \<noteq> [] \<and> length bs \<le> n \<and> incoming l w = bs @ incoming l w'"
    and read_ends: "incoming l w = [] \<Longrightarrow> \<exists>r w'. SSL_read api l k w = ((r, []), w') \<and> - (2 ^ 31) \<le> r \<and> r \<le> 0 \<and> incoming l w' = []"
    and write_accepts: "writable l w \<Longrightarrow> bs \<noteq> [] \<Longrightarrow> length bs < 2 ^ 31 \<Longrightarrow>
      \<exists>n w'. SSL_write api l bs (int (length bs)) w = (int n, w') \<and> 0 < n \<and> n \<le> length bs \<and>
        outgoing l w' = outgoing l w @ take n bs \<and> writable l w'"
    and read_keeps: "SSL_read api l k w = (r, w') \<Longrightarrow> outgoing l w' = outgoing l w \<and> (writable l w \<longrightarrow> writable l w')"
    and write_keeps: "SSL_write api l bs k w = (m, w') \<Longrightarrow> incoming l w' = incoming l w"
begin

lemma to_int_length: "length bs < 2 ^ 31 \<Longrightarrow> to_int (int (length bs)) = int (length bs)"
  by (simp add: to_int_id)

text \<open>A vectored send hands over a part of the buffers put together, from the start, and returns how much.\<close>

lemma send_loop:
  "writable l w \<Longrightarrow> \<forall>b \<in> set bufs. b \<noteq> [] \<and> length b < 2 ^ 31 \<Longrightarrow>
     \<exists>n w'. ssl_send_loop api l bufs tot w = (tot + int n, w') \<and> n \<le> length (concat bufs) \<and> (bufs \<noteq> [] \<longrightarrow> 0 < n) \<and>
       outgoing l w' = outgoing l w @ take n (concat bufs) \<and> writable l w'"
proof (induction bufs arbitrary: tot w)
  case (Cons b bufs)
  then have b: "b \<noteq> []" "length b < 2 ^ 31" by auto
  from write_accepts [OF Cons.prems(1) b] obtain n w1 where
    s: "SSL_write api l b (int (length b)) w = (int n, w1)" "0 < n" "n \<le> length b" "outgoing l w1 = outgoing l w @ take n b" "writable l w1" by blast
  show ?case
  proof (cases "n = length b")
    case True
    have "\<forall>b \<in> set bufs. b \<noteq> [] \<and> length b < 2 ^ 31" using Cons.prems(2) by simp
    from Cons.IH [OF s(5) this, of "tot + int n"] obtain m w' where
      "ssl_send_loop api l bufs (tot + int n) w1 = (tot + int n + int m, w')" "m \<le> length (concat bufs)"
      "outgoing l w' = outgoing l w1 @ take m (concat bufs)" "writable l w'" by blast
    then show ?thesis using s True b to_int_length [of b] by (intro exI [of _ "n + m"] exI [of _ w']) simp
  next
    case False
    then show ?thesis using s b to_int_length [of b] by (intro exI [of _ n] exI [of _ w1]) simp
  qed
qed simp

end

definition tls_pending :: "('l \<Rightarrow> 'w \<Rightarrow> byte list) \<Rightarrow> ('c, 'l) session \<times> 'w \<Rightarrow> byte list" where
  "tls_pending incoming = (\<lambda>((b, c, l), w). if m_is_connected b then incoming l w else [])"

definition tls_sent :: "('l \<Rightarrow> 'w \<Rightarrow> byte list) \<Rightarrow> ('c, 'l) session \<times> 'w \<Rightarrow> byte list" where
  "tls_sent outgoing = (\<lambda>((b, c, l), w). if m_is_connected b then outgoing l w else [])"

definition tls_ready :: "('l \<Rightarrow> 'w \<Rightarrow> bool) \<Rightarrow> ('c, 'l) session \<times> 'w \<Rightarrow> bool" where
  "tls_ready writable = (\<lambda>((b, c, l), w). m_is_connected b \<and> writable l w)"

lemmas tls_defs = SSLStream_ops_def SSLSocket_recv_def SSLSocket_send_def tls_pending_def tls_sent_def tls_ready_def

sublocale tls \<subseteq> ts: duplex "SSLStream_ops sys api" "tls_pending incoming" "tls_sent outgoing" "tls_ready writable" for sys
proof
  fix n :: nat and s :: "('c, 'l) session \<times> 'w"
  obtain b c l w where s: "s = ((b, c, l), w)" by (metis surj_pair)
  {
    assume n: "0 < n" "n < 2 ^ 31" and "tls_pending incoming s \<noteq> []"
    then have p: "m_is_connected b" "incoming l w \<noteq> []" by (auto simp: s tls_pending_def split: if_splits)
    from read_delivers [OF n p(2)] show "\<exists>bs s'. st_read (SSLStream_ops sys api) n s = ((int (length bs), bs), s') \<and> bs \<noteq> [] \<and>
        length bs \<le> n \<and> tls_pending incoming s = bs @ tls_pending incoming s'"
      using p n by (force simp: tls_defs s to_int_id)
  next
    assume "0 < n" and e: "tls_pending incoming s = []"
    then show "\<exists>r s'. st_read (SSLStream_ops sys api) n s = ((r, []), s') \<and> - (2 ^ 31) \<le> r \<and> r \<le> 0 \<and> tls_pending incoming s' = []"
      using read_ends [of l w "to_int (int n)"] by (cases "m_is_connected b") (force simp: tls_defs s)+
  next
    fix bs :: "byte list"
    assume "tls_ready writable s" "bs \<noteq> []" "length bs < 2 ^ 31"
    then show "\<exists>n s'. st_write (SSLStream_ops sys api) bs s = (int n, s') \<and> 0 < n \<and> n \<le> length bs \<and>
        tls_sent outgoing s' = tls_sent outgoing s @ take n bs \<and> tls_ready writable s'"
      using write_accepts [of l w bs] by (force simp: tls_defs s to_int_id)
  next
    fix r s'
    assume "st_read (SSLStream_ops sys api) n s = (r, s')"
    then show "tls_sent outgoing s' = tls_sent outgoing s \<and> (tls_ready writable s \<longrightarrow> tls_ready writable s')"
      using read_keeps [of l "to_int (int n)" w] by (cases "SSL_read api l (to_int (int n)) w") (auto simp: tls_defs s split: if_splits)
  next
    fix bs m s'
    assume "st_write (SSLStream_ops sys api) bs s = (m, s')"
    then show "tls_pending incoming s' = tls_pending incoming s"
      using write_keeps [of l bs "to_int (int (length bs))" w]
      by (cases "SSL_write api l bs (to_int (int (length bs))) w") (auto simp: tls_defs s split: if_splits)
  }
qed

context tls
begin

lemma transfers:
  assumes "n < 2 ^ 31" "length buffer < 2 ^ 31"
  shows "(n \<le> length (tls_pending incoming s) \<longrightarrow>
      (\<exists>s'. read_fixed_size (SSLStream_ops sys api) n s = ((int n, take n (tls_pending incoming s)), s') \<and>
        tls_pending incoming s' = drop n (tls_pending incoming s))) \<and>
    (length (tls_pending incoming s) < n \<longrightarrow> fst (fst (read_fixed_size (SSLStream_ops sys api) n s)) \<le> 0) \<and>
    (tls_ready writable s \<longrightarrow>
      (\<exists>s'. write_fixed_size (SSLStream_ops sys api) buffer s = (int (length buffer), s') \<and>
        tls_sent outgoing s' = tls_sent outgoing s @ buffer))"
  using ts.read_exact [OF assms(1), of s sys] ts.read_short [OF assms(1), of s sys] ts.write_exact [OF _ assms(2), of s sys]
  by (metis fst_conv)

end

text \<open>With an entity for the accepted descriptor the outcome is that of the handshake.\<close>

lemma accept_handshake:
  fixes s :: "('c, 'l) SSLSocket"
  assumes "so_accept sys (m_sock (ssl_base s)) w = (fd, w1)" "fd \<noteq> -1"
    "get_fd fd False (w_fds w1) (w_kernel w1) = Some (Some e, ds, k)" "m_is_socket e" "\<not> m_is_closed e"
  obtains b x s0 where "m_sock b = fd" "m_is_connected b" "ssl_base s0 = b" "m_ctx s0 = m_ctx s"
    "SSLSocket_accept sys api s w = map_option (\<lambda>(v, s1, w2).
       if v then (Some s1, w2) else (None, snd (snd (SSLSocket_close (so_sys sys) s1 w2)))) (handshake api (SSL_accept api) s0 (init_sock sys x w1))"
proof -
  let ?new = "(SSLSocket_new (m_family (ssl_base s)) (m_type (ssl_base s)) (m_protocol (ssl_base s)))\<lparr>m_ctx := m_ctx s\<rparr> :: ('c, 'l) SSLSocket"
  let ?x = "ssl_base ?new\<lparr>m_sock := fd, m_is_connected := True\<rparr>"
  obtain b where i: "Socket_init sys fd (ssl_base ?new) w1 = Some (True, b, init_sock sys ?x w1)" "m_sock b = fd" "m_is_connected b"
    using assms(3-5) by (auto simp: Socket_init_def Let_def)
  have "SSLSocket_accept sys api s w = map_option (\<lambda>(v, s1, w2).
       if v then (Some s1, w2) else (None, snd (snd (SSLSocket_close (so_sys sys) s1 w2))))
       (handshake api (SSL_accept api) (?new\<lparr>ssl_base := b\<rparr>) (init_sock sys ?x w1))"
    using assms(1,2) i(1) by (auto simp: SSLSocket_accept_def SSLSocket_init_def Let_def split: option.splits bool.splits)
  then show thesis using i(2,3) by (intro that [of b "?new\<lparr>ssl_base := b\<rparr>" ?x]) simp_all
qed

text \<open>Sessions do not open or close descriptors.\<close>

locale ssl_descriptors = descriptors sys opened
  for sys :: "'k os_world socket_sys" and opened :: "'k os_world \<Rightarrow> int set" +
  fixes api :: "('k os_world, 'c, 'l) ssl_api"
  assumes new_keeps: "opened (snd (SSL_new api c w)) = opened w"
    and set_fd_keeps: "opened (SSL_set_fd api l fd w) = opened w"
    and accept_keeps: "opened (snd (SSL_accept api l w)) = opened w"
begin

lemma opened_handshake:
  "handshake api (SSL_accept api) s w = Some (v, s1, w1) \<Longrightarrow>
     opened w1 = opened w \<and> ssl_base s1 = ssl_base s \<and> m_ctx s1 = m_ctx s \<and> m_ssl s1 \<noteq> None"
  using new_keeps [of "m_ctx s" w] accept_keeps set_fd_keeps
  by (auto simp: handshake_def split: prod.splits option.splits) (metis snd_conv)+

lemma accepted:
  assumes "so_accept sys (m_sock (ssl_base s)) w = (fd, w1)" "fd \<noteq> -1"
    "get_fd fd False (w_fds w1) (w_kernel w1) = Some (Some e, ds, k)" "m_is_socket e" "\<not> m_is_closed e"
  shows "case SSLSocket_accept sys api s w of
      None \<Rightarrow> \<exists>w. fst (SSL_new api (m_ctx s) w) = None
    | Some (None, w2) \<Rightarrow> opened w2 = opened w
    | Some (Some s1, w2) \<Rightarrow> m_sock (ssl_base s1) = fd \<and> m_is_connected (ssl_base s1) \<and> m_ctx s1 = m_ctx s \<and> m_ssl s1 \<noteq> None \<and>
        fd \<notin> opened w \<and> opened w2 = insert fd (opened w)"
proof -
  have f: "0 \<le> fd" "fd \<notin> opened w" "opened w1 = insert fd (opened w)" using accept_opens [OF assms(1)] assms(2) by auto
  obtain b x s0 where b: "m_sock b = fd" "m_is_connected b" "ssl_base s0 = b" "m_ctx s0 = m_ctx s"
    and a: "SSLSocket_accept sys api s w = map_option (\<lambda>(v, s1, w2).
       if v then (Some s1, w2) else (None, snd (snd (SSLSocket_close (so_sys sys) s1 w2)))) (handshake api (SSL_accept api) s0 (init_sock sys x w1))"
    by (rule accept_handshake [OF assms])
  show ?thesis
  proof (cases "handshake api (SSL_accept api) s0 (init_sock sys x w1)")
    case None
    then have "fst (SSL_new api (m_ctx s) (init_sock sys x w1)) = None" by (auto simp: handshake_def b(4) split: prod.splits option.splits)
    then show ?thesis using a None by auto
  next
    case (Some r)
    obtain v s1 w2 where r: "r = (v, s1, w2)" by (metis prod_cases3)
    note o = opened_handshake [OF Some [unfolded r]]
    show ?thesis using a Some r o b f close_closes [of fd w2]
      by (cases v) (auto simp: opened_init_sock SSLSocket_close_def Socket_close_def Let_def)
  qed
qed

end

section \<open>Examples\<close>

text \<open>Sessions named by their descriptors, on the connection of \<open>net_sys\<close> without encryption.\<close>

definition plain_api :: "(int \<Rightarrow> nat \<Rightarrow> 'w \<Rightarrow> (int \<times> byte list) \<times> 'w) \<Rightarrow> (int \<Rightarrow> byte list \<Rightarrow> 'w \<Rightarrow> int \<times> 'w) \<Rightarrow> ('w, unit, int) ssl_api" where
  "plain_api rd wr =
     \<lparr>SSL_CTX_new = \<lambda>m w. (Some (), w), SSL_new = \<lambda>c w. (map_option (\<lambda>_. 0) c, w), SSL_set_fd = \<lambda>l fd w. w,
      SSL_accept = \<lambda>l w. (1, w), SSL_connect = \<lambda>l w. (1, w),
      SSL_write = \<lambda>l bs n. wr l (take (nat n) bs), SSL_read = \<lambda>l n. rd l (nat n),
      use_certificate_chain_file = \<lambda>c f w. (1, w), use_PrivateKey_file = \<lambda>c f w. (1, w), check_private_key = \<lambda>c w. 1\<rparr>"

lemma plain_api_sel [simp]:
  "SSL_write (plain_api rd wr) l bs n = wr l (take (nat n) bs)" "SSL_read (plain_api rd wr) l n = rd l (nat n)"
  "SSL_new (plain_api rd wr) c w = (map_option (\<lambda>_. 0) c, w)" "SSL_set_fd (plain_api rd wr) l fd w = w" "SSL_accept (plain_api rd wr) l w = (1, w)"
  by (simp_all add: plain_api_def)

definition net_api :: "(net, unit, int) ssl_api" where
  "net_api = plain_api (\<lambda>fd n k. if n = 0 then ((0, []), k) else net_recv fd n k) net_send"

interpretation nt: tls net_api "\<lambda>l k. concat (inbox k)" "\<lambda>l k. outbox k" "\<lambda>l k. 0 < window k"
proof
  fix n :: nat and l :: int and w :: net and bs :: "byte list"
  show "\<exists>bs w'. SSL_read net_api l (int n) w = ((int (length bs), bs), w') \<and> bs \<noteq> [] \<and> length bs \<le> n \<and> concat (inbox w) = bs @ concat (inbox w')"
    if "0 < n" "n < 2 ^ 31" "concat (inbox w) \<noteq> []"
    using net.recv_delivers [OF that(1,3), of l] that by (simp add: net_api_def net_sys_def)
  show "\<exists>n w'. SSL_write net_api l bs (int (length bs)) w = (int n, w') \<and> 0 < n \<and> n \<le> length bs \<and>
      outbox w' = outbox w @ take n bs \<and> 0 < window w'"
    if "0 < window w" "bs \<noteq> []" "length bs < 2 ^ 31"
    using net.send_accepts [OF that(1,2), of l] by (simp add: net_api_def net_sys_def)
next
  fix k l :: int and w :: net
  assume "concat (inbox w) = []"
  then show "\<exists>r w'. SSL_read net_api l k w = ((r, []), w') \<and> - (2 ^ 31) \<le> r \<and> r \<le> 0 \<and> concat (inbox w') = []"
    using net.recv_ends [of "nat k" w l] by (cases "nat k = 0") (fastforce simp: net_api_def net_sys_def)+
next
  fix k l :: int and w :: net and r w'
  show "outbox w' = outbox w \<and> (0 < window w \<longrightarrow> 0 < window w')" if "SSL_read net_api l k w = (r, w')"
    using that net.recv_keeps [of l "nat k" w r w'] by (auto simp: net_api_def net_sys_def split: if_splits)
next
  fix k l :: int and w :: net and bs m w'
  show "concat (inbox w') = concat (inbox w)" if "SSL_write net_api l bs k w = (m, w')"
    using that net.send_keeps [of l "take (nat k) bs" w m w'] by (simp add: net_api_def net_sys_def)
qed

definition kn_api :: "(knet os_world, unit, int) ssl_api" where
  "kn_api = plain_api (\<lambda>fd n w. ((0, []), w)) (\<lambda>fd bs w. (int (length bs), w))"

interpretation kt: ssl_descriptors kn_sys kn_opened kn_api
  by unfold_locales (simp_all add: kn_api_def)

text \<open>A world in which the next connection gets a descriptor with an entity.\<close>

definition ssl_world :: "knet os_world" where
  "ssl_world = fresh_world\<lparr>w_fds := (w_fds fresh_world)[3 := Some (fst (FDEntity_new 3 (w_kernel fresh_world)))]\<rparr>"

section \<open>Theorems\<close>



text \<open>
  What \<^verbatim>\<open>accept\<close> of an SSL socket does with a descriptor whose entity is that of an open socket:
  after the handshake it is owned by the connected socket that is returned, which shares the
  context; when the handshake fails it is closed again. Without certificates there is no context,
  and a null session is handed to OpenSSL.
\<close>

theorem ssl_accept_outcome:
  fixes s :: "('c, 'l) SSLSocket"
  assumes "ssl_descriptors sys opened api" "so_accept sys (m_sock (ssl_base s)) w = (fd, w1)" "fd \<noteq> -1"
    "get_fd fd False (w_fds w1) (w_kernel w1) = Some (Some e, ds, k)" "m_is_socket e" "\<not> m_is_closed e"
    "\<And>w. fst (SSL_new api None w) = None"
  shows "(case SSLSocket_accept sys api s w of
      None \<Rightarrow> \<exists>w. fst (SSL_new api (m_ctx s) w) = None
    | Some (None, w2) \<Rightarrow> opened w2 = opened w
    | Some (Some s1, w2) \<Rightarrow> m_sock (ssl_base s1) = fd \<and> m_is_connected (ssl_base s1) \<and> m_ctx s1 = m_ctx s \<and> m_ssl s1 \<noteq> None \<and>
        fd \<notin> opened w \<and> opened w2 = insert fd (opened w)) \<and>
    (m_ctx s = None \<longrightarrow> SSLSocket_accept sys api s w = None)"
proof (intro conjI impI)
  assume c: "m_ctx s = None"
  show "SSLSocket_accept sys api s w = None"
  proof (rule accept_handshake [OF assms(2-6), where api = api])
    fix x and s0 :: "('c, 'l) SSLSocket"
    assume "m_ctx s0 = m_ctx s"
    then have "handshake api (SSL_accept api) s0 (init_sock sys x w1) = None"
      using c assms(7) [of "init_sock sys x w1"] by (auto simp: handshake_def split: prod.splits option.splits)
    moreover assume "SSLSocket_accept sys api s w = map_option (\<lambda>(v, s1, w2).
       if v then (Some s1, w2) else (None, snd (snd (SSLSocket_close (so_sys sys) s1 w2)))) (handshake api (SSL_accept api) s0 (init_sock sys x w1))"
    ultimately show ?thesis by simp
  qed
qed (rule ssl_descriptors.accepted [OF assms(1-6)])

theorem ssl_accept_outcome_witness:
  "SSLSocket_accept kn_sys kn_api \<lparr>ssl_base = (Socket_new 2 1 0)\<lparr>m_sock := 2\<rparr>, m_ctx = None, m_ssl = None\<rparr> ssl_world = None"
proof -
  let ?w = "ssl_world\<lparr>w_net := \<lparr>kn_open = [3, 0, 1, 2], kn_limit = 1024, kn_waiting = 0\<rparr>\<rparr>"
  let ?s = "\<lparr>ssl_base = (Socket_new 2 1 0)\<lparr>m_sock := 2\<rparr>, m_ctx = None, m_ssl = None\<rparr> :: (unit, int) SSLSocket"
  have a: "so_accept kn_sys (m_sock (ssl_base ?s)) ssl_world = (3, ?w)"
    by (simp add: kn_sys_def ssl_world_def fresh_world_def open_fd_def free_fd_def Let_def upt_rec)
  have "get_fd 3 False (w_fds ?w) (w_kernel ?w) = Some (Some (fst (FDEntity_new 3 (w_kernel fresh_world))), w_fds ?w, w_kernel ?w)"
    by (simp add: get_fd_def ssl_world_def fresh_world_def)
  then show ?thesis using ssl_accept_outcome [OF kt.ssl_descriptors_axioms a]
    by (simp add: kn_api_def fresh_world_def FDEntity_new_def FDEntity_init_def fcntl_set_def)
qed

text \<open>
  Receiving into a vector of buffers writes past a buffer that is smaller than the first one: every
  read is given the size of the first. When as many bytes arrive, the second buffer of
  size \<open>m\<close> is given \<open>n > m\<close> of them, and the total says so.
\<close>

theorem ssl_recv_iov_overflows:
  assumes "m_ssl s = Some l" "n < 2 ^ 31" "m < n" "SSL_read api l (int n) w = ((int n, bs), w1)"
    "SSL_read api l (int n) w1 = ((int n, cs), w2)" "length cs = n" "0 < n"
  shows "SSLSocket_recv_iov api s (n # m # ns) w = ((int (2 * n), [bs, cs]), w2) \<and> m < length cs"
  using assms by (simp add: SSLSocket_recv_iov_def to_int_id)

theorem ssl_recv_iov_overflows_witness:
  "\<exists>w. SSLSocket_recv_iov net_api \<lparr>ssl_base = Socket_new 2 1 0, m_ctx = Some (), m_ssl = Some 5\<rparr> [3, 1]
      \<lparr>inbox = [[1, 2, 3, 4, 5, 6]], outbox = [], window = 2\<rparr> = ((6, [[1, 2, 3], [4, 5, 6]]), w)"
proof -
  have r: "SSL_read net_api 5 (int 3) \<lparr>inbox = [[1, 2, 3, 4, 5, 6]], outbox = [], window = 2\<rparr> =
      ((int 3, [1, 2, 3]), \<lparr>inbox = [[4, 5, 6]], outbox = [], window = 2\<rparr>)"
    "SSL_read net_api 5 (int 3) \<lparr>inbox = [[4, 5, 6]], outbox = [], window = 2\<rparr> =
      ((int 3, [4, 5, 6]), \<lparr>inbox = [[]], outbox = [], window = 2\<rparr>)"
    by (simp_all add: net_api_def net_recv_def)
  show ?thesis using ssl_recv_iov_overflows [OF _ _ _ r, of "\<lparr>ssl_base = Socket_new 2 1 0, m_ctx = Some (), m_ssl = Some 5\<rparr>" 1 "[]"]
    by simp
qed

end
