(* ===== verification/TcpServer.thy ===== *)
theory TcpServer
  imports SslSocket Iomanager
begin

text \<open>
  The TCP server of \<^verbatim>\<open>src/servers/tcp_server.cc\<close> and the cancelling functions of sockets, which go to the
  I/O manager. Sockets are shared objects: \<open>tw_objects\<close> holds those that were created, by number, and the
  server, the queued tasks and the running accept loops hold numbers; an object that nobody holds any
  more is closed by its destructor. The functions handed to the workers are in \<open>tw_accept\<close> and \<open>tw_io\<close>
  in the order of the calls; what the schedulers do with them is the theory \<open>Scheduler\<close>. The value
  \<open>None\<close> of an operation is an access out of bounds, a null pointer or a failed assertion.
\<close>

section \<open>Sockets of both kinds\<close>

datatype ('c, 'l) sock = PlainSocket Socket | SecureSocket "('c, 'l) SSLSocket"

fun sock_base :: "('c, 'l) sock \<Rightarrow> Socket" where
  "sock_base (PlainSocket s) = s"
| "sock_base (SecureSocket s) = ssl_base s"

fun sock_bind :: "'w socket_sys \<Rightarrow> sock_address \<Rightarrow> ('c, 'l) sock \<Rightarrow> 'w \<Rightarrow> bool \<times> ('c, 'l) sock \<times> 'w" where
  "sock_bind sys addr (PlainSocket s) w = (case Socket_bind sys addr s w of (v, s1, w1) \<Rightarrow> (v, PlainSocket s1, w1))"
| "sock_bind sys addr (SecureSocket s) w = (case SSLSocket_bind sys addr s w of (v, s1, w1) \<Rightarrow> (v, SecureSocket s1, w1))"

fun sock_listen :: "'w socket_sys \<Rightarrow> int \<Rightarrow> ('c, 'l) sock \<Rightarrow> 'w \<Rightarrow> bool \<times> 'w" where
  "sock_listen sys backlog (PlainSocket s) w = Socket_listen sys backlog s w"
| "sock_listen sys backlog (SecureSocket s) w = SSLSocket_listen sys backlog s w"

fun sock_close :: "'w sys \<Rightarrow> ('c, 'l) sock \<Rightarrow> 'w \<Rightarrow> ('c, 'l) sock \<times> 'w" where
  "sock_close sys (PlainSocket s) w = (case Socket_close sys s w of (v, s1, w1) \<Rightarrow> (PlainSocket s1, w1))"
| "sock_close sys (SecureSocket s) w = (case SSLSocket_close sys s w of (v, s1, w1) \<Rightarrow> (SecureSocket s1, w1))"

fun sock_accept ::
    "'k os_world socket_sys \<Rightarrow> ('k os_world, 'c, 'l) ssl_api \<Rightarrow> ('c, 'l) sock \<Rightarrow> 'k os_world \<Rightarrow> (('c, 'l) sock option \<times> 'k os_world) option" where
  "sock_accept sys api (PlainSocket s) w = map_option (map_prod (map_option PlainSocket) id) (Socket_accept sys s w)"
| "sock_accept sys api (SecureSocket s) w = map_option (map_prod (map_option SecureSocket) id) (SSLSocket_accept sys api s w)"

section \<open>Cancelling\<close>

text \<open>The context at -1 is out of bounds.\<close>

definition Socket_cancel :: "'e ctl \<Rightarrow> nat \<Rightarrow> nat \<Rightarrow> u32 \<Rightarrow> Socket \<Rightarrow> 'e IOManager option \<Rightarrow> (bool \<times> 'e IOManager) option" where
  "Socket_cancel ctl d cur st s io =
     (case io of None \<Rightarrow> None | Some m \<Rightarrow> if m_sock s < 0 then None else cancel_event ctl d cur (nat (m_sock s)) st m)"

definition cancel_read :: "'e ctl \<Rightarrow> nat \<Rightarrow> nat \<Rightarrow> Socket \<Rightarrow> 'e IOManager option \<Rightarrow> (bool \<times> 'e IOManager) option" where
  "cancel_read ctl d cur = Socket_cancel ctl d cur READ"

definition cancel_write :: "'e ctl \<Rightarrow> nat \<Rightarrow> nat \<Rightarrow> Socket \<Rightarrow> 'e IOManager option \<Rightarrow> (bool \<times> 'e IOManager) option" where
  "cancel_write ctl d cur = Socket_cancel ctl d cur WRITE"

definition cancel_accept :: "'e ctl \<Rightarrow> nat \<Rightarrow> nat \<Rightarrow> Socket \<Rightarrow> 'e IOManager option \<Rightarrow> (bool \<times> 'e IOManager) option" where
  "cancel_accept ctl d cur = Socket_cancel ctl d cur READ"

definition cancel_all :: "'e ctl \<Rightarrow> nat \<Rightarrow> nat \<Rightarrow> Socket \<Rightarrow> 'e IOManager option \<Rightarrow> (bool \<times> 'e IOManager) option" where
  "cancel_all ctl d cur s io =
     (case io of None \<Rightarrow> None | Some m \<Rightarrow> if m_sock s < 0 then None else cancel_all_event ctl d cur (nat (m_sock s)) m)"

section \<open>State\<close>

record TCPServer =
  m_sockets :: "nat list"
  m_accept_timeout :: int
  ts_recv_timeout :: int
  ts_name :: string
  m_is_stop :: bool

datatype accept_task = StartAccept nat | CloseSockets

record ('k, 'c, 'l, 'e) tcp_world =
  tw_server :: TCPServer
  tw_objects :: "('c, 'l) sock list"
  tw_os :: "'k os_world"
  tw_iom :: "'e IOManager option"
  tw_accept :: "accept_task list"
  tw_running :: "nat list"
  tw_io :: "('c, 'l) sock list"

text \<open>What the server uses of the system, of OpenSSL, of epoll, and the thread it runs on.\<close>

record ('k, 'c, 'l, 'e) tcp_env =
  te_sys :: "'k os_world socket_sys"
  te_api :: "('k os_world, 'c, 'l) ssl_api"
  te_ctl :: "'e ctl"
  te_stack :: nat
  te_cur :: nat

definition TCPServer_new :: "int \<Rightarrow> int \<Rightarrow> string \<Rightarrow> TCPServer" where
  "TCPServer_new g_accept_timeout g_recv_timeout name =
     \<lparr>m_sockets = [], m_accept_timeout = g_accept_timeout, ts_recv_timeout = g_recv_timeout, ts_name = name, m_is_stop = True\<rparr>"

section \<open>Binding\<close>

definition SOMAXCONN :: int where "SOMAXCONN = 4096"

text \<open>Closing the object \<open>i\<close>, as the function does and as the destructor does.\<close>

definition close_object :: "('k, 'c, 'l, 'e) tcp_env \<Rightarrow> nat \<Rightarrow> ('k, 'c, 'l, 'e) tcp_world \<Rightarrow> ('k, 'c, 'l, 'e) tcp_world" where
  "close_object te i W =
     (case sock_close (so_sys (te_sys te)) (tw_objects W ! i) (tw_os W) of
        (s, w) \<Rightarrow> W\<lparr>tw_objects := (tw_objects W)[i := s], tw_os := w\<rparr>)"

definition held :: "('k, 'c, 'l, 'e) tcp_world \<Rightarrow> nat \<Rightarrow> bool" where
  "held W i \<longleftrightarrow> StartAccept i \<in> set (tw_accept W) \<or> i \<in> set (tw_running W)"

text \<open>\<^verbatim>\<open>m_sockets.clear()\<close>\<close>

definition clear_sockets :: "('k, 'c, 'l, 'e) tcp_env \<Rightarrow> ('k, 'c, 'l, 'e) tcp_world \<Rightarrow> ('k, 'c, 'l, 'e) tcp_world" where
  "clear_sockets te W =
     (let W1 = fold (\<lambda>i W. if held W i then W else close_object te i W) (m_sockets (tw_server W)) W
      in W1\<lparr>tw_server := (tw_server W1)\<lparr>m_sockets := []\<rparr>\<rparr>)"

definition bind_one :: "('k, 'c, 'l, 'e) tcp_env \<Rightarrow> bool \<Rightarrow> sock_address \<Rightarrow> ('k, 'c, 'l, 'e) tcp_world \<Rightarrow> bool \<times> ('k, 'c, 'l, 'e) tcp_world" where
  "bind_one te is_ssl addr W =
     (let socket = (if is_ssl then SecureSocket (SSL_CreateTCP addr) else PlainSocket (CreateTCP addr));
          drop = (\<lambda>s w. W\<lparr>tw_os := snd (sock_close (so_sys (te_sys te)) s w)\<rparr>)
      in case sock_bind (te_sys te) addr socket (tw_os W) of
           (v, s1, w1) \<Rightarrow>
             if \<not> v then (False, drop s1 w1)
             else (case sock_listen (te_sys te) SOMAXCONN s1 w1 of
                 (v, w2) \<Rightarrow>
                   if \<not> v then (False, drop s1 w2)
                   else (True, W\<lparr>tw_objects := tw_objects W @ [s1], tw_os := w2,
                          tw_server := (tw_server W)\<lparr>m_sockets := m_sockets (tw_server W) @ [length (tw_objects W)]\<rparr>\<rparr>)))"

fun bind_loop ::
    "('k, 'c, 'l, 'e) tcp_env \<Rightarrow> bool \<Rightarrow> sock_address list \<Rightarrow> sock_address list \<Rightarrow> ('k, 'c, 'l, 'e) tcp_world \<Rightarrow> sock_address list \<times> ('k, 'c, 'l, 'e) tcp_world" where
  "bind_loop te is_ssl [] fails W = (fails, W)"
| "bind_loop te is_ssl (addr # addrs) fails W =
     (case bind_one te is_ssl addr W of
        (v, W1) \<Rightarrow> bind_loop te is_ssl addrs (if v then fails else fails @ [addr]) W1)"

definition TCPServer_bind ::
    "('k, 'c, 'l, 'e) tcp_env \<Rightarrow> bool \<Rightarrow> sock_address list \<Rightarrow> sock_address list \<Rightarrow> ('k, 'c, 'l, 'e) tcp_world \<Rightarrow>
     bool \<times> sock_address list \<times> ('k, 'c, 'l, 'e) tcp_world" where
  "TCPServer_bind te is_ssl addrs fails W =
     (case bind_loop te is_ssl addrs fails W of
        (fails1, W1) \<Rightarrow> if fails1 \<noteq> [] then (False, fails1, clear_sockets te W1) else (True, fails1, W1))"

definition TCPServer_bind_addr :: "('k, 'c, 'l, 'e) tcp_env \<Rightarrow> bool \<Rightarrow> sock_address \<Rightarrow> ('k, 'c, 'l, 'e) tcp_world \<Rightarrow> bool \<times> ('k, 'c, 'l, 'e) tcp_world" where
  "TCPServer_bind_addr te is_ssl addr W = (case TCPServer_bind te is_ssl [addr] [] W of (v, _, W1) \<Rightarrow> (v, W1))"

text \<open>The destructor closes the sockets before it drops them.\<close>

definition TCPServer_delete :: "('k, 'c, 'l, 'e) tcp_env \<Rightarrow> ('k, 'c, 'l, 'e) tcp_world \<Rightarrow> ('k, 'c, 'l, 'e) tcp_world" where
  "TCPServer_delete te W = clear_sockets te (fold (close_object te) (m_sockets (tw_server W)) W)"

definition TCPServer_load_certificates ::
    "('k, 'c, 'l, 'e) tcp_env \<Rightarrow> string \<Rightarrow> string \<Rightarrow> ('k, 'c, 'l, 'e) tcp_world \<Rightarrow> (bool \<times> ('k, 'c, 'l, 'e) tcp_world) option" where
  "TCPServer_load_certificates te cert_file key_file W =
     fold (\<lambda>i r. case r of
         None \<Rightarrow> None
       | Some (rst, W) \<Rightarrow>
           (case tw_objects W ! i of
              PlainSocket s \<Rightarrow> Some (rst, W)
            | SecureSocket s \<Rightarrow>
                (case load_certificates (te_api te) cert_file key_file s (tw_os W) of
                   None \<Rightarrow> None
                 | Some (v, s1, w) \<Rightarrow> Some (if v then rst else False, W\<lparr>tw_objects := (tw_objects W)[i := SecureSocket s1], tw_os := w\<rparr>))))
       (m_sockets (tw_server W)) (Some (True, W))"

section \<open>Running\<close>

definition TCPServer_start :: "('k, 'c, 'l, 'e) tcp_world \<Rightarrow> bool \<times> ('k, 'c, 'l, 'e) tcp_world" where
  "TCPServer_start W =
     (if \<not> m_is_stop (tw_server W) then (True, W)
      else (True, W\<lparr>tw_server := (tw_server W)\<lparr>m_is_stop := False\<rparr>,
                    tw_accept := tw_accept W @ map StartAccept (m_sockets (tw_server W))\<rparr>))"

definition TCPServer_stop :: "('k, 'c, 'l, 'e) tcp_world \<Rightarrow> ('k, 'c, 'l, 'e) tcp_world" where
  "TCPServer_stop W = W\<lparr>tw_server := (tw_server W)\<lparr>m_is_stop := True\<rparr>, tw_accept := tw_accept W @ [CloseSockets]\<rparr>"

text \<open>The function that \<open>stop\<close> hands to the worker.\<close>

definition close_one :: "('k, 'c, 'l, 'e) tcp_env \<Rightarrow> nat \<Rightarrow> ('k, 'c, 'l, 'e) tcp_world \<Rightarrow> ('k, 'c, 'l, 'e) tcp_world option" where
  "close_one te i W =
     (case cancel_all (te_ctl te) (te_stack te) (te_cur te) (sock_base (tw_objects W ! i)) (tw_iom W) of
        None \<Rightarrow> None
      | Some (b, m) \<Rightarrow> Some (close_object te i (W\<lparr>tw_iom := Some m\<rparr>)))"

definition close_sockets :: "('k, 'c, 'l, 'e) tcp_env \<Rightarrow> ('k, 'c, 'l, 'e) tcp_world \<Rightarrow> ('k, 'c, 'l, 'e) tcp_world option" where
  "close_sockets te W =
     map_option (clear_sockets te) (fold (\<lambda>i r. Option.bind r (close_one te i)) (m_sockets (tw_server W)) (Some W))"

definition set_object_timeout :: "nat \<Rightarrow> int \<Rightarrow> ('k, 'c, 'l, 'e) tcp_world \<Rightarrow> ('k, 'c, 'l, 'e) tcp_world option" where
  "set_object_timeout i t W = map_option (\<lambda>w. W\<lparr>tw_os := w\<rparr>) (set_recv_timeout t (sock_base (tw_objects W ! i)) (tw_os W))"

text \<open>
  One round of the accept loop. While \<^verbatim>\<open>accept\<close> waits the rest of the program runs, the argument \<open>others\<close>;
  the descriptor was read before.
\<close>

definition accept_round ::
    "('k, 'c, 'l, 'e) tcp_env \<Rightarrow> (('k, 'c, 'l, 'e) tcp_world \<Rightarrow> ('k, 'c, 'l, 'e) tcp_world) \<Rightarrow> nat \<Rightarrow> int \<Rightarrow> ('k, 'c, 'l, 'e) tcp_world \<Rightarrow>
     ('k, 'c, 'l, 'e) tcp_world option" where
  "accept_round te others i accept_timeout W =
     (case (if accept_timeout \<noteq> m_accept_timeout (tw_server W) then set_object_timeout i (m_accept_timeout (tw_server W)) W else Some W) of
        None \<Rightarrow> None
      | Some W1 \<Rightarrow>
          let s = tw_objects W1 ! i; W2 = others W1 in
          (case sock_accept (te_sys te) (te_api te) s (tw_os W2) of
             None \<Rightarrow> None
           | Some (None, w) \<Rightarrow> Some (W2\<lparr>tw_os := w\<rparr>)
           | Some (Some client, w) \<Rightarrow>
               (case set_recv_timeout (m_accept_timeout (tw_server W2)) (sock_base client) w of
                  None \<Rightarrow> None
                | Some w1 \<Rightarrow> Some (W2\<lparr>tw_os := w1, tw_io := tw_io W2 @ [client]\<rparr>))))"

text \<open>The outer \<open>None\<close> is a loop that does not end.\<close>

partial_function (option) accept_loop ::
    "('k, 'c, 'l, 'e) tcp_env \<Rightarrow> (('k, 'c, 'l, 'e) tcp_world \<Rightarrow> ('k, 'c, 'l, 'e) tcp_world) \<Rightarrow> nat \<Rightarrow> int \<Rightarrow> ('k, 'c, 'l, 'e) tcp_world \<Rightarrow>
     ('k, 'c, 'l, 'e) tcp_world option option" where
  "accept_loop te others i accept_timeout W =
     (if m_is_stop (tw_server W) then Some (Some W)
      else (case accept_round te others i accept_timeout W of
          None \<Rightarrow> Some None
        | Some W1 \<Rightarrow> accept_loop te others i accept_timeout W1))"

definition start_accept ::
    "('k, 'c, 'l, 'e) tcp_env \<Rightarrow> (('k, 'c, 'l, 'e) tcp_world \<Rightarrow> ('k, 'c, 'l, 'e) tcp_world) \<Rightarrow> nat \<Rightarrow> ('k, 'c, 'l, 'e) tcp_world \<Rightarrow>
     ('k, 'c, 'l, 'e) tcp_world option option" where
  "start_accept te others i W =
     (let accept_timeout = m_accept_timeout (tw_server W) in
      case set_object_timeout i accept_timeout W of
        None \<Rightarrow> Some None
      | Some W1 \<Rightarrow> accept_loop te others i accept_timeout W1)"

section \<open>Lemmas\<close>

lemma sock_bind_base:
  "sock_bind sys addr s w = (v, s1, w1) \<Longrightarrow> Socket_bind sys addr (sock_base s) w = (v, sock_base s1, w1)"
  by (cases s) (auto simp: SSLSocket_bind_def split: prod.splits)

lemma sock_listen_base [simp]: "sock_listen sys n s w = Socket_listen sys n (sock_base s) w"
  by (cases s) (auto simp: SSLSocket_listen_def)

lemma sock_close_base:
  "sock_close sys s w = (s1, w1) \<Longrightarrow> snd (Socket_close sys (sock_base s) w) = (sock_base s1, w1)"
  by (cases s) (auto simp: SSLSocket_close_def split: prod.splits)

lemma close_invalid: "m_sock (fst (snd (Socket_close sys s w))) = -1"
  by (auto simp: Socket_close_def Let_def)

lemma bind_valid: "Socket_bind sys addr s w = (True, s1, w1) \<Longrightarrow> is_valid s1"
  by (auto simp: Socket_bind_def is_valid_def split: prod.splits if_splits)

text \<open>The descriptor of an object, and the books of the server: its sockets own all descriptors but those of \<open>base\<close>.\<close>

definition object_fd :: "('k, 'c, 'l, 'e) tcp_world \<Rightarrow> nat \<Rightarrow> int" where
  "object_fd W i = m_sock (sock_base (tw_objects W ! i))"

definition server_owns :: "('k os_world \<Rightarrow> int set) \<Rightarrow> int set \<Rightarrow> ('k, 'c, 'l, 'e) tcp_world \<Rightarrow> bool" where
  "server_owns opened base W \<longleftrightarrow>
     (\<forall>i \<in> set (m_sockets (tw_server W)). i < length (tw_objects W) \<and> 0 \<le> object_fd W i \<and> object_fd W i \<notin> base) \<and>
     distinct (map (object_fd W) (m_sockets (tw_server W))) \<and>
     opened (tw_os W) = base \<union> object_fd W ` set (m_sockets (tw_server W))"

lemma close_object_frame [simp]:
  "tw_server (close_object te i W) = tw_server W" "tw_accept (close_object te i W) = tw_accept W" "tw_running (close_object te i W) = tw_running W"
  "length (tw_objects (close_object te i W)) = length (tw_objects W)" "tw_io (close_object te i W) = tw_io W" "tw_iom (close_object te i W) = tw_iom W"
  by (simp_all add: close_object_def case_prod_beta)

lemma close_object_fd:
  "i < length (tw_objects W) \<Longrightarrow> object_fd (close_object te i W) j = (if j = i then -1 else object_fd W j)"
  using sock_close_base [of "so_sys (te_sys te)" "tw_objects W ! i" "tw_os W"] close_invalid [of "so_sys (te_sys te)" "sock_base (tw_objects W ! i)" "tw_os W"]
  by (auto simp: object_fd_def close_object_def split: prod.splits)

context descriptors
begin

lemma opened_close_object:
  assumes "te_sys te = sys" "0 \<le> object_fd W i"
  shows "opened (tw_os (close_object te i W)) = opened (tw_os W) - {object_fd W i}"
proof -
  obtain s w where c: "sock_close (so_sys sys) (tw_objects W ! i) (tw_os W) = (s, w)" by fastforce
  have "opened w = opened (tw_os W) - {object_fd W i}"
    using sock_close_base [OF c] assms(2) by (auto simp: Socket_close_def Let_def object_fd_def close_closes split: if_splits)
  then show ?thesis using assms(1) c by (simp add: close_object_def)
qed

lemma bind_one_owns:
  fixes W :: "('k, 'c, 'l, 'e) tcp_world"
  assumes "te_sys te = sys" "server_owns opened base W" "bind_one te is_ssl addr W = (v, W1)"
  shows "server_owns opened base W1" "held W1 = held W"
    "m_sockets (tw_server W1) = m_sockets (tw_server W) @ (if v then [length (tw_objects W)] else [])"
proof -
  define s where "s = (if is_ssl then SecureSocket (SSL_CreateTCP addr) else PlainSocket (CreateTCP addr) :: ('c, 'l) sock)"
  obtain v1 s1 w1 where b: "sock_bind sys addr s (tw_os W) = (v1, s1, w1)" by (metis prod_cases3)
  obtain v2 w2 where l: "sock_listen sys SOMAXCONN s1 w1 = (v2, w2)" by fastforce
  have "owns opened (opened (tw_os W)) (sock_base s, tw_os W)"
    by (simp add: s_def SSL_CreateTCP_def CreateTCP_def SSLSocket_new_def owns_new)
  then have o1: "owns opened (opened (tw_os W)) (sock_base s1, w1)" using owns_bind [of _ _ _ addr] sock_bind_base [OF b] by (metis snd_conv)
  then have o2: "owns opened (opened (tw_os W)) (sock_base s1, w2)" using owns_listen [OF o1, of SOMAXCONN] l by simp
  have cl: "opened (snd (sock_close (so_sys sys) s1 w)) = opened (tw_os W)" if "owns opened (opened (tw_os W)) (sock_base s1, w)" for w
    using owns_close [OF that] sock_close_base [of "so_sys sys" s1 w] close_invalid [of "so_sys sys" "sock_base s1" w]
    by (cases "sock_close (so_sys sys) s1 w") (auto simp: owns_def is_valid_def)
  have v: "v = (v1 \<and> v2)" and W1: "W1 = (if v then W\<lparr>tw_objects := tw_objects W @ [s1], tw_os := w2,
       tw_server := (tw_server W)\<lparr>m_sockets := m_sockets (tw_server W) @ [length (tw_objects W)]\<rparr>\<rparr>
     else W\<lparr>tw_os := snd (sock_close (so_sys sys) s1 (if v1 then w2 else w1))\<rparr>)"
    using assms(1,3) b l by (auto simp: bind_one_def Let_def s_def split: if_splits)
  show "held W1 = held W" by (simp add: W1 held_def fun_eq_iff)
  show "m_sockets (tw_server W1) = m_sockets (tw_server W) @ (if v then [length (tw_objects W)] else [])" by (simp add: W1)
  show "server_owns opened base W1"
  proof (cases v)
    case True
    then have "is_valid (sock_base s1)" using v bind_valid [of sys addr "sock_base s" "tw_os W"] sock_bind_base [OF b] by simp
    then have f: "0 \<le> m_sock (sock_base s1)" "m_sock (sock_base s1) \<notin> opened (tw_os W)" "opened w2 = insert (m_sock (sock_base s1)) (opened (tw_os W))"
      using o2 by (auto simp: owns_def)
    have e: "object_fd W1 i = (if i = length (tw_objects W) then m_sock (sock_base s1) else object_fd W i)" if "i \<le> length (tw_objects W)" for i
      using that True by (auto simp: W1 object_fd_def nth_append)
    have g: "\<forall>i \<in> set (m_sockets (tw_server W)). object_fd W1 i = object_fd W i" using assms(2) by (auto simp: server_owns_def e)
    then have m: "map (object_fd W1) (m_sockets (tw_server W)) = map (object_fd W) (m_sockets (tw_server W))"
      "object_fd W1 ` set (m_sockets (tw_server W)) = object_fd W ` set (m_sockets (tw_server W))" by auto
    have w: "m_sockets (tw_server W1) = m_sockets (tw_server W) @ [length (tw_objects W)]" "length (tw_objects W1) = Suc (length (tw_objects W))"
      "tw_os W1 = w2" using True by (simp_all add: W1)
    show ?thesis using assms(2) f e [of "length (tw_objects W)"] g
      unfolding server_owns_def w map_append set_append image_Un distinct_append m by auto
  next
    case False
    have "object_fd (W\<lparr>tw_os := w\<rparr>) = object_fd W" for w by (simp add: object_fd_def fun_eq_iff)
    then show ?thesis using False assms(2) cl [OF o1] cl [OF o2] by (simp add: server_owns_def W1)
  qed
qed

lemma bind_loop_owns:
  assumes "te_sys te = sys"
  shows "server_owns opened base W \<Longrightarrow> bind_loop te is_ssl addrs fails W = (fails1, W1) \<Longrightarrow>
    server_owns opened base W1 \<and> held W1 = held W \<and>
    (\<exists>bad new. fails1 = fails @ bad \<and> set bad \<subseteq> set addrs \<and> m_sockets (tw_server W1) = m_sockets (tw_server W) @ new \<and>
       length bad + length new = length addrs)"
proof (induction addrs arbitrary: fails W)
  case (Cons addr addrs)
  obtain v W2 where b: "bind_one te is_ssl addr W = (v, W2)" by fastforce
  note o = bind_one_owns [OF assms Cons.prems(1) b]
  from Cons.IH [OF o(1), of "if v then fails else fails @ [addr]"] Cons.prems(2) b
  obtain bad new where "server_owns opened base W1" "held W1 = held W2" "fails1 = (if v then fails else fails @ [addr]) @ bad" "set bad \<subseteq> set addrs"
     "m_sockets (tw_server W1) = m_sockets (tw_server W2) @ new" "length bad + length new = length addrs" by auto
  then show ?case using o(2,3)
    by (intro conjI exI [of _ "(if v then [] else [addr]) @ bad"] exI [of _ "(if v then [length (tw_objects W)] else []) @ new"]) auto
qed simp

text \<open>Closing what nobody holds.\<close>

lemma close_all_owns:
  assumes "te_sys te = sys" "\<forall>i. \<not> held W i"
  shows "distinct (map (object_fd W) is) \<Longrightarrow> \<forall>i \<in> set is. i < length (tw_objects W) \<and> 0 \<le> object_fd W i \<Longrightarrow>
    opened (tw_os (fold (\<lambda>i W. if held W i then W else close_object te i W) is W)) = opened (tw_os W) - object_fd W ` set is"
  using assms(2)
proof (induction "is" arbitrary: W)
  case (Cons i "is")
  let ?W = "close_object te i W"
  have h: "\<forall>i. \<not> held ?W i" using Cons.prems(3) by (simp add: held_def)
  have f: "object_fd ?W j = object_fd W j" if "j \<in> set is" for j
    using that Cons.prems(1,2) by (auto simp: close_object_fd)
  then have "distinct (map (object_fd ?W) is)" using Cons.prems(1) by (simp cong: map_cong)
  from Cons.IH [OF this _ h] have "opened (tw_os (fold (\<lambda>i W. if held W i then W else close_object te i W) is ?W)) = opened (tw_os ?W) - object_fd ?W ` set is"
    using Cons.prems(2) f by simp
  moreover have "object_fd ?W ` set is = object_fd W ` set is" using f by (auto simp: image_iff)
  ultimately show ?case using Cons.prems(2,3) opened_close_object [OF assms(1), of W i] by auto
qed simp

lemma clear_owns:
  assumes "te_sys te = sys" "server_owns opened base W" "\<forall>i. \<not> held W i"
  shows "server_owns opened base (clear_sockets te W)" "m_sockets (tw_server (clear_sockets te W)) = []"
    "opened (tw_os (clear_sockets te W)) = base"
proof -
  have "opened (tw_os (fold (\<lambda>i W. if held W i then W else close_object te i W) (m_sockets (tw_server W)) W)) =
      opened (tw_os W) - object_fd W ` set (m_sockets (tw_server W))"
    by (rule close_all_owns [OF assms(1,3)]) (use assms(2) in \<open>simp_all add: server_owns_def\<close>)
  also have "\<dots> = base" using assms(2) by (auto simp: server_owns_def)
  finally show "opened (tw_os (clear_sockets te W)) = base" by (simp add: clear_sockets_def Let_def)
  then show "server_owns opened base (clear_sockets te W)" by (simp add: server_owns_def clear_sockets_def Let_def)
  show "m_sockets (tw_server (clear_sockets te W)) = []" by (simp add: clear_sockets_def Let_def)
qed

end

text \<open>The task of \<open>stop\<close> leaves the sockets without descriptors.\<close>

lemma close_one_effect:
  "close_one te i W = Some W1 \<Longrightarrow> i < length (tw_objects W) \<Longrightarrow>
     tw_server W1 = tw_server W \<and> tw_accept W1 = tw_accept W \<and> length (tw_objects W1) = length (tw_objects W) \<and>
     (\<forall>j. object_fd W1 j = (if j = i then -1 else object_fd W j))"
proof -
  assume "close_one te i W = Some W1" "i < length (tw_objects W)"
  moreover have "object_fd (W\<lparr>tw_iom := m\<rparr>) j = object_fd W j" for m j by (simp add: object_fd_def)
  ultimately show ?thesis by (auto simp: close_one_def close_object_fd split: option.splits)
qed

lemma close_fold:
  "fold (\<lambda>i r. Option.bind r (close_one te i)) is (Some W) = Some W1 \<Longrightarrow> \<forall>j \<in> set is. j < length (tw_objects W) \<Longrightarrow>
     tw_server W1 = tw_server W \<and> tw_accept W1 = tw_accept W \<and> length (tw_objects W1) = length (tw_objects W) \<and>
     (\<forall>j. object_fd W1 j = (if j \<in> set is then -1 else object_fd W j))"
proof (induction "is" arbitrary: W)
  case (Cons i "is")
  have n: "fold (\<lambda>i r. Option.bind r (close_one te i)) is None = None" by (induction "is") simp_all
  obtain W2 where c: "close_one te i W = Some W2" using Cons.prems(1) n by (cases "close_one te i W") auto
  note e = close_one_effect [OF c]
  have "\<forall>j \<in> set is. j < length (tw_objects W2)" using Cons.prems(2) e by simp
  from Cons.IH [OF _ this] show ?case using Cons.prems c e by simp
qed simp

lemma clear_fold:
  "\<forall>j \<in> set is. j < length (tw_objects W) \<Longrightarrow>
     (\<forall>j. object_fd W j = -1 \<longrightarrow> object_fd (fold (\<lambda>i W. if held W i then W else close_object te i W) is W) j = -1) \<and>
     tw_server (fold (\<lambda>i W. if held W i then W else close_object te i W) is W) = tw_server W \<and>
     tw_accept (fold (\<lambda>i W. if held W i then W else close_object te i W) is W) = tw_accept W"
proof (induction "is" arbitrary: W)
  case (Cons i "is")
  let ?W = "if held W i then W else close_object te i W"
  have "\<forall>j \<in> set is. j < length (tw_objects ?W)" using Cons.prems by simp
  from Cons.IH [OF this] show ?case using Cons.prems close_object_fd [of i W te] by auto
qed simp

lemma close_sockets_closes:
  assumes "close_sockets te W = Some W1" "\<forall>j \<in> set (m_sockets (tw_server W)). j < length (tw_objects W)" "i \<in> set (m_sockets (tw_server W))"
  shows "object_fd W1 i = -1" "tw_accept W1 = tw_accept W" "tw_server W1 = (tw_server W)\<lparr>m_sockets := []\<rparr>"
proof -
  obtain W2 where c: "fold (\<lambda>i r. Option.bind r (close_one te i)) (m_sockets (tw_server W)) (Some W) = Some W2" "W1 = clear_sockets te W2"
    using assms(1) by (auto simp: close_sockets_def)
  note e = close_fold [OF c(1) assms(2)]
  have r: "\<forall>j \<in> set (m_sockets (tw_server W2)). j < length (tw_objects W2)" using assms(2) e by simp
  have u: "object_fd (W\<lparr>tw_server := x\<rparr>) j = object_fd W j" for W :: "('a, 'b, 'c, 'd) tcp_world" and x j by (simp add: object_fd_def)
  show "object_fd W1 i = -1" "tw_accept W1 = tw_accept W" "tw_server W1 = (tw_server W)\<lparr>m_sockets := []\<rparr>"
    using clear_fold [OF r, of te] e assms(3) by (simp_all add: c(2) clear_sockets_def Let_def u)
qed

text \<open>The state after a number of rounds.\<close>

fun rounds ::
    "('k, 'c, 'l, 'e) tcp_env \<Rightarrow> (('k, 'c, 'l, 'e) tcp_world \<Rightarrow> ('k, 'c, 'l, 'e) tcp_world) \<Rightarrow> nat \<Rightarrow> int \<Rightarrow> nat \<Rightarrow> ('k, 'c, 'l, 'e) tcp_world \<Rightarrow>
     ('k, 'c, 'l, 'e) tcp_world option" where
  "rounds te others i t 0 W = Some W"
| "rounds te others i t (Suc n) W = (case accept_round te others i t W of None \<Rightarrow> None | Some W1 \<Rightarrow> rounds te others i t n W1)"

lemma accept_loop_stops:
  assumes "accept_loop te others i t W = Some r"
  shows "\<exists>n. case rounds te others i t n W of None \<Rightarrow> r = None | Some W1 \<Rightarrow> m_is_stop (tw_server W1) \<and> r = Some W1"
  using assms
proof (induction rule: accept_loop.raw_induct [rotated, consumes 1, case_names step])
  case (step loop te others i t W r)
  show ?case
  proof (cases "m_is_stop (tw_server W)")
    case True
    then show ?thesis using step(2) by (intro exI [of _ 0]) auto
  next
    case False
    show ?thesis
    proof (cases "accept_round te others i t W")
      case None
      then show ?thesis using step(2) False by (intro exI [of _ 1]) simp
    next
      case (Some W1)
      then have "loop te others i t W1 = Some r" using step(2) False by simp
      from step(1) [OF this] obtain n where "case rounds te others i t n W1 of None \<Rightarrow> r = None | Some W1 \<Rightarrow> m_is_stop (tw_server W1) \<and> r = Some W1" by blast
      then show ?thesis using Some by (intro exI [of _ "Suc n"]) simp
    qed
  qed
qed

lemma accept_loop_returns:
  "(case rounds te others i t n W of None \<Rightarrow> True | Some W1 \<Rightarrow> m_is_stop (tw_server W1)) \<Longrightarrow> accept_loop te others i t W \<noteq> None"
proof (induction n arbitrary: W)
  case 0
  then show ?case by (simp add: accept_loop.simps [of te others i t W])
next
  case (Suc n)
  then show ?case
    by (cases "m_is_stop (tw_server W)"; cases "accept_round te others i t W") (auto simp: accept_loop.simps [of te others i t W])
qed

section \<open>Theorems\<close>

text \<open>A server with no sockets in a world whose second socket cannot be opened.\<close>

definition tcp_example :: "(knet, unit, int, nat \<rightharpoonup> u32) tcp_env" where
  "tcp_example = \<lparr>te_sys = kn_sys, te_api = kn_api, te_ctl = table_ctl, te_stack = 131072, te_cur = 0\<rparr>"

definition tcp_start :: "(knet, unit, int, nat \<rightharpoonup> u32) tcp_world" where
  "tcp_start = \<lparr>tw_server = TCPServer_new 6000 6000 ''http'', tw_objects = [],
     tw_os = fresh_world\<lparr>w_net := \<lparr>kn_open = [0, 1, 2], kn_limit = 4, kn_waiting = 0\<rparr>\<rparr>,
     tw_iom = Some new_iom, tw_accept = [], tw_running = [], tw_io = []\<rparr>"

definition tcp_started :: "(knet, unit, int, nat \<rightharpoonup> u32) tcp_world" where
  "tcp_started = tcp_start\<lparr>tw_server := (tw_server tcp_start)\<lparr>m_sockets := [0], m_is_stop := False\<rparr>,
     tw_objects := [PlainSocket ((Socket_new 2 1 0)\<lparr>m_sock := 3\<rparr>)]\<rparr>"


text \<open>
  The accept loop of a socket ends exactly when the server is stopped: it runs for ever if after every
  number of rounds the server is not stopped, whatever the rest of the program does meanwhile; and
  when it ends without a crash, it ends in the first such state, with the server stopped.
\<close>

theorem accept_loop_ends:
  "(accept_loop te others i t W = None \<longleftrightarrow> (\<forall>n. \<exists>W1. rounds te others i t n W = Some W1 \<and> \<not> m_is_stop (tw_server W1))) \<and>
   (accept_loop te others i t W = Some (Some W1) \<longrightarrow> m_is_stop (tw_server W1) \<and> (\<exists>n. rounds te others i t n W = Some W1))"
proof (intro conjI iffI impI allI)
  fix n
  assume "accept_loop te others i t W = None"
  then show "\<exists>W1. rounds te others i t n W = Some W1 \<and> \<not> m_is_stop (tw_server W1)"
    using accept_loop_returns [of te others i t n W] by (cases "rounds te others i t n W") auto
next
  assume a: "\<forall>n. \<exists>W1. rounds te others i t n W = Some W1 \<and> \<not> m_is_stop (tw_server W1)"
  show "accept_loop te others i t W = None"
  proof (rule ccontr)
    assume "accept_loop te others i t W \<noteq> None"
    then obtain r where "accept_loop te others i t W = Some r" by blast
    from accept_loop_stops [OF this] a show False by (metis option.simps(5))
  qed
qed (use accept_loop_stops [of te others i t W] in \<open>auto split: option.splits\<close>)


theorem accept_loop_ends_witness:
  "\<exists>W1. accept_loop tcp_example (\<lambda>W. W\<lparr>tw_server := (tw_server W)\<lparr>m_is_stop := True\<rparr>\<rparr>) 0 6000 tcp_started = Some (Some W1) \<and>
     m_is_stop (tw_server W1)"
proof -
  let ?f = "\<lambda>W. W\<lparr>tw_server := (tw_server W)\<lparr>m_is_stop := True\<rparr>\<rparr> :: (knet, unit, int, nat \<rightharpoonup> u32) tcp_world"
  have "accept_round tcp_example ?f 0 6000 tcp_started = Some (?f tcp_started)"
    by (simp add: accept_round_def tcp_started_def tcp_start_def TCPServer_new_def tcp_example_def Socket_accept_def kn_sys_def)
  then have "accept_loop tcp_example ?f 0 6000 tcp_started = Some (Some (?f tcp_started))"
    by (simp add: accept_loop.simps [of _ _ _ _ tcp_started] accept_loop.simps [of _ _ _ _ "?f tcp_started"])
  then show ?thesis using accept_loop_ends [of tcp_example ?f 0 6000 tcp_started "?f tcp_started"] by blast
qed

text \<open>
  Stopping a server and starting it again before the worker has run what \<open>stop\<close> gave it breaks it. The
  sockets are scheduled for accepting and are then closed: the new accept task reads the table of
  descriptors at -1, and the accept loop that was running, which no longer sees the server stopped,
  turns for ever without waiting.
\<close>

theorem restart_breaks_server:
  assumes "\<not> m_is_stop (tw_server W)" "\<forall>j \<in> set (m_sockets (tw_server W)). j < length (tw_objects W)" "i \<in> set (m_sockets (tw_server W))"
    "close_sockets te (snd (TCPServer_start (TCPServer_stop W))) = Some W1"
    "\<And>w. so_accept (te_sys te) (-1) w = (-1, w)"
  shows "StartAccept i \<in> set (tw_accept W1) \<and> start_accept te others i W1 = Some None \<and>
     accept_loop te (\<lambda>W. W) i (m_accept_timeout (tw_server W)) W1 = None"
proof -
  let ?W = "snd (TCPServer_start (TCPServer_stop W))"
  have w: "tw_objects ?W = tw_objects W" "m_sockets (tw_server ?W) = m_sockets (tw_server W)" "\<not> m_is_stop (tw_server ?W)"
      "StartAccept i \<in> set (tw_accept ?W)" "m_accept_timeout (tw_server ?W) = m_accept_timeout (tw_server W)"
    using assms(3) by (simp_all add: TCPServer_start_def TCPServer_stop_def)
  note c = close_sockets_closes [OF assms(4), unfolded w(1,2), OF assms(2,3)]
  have fd: "m_sock (sock_base (tw_objects W1 ! i)) = -1" using c(1) by (simp add: object_fd_def)
  have "set_object_timeout i t W1 = None" for t
    by (simp add: set_object_timeout_def set_recv_timeout_def change_entity_cases fd)
  then have s: "start_accept te others i W1 = Some None" by (simp add: start_accept_def Let_def)
  have "accept_round te (\<lambda>W. W) i (m_accept_timeout (tw_server W)) W1 = Some W1"
    using fd assms(5) c(3) w(5)
    by (cases "tw_objects W1 ! i") (simp_all add: accept_round_def Let_def Socket_accept_def SSLSocket_accept_def)
  then have "rounds te (\<lambda>W. W) i (m_accept_timeout (tw_server W)) n W1 = Some W1" for n by (induction n) simp_all
  then have "accept_loop te (\<lambda>W. W) i (m_accept_timeout (tw_server W)) W1 = None"
    using accept_loop_stops [of te "\<lambda>W. W" i "m_accept_timeout (tw_server W)" W1] c(3) w(3) by fastforce
  then show ?thesis using s c(2) w(4) by simp
qed

theorem restart_breaks_server_witness:
  "\<exists>W1. close_sockets (tcp_example\<lparr>te_sys := kn_sys\<lparr>so_accept := \<lambda>l w. (-1, w)\<rparr>\<rparr>) (snd (TCPServer_start (TCPServer_stop tcp_started))) = Some W1 \<and>
     start_accept (tcp_example\<lparr>te_sys := kn_sys\<lparr>so_accept := \<lambda>l w. (-1, w)\<rparr>\<rparr>) (\<lambda>W. W) 0 W1 = Some None"
proof -
  let ?te = "tcp_example\<lparr>te_sys := kn_sys\<lparr>so_accept := \<lambda>l w. (-1, w)\<rparr>\<rparr>"
  obtain W1 where c: "close_sockets ?te (snd (TCPServer_start (TCPServer_stop tcp_started))) = Some W1"
    by (simp add: close_sockets_def close_one_def cancel_all_def cancel_all_event_def TCPServer_start_def TCPServer_stop_def
      tcp_started_def tcp_start_def TCPServer_new_def new_iom_contexts Context_new_def status_defs Socket_new_def)
  show ?thesis using restart_breaks_server [OF _ _ _ c, of 0 "\<lambda>W. W"] c by (simp add: tcp_started_def)
qed

end
