(* ===== verification/LogFormat.thy ===== *)
theory LogFormat
  imports Util
begin

text \<open>
  Log levels, events and the formatter of \<^verbatim>\<open>src/log.cc\<close>: the parser of patterns such as
  \<^verbatim>\<open>%d{%H:%M} [%p] %m%n\<close> and the items it makes of them. \<open>strftime\<close> with the local time is an argument,
  as the call with a buffer of 64 bytes leaves the text.
\<close>

section \<open>Levels\<close>

datatype Level = UNKNOW | DEBUG | INFO | WARN | ERROR

fun level_num :: "Level \<Rightarrow> nat" where
  "level_num UNKNOW = 0"
| "level_num DEBUG = 1"
| "level_num INFO = 2"
| "level_num WARN = 3"
| "level_num ERROR = 4"

lemma level_num_inj: "level_num a = level_num b \<Longrightarrow> a = b"
  by (cases a; cases b) simp_all

text \<open>The comparisons of the enumeration.\<close>

instantiation Level :: linorder
begin

definition less_eq_Level :: "Level \<Rightarrow> Level \<Rightarrow> bool" where
  "less_eq_Level a b \<longleftrightarrow> level_num a \<le> level_num b"

definition less_Level :: "Level \<Rightarrow> Level \<Rightarrow> bool" where
  "less_Level a b \<longleftrightarrow> level_num a < level_num b"

instance
  by standard (auto simp: less_eq_Level_def less_Level_def level_num_inj)

end

fun ToString :: "Level \<Rightarrow> string" where
  "ToString DEBUG = ''DEBUG''"
| "ToString INFO = ''INFO''"
| "ToString WARN = ''WARN''"
| "ToString ERROR = ''ERROR''"
| "ToString UNKNOW = ''UNKNOW''"

definition FromString :: "string \<Rightarrow> Level" where
  "FromString s =
     (if s = ''DEBUG'' then DEBUG else if s = ''INFO'' then INFO else if s = ''WARN'' then WARN
      else if s = ''ERROR'' then ERROR else UNKNOW)"

section \<open>Events\<close>

record LogEvent =
  ev_level :: Level
  ev_file :: string
  ev_line :: int
  ev_thread_id :: u32
  ev_co_id :: u64
  ev_time :: int
  ev_thread_name :: string
  ev_ss :: string

text \<open>\<open>msg\<close> is what \<^verbatim>\<open>vasprintf\<close> made, if it did not fail.\<close>

definition LogEvent_format :: "string option \<Rightarrow> LogEvent \<Rightarrow> LogEvent" where
  "LogEvent_format msg ev = (case msg of None \<Rightarrow> ev | Some s \<Rightarrow> ev\<lparr>ev_ss := ev_ss ev @ s\<rparr>)"

definition show_int :: "int \<Rightarrow> string" where
  "show_int x = (if x < 0 then ''-'' @ show_base 10 (nat (- x)) else show_base 10 (nat x))"

section \<open>Items\<close>

datatype FormatItem =
    StringFormatItem string | MessageFormatItem string | LevelFormatItem string | FileNameFormatItem string
  | ThreadIdFormatItem string | NewLineFormatItem string | DateTimeFormatItem string | LoggerNameFormatItem string
  | LineFormatItem string | TabFormatItem string | CoIdFormatItem string | ThreadNameFormatItem string

text \<open>\<^verbatim>\<open>sprintf(ms, ".%03ld", time % 1000)\<close>, where \<open>time\<close> is in seconds already; the remainder of C has the sign of the dividend.\<close>

definition millis :: "int \<Rightarrow> string" where
  "millis time =
     (let r = sgn time * (abs time mod 1000); d = show_int (abs r); z = replicate ((if r < 0 then 2 else 3) - length d) (CHR ''0'')
      in ''.'' @ (if r < 0 then ''-'' else []) @ z @ d)"

fun item_format :: "(string \<Rightarrow> int \<Rightarrow> string) \<Rightarrow> string \<Rightarrow> Level \<Rightarrow> LogEvent \<Rightarrow> FormatItem \<Rightarrow> string" where
  "item_format strftime name level ev (StringFormatItem fmt) = fmt"
| "item_format strftime name level ev (MessageFormatItem fmt) = ev_ss ev"
| "item_format strftime name level ev (LevelFormatItem fmt) = ToString level"
| "item_format strftime name level ev (FileNameFormatItem fmt) = ev_file ev"
| "item_format strftime name level ev (ThreadIdFormatItem fmt) = show_int (uint (ev_thread_id ev))"
| "item_format strftime name level ev (NewLineFormatItem fmt) = [CHR 0x0A]"
| "item_format strftime name level ev (DateTimeFormatItem fmt) =
     (let time = sgn (ev_time ev) * (abs (ev_time ev) div 1000) in strftime fmt time @ millis time)"
| "item_format strftime name level ev (LoggerNameFormatItem fmt) = name"
| "item_format strftime name level ev (LineFormatItem fmt) = show_int (ev_line ev)"
| "item_format strftime name level ev (TabFormatItem fmt) = [CHR 0x09]"
| "item_format strftime name level ev (CoIdFormatItem fmt) = show_int (uint (ev_co_id ev))"
| "item_format strftime name level ev (ThreadNameFormatItem fmt) = ev_thread_name ev"

definition s_format_items :: "(string \<times> (string \<Rightarrow> FormatItem)) list" where
  "s_format_items =
     [(''m'', MessageFormatItem), (''p'', LevelFormatItem), (''c'', LoggerNameFormatItem), (''t'', ThreadIdFormatItem),
      (''n'', NewLineFormatItem), (''d'', DateTimeFormatItem), (''f'', FileNameFormatItem), (''l'', LineFormatItem),
      (''T'', TabFormatItem), (''F'', CoIdFormatItem), (''N'', ThreadNameFormatItem)]"

section \<open>Patterns\<close>

definition isalpha :: "char \<Rightarrow> bool" where
  "isalpha c \<longleftrightarrow> (let n = of_char c :: nat in 65 \<le> n \<and> n \<le> 90 \<or> 97 \<le> n \<and> n \<le> 122)"

text \<open>
  The inner loop: from position \<open>n\<close> on, for the percent sign at \<open>i\<close>. \<open>st\<close> tells whether a brace is open, at
  \<open>fb\<close>. The result is where the loop stops, whether a brace is still open, the tag and its format.
\<close>

function scan :: "string \<Rightarrow> nat \<Rightarrow> nat \<Rightarrow> bool \<Rightarrow> nat \<Rightarrow> string \<Rightarrow> string \<Rightarrow> nat \<times> bool \<times> string \<times> string" where
  "scan p i n st fb str fmt =
     (if n < length p then
        if \<not> st \<and> \<not> isalpha (p ! n) \<and> p ! n \<noteq> CHR ''{'' \<and> p ! n \<noteq> CHR ''}'' then (n, st, substr p (i + 1) (n - i - 1), fmt)
        else if \<not> st \<and> p ! n = CHR ''{'' then scan p i (n + 1) True n (substr p (i + 1) (n - i - 1)) fmt
        else if st \<and> p ! n = CHR ''}'' then (n + 1, False, str, substr p (fb + 1) (n - fb - 1))
        else scan p i (n + 1) st fb (if n + 1 = length p \<and> str = [] then drop (i + 1) p else str) fmt
      else (n, st, str, fmt))"
  by pat_completeness auto
termination by (relation "measure (\<lambda>(p, i, n, st, fb, str, fmt). length p - n)") auto

declare scan.simps [simp del]

lemma scan_moves: "n \<le> fst (scan p i n st fb str fmt)"
  by (induction p i n st fb str fmt rule: scan.induct) (subst scan.simps, auto)

lemma scan_ends: "(n, st, str, fmt) = scan p i (Suc i) st0 fb str0 fmt0 \<Longrightarrow> i < n"
  using scan_moves [of "Suc i" p i st0 fb str0 fmt0] by (metis Suc_le_eq fst_conv)

type_synonym piece = "string \<times> string \<times> bool"

text \<open>The outer loop: \<open>nstr\<close> is the text since the last tag, the flag of a piece is set for a tag.\<close>

function init_loop :: "string \<Rightarrow> nat \<Rightarrow> string \<Rightarrow> piece list \<Rightarrow> piece list" where
  "init_loop p i nstr vec =
     (if i < length p then
        if p ! i \<noteq> CHR ''%'' then init_loop p (i + 1) (nstr @ [p ! i]) vec
        else if i + 1 < length p \<and> p ! (i + 1) = CHR ''%'' then init_loop p (i + 2) (nstr @ ''%'') vec
        else (case scan p i (i + 1) False 0 [] [] of
            (n, st, str, fmt) \<Rightarrow>
              if \<not> st then init_loop p n [] (vec @ (if nstr \<noteq> [] then [(nstr, [], False)] else []) @ [(str, fmt, True)])
              else init_loop p (i + 1) nstr (vec @ [(''<<pattern_error>>'', fmt, False)]))
      else vec @ (if nstr \<noteq> [] then [(nstr, [], False)] else []))"
  by pat_completeness auto
termination
  by (relation "measure (\<lambda>(p, i, nstr, vec). length p - i)") (auto dest!: scan_ends)

declare init_loop.simps [simp del]

fun make_items :: "piece list \<Rightarrow> FormatItem list" where
  "make_items [] = []"
| "make_items ((str, fmt, tag) # vec) =
     (if \<not> tag then StringFormatItem str # make_items vec
      else (case map_of s_format_items str of None \<Rightarrow> make_items vec | Some f \<Rightarrow> f fmt # make_items vec))"

record LogFormatter =
  m_pattern :: string
  m_items :: "FormatItem list"

definition default_pattern :: string where
  "default_pattern = ''%d{%Y-%m-%d %H:%M:%S} %t %N %F [%p] [%c] %f:%l %m%n''"

definition LogFormatter_new :: "string \<Rightarrow> LogFormatter" where
  "LogFormatter_new pattern =
     (let p = (if pattern = [] then default_pattern else pattern)
      in \<lparr>m_pattern = p, m_items = make_items (init_loop p 0 [] [])\<rparr>)"

definition LogFormatter_format :: "(string \<Rightarrow> int \<Rightarrow> string) \<Rightarrow> LogFormatter \<Rightarrow> string \<Rightarrow> Level \<Rightarrow> LogEvent \<Rightarrow> string" where
  "LogFormatter_format strftime f name level ev = concat (map (item_format strftime name level ev) (m_items f))"

section \<open>The language of patterns\<close>

text \<open>
  A pattern is a sequence of texts, in which a percent sign is doubled, and of tags, with or without a
  format in braces.
\<close>

datatype token = Txt string | Tag string "string option"

definition escape :: "char \<Rightarrow> string" where
  "escape c = (if c = CHR ''%'' then ''%%'' else [c])"

fun print_token :: "token \<Rightarrow> string" where
  "print_token (Txt s) = concat (map escape s)"
| "print_token (Tag t None) = ''%'' @ t"
| "print_token (Tag t (Some f)) = ''%'' @ t @ ''{'' @ f @ ''}''"

definition print_pattern :: "token list \<Rightarrow> string" where
  "print_pattern ts = concat (map print_token ts)"

text \<open>A character that does not continue a tag.\<close>

definition ends_tag :: "char \<Rightarrow> bool" where
  "ends_tag c \<longleftrightarrow> \<not> isalpha c \<and> c \<noteq> CHR ''{'' \<and> c \<noteq> CHR ''}''"

text \<open>Two texts are not next to each other, and what follows a tag without a format does not continue it.\<close>

fun wf_pattern :: "token list \<Rightarrow> bool" where
  "wf_pattern [] = True"
| "wf_pattern (Txt s # ts) \<longleftrightarrow> s \<noteq> [] \<and> (case ts of Txt s # _ \<Rightarrow> False | _ \<Rightarrow> True) \<and> wf_pattern ts"
| "wf_pattern (Tag t None # ts) \<longleftrightarrow> t \<noteq> [] \<and> list_all isalpha t \<and> (case ts of Txt (c # _) # _ \<Rightarrow> ends_tag c | _ \<Rightarrow> True) \<and> wf_pattern ts"
| "wf_pattern (Tag t (Some f) # ts) \<longleftrightarrow> list_all isalpha t \<and> CHR ''}'' \<notin> set f \<and> wf_pattern ts"

fun token_piece :: "token \<Rightarrow> piece" where
  "token_piece (Txt s) = (s, [], False)"
| "token_piece (Tag t f) = (t, case f of None \<Rightarrow> [] | Some f \<Rightarrow> f, True)"

lemma alpha_not: "isalpha c \<Longrightarrow> c \<noteq> CHR ''{''" "isalpha c \<Longrightarrow> c \<noteq> CHR ''%''" "isalpha c \<Longrightarrow> \<not> ends_tag c"
  by (auto simp: isalpha_def Let_def ends_tag_def)

lemma nth_middle: "(xs @ y # zs) ! length xs = y"
  by simp

text \<open>Scanning a tag without a format, with \<open>a\<close> read and \<open>b\<close> left of it.\<close>

lemma scan_tag:
  assumes "list_all isalpha b" "rest = [] \<or> ends_tag (hd rest)" "a @ b \<noteq> []" "str = (if b = [] \<and> rest = [] then a else [])"
  shows "scan (pre @ CHR ''%'' # a @ b @ rest) (length pre) (length pre + 1 + length a) False fb str [] =
    (length pre + 1 + length (a @ b), False, a @ b, [])"
  using assms
proof (induction b arbitrary: a str)
  case Nil
  let ?p = "pre @ CHR ''%'' # a @ rest"
  show ?case
  proof (cases rest)
    case Nil
    then show ?thesis using Nil.prems by (simp add: scan.simps)
  next
    case (Cons c cs)
    have n: "?p ! (length pre + 1 + length a) = c" using nth_middle [of "pre @ CHR ''%'' # a" c cs] Cons by simp
    show ?thesis using Nil.prems Cons n by (subst scan.simps) (simp add: ends_tag_def substr_def)
  qed
next
  case (Cons x b)
  let ?p = "pre @ CHR ''%'' # a @ (x # b) @ rest"
  have n: "?p ! (length pre + 1 + length a) = x" using nth_middle [of "pre @ CHR ''%'' # a" x "b @ rest"] by simp
  have x: "isalpha x" using Cons.prems by simp
  have "scan ?p (length pre) (length pre + 1 + length a) False fb str [] =
      scan ?p (length pre) (length pre + 1 + length (a @ [x])) False fb (if b = [] \<and> rest = [] then a @ [x] else []) []"
    using Cons.prems x alpha_not(1) [OF x] n by (subst scan.simps) simp
  also have "\<dots> = (length pre + 1 + length (a @ x # b), False, a @ x # b, [])"
    using Cons.IH [of "a @ [x]"] Cons.prems by simp
  finally show ?case .
qed

text \<open>The format in braces, with \<open>g\<close> of it left.\<close>

lemma scan_format:
  assumes "CHR ''}'' \<notin> set g"
  shows "scan (q @ g @ CHR ''}'' # rest) i (length q) True fb str fmt =
    (length q + length g + 1, False, str, substr (q @ g @ CHR ''}'' # rest) (fb + 1) (length q + length g - fb - 1))"
  using assms
proof (induction g arbitrary: q)
  case Nil
  show ?case by (subst scan.simps) simp
next
  case (Cons x g)
  have "scan (q @ (x # g) @ CHR ''}'' # rest) i (length q) True fb str fmt = scan ((q @ [x]) @ g @ CHR ''}'' # rest) i (length (q @ [x])) True fb str fmt"
    using Cons.prems by (subst scan.simps) auto
  then show ?case using Cons.IH [of "q @ [x]"] Cons.prems by simp
qed

lemma scan_letters:
  assumes "list_all isalpha b"
  shows "scan (pre @ CHR ''%'' # a @ b @ c # rest) i (length pre + 1 + length a) False fb [] fmt =
    scan (pre @ CHR ''%'' # a @ b @ c # rest) i (length pre + 1 + length (a @ b)) False fb [] fmt"
  using assms
proof (induction b arbitrary: a)
  case (Cons x b)
  have n: "(pre @ CHR ''%'' # a @ (x # b) @ c # rest) ! (length pre + 1 + length a) = x"
    using nth_middle [of "pre @ CHR ''%'' # a" x "b @ c # rest"] by simp
  have x: "isalpha x" using Cons.prems by simp
  show ?case using Cons.IH [of "a @ [x]"] Cons.prems x alpha_not(1) [OF x] n by (subst scan.simps) simp
qed simp

lemma scan_tag_format:
  assumes "list_all isalpha t" "CHR ''}'' \<notin> set f"
  shows "scan (pre @ CHR ''%'' # t @ CHR ''{'' # f @ CHR ''}'' # rest) (length pre) (length pre + 1) False 0 [] [] =
    (length (pre @ CHR ''%'' # t @ CHR ''{'' # f @ [CHR ''}'']), False, t, f)"
proof -
  let ?p = "pre @ CHR ''%'' # t @ CHR ''{'' # f @ CHR ''}'' # rest" and ?q = "pre @ CHR ''%'' # t @ [CHR ''{'']"
  have n: "?p ! (length pre + 1 + length t) = CHR ''{''" using nth_middle [of "pre @ CHR ''%'' # t"] by simp
  have "scan ?p (length pre) (length pre + 1) False 0 [] [] = scan ?p (length pre) (length pre + 1 + length t) False 0 [] []"
    using scan_letters [OF assms(1), of pre "[]" "CHR ''{''" "f @ CHR ''}'' # rest"] by simp
  also have "\<dots> = scan ?p (length pre) (length ?q) True (length pre + 1 + length t) t []"
    using n by (subst scan.simps) (simp add: isalpha_def substr_def)
  also have "\<dots> = (length (pre @ CHR ''%'' # t @ CHR ''{'' # f @ [CHR ''}'']), False, t, f)"
    using scan_format [OF assms(2), of ?q rest "length pre" "length pre + 1 + length t" t "[]"] by (simp add: substr_def)
  finally show ?thesis .
qed

lemma init_text:
  "init_loop (pre @ concat (map escape s) @ rest) (length pre) nstr vec =
     init_loop (pre @ concat (map escape s) @ rest) (length pre + length (concat (map escape s))) (nstr @ s) vec"
proof (induction s arbitrary: pre nstr)
  case (Cons c s)
  have "init_loop (pre @ escape c @ concat (map escape s) @ rest) (length pre) nstr vec =
      init_loop ((pre @ escape c) @ concat (map escape s) @ rest) (length (pre @ escape c)) (nstr @ [c]) vec"
    by (subst init_loop.simps) (auto simp: nth_append escape_def)
  then show ?case using Cons.IH [of "pre @ escape c" "nstr @ [c]"] by (simp add: add.assoc)
qed simp

text \<open>What is left of a pattern after a tag does not continue it.\<close>

lemma wf_follows:
  assumes "wf_pattern (Tag t None # ts)"
  shows "print_pattern ts = [] \<or> ends_tag (hd (print_pattern ts))"
proof -
  have p: "ends_tag CHR ''%''" by (simp add: ends_tag_def isalpha_def)
  show ?thesis
  proof (cases ts)
    case (Cons x xs)
    then show ?thesis
    proof (cases x)
      case (Txt s)
      then show ?thesis using assms Cons p by (cases s) (auto simp: print_pattern_def escape_def)
    next
      case (Tag u f)
      then show ?thesis using Cons p by (cases f) (auto simp: print_pattern_def)
    qed
  qed (simp add: print_pattern_def)
qed

lemma init_pattern:
  "wf_pattern ts \<Longrightarrow> nstr \<noteq> [] \<longrightarrow> (case ts of Txt s # _ \<Rightarrow> False | _ \<Rightarrow> True) \<Longrightarrow>
     init_loop (pre @ print_pattern ts) (length pre) nstr vec = vec @ (if nstr \<noteq> [] then [(nstr, [], False)] else []) @ map token_piece ts"
proof (induction ts arbitrary: pre nstr vec rule: wf_pattern.induct)
  case 1
  show ?case by (simp add: init_loop.simps print_pattern_def)
next
  case (2 s ts)
  then have n: "nstr = []" by auto
  let ?e = "concat (map escape s)"
  have "init_loop (pre @ print_pattern (Txt s # ts)) (length pre) nstr vec = init_loop ((pre @ ?e) @ print_pattern ts) (length (pre @ ?e)) s vec"
    using init_text [of pre s "print_pattern ts" "[]" vec] n by (simp add: print_pattern_def)
  also have "\<dots> = vec @ (if s \<noteq> [] then [(s, [], False)] else []) @ map token_piece ts"
    by (rule 2(1)) (use 2(2) in auto)
  finally show ?case using n 2(2) by simp
next
  case (3 t ts)
  let ?p = "pre @ CHR ''%'' # t @ print_pattern ts"
  have t: "t \<noteq> []" "list_all isalpha t" using 3(2) by auto
  have s: "scan ?p (length pre) (length pre + 1) False 0 [] [] = (length pre + 1 + length t, False, t, [])"
    using scan_tag [of t "print_pattern ts" "[]" "[]" pre 0] wf_follows [OF 3(2)] t by simp
  have "hd t \<noteq> CHR ''%''" using t alpha_not(2) by (cases t) auto
  then have "?p ! (length pre + 1) \<noteq> CHR ''%''" using t by (cases t) (simp_all add: nth_append)
  then have "init_loop ?p (length pre) nstr vec =
      init_loop ((pre @ CHR ''%'' # t) @ print_pattern ts) (length (pre @ CHR ''%'' # t)) [] (vec @ (if nstr \<noteq> [] then [(nstr, [], False)] else []) @ [(t, [], True)])"
    using s by (subst init_loop.simps) simp
  also have "\<dots> = (vec @ (if nstr \<noteq> [] then [(nstr, [], False)] else []) @ [(t, [], True)]) @ (if [] \<noteq> ([] :: string) then [([], [], False)] else []) @ map token_piece ts"
    by (rule 3(1)) (use 3(2) in auto)
  finally show ?case by (simp add: print_pattern_def)
next
  case (4 t f ts)
  let ?p = "pre @ CHR ''%'' # t @ CHR ''{'' # f @ CHR ''}'' # print_pattern ts" and ?q = "pre @ CHR ''%'' # t @ CHR ''{'' # f @ [CHR ''}'']"
  have t: "list_all isalpha t" "CHR ''}'' \<notin> set f" using 4(2) by auto
  note s = scan_tag_format [OF t, of pre "print_pattern ts"]
  have "?p ! (length pre + 1) \<noteq> CHR ''%''" using t alpha_not(2) by (cases t) (auto simp: nth_append)
  then have "init_loop ?p (length pre) nstr vec =
      init_loop (?q @ print_pattern ts) (length ?q) [] (vec @ (if nstr \<noteq> [] then [(nstr, [], False)] else []) @ [(t, f, True)])"
    using s by (subst init_loop.simps) simp
  also have "\<dots> = (vec @ (if nstr \<noteq> [] then [(nstr, [], False)] else []) @ [(t, f, True)]) @ (if [] \<noteq> ([] :: string) then [([], [], False)] else []) @ map token_piece ts"
    by (rule 4(1)) (use 4(2) in auto)
  finally show ?case by (simp add: print_pattern_def)
qed

text \<open>What a token stands for: a known tag prints its part of the event, an unknown one nothing.\<close>

fun token_output :: "(string \<Rightarrow> int \<Rightarrow> string) \<Rightarrow> string \<Rightarrow> Level \<Rightarrow> LogEvent \<Rightarrow> token \<Rightarrow> string" where
  "token_output strftime name level ev (Txt s) = s"
| "token_output strftime name level ev (Tag t f) =
     (case map_of s_format_items t of
        None \<Rightarrow> []
      | Some item \<Rightarrow> item_format strftime name level ev (item (case f of None \<Rightarrow> [] | Some f \<Rightarrow> f)))"

lemma format_pieces:
  "concat (map (item_format strftime name level ev) (make_items (map token_piece ts))) = concat (map (token_output strftime name level ev) ts)"
proof (induction ts)
  case (Cons x ts)
  then show ?case by (cases x) (auto split: option.splits)
qed simp

section \<open>Theorems\<close>

text \<open>
  C32: The parser of patterns inverts printing them. Every sequence of texts and tags in which two
  texts are not adjacent and a tag without a format is not continued by what follows is read
  back from its text, and formatting an event with it prints the texts and, for every known
  tag, its part of the event, in order.
\<close>

theorem pattern_round_trip:
  assumes "wf_pattern ts" "ts \<noteq> []"
  shows "init_loop (print_pattern ts) 0 [] [] = map token_piece ts \<and>
     LogFormatter_format strftime (LogFormatter_new (print_pattern ts)) name level ev = concat (map (token_output strftime name level ev) ts)"
proof -
  have i: "init_loop (print_pattern ts) 0 [] [] = map token_piece ts" using init_pattern [OF assms(1), of "[]" "[]" "[]"] by simp
  have "print_pattern ts \<noteq> []"
  proof (cases ts rule: wf_pattern.cases)
    case (2 s xs)
    then show ?thesis using assms by (cases s) (auto simp: print_pattern_def escape_def)
  qed (use assms(2) in \<open>auto simp: print_pattern_def\<close>)
  then show ?thesis using i format_pieces by (simp add: LogFormatter_format_def LogFormatter_new_def Let_def)
qed

theorem pattern_round_trip_witness:
  "LogFormatter_format (\<lambda>f t. f) (LogFormatter_new ''100%% [%p]%d{%H:%M} %m'') ''ROOT'' INFO
     \<lparr>ev_level = INFO, ev_file = ''a.cc'', ev_line = 7, ev_thread_id = 1, ev_co_id = 0, ev_time = 5000, ev_thread_name = ''w'', ev_ss = ''hello''\<rparr> =
     ''100% [INFO]%H:%M.005 hello''"
proof -
  let ?ts = "[Txt ''100% ['', Tag ''p'' None, Txt '']'', Tag ''d'' (Some ''%H:%M''), Txt '' '', Tag ''m'' None]"
  have p: "print_pattern ?ts = ''100%% [%p]%d{%H:%M} %m''" by (simp add: print_pattern_def escape_def)
  have "wf_pattern ?ts" by (simp add: ends_tag_def isalpha_def)
  note r = conjunct2 [OF pattern_round_trip [OF this, unfolded p]]
  have "show_base 10 5 = ''5''" by (subst show_base.simps) simp
  then show ?thesis by (subst r) (simp_all add: s_format_items_def millis_def show_int_def numeral_2_eq_2)
qed

text \<open>
  A brace that is not closed is reported in front of the text that comes before it: the text is not
  taken off first.
\<close>

lemma pattern_error_order: "init_loop ''ab%d{x'' 0 [] [] = [(''<<pattern_error>>'', [], False), (''abd{x'', [], False)]"
  by (simp add: init_loop.simps scan.simps isalpha_def substr_def)

lemma FromString_ToString: "FromString (ToString l) = l"
  by (cases l) (simp_all add: FromString_def)

end
