(* ===== verification/Log.thy ===== *)
theory Log
  imports LogFormat
begin

text \<open>
  Appenders, loggers and the manager of \<^verbatim>\<open>src/log.cc\<close> over the formatter of \<open>LogFormat\<close>. Appenders and loggers
  are shared objects, by number; the standard output and the files are texts. Whether a file can be
  opened is an argument, as are \<open>strftime\<close> and the clock: a call of \<open>log\<close> reads the time \<open>now\<close>, and \<open>open_file\<close>
  reads it again, \<open>now2\<close>. The warning about a logger that exists already is not modelled.
\<close>

section \<open>State\<close>

record file_appender =
  fa_formatter :: LogFormatter
  fa_level :: Level
  m_path :: string
  m_interval :: nat
  m_start_time :: int
  m_end_time :: int
  m_filestream :: "string option"

datatype Appender = StdOutLogAppender LogFormatter Level | FileLogAppender file_appender

record Logger =
  lg_name :: string
  lg_level :: Level
  m_appenders :: "nat list"

record log_world =
  lw_stdout :: string
  lw_files :: "string \<rightharpoonup> string"
  lw_appenders :: "Appender list"
  lw_loggers :: "Logger list"
  m_logger_map :: "string \<rightharpoonup> nat"

record log_env =
  le_strftime :: "string \<Rightarrow> int \<Rightarrow> string"
  le_opens :: "string \<Rightarrow> bool"

section \<open>Appenders\<close>

text \<open>\<^verbatim>\<open>open\<close> in the mode \<^verbatim>\<open>app\<close> makes a file that does not exist and keeps one that does.\<close>

definition open_file :: "log_env \<Rightarrow> int \<Rightarrow> file_appender \<Rightarrow> log_world \<Rightarrow> bool \<times> file_appender \<times> log_world" where
  "open_file le now a W =
     (let path = m_path a @ ''.log.'' @ le_strftime le ''%Y_%m_%d_%H'' now; ok = le_opens le path
      in (ok, a\<lparr>m_start_time := now, m_end_time := now + int (m_interval a), m_filestream := if ok then Some path else None\<rparr>,
          if ok \<and> lw_files W path = None then W\<lparr>lw_files := (lw_files W)(path \<mapsto> [])\<rparr> else W))"

definition FileLogAppender_new :: "log_env \<Rightarrow> int \<Rightarrow> int \<Rightarrow> LogFormatter \<Rightarrow> Level \<Rightarrow> string \<Rightarrow> nat \<Rightarrow> log_world \<Rightarrow> file_appender \<times> log_world" where
  "FileLogAppender_new le now now2 formatter level path interval W =
     snd (open_file le now2
       \<lparr>fa_formatter = formatter, fa_level = level, m_path = path,
        m_interval = (if interval < 3600 then 3600 else interval div 3600 * 3600),
        m_start_time = now - now mod 3600, m_end_time = 0, m_filestream = None\<rparr> W)"

definition FileLogAppender_log ::
    "log_env \<Rightarrow> int \<Rightarrow> int \<Rightarrow> string \<Rightarrow> Level \<Rightarrow> LogEvent \<Rightarrow> file_appender \<Rightarrow> log_world \<Rightarrow> file_appender \<times> log_world" where
  "FileLogAppender_log le now now2 name level ev a W =
     (if level \<ge> fa_level a then
        (case (if now > m_end_time a then snd (open_file le now2 (a\<lparr>m_start_time := now\<rparr>) W) else (a, W)) of
           (a1, W1) \<Rightarrow>
             (case m_filestream a1 of
                None \<Rightarrow> (a1, W1)
              | Some f \<Rightarrow>
                  (a1, W1\<lparr>lw_files := (lw_files W1)(f \<mapsto>
                     (case lw_files W1 f of None \<Rightarrow> [] | Some s \<Rightarrow> s) @ LogFormatter_format (le_strftime le) (fa_formatter a1) name level ev)\<rparr>)))
      else (a, W))"

definition StdOutLogAppender_log :: "log_env \<Rightarrow> string \<Rightarrow> Level \<Rightarrow> LogEvent \<Rightarrow> LogFormatter \<Rightarrow> Level \<Rightarrow> log_world \<Rightarrow> log_world" where
  "StdOutLogAppender_log le name level ev f l W =
     (if level \<ge> l then W\<lparr>lw_stdout := lw_stdout W @ LogFormatter_format (le_strftime le) f name level ev\<rparr> else W)"

text \<open>The virtual function \<open>log\<close> of the object \<open>i\<close>.\<close>

definition Appender_log :: "log_env \<Rightarrow> int \<Rightarrow> int \<Rightarrow> string \<Rightarrow> Level \<Rightarrow> LogEvent \<Rightarrow> nat \<Rightarrow> log_world \<Rightarrow> log_world" where
  "Appender_log le now now2 name level ev i W =
     (case lw_appenders W ! i of
        StdOutLogAppender f l \<Rightarrow> StdOutLogAppender_log le name level ev f l W
      | FileLogAppender a \<Rightarrow>
          (case FileLogAppender_log le now now2 name level ev a W of
             (a1, W1) \<Rightarrow> W1\<lparr>lw_appenders := (lw_appenders W1)[i := FileLogAppender a1]\<rparr>))"

section \<open>Loggers\<close>

definition Logger_new :: "string \<Rightarrow> Level \<Rightarrow> Logger" where
  "Logger_new name level = \<lparr>lg_name = name, lg_level = level, m_appenders = []\<rparr>"

definition add_appender :: "nat \<Rightarrow> Logger \<Rightarrow> Logger" where
  "add_appender i l = l\<lparr>m_appenders := m_appenders l @ [i]\<rparr>"

definition add_appenders :: "nat list \<Rightarrow> Logger \<Rightarrow> Logger" where
  "add_appenders is l = fold add_appender is l"

fun erase_first :: "nat \<Rightarrow> nat list \<Rightarrow> nat list" where
  "erase_first i [] = []"
| "erase_first i (j # js) = (if j = i then js else j # erase_first i js)"

definition del_appender :: "nat \<Rightarrow> Logger \<Rightarrow> Logger" where
  "del_appender i l = l\<lparr>m_appenders := erase_first i (m_appenders l)\<rparr>"

definition Logger_log :: "log_env \<Rightarrow> int \<Rightarrow> int \<Rightarrow> Level \<Rightarrow> LogEvent \<Rightarrow> Logger \<Rightarrow> log_world \<Rightarrow> log_world" where
  "Logger_log le now now2 level ev l W =
     (if level < lg_level l then W
      else fold (Appender_log le now now2 (lg_name l) level ev) (m_appenders l) W)"

definition Logger_debug :: "log_env \<Rightarrow> int \<Rightarrow> int \<Rightarrow> LogEvent \<Rightarrow> Logger \<Rightarrow> log_world \<Rightarrow> log_world" where
  "Logger_debug le now now2 = Logger_log le now now2 DEBUG"

definition Logger_info :: "log_env \<Rightarrow> int \<Rightarrow> int \<Rightarrow> LogEvent \<Rightarrow> Logger \<Rightarrow> log_world \<Rightarrow> log_world" where
  "Logger_info le now now2 = Logger_log le now now2 INFO"

definition Logger_warn :: "log_env \<Rightarrow> int \<Rightarrow> int \<Rightarrow> LogEvent \<Rightarrow> Logger \<Rightarrow> log_world \<Rightarrow> log_world" where
  "Logger_warn le now now2 = Logger_log le now now2 WARN"

definition Logger_error :: "log_env \<Rightarrow> int \<Rightarrow> int \<Rightarrow> LogEvent \<Rightarrow> Logger \<Rightarrow> log_world \<Rightarrow> log_world" where
  "Logger_error le now now2 = Logger_log le now now2 ERROR"

text \<open>The destructor of the wrapper that the macros make logs the event.\<close>

definition LogEventWarp_delete :: "log_env \<Rightarrow> int \<Rightarrow> int \<Rightarrow> LogEvent \<Rightarrow> Logger \<Rightarrow> log_world \<Rightarrow> log_world" where
  "LogEventWarp_delete le now now2 ev l W = Logger_log le now now2 (ev_level ev) ev l W"

section \<open>The manager\<close>

record AppenderDefine =
  ad_type :: string
  ad_level :: Level
  ad_file :: string
  ad_interval :: int

record LoggerDefine =
  ld_name :: string
  ld_level :: Level
  ld_formater :: string
  ld_appenders :: "AppenderDefine list"

definition add_logger :: "nat \<Rightarrow> log_world \<Rightarrow> bool \<times> log_world" where
  "add_logger i W =
     (let name = lg_name (lw_loggers W ! i) in
      if m_logger_map W name \<noteq> None then (False, W)
      else (True, W\<lparr>m_logger_map := (m_logger_map W)(name \<mapsto> i)\<rparr>))"

text \<open>The interval of the definition is not passed on: the default of the constructor is used.\<close>

definition make_appender :: "log_env \<Rightarrow> int \<Rightarrow> int \<Rightarrow> LogFormatter \<Rightarrow> AppenderDefine \<Rightarrow> Logger \<times> log_world \<Rightarrow> Logger \<times> log_world" where
  "make_appender le now now2 f d = (\<lambda>(l, W).
     if ad_type d = ''FileLogAppender'' then
       (case FileLogAppender_new le now now2 f (ad_level d) (ad_file d) 7200 W of
          (a, W1) \<Rightarrow> (add_appender (length (lw_appenders W1)) l, W1\<lparr>lw_appenders := lw_appenders W1 @ [FileLogAppender a]\<rparr>))
     else (add_appender (length (lw_appenders W)) l, W\<lparr>lw_appenders := lw_appenders W @ [StdOutLogAppender f (ad_level d)]\<rparr>))"

definition add_logger_def :: "log_env \<Rightarrow> int \<Rightarrow> int \<Rightarrow> LoggerDefine \<Rightarrow> log_world \<Rightarrow> bool \<times> log_world" where
  "add_logger_def le now now2 d W =
     (case fold (make_appender le now now2 (LogFormatter_new (ld_formater d))) (ld_appenders d) (Logger_new (ld_name d) (ld_level d), W) of
        (l, W1) \<Rightarrow> add_logger (length (lw_loggers W1)) (W1\<lparr>lw_loggers := lw_loggers W1 @ [l]\<rparr>))"

text \<open>\<open>defs\<close> are the definitions that the configuration holds after it was loaded.\<close>

definition add_loggers :: "log_env \<Rightarrow> int \<Rightarrow> int \<Rightarrow> LoggerDefine list \<Rightarrow> log_world \<Rightarrow> bool \<times> log_world" where
  "add_loggers le now now2 defs W =
     fold (\<lambda>d (suc, W). case add_logger_def le now now2 d W of (b, W1) \<Rightarrow> (b \<and> suc, W1)) defs (True, W)"

definition LoggerMgr_new :: "log_world \<Rightarrow> log_world" where
  "LoggerMgr_new W =
     (let l = add_appender (length (lw_appenders W)) (Logger_new ''ROOT'' DEBUG)
      in snd (add_logger (length (lw_loggers W))
        (W\<lparr>lw_appenders := lw_appenders W @ [StdOutLogAppender (LogFormatter_new []) DEBUG], lw_loggers := lw_loggers W @ [l]\<rparr>)))"

definition del_logger :: "string \<Rightarrow> log_world \<Rightarrow> bool \<times> log_world" where
  "del_logger name W =
     (if name = [] then (False, W)
      else if m_logger_map W name = None then (False, W)
      else (True, W\<lparr>m_logger_map := (m_logger_map W)(name := None)\<rparr>))"

text \<open>\<open>None\<close> is the exception of \<^verbatim>\<open>at\<close>.\<close>

definition get_logger_by :: "string \<Rightarrow> log_world \<Rightarrow> nat option" where
  "get_logger_by name W = (case m_logger_map W name of None \<Rightarrow> m_logger_map W ''ROOT'' | Some i \<Rightarrow> Some i)"

section \<open>What is written where\<close>

fun app_level :: "Appender \<Rightarrow> Level" where
  "app_level (StdOutLogAppender f l) = l"
| "app_level (FileLogAppender a) = fa_level a"

fun app_formatter :: "Appender \<Rightarrow> LogFormatter" where
  "app_formatter (StdOutLogAppender f l) = f"
| "app_formatter (FileLogAppender a) = fa_formatter a"

fun is_stdout :: "Appender \<Rightarrow> bool" where
  "is_stdout (StdOutLogAppender f l) = True"
| "is_stdout (FileLogAppender a) = False"

text \<open>The file an appender writes to, if it has one open.\<close>

fun app_stream :: "Appender \<Rightarrow> string option" where
  "app_stream (StdOutLogAppender f l) = None"
| "app_stream (FileLogAppender a) = m_filestream a"

definition content :: "log_world \<Rightarrow> string \<Rightarrow> string" where
  "content W q = (case lw_files W q of None \<Rightarrow> [] | Some s \<Rightarrow> s)"

text \<open>
  The hours of a file: the interval is a positive number of hours and the file ends with it. \<open>current\<close> says
  that a record of the time \<open>now\<close> still belongs to the file.
\<close>

fun rotates :: "Appender \<Rightarrow> bool" where
  "rotates (StdOutLogAppender f l) = True"
| "rotates (FileLogAppender a) \<longleftrightarrow> 3600 \<le> m_interval a \<and> 3600 dvd m_interval a \<and> m_end_time a = m_start_time a + int (m_interval a)"

fun current :: "int \<Rightarrow> Appender \<Rightarrow> bool" where
  "current now (StdOutLogAppender f l) = True"
| "current now (FileLogAppender a) \<longleftrightarrow> now \<le> m_end_time a"

lemma FileLogAppender_new_rotates: "FileLogAppender_new le now now2 f l p n W = (a, W1) \<Longrightarrow> rotates (FileLogAppender a)"
  by (auto simp: FileLogAppender_new_def open_file_def Let_def)

lemma open_file_effect:
  assumes "open_file le now2 a W = (ok, a1, W1)"
  shows "content W1 = content W" "lw_stdout W1 = lw_stdout W" "lw_appenders W1 = lw_appenders W" "fa_level a1 = fa_level a"
    "fa_formatter a1 = fa_formatter a" "m_interval a1 = m_interval a" "m_end_time a1 = m_start_time a1 + int (m_interval a1)" "m_start_time a1 = now2"
  using assms by (auto simp: open_file_def Let_def content_def fun_eq_iff split: if_splits)

text \<open>One appender.\<close>

lemma Appender_log_effect:
  assumes "i < length (lw_appenders W)" "rotates (lw_appenders W ! i)" "now \<le> now2" "W1 = Appender_log le now now2 name level ev i W"
  defines "a \<equiv> lw_appenders W ! i" and "a1 \<equiv> lw_appenders W1 ! i"
  defines "txt \<equiv> LogFormatter_format (le_strftime le) (app_formatter a) name level ev"
  shows "length (lw_appenders W1) = length (lw_appenders W)" "\<forall>j. j \<noteq> i \<longrightarrow> lw_appenders W1 ! j = lw_appenders W ! j"
    "app_level a1 = app_level a" "app_formatter a1 = app_formatter a" "is_stdout a1 = is_stdout a" "rotates a1"
    "lw_stdout W1 = lw_stdout W @ (if app_level a \<le> level \<and> is_stdout a then txt else [])"
    "content W1 q = content W q @ (if app_level a \<le> level \<and> app_stream a1 = Some q then txt else [])"
    "app_level a \<le> level \<longrightarrow> current now a1" "current now a \<longrightarrow> app_stream a1 = app_stream a"
proof -
  have "length (lw_appenders W1) = length (lw_appenders W) \<and> (\<forall>j. j \<noteq> i \<longrightarrow> lw_appenders W1 ! j = lw_appenders W ! j) \<and>
    app_level a1 = app_level a \<and> app_formatter a1 = app_formatter a \<and> is_stdout a1 = is_stdout a \<and> rotates a1 \<and>
    lw_stdout W1 = lw_stdout W @ (if app_level a \<le> level \<and> is_stdout a then txt else []) \<and>
    (\<forall>q. content W1 q = content W q @ (if app_level a \<le> level \<and> app_stream a1 = Some q then txt else [])) \<and>
    (app_level a \<le> level \<longrightarrow> current now a1) \<and> (current now a \<longrightarrow> app_stream a1 = app_stream a)"
  proof (cases a)
    case (StdOutLogAppender f l)
    then show ?thesis using assms(1,4) unfolding a_def a1_def txt_def
      by (auto simp: Appender_log_def StdOutLogAppender_log_def content_def)
  next
    case (FileLogAppender b)
    show ?thesis
    proof (cases "fa_level b \<le> level")
      case False
      have "(lw_appenders W)[i := FileLogAppender b] = lw_appenders W" using list_update_id [of "lw_appenders W" i] FileLogAppender unfolding a_def by simp
      then have "W1 = W" using False FileLogAppender assms(4) unfolding a_def by (simp add: Appender_log_def FileLogAppender_log_def)
      then show ?thesis using False FileLogAppender assms(2) unfolding a_def a1_def by auto
    next
      case True
      obtain ok b3 W3 where of: "open_file le now2 (b\<lparr>m_start_time := now\<rparr>) W = (ok, b3, W3)" by (metis prod_cases3)
      obtain b2 W2 where o: "(if now > m_end_time b then snd (open_file le now2 (b\<lparr>m_start_time := now\<rparr>) W) else (b, W)) = (b2, W2)" by fastforce
      have e: "content W2 = content W" "lw_stdout W2 = lw_stdout W" "lw_appenders W2 = lw_appenders W" "fa_level b2 = fa_level b"
          "fa_formatter b2 = fa_formatter b" "rotates (FileLogAppender b2)" "now \<le> m_end_time b2" "now \<le> m_end_time b \<longrightarrow> b2 = b"
        using o of assms(2,3) FileLogAppender open_file_effect [OF of] unfolding a_def by (auto split: if_splits)
      have "W1 = (case m_filestream b2 of None \<Rightarrow> W2 | Some f \<Rightarrow> W2\<lparr>lw_files := (lw_files W2)(f \<mapsto> content W2 f @ txt)\<rparr>)\<lparr>lw_appenders := (lw_appenders W)[i := FileLogAppender b2]\<rparr>"
        using True o e(3,5) FileLogAppender assms(4) unfolding a_def txt_def
        by (simp add: Appender_log_def FileLogAppender_log_def content_def split: option.splits)
      then show ?thesis using assms(1) True FileLogAppender e unfolding a_def a1_def
        by (auto simp: content_def fun_eq_iff split: option.splits)
    qed
  qed
  then show "length (lw_appenders W1) = length (lw_appenders W)" "\<forall>j. j \<noteq> i \<longrightarrow> lw_appenders W1 ! j = lw_appenders W ! j"
    "app_level a1 = app_level a" "app_formatter a1 = app_formatter a" "is_stdout a1 = is_stdout a" "rotates a1"
    "lw_stdout W1 = lw_stdout W @ (if app_level a \<le> level \<and> is_stdout a then txt else [])"
    "content W1 q = content W q @ (if app_level a \<le> level \<and> app_stream a1 = Some q then txt else [])"
    "app_level a \<le> level \<longrightarrow> current now a1" "current now a \<longrightarrow> app_stream a1 = app_stream a" by blast+
qed

text \<open>The appenders of a list, one after the other.\<close>

definition deliveries :: "log_env \<Rightarrow> string \<Rightarrow> Level \<Rightarrow> LogEvent \<Rightarrow> log_world \<Rightarrow> (nat \<Rightarrow> bool) \<Rightarrow> nat list \<Rightarrow> string" where
  "deliveries le name level ev W P is =
     concat (map (\<lambda>i. LogFormatter_format (le_strftime le) (app_formatter (lw_appenders W ! i)) name level ev)
       (filter (\<lambda>i. app_level (lw_appenders W ! i) \<le> level \<and> P i) is))"

lemma deliveries_snoc:
  "deliveries le name level ev W P (is @ [i]) = deliveries le name level ev W P is @
     (if app_level (lw_appenders W ! i) \<le> level \<and> P i then LogFormatter_format (le_strftime le) (app_formatter (lw_appenders W ! i)) name level ev else [])"
  by (simp add: deliveries_def)

lemma deliveries_cong:
  "(\<And>i. i \<in> set is \<Longrightarrow> app_level (lw_appenders W ! i) \<le> level \<Longrightarrow> P i = Q i) \<Longrightarrow> deliveries le name level ev W P is = deliveries le name level ev W Q is"
  unfolding deliveries_def by (rule arg_cong [where f = concat], rule arg_cong2 [where f = map]) (auto intro: filter_cong)

lemma fold_appenders:
  assumes "now \<le> now2" "\<forall>i < length (lw_appenders W). rotates (lw_appenders W ! i)"
  shows "\<forall>i \<in> set is. i < length (lw_appenders W) \<Longrightarrow> W1 = fold (Appender_log le now now2 name level ev) is W \<Longrightarrow>
    length (lw_appenders W1) = length (lw_appenders W) \<and>
    (\<forall>i < length (lw_appenders W). rotates (lw_appenders W1 ! i) \<and> app_level (lw_appenders W1 ! i) = app_level (lw_appenders W ! i) \<and>
       app_formatter (lw_appenders W1 ! i) = app_formatter (lw_appenders W ! i) \<and> is_stdout (lw_appenders W1 ! i) = is_stdout (lw_appenders W ! i)) \<and>
    (\<forall>i \<in> set is. app_level (lw_appenders W ! i) \<le> level \<longrightarrow> current now (lw_appenders W1 ! i)) \<and>
    lw_stdout W1 = lw_stdout W @ deliveries le name level ev W (\<lambda>i. is_stdout (lw_appenders W ! i)) is \<and>
    (\<forall>q. content W1 q = content W q @ deliveries le name level ev W (\<lambda>i. app_stream (lw_appenders W1 ! i) = Some q) is)"
proof (induction "is" arbitrary: W1 rule: rev_induct)
  case Nil
  then show ?case using assms(2) by (simp add: deliveries_def)
next
  case (snoc j js)
  define W2 where "W2 = fold (Appender_log le now now2 name level ev) js W"
  have m: "\<forall>i \<in> set js. i < length (lw_appenders W)" and j: "j < length (lw_appenders W)" using snoc.prems(1) by auto
  note ih = snoc.IH [OF m W2_def]
  have W1: "W1 = Appender_log le now now2 name level ev j W2" using snoc.prems(2) by (simp add: W2_def)
  have j2: "j < length (lw_appenders W2)" "rotates (lw_appenders W2 ! j)" using ih j by auto
  note e = Appender_log_effect [OF j2 assms(1) W1]
  have same: "lw_appenders W1 ! i = lw_appenders W2 ! i \<or> i = j" for i using e(2) by blast
  have s: "app_stream (lw_appenders W1 ! i) = app_stream (lw_appenders W2 ! i)" if "i \<in> set js" "app_level (lw_appenders W ! i) \<le> level" for i
    using that ih same [of i] e(10) by auto
  have d: "deliveries le name level ev W (\<lambda>i. app_stream (lw_appenders W1 ! i) = Some q) js =
      deliveries le name level ev W (\<lambda>i. app_stream (lw_appenders W2 ! i) = Some q) js" for q
    by (rule deliveries_cong) (simp add: s)
  have c: "content W1 q = content W q @ deliveries le name level ev W (\<lambda>i. app_stream (lw_appenders W1 ! i) = Some q) (js @ [j])" for q
    using e(8) [of q] ih j by (simp add: deliveries_snoc d)
  have o: "lw_stdout W1 = lw_stdout W @ deliveries le name level ev W (\<lambda>i. is_stdout (lw_appenders W ! i)) (js @ [j])"
    using e(7) ih j by (simp add: deliveries_snoc)
  have f: "rotates (lw_appenders W1 ! i) \<and> app_level (lw_appenders W1 ! i) = app_level (lw_appenders W ! i) \<and>
       app_formatter (lw_appenders W1 ! i) = app_formatter (lw_appenders W ! i) \<and> is_stdout (lw_appenders W1 ! i) = is_stdout (lw_appenders W ! i)"
    if "i < length (lw_appenders W)" for i
    using that ih same [of i] e(3-6) j by auto
  have k: "current now (lw_appenders W1 ! i)" if "i \<in> set (js @ [j])" "app_level (lw_appenders W ! i) \<le> level" for i
    using that ih same [of i] e(9) j by (cases "i = j") auto
  show ?case using c o f k e(1) ih by simp
qed

section \<open>Theorems\<close>

text \<open>
  C33: What a logger writes. An event below the level of the logger is dropped. Otherwise the standard
  output and every file get, in the order of the appenders, exactly the formatted text of those
  appenders whose level the event reaches: an appender to the standard output, or one that has
  the file open, after a new file was begun where the interval of the old one had passed.
\<close>

theorem log_delivery:
  assumes "now \<le> now2" "\<forall>i < length (lw_appenders W). rotates (lw_appenders W ! i)" "\<forall>i \<in> set (m_appenders l). i < length (lw_appenders W)"
    "W1 = Logger_log le now now2 level ev l W"
  shows "if level < lg_level l then W1 = W
    else lw_stdout W1 = lw_stdout W @ deliveries le (lg_name l) level ev W (\<lambda>i. is_stdout (lw_appenders W ! i)) (m_appenders l) \<and>
      (\<forall>q. content W1 q = content W q @ deliveries le (lg_name l) level ev W (\<lambda>i. app_stream (lw_appenders W1 ! i) = Some q) (m_appenders l)) \<and>
      (\<forall>i \<in> set (m_appenders l). rotates (lw_appenders W1 ! i) \<and> (app_level (lw_appenders W ! i) \<le> level \<longrightarrow> current now (lw_appenders W1 ! i)))"
proof (cases "level < lg_level l")
  case False
  then have "W1 = fold (Appender_log le now now2 (lg_name l) level ev) (m_appenders l) W" using assms(4) by (simp add: Logger_log_def)
  from fold_appenders [OF assms(1,2,3) this] show ?thesis using False assms(3) by simp
qed (use assms(4) in \<open>simp add: Logger_log_def\<close>)

definition event_example :: "string \<Rightarrow> LogEvent" where
  "event_example s = \<lparr>ev_level = INFO, ev_file = ''a.cc'', ev_line = 7, ev_thread_id = 1, ev_co_id = 0, ev_time = 5000, ev_thread_name = ''w'', ev_ss = s\<rparr>"

definition log_example :: log_world where
  "log_example = \<lparr>lw_stdout = ''>'', lw_files = Map.empty,
     lw_appenders = [StdOutLogAppender (LogFormatter_new ''%m'') DEBUG,
       FileLogAppender \<lparr>fa_formatter = LogFormatter_new ''%m'', fa_level = WARN, m_path = ''a'', m_interval = 7200, m_start_time = 0,
         m_end_time = 7200, m_filestream = Some ''a.log.0''\<rparr>],
     lw_loggers = [], m_logger_map = Map.empty\<rparr>"

theorem log_delivery_witness:
  "lw_stdout (Logger_log \<lparr>le_strftime = \<lambda>f t. f, le_opens = \<lambda>p. True\<rparr> 9 9 INFO (event_example ''hi'')
       \<lparr>lg_name = ''x'', lg_level = DEBUG, m_appenders = [0, 1]\<rparr> log_example) = ''>hi''"
proof -
  let ?le = "\<lparr>le_strftime = \<lambda>f t. f, le_opens = \<lambda>p. True\<rparr>" and ?l = "\<lparr>lg_name = ''x'', lg_level = DEBUG, m_appenders = [0, 1]\<rparr>"
  have r: "\<forall>i < length (lw_appenders log_example). rotates (lw_appenders log_example ! i)"
    "\<forall>i \<in> set (m_appenders ?l). i < length (lw_appenders log_example)"
    by (auto simp: log_example_def nth_Cons' less_Suc_eq)
  have f: "init_loop ''%m'' 0 [] [] = [(''m'', [], True)]" by (simp add: init_loop.simps scan.simps isalpha_def)
  have d: "deliveries ?le ''x'' INFO (event_example ''hi'') log_example (\<lambda>i. is_stdout (lw_appenders log_example ! i)) [0, 1] = ''hi''"
    by (simp add: deliveries_def log_example_def LogFormatter_format_def LogFormatter_new_def f s_format_items_def event_example_def less_eq_Level_def)
  have "lw_stdout log_example = ''>''" by (simp add: log_example_def)
  then show ?thesis using log_delivery [OF _ r refl, where now = 9 and ?now2.0 = 9 and le = ?le and level = INFO and ev = "event_example ''hi''"] d
    by (simp add: less_Level_def)
qed

text \<open>Looking up a logger throws exactly when neither the name nor the root logger is known, which deleting the root logger brings about.\<close>

lemma root_deleted:
  "m_logger_map W ''ROOT'' = Some r \<Longrightarrow> m_logger_map W name = None \<Longrightarrow>
     get_logger_by name W = Some r \<and> (\<exists>W1. del_logger ''ROOT'' W = (True, W1) \<and> get_logger_by name W1 = None)"
  by (auto simp: get_logger_by_def del_logger_def)

end
