(* ===== verification/Config.thy ===== *)
theory Config
  imports Log
begin

text \<open>
  The configuration of \<^verbatim>\<open>src/config.h\<close> and \<^verbatim>\<open>src/config.cc\<close>, and the definitions of loggers in \<^verbatim>\<open>src/log.cc\<close>, which are
  read with it. A YAML document is the datatype \<open>Node\<close>; reading a text (\<^verbatim>\<open>YAML::Load\<close>, which may throw: \<open>None\<close>) and
  printing a node are the arguments \<open>load\<close> and \<open>emit\<close>, and what is asked of them is the locale \<open>yaml\<close>. The conversion
  of one type to text and back is a pair of functions, whose contract is the locale \<open>lexical\<close>: the conversions
  of containers are interpretations of it.
\<close>

section \<open>Documents\<close>

datatype Node = Null | Scalar string | Sequence "Node list" | Mapping "(string \<times> Node) list"

text \<open>
  \<^verbatim>\<open>root[i]\<close> for the indices below \<^verbatim>\<open>root.size()\<close>: the elements of a sequence; in a map, what the numbers are keys of, where \<open>None\<close>
  is a node that is not defined, which is printed as the empty text (keys that write a number in another base
  are left out). Then the iteration over the pairs of a map, which throws for the elements of a sequence, and \<^verbatim>\<open>Scalar()\<close>.
\<close>

fun elements :: "Node \<Rightarrow> Node option list" where
  "elements (Sequence ns) = map Some ns"
| "elements (Mapping ps) = map (\<lambda>i. map_of ps (show_base 10 i)) [0..<length ps]"
| "elements n = []"

definition emit_at :: "(Node \<Rightarrow> string) \<Rightarrow> Node option \<Rightarrow> string" where
  "emit_at emit n = (case n of None \<Rightarrow> [] | Some n \<Rightarrow> emit n)"

fun pairs :: "Node \<Rightarrow> (string \<times> Node) list option" where
  "pairs (Mapping ps) = Some ps"
| "pairs (Sequence ns) = (if ns = [] then Some [] else None)"
| "pairs n = Some []"

fun scalar :: "Node \<Rightarrow> string" where
  "scalar (Scalar s) = s"
| "scalar n = []"

text \<open>\<^verbatim>\<open>push_back\<close> on a node that has no value makes it a sequence.\<close>

definition node_of_texts :: "string list \<Rightarrow> Node" where
  "node_of_texts ts = (if ts = [] then Null else Sequence (map Scalar ts))"

definition node_of_pairs :: "(string \<times> Node) list \<Rightarrow> Node" where
  "node_of_pairs ps = (if ps = [] then Null else Mapping ps)"

section \<open>Conversions\<close>

text \<open>Elements are converted until one fails.\<close>

fun cast_all :: "('a \<Rightarrow> 'b option) \<Rightarrow> 'a list \<Rightarrow> 'b list option" where
  "cast_all f [] = Some []"
| "cast_all f (x # xs) = (case f x of None \<Rightarrow> None | Some y \<Rightarrow> map_option ((#) y) (cast_all f xs))"

definition vector_from_string :: "(string \<Rightarrow> Node option) \<Rightarrow> (Node \<Rightarrow> string) \<Rightarrow> (string \<Rightarrow> 'a option) \<Rightarrow> string \<Rightarrow> 'a list option" where
  "vector_from_string load emit cast str =
     (case load str of None \<Rightarrow> None | Some root \<Rightarrow> cast_all (\<lambda>n. cast (emit_at emit n)) (elements root))"

definition vector_to_string :: "(Node \<Rightarrow> string) \<Rightarrow> ('a \<Rightarrow> string) \<Rightarrow> 'a list \<Rightarrow> string" where
  "vector_to_string emit cast v = emit (node_of_texts (map cast v))"

text \<open>The same for lists.\<close>

definition list_from_string :: "(string \<Rightarrow> Node option) \<Rightarrow> (Node \<Rightarrow> string) \<Rightarrow> (string \<Rightarrow> 'a option) \<Rightarrow> string \<Rightarrow> 'a list option" where
  "list_from_string load emit cast str =
     (case load str of None \<Rightarrow> None | Some root \<Rightarrow> cast_all (\<lambda>n. cast (emit_at emit n)) (elements root))"

definition list_to_string :: "(Node \<Rightarrow> string) \<Rightarrow> ('a \<Rightarrow> string) \<Rightarrow> 'a list \<Rightarrow> string" where
  "list_to_string emit cast v = emit (node_of_texts (map cast v))"

text \<open>Sets: the elements are inserted in order, and printed in the order of the set.\<close>

definition set_from_string :: "(string \<Rightarrow> Node option) \<Rightarrow> (Node \<Rightarrow> string) \<Rightarrow> (string \<Rightarrow> 'a option) \<Rightarrow> string \<Rightarrow> 'a set option" where
  "set_from_string load emit cast str = map_option set (vector_from_string load emit cast str)"

definition set_to_string :: "(Node \<Rightarrow> string) \<Rightarrow> ('a :: linorder \<Rightarrow> string) \<Rightarrow> 'a set \<Rightarrow> string" where
  "set_to_string emit cast v = emit (node_of_texts (map cast (sorted_list_of_set v)))"

text \<open>Unordered sets are printed in the order \<open>v\<close> in which their elements are gone through.\<close>

definition unordered_set_from_string :: "(string \<Rightarrow> Node option) \<Rightarrow> (Node \<Rightarrow> string) \<Rightarrow> (string \<Rightarrow> 'a option) \<Rightarrow> string \<Rightarrow> 'a set option" where
  "unordered_set_from_string load emit cast str = map_option set (vector_from_string load emit cast str)"

definition unordered_set_to_string :: "(Node \<Rightarrow> string) \<Rightarrow> ('a \<Rightarrow> string) \<Rightarrow> 'a list \<Rightarrow> string" where
  "unordered_set_to_string emit cast v = emit (node_of_texts (map cast v))"

text \<open>Maps: a key that is there already keeps its value.\<close>

fun insert_pairs :: "(string \<times> 'a) list \<Rightarrow> (string \<rightharpoonup> 'a) \<Rightarrow> (string \<rightharpoonup> 'a)" where
  "insert_pairs [] m = m"
| "insert_pairs ((k, x) # ps) m = insert_pairs ps (if m k = None then m(k \<mapsto> x) else m)"

definition cast_pair :: "(Node \<Rightarrow> 'a option) \<Rightarrow> string \<times> Node \<Rightarrow> (string \<times> 'a) option" where
  "cast_pair f = (\<lambda>(k, n). map_option (Pair k) (f n))"

definition map_from_string ::
    "(string \<Rightarrow> Node option) \<Rightarrow> (Node \<Rightarrow> string) \<Rightarrow> (string \<Rightarrow> 'a option) \<Rightarrow> string \<Rightarrow> (string \<rightharpoonup> 'a) option" where
  "map_from_string load emit cast str =
     (case Option.bind (load str) pairs of
        None \<Rightarrow> None
      | Some qs \<Rightarrow> map_option (\<lambda>ps. insert_pairs ps Map.empty) (cast_all (cast_pair (\<lambda>n. cast (emit n))) qs))"

text \<open>\<open>v\<close> are the pairs of the map in its order; the values are read as documents before they are put in.\<close>

definition map_to_string :: "(string \<Rightarrow> Node option) \<Rightarrow> (Node \<Rightarrow> string) \<Rightarrow> ('a \<Rightarrow> string) \<Rightarrow> (string \<times> 'a) list \<Rightarrow> string option" where
  "map_to_string load emit cast v =
     map_option (\<lambda>ps. emit (node_of_pairs ps)) (cast_all (\<lambda>(k, x). map_option (Pair k) (load (cast x))) v)"

text \<open>The unordered map takes the text of scalars as values.\<close>

definition unordered_map_from_string :: "(string \<Rightarrow> Node option) \<Rightarrow> (string \<Rightarrow> 'a option) \<Rightarrow> string \<Rightarrow> (string \<rightharpoonup> 'a) option" where
  "unordered_map_from_string load cast str =
     (case Option.bind (load str) pairs of
        None \<Rightarrow> None
      | Some qs \<Rightarrow> map_option (\<lambda>ps. insert_pairs ps Map.empty) (cast_all (cast_pair (\<lambda>n. cast (scalar n))) qs))"

definition unordered_map_to_string :: "(Node \<Rightarrow> string) \<Rightarrow> ('a \<Rightarrow> string) \<Rightarrow> (string \<times> 'a) list \<Rightarrow> string" where
  "unordered_map_to_string emit cast v = emit (node_of_pairs (map (\<lambda>(k, x). (k, Scalar (cast x))) v))"

section \<open>Variables\<close>

text \<open>
  The variables are shared objects of several types: \<open>'t\<close> names a type and \<open>'v\<close> holds the values of all.
  \<open>cast\<close> converts a text to a value of a type.
\<close>

record ('t, 'v) ConfigVar =
  cv_name :: string
  cv_desc :: string
  cv_type :: 't
  m_val :: 'v

record ('t, 'v) config =
  S_DATAS :: "string \<rightharpoonup> nat"
  cf_vars :: "('t, 'v) ConfigVar list"

definition from_string :: "('t \<Rightarrow> string \<Rightarrow> 'v option) \<Rightarrow> string \<Rightarrow> ('t, 'v) ConfigVar \<Rightarrow> bool \<times> ('t, 'v) ConfigVar" where
  "from_string cast str v = (case cast (cv_type v) str of None \<Rightarrow> (False, v) | Some x \<Rightarrow> (True, v\<lparr>m_val := x\<rparr>))"

definition to_string :: "('t \<Rightarrow> 'v \<Rightarrow> string option) \<Rightarrow> ('t, 'v) ConfigVar \<Rightarrow> string" where
  "to_string print v = (case print (cv_type v) (m_val v) of None \<Rightarrow> [] | Some s \<Rightarrow> s)"

definition LookupBase :: "string \<Rightarrow> ('t, 'v) config \<Rightarrow> nat option" where
  "LookupBase name c = S_DATAS c name"

text \<open>\<^verbatim>\<open>Lookup<T>(name)\<close>: null when the variable has another type.\<close>

definition Lookup_type :: "'t \<Rightarrow> string \<Rightarrow> ('t, 'v) config \<Rightarrow> nat option" where
  "Lookup_type t name c =
     (case S_DATAS c name of None \<Rightarrow> None | Some i \<Rightarrow> if cv_type (cf_vars c ! i) = t then Some i else None)"

text \<open>\<^verbatim>\<open>Lookup<T>(name, def, desc)\<close>; \<open>None\<close> is the exception.\<close>

definition Config_Lookup :: "'t \<Rightarrow> string \<Rightarrow> 'v \<Rightarrow> string \<Rightarrow> ('t, 'v) config \<Rightarrow> (nat \<times> ('t, 'v) config) option" where
  "Config_Lookup t name dflt desc c =
     (case Lookup_type t name c of
        Some i \<Rightarrow> Some (i, c)
      | None \<Rightarrow>
          if \<not> IsValidName name then None
          else Some (length (cf_vars c),
            c\<lparr>S_DATAS := (S_DATAS c)(name \<mapsto> length (cf_vars c)),
              cf_vars := cf_vars c @ [\<lparr>cv_name = name, cv_desc = desc, cv_type = t, m_val = dflt\<rparr>]\<rparr>))"

section \<open>Loading\<close>

fun list_all_member :: "Node \<Rightarrow> string \<Rightarrow> (string \<times> Node) list" where
  "list_all_member (Mapping ps) prefix =
     (if \<not> IsValidName prefix \<or> prefix = [] then []
      else (prefix, Mapping ps) # concat (map (\<lambda>(k, n). list_all_member n (prefix @ ''.'' @ k)) ps))"
| "list_all_member root prefix = (if \<not> IsValidName prefix \<or> prefix = [] then [] else [(prefix, root)])"

definition node_text :: "(Node \<Rightarrow> string) \<Rightarrow> Node \<Rightarrow> string" where
  "node_text emit n = (case n of Scalar s \<Rightarrow> s | _ \<Rightarrow> emit n)"

definition load_one :: "(Node \<Rightarrow> string) \<Rightarrow> ('t \<Rightarrow> string \<Rightarrow> 'v option) \<Rightarrow> string \<times> Node \<Rightarrow> ('t, 'v) config \<Rightarrow> ('t, 'v) config" where
  "load_one emit cast = (\<lambda>(name, n) c.
     case LookupBase name c of
       None \<Rightarrow> c
     | Some i \<Rightarrow> c\<lparr>cf_vars := (cf_vars c)[i := snd (from_string cast (node_text emit n) (cf_vars c ! i))]\<rparr>)"

text \<open>\<open>doc\<close> is the document in the file, or the exception.\<close>

definition LoadFromYmal :: "(Node \<Rightarrow> string) \<Rightarrow> ('t \<Rightarrow> string \<Rightarrow> 'v option) \<Rightarrow> string \<Rightarrow> Node option \<Rightarrow> ('t, 'v) config \<Rightarrow> ('t, 'v) config option" where
  "LoadFromYmal emit cast name doc c = map_option (\<lambda>root. fold (load_one emit cast) (list_all_member root name) c) doc"

section \<open>Definitions of loggers\<close>

text \<open>
  \<^verbatim>\<open>root[key]\<close> and \<^verbatim>\<open>as<std::string>()\<close>, which throws for a node that is not a scalar. The interval of an appender that
  is not one of a file is not set; 0 stands for it.
\<close>

definition node_field :: "string \<Rightarrow> Node \<Rightarrow> Node option" where
  "node_field key n = Option.bind (pairs n) (\<lambda>ps. map_of ps key)"

fun as_string :: "Node option \<Rightarrow> string option" where
  "as_string (Some (Scalar s)) = Some s"
| "as_string n = None"

definition appender_from_node :: "(string \<Rightarrow> int option) \<Rightarrow> Node \<Rightarrow> AppenderDefine option" where
  "appender_from_node as_int it =
     (case as_string (node_field ''type'' it) of None \<Rightarrow> None | Some t \<Rightarrow>
      (case as_string (node_field ''level'' it) of None \<Rightarrow> None | Some l \<Rightarrow>
        if t = ''FileLogAppender'' then
          (case as_string (node_field ''file'' it) of None \<Rightarrow> None | Some f \<Rightarrow>
           (case Option.bind (as_string (node_field ''interval'' it)) as_int of None \<Rightarrow> None | Some i \<Rightarrow>
             Some \<lparr>ad_type = t, ad_level = FromString l, ad_file = f, ad_interval = i\<rparr>))
        else Some \<lparr>ad_type = t, ad_level = FromString l, ad_file = [], ad_interval = 0\<rparr>))"

definition logger_from_node :: "(string \<Rightarrow> int option) \<Rightarrow> Node \<Rightarrow> LoggerDefine option" where
  "logger_from_node as_int root =
     (case as_string (node_field ''name'' root) of None \<Rightarrow> None | Some name \<Rightarrow>
      (case as_string (node_field ''level'' root) of None \<Rightarrow> None | Some level \<Rightarrow>
       (case as_string (node_field ''formater'' root) of None \<Rightarrow> None | Some fmt \<Rightarrow>
        (case cast_all (\<lambda>it. Option.bind it (appender_from_node as_int)) (case node_field ''appenders'' root of None \<Rightarrow> [] | Some n \<Rightarrow> elements n) of
           None \<Rightarrow> None
         | Some as \<Rightarrow> Some \<lparr>ld_name = name, ld_level = FromString level, ld_formater = fmt, ld_appenders = as\<rparr>))))"

definition logger_from_string :: "(string \<Rightarrow> Node option) \<Rightarrow> (string \<Rightarrow> int option) \<Rightarrow> string \<Rightarrow> LoggerDefine option" where
  "logger_from_string load as_int str = Option.bind (load str) (logger_from_node as_int)"

definition appender_to_node :: "AppenderDefine \<Rightarrow> Node" where
  "appender_to_node a =
     Mapping ([(''type'', Scalar (ad_type a)), (''level'', Scalar (ToString (ad_level a)))] @
       (if ad_type a = ''FileLogAppender'' then [(''file'', Scalar (ad_file a)), (''interval'', Scalar (show_int (ad_interval a)))] else []))"

definition logger_to_node :: "LoggerDefine \<Rightarrow> Node" where
  "logger_to_node v =
     Mapping ([(''name'', Scalar (ld_name v)), (''level'', Scalar (ToString (ld_level v))), (''formater'', Scalar (ld_formater v))] @
       (if ld_appenders v = [] then [] else [(''appenders'', Sequence (map appender_to_node (ld_appenders v)))]))"

definition logger_to_string :: "(Node \<Rightarrow> string) \<Rightarrow> LoggerDefine \<Rightarrow> string" where
  "logger_to_string emit v = emit (logger_to_node v)"

text \<open>
  \<^verbatim>\<open>LoggerMgr::add_loggers\<close>, which throws (\<open>None\<close>) when the name or the file is not valid; the variable has been made then.
  \<open>t\<close> is the type of a vector of definitions, \<open>mk\<close> and \<open>defs_of\<close> put one into a value and take it out.
\<close>

definition LoggerMgr_add_loggers ::
    "(Node \<Rightarrow> string) \<Rightarrow> ('t \<Rightarrow> string \<Rightarrow> 'v option) \<Rightarrow> 't \<Rightarrow> (LoggerDefine list \<Rightarrow> 'v) \<Rightarrow> ('v \<Rightarrow> LoggerDefine list) \<Rightarrow> log_env \<Rightarrow> int \<Rightarrow> int \<Rightarrow>
     string \<Rightarrow> Node option \<Rightarrow> ('t, 'v) config \<Rightarrow> log_world \<Rightarrow> bool option \<times> ('t, 'v) config \<times> log_world" where
  "LoggerMgr_add_loggers emit cast t mk defs_of le now now2 name doc c W =
     (case Config_Lookup t (name @ ''.log'') (mk []) ''__logs__'' c of
        None \<Rightarrow> (None, c, W)
      | Some (i, c1) \<Rightarrow>
          (case LoadFromYmal emit cast name doc c1 of
             None \<Rightarrow> (None, c1, W)
           | Some c2 \<Rightarrow> (case add_loggers le now now2 (defs_of (m_val (cf_vars c2 ! i))) W of (suc, W1) \<Rightarrow> (Some suc, c2, W1))))"

section \<open>Contracts\<close>

text \<open>Conversion of the values in \<open>ok\<close> to text and back.\<close>

locale lexical =
  fixes print :: "'a \<Rightarrow> string" and parse :: "string \<Rightarrow> 'a option" and ok :: "'a set"
  assumes round_trip: "x \<in> ok \<Longrightarrow> parse (print x) = Some x"

text \<open>The documents that are read back from what is printed, and the texts that are printed as they are.\<close>

locale yaml =
  fixes load :: "string \<Rightarrow> Node option" and emit :: "Node \<Rightarrow> string" and docs :: "Node set" and plain :: "string set"
  assumes load_emit: "n \<in> docs \<Longrightarrow> load (emit n) = Some n"
    and emit_plain: "t \<in> plain \<Longrightarrow> emit (Scalar t) = t"

lemma cast_all_map: "(\<And>x. x \<in> set xs \<Longrightarrow> f (g x) = Some (h x)) \<Longrightarrow> cast_all f (map g xs) = Some (map h xs)"
  by (induction xs) auto

lemma elements_texts: "elements (node_of_texts ts) = map (\<lambda>t. Some (Scalar t)) ts"
  by (simp add: node_of_texts_def)

lemma emit_at_Some [simp]: "emit_at emit (Some n) = emit n"
  by (simp add: emit_at_def)

lemma pairs_pairs: "pairs (node_of_pairs ps) = Some ps"
  by (simp add: node_of_pairs_def)

lemma insert_pairs_map_of: "insert_pairs ps m = map_of ps ++ m" if "distinct (map fst ps)" "dom m \<inter> fst ` set ps = {}"
  using that
proof (induction ps arbitrary: m)
  case (Cons p ps)
  obtain k x where p: "p = (k, x)" by fastforce
  have k: "m k = None" using Cons.prems(2) p by auto
  have "insert_pairs ps (m(k \<mapsto> x)) = map_of ps ++ m(k \<mapsto> x)"
    by (rule Cons.IH) (use Cons.prems p in \<open>force simp: disjoint_iff image_iff split: if_splits\<close>)+
  moreover have "map_of ps ++ m(k \<mapsto> x) = map_of (p # ps) ++ m"
  proof
    fix y
    have "k \<notin> fst ` set ps" using Cons.prems(1) p by auto
    then show "(map_of ps ++ m(k \<mapsto> x)) y = (map_of (p # ps) ++ m) y" using p k
      by (cases "y = k") (auto simp: map_add_def map_of_eq_None_iff split: option.splits)
  qed
  ultimately show ?case using p k by (simp add: fun_upd_def)
qed simp

context yaml
begin

lemma vector_lexical:
  assumes "lexical print parse ok" "\<And>v. v \<in> vs \<Longrightarrow> node_of_texts (map print v) \<in> docs \<and> (\<forall>x \<in> set v. x \<in> ok \<and> print x \<in> plain)"
  shows "lexical (vector_to_string emit print) (vector_from_string load emit parse) vs"
proof
  fix v
  assume "v \<in> vs"
  note a = assms(2) [OF this]
  have "cast_all (\<lambda>n. parse (emit_at emit n)) (map (\<lambda>x. Some (Scalar (print x))) v) = Some (map (\<lambda>x. x) v)"
    by (rule cast_all_map) (use a assms(1) in \<open>simp add: emit_plain lexical_def\<close>)
  then show "vector_from_string load emit parse (vector_to_string emit print v) = Some v"
    using a by (simp add: vector_from_string_def vector_to_string_def load_emit elements_texts comp_def)
qed

lemma set_lexical:
  fixes print :: "'a :: linorder \<Rightarrow> string"
  assumes "lexical print parse ok"
    "\<And>v. v \<in> vs \<Longrightarrow> finite v \<and> node_of_texts (map print (sorted_list_of_set v)) \<in> docs \<and> (\<forall>x \<in> v. x \<in> ok \<and> print x \<in> plain)"
  shows "lexical (set_to_string emit print) (set_from_string load emit parse) vs"
proof
  fix v
  assume v: "v \<in> vs"
  have l: "lexical (vector_to_string emit print) (vector_from_string load emit parse) {sorted_list_of_set v}"
    by (rule vector_lexical [OF assms(1)]) (use assms(2) [OF v] in auto)
  have "vector_from_string load emit parse (vector_to_string emit print (sorted_list_of_set v)) = Some (sorted_list_of_set v)"
    by (rule lexical.round_trip [OF l]) simp
  then show "set_from_string load emit parse (set_to_string emit print v) = Some v"
    using assms(2) [OF v] by (simp add: set_from_string_def set_to_string_def vector_to_string_def)
qed

text \<open>Values of a map are read as documents, so they may be containers themselves.\<close>

lemma map_round:
  assumes "distinct (map fst v)" "\<forall>(k, x) \<in> set v. load (print x) = Some (doc x) \<and> parse (emit (doc x)) = Some x"
    "node_of_pairs (map (\<lambda>(k, x). (k, doc x)) v) \<in> docs"
  shows "Option.bind (map_to_string load emit print v) (map_from_string load emit parse) = Some (map_of v)"
proof -
  have c: "cast_all (\<lambda>(k, x). map_option (Pair k) (load (print x))) (map (\<lambda>x. x) v) = Some (map (\<lambda>(k, x). (k, doc x)) v)"
    by (rule cast_all_map) (use assms(2) in auto)
  have d: "cast_all (cast_pair (\<lambda>n. parse (emit n))) (map (\<lambda>(k, x). (k, doc x)) v) = Some (map (\<lambda>x. x) v)"
    by (rule cast_all_map) (use assms(2) in \<open>auto simp: cast_pair_def\<close>)
  have "insert_pairs v Map.empty = map_of v" using insert_pairs_map_of [OF assms(1), of Map.empty] by simp
  then show ?thesis using c d by (simp add: map_to_string_def map_from_string_def load_emit [OF assms(3)] pairs_pairs)
qed

lemma unordered_map_round:
  assumes "lexical print parse ok" "distinct (map fst v)" "\<forall>(k, x) \<in> set v. x \<in> ok"
    "node_of_pairs (map (\<lambda>(k, x). (k, Scalar (print x))) v) \<in> docs"
  shows "unordered_map_from_string load parse (unordered_map_to_string emit print v) = Some (map_of v)"
proof -
  have d: "cast_all (cast_pair (\<lambda>n. parse (scalar n))) (map (\<lambda>(k, x). (k, Scalar (print x))) v) = Some (map (\<lambda>x. x) v)"
    by (rule cast_all_map) (use assms(1,3) in \<open>auto simp: cast_pair_def lexical_def\<close>)
  have "insert_pairs v Map.empty = map_of v" using insert_pairs_map_of [OF assms(2), of Map.empty] by simp
  then show ?thesis using d by (simp add: unordered_map_to_string_def unordered_map_from_string_def load_emit [OF assms(4)] pairs_pairs)
qed

text \<open>A sequence inside a sequence is printed as a text, and reading it finds no elements.\<close>

lemma nested_empty:
  assumes "node_of_texts (map (vector_to_string emit print) vs) \<in> docs" "\<forall>v \<in> set vs. Scalar (vector_to_string emit print v) \<in> docs"
  shows "vector_from_string load emit (vector_from_string load emit parse) (vector_to_string emit (vector_to_string emit print) vs) = Some (map (\<lambda>v. []) vs)"
proof -
  have "cast_all (\<lambda>n. vector_from_string load emit parse (emit_at emit n)) (map (\<lambda>v. Some (Scalar (vector_to_string emit print v))) vs) = Some (map (\<lambda>v. []) vs)"
    by (rule cast_all_map) (use assms(2) in \<open>simp add: vector_from_string_def load_emit\<close>)
  then show ?thesis
    using assms(1) by (simp add: vector_from_string_def [of load emit "vector_from_string load emit parse"] vector_to_string_def [of emit "vector_to_string emit print"]
      load_emit elements_texts comp_def)
qed

end

section \<open>What is loaded\<close>

text \<open>The documents inside a document, with the names the paths to them give.\<close>

inductive inside_doc :: "Node \<Rightarrow> string \<Rightarrow> string \<Rightarrow> Node \<Rightarrow> bool" for root prefix where
  inside_root: "IsValidName prefix \<Longrightarrow> prefix \<noteq> [] \<Longrightarrow> inside_doc root prefix prefix root"
| inside_member: "inside_doc root prefix name (Mapping ps) \<Longrightarrow> (k, n) \<in> set ps \<Longrightarrow> IsValidName (name @ ''.'' @ k) \<Longrightarrow>
    inside_doc root prefix (name @ ''.'' @ k) n"

lemma inside_sub:
  "inside_doc n (prefix @ ''.'' @ k) name m \<Longrightarrow> (k, n) \<in> set ps \<Longrightarrow> IsValidName prefix \<Longrightarrow> prefix \<noteq> [] \<Longrightarrow> inside_doc (Mapping ps) prefix name m"
proof (induction rule: inside_doc.induct)
  case inside_root
  then show ?case using inside_doc.inside_member [OF inside_doc.inside_root] by blast
next
  case (inside_member name qs j p)
  then show ?case using inside_doc.inside_member by blast
qed

lemma list_all_member_complete: "(name, m) \<in> set (list_all_member root prefix) \<Longrightarrow> inside_doc root prefix name m"
proof (induction root prefix arbitrary: name m rule: list_all_member.induct)
  case (1 ps prefix)
  then have v: "IsValidName prefix" "prefix \<noteq> []" by (auto split: if_splits)
  from 1(2) v consider "name = prefix" "m = Mapping ps" | k n where "(k, n) \<in> set ps" "(name, m) \<in> set (list_all_member n (prefix @ ''.'' @ k))"
    by auto
  then show ?case
  proof cases
    case 1
    then show ?thesis using v by (simp add: inside_root)
  next
    case (2 k n)
    then have "inside_doc n (prefix @ ''.'' @ k) name m" using 1(1) v by fastforce
    then show ?thesis using 2(1) v by (rule inside_sub)
  qed
qed (auto split: if_splits intro: inside_root)

lemma list_all_member_step:
  "(name, Mapping ps) \<in> set (list_all_member root prefix) \<Longrightarrow> (k, n) \<in> set ps \<Longrightarrow> IsValidName (name @ ''.'' @ k) \<Longrightarrow>
     (name @ ''.'' @ k, n) \<in> set (list_all_member root prefix)"
proof (induction root prefix arbitrary: name ps rule: list_all_member.induct)
  case (1 qs prefix)
  then have v: "IsValidName prefix" "prefix \<noteq> []" by (auto split: if_splits)
  from 1(2) v consider "name = prefix" "ps = qs" | j p where "(j, p) \<in> set qs" "(name, Mapping ps) \<in> set (list_all_member p (prefix @ ''.'' @ j))"
    by auto
  then show ?case
  proof cases
    case 1
    have "(prefix @ ''.'' @ k, n) \<in> set (list_all_member n (prefix @ ''.'' @ k))"
      using \<open>IsValidName (name @ ''.'' @ k)\<close> 1 by (cases n) auto
    then show ?thesis using v 1 \<open>(k, n) \<in> set ps\<close> by auto
  next
    case (2 j p)
    have "(name @ ''.'' @ k, n) \<in> set (list_all_member p (prefix @ ''.'' @ j))"
      using 1(1) [OF _ 2(1) refl 2(2) 1(3,4)] v by blast
    then show ?thesis using v 2(1) by auto
  qed
qed (auto split: if_splits)

lemma list_all_member_iff: "(name, m) \<in> set (list_all_member root prefix) \<longleftrightarrow> inside_doc root prefix name m"
proof
  show "inside_doc root prefix name m \<Longrightarrow> (name, m) \<in> set (list_all_member root prefix)"
  proof (induction rule: inside_doc.induct)
    case inside_root
    then show ?case by (cases root) auto
  qed (rule list_all_member_step)
qed (rule list_all_member_complete)

lemma fold_same: "set es = {e} \<Longrightarrow> (\<And>v. f e (f e v) = f e v) \<Longrightarrow> fold f es v = f e v"
proof (induction es arbitrary: v)
  case (Cons d es)
  have d: "d = e" and es: "es = [] \<or> set es = {e}" using Cons.prems(1) by (auto simp: subset_singleton_iff)
  show ?case using es
  proof
    assume "set es = {e}"
    then have "fold f es (f e v) = f e (f e v)" using Cons.IH Cons.prems(2) by blast
    then show ?thesis using d Cons.prems(2) by simp
  qed (simp add: d)
qed simp

text \<open>One variable while the documents are gone through.\<close>

lemma load_fold:
  assumes "\<And>x j. S_DATAS c x = Some j \<Longrightarrow> j < length (cf_vars c)" "i < length (cf_vars c)"
  shows "S_DATAS (fold (load_one emit cast) es c) = S_DATAS c \<and> length (cf_vars (fold (load_one emit cast) es c)) = length (cf_vars c) \<and>
    cf_vars (fold (load_one emit cast) es c) ! i =
      fold (\<lambda>(x, n) v. snd (from_string cast (node_text emit n) v)) (filter (\<lambda>(x, n). S_DATAS c x = Some i) es) (cf_vars c ! i)"
  using assms
proof (induction es arbitrary: c)
  case (Cons e es)
  obtain x n where e: "e = (x, n)" by fastforce
  let ?c = "load_one emit cast e c"
  have d: "S_DATAS ?c = S_DATAS c" "length (cf_vars ?c) = length (cf_vars c)"
    by (auto simp: load_one_def LookupBase_def e split: option.splits)
  have i: "cf_vars ?c ! i = (if S_DATAS c x = Some i then snd (from_string cast (node_text emit n) (cf_vars c ! i)) else cf_vars c ! i)"
    using Cons.prems by (auto simp: load_one_def LookupBase_def e nth_list_update split: option.splits)
  have "\<And>x j. S_DATAS ?c x = Some j \<Longrightarrow> j < length (cf_vars ?c)" "i < length (cf_vars ?c)" using Cons.prems d by auto
  note ih = Cons.IH [OF this]
  show ?case using ih d i e by simp
qed simp

section \<open>Printing in block style\<close>

text \<open>
  The part of YAML for flat documents: letters and digits are printed as they are and other texts in
  quotes with escapes, one element or pair on a line.
\<close>

definition word_char :: "char \<Rightarrow> bool" where
  "word_char c \<longleftrightarrow> isalpha c \<or> isdigit c"

definition is_plain :: "string \<Rightarrow> bool" where
  "is_plain t \<longleftrightarrow> t \<noteq> [] \<and> list_all word_char t"

fun quote :: "string \<Rightarrow> string" where
  "quote [] = []"
| "quote (c # cs) = (if c = CHR 0x0A then [CHR 0x5C, CHR ''n''] else if c = CHR 0x5C then [CHR 0x5C, CHR 0x5C] else [c]) @ quote cs"

fun unquote :: "string \<Rightarrow> string" where
  "unquote (c # d # cs) = (if c = CHR 0x5C then (if d = CHR ''n'' then CHR 0x0A else d) # unquote cs else c # unquote (d # cs))"
| "unquote cs = cs"

definition block_text :: "string \<Rightarrow> string" where
  "block_text t = (if is_plain t then t else CHR 0x22 # quote t)"

definition block_scalar :: "string \<Rightarrow> Node" where
  "block_scalar s = Scalar (if s \<noteq> [] \<and> hd s = CHR 0x22 then unquote (tl s) else s)"

fun block_emit :: "Node \<Rightarrow> string" where
  "block_emit Null = ''~''"
| "block_emit (Scalar t) = block_text t"
| "block_emit (Sequence ns) = concat (map (\<lambda>n. ''- '' @ block_text (scalar n) @ [CHR 0x0A]) ns)"
| "block_emit (Mapping ps) = concat (map (\<lambda>(k, n). k @ '': '' @ block_text (scalar n) @ [CHR 0x0A]) ps)"

fun split_lines :: "string \<Rightarrow> string \<Rightarrow> string list" where
  "split_lines cur [] = []"
| "split_lines cur (c # cs) = (if c = CHR 0x0A then cur # split_lines [] cs else split_lines (cur @ [c]) cs)"

definition split_pair :: "string \<Rightarrow> string \<times> Node" where
  "split_pair l = (takeWhile word_char l, block_scalar (drop 2 (dropWhile word_char l)))"

definition block_load :: "string \<Rightarrow> Node option" where
  "block_load s =
     (if s = ''~'' then Some Null
      else case split_lines [] s of
          [] \<Rightarrow> Some (block_scalar s)
        | l # ls \<Rightarrow>
            if take 2 l = ''- '' then Some (Sequence (map (\<lambda>l. block_scalar (drop 2 l)) (l # ls)))
            else Some (Mapping (map split_pair (l # ls))))"

definition block_docs :: "Node set" where
  "block_docs = {Null} \<union> range Scalar \<union> {Sequence (map Scalar ts) |ts. ts \<noteq> []} \<union>
     {Mapping (map (\<lambda>(k, t). (k, Scalar t)) ps) |ps. ps \<noteq> [] \<and> (\<forall>(k, t) \<in> set ps. is_plain k)}"

lemma unquote_quote: "unquote (quote t) = t"
proof (induction t)
  case (Cons c t)
  show ?case
  proof (cases "c = CHR 0x0A \<or> c = CHR 0x5C")
    case False
    then have "unquote (c # quote t) = c # unquote (quote t)" by (cases "quote t") auto
    then show ?thesis using Cons False by auto
  qed (use Cons in auto)
qed simp

lemma plain_hd: "is_plain t \<Longrightarrow> hd t \<noteq> CHR 0x22 \<and> hd t \<noteq> CHR ''-''"
  by (cases t) (auto simp: is_plain_def word_char_def isalpha_def isdigit_def)

lemma block_scalar_text: "block_scalar (block_text t) = Scalar t"
  using plain_hd [of t] by (auto simp: block_scalar_def block_text_def unquote_quote is_plain_def)

lemma quote_no_newline: "CHR 0x0A \<notin> set (quote t)"
  by (induction t) auto

lemma block_text_no_newline: "CHR 0x0A \<notin> set (block_text t)"
  using quote_no_newline [of t] by (auto simp: block_text_def is_plain_def list_all_iff word_char_def isalpha_def isdigit_def)

lemma split_lines_line: "CHR 0x0A \<notin> set l \<Longrightarrow> split_lines cur (l @ CHR 0x0A # s) = (cur @ l) # split_lines [] s"
  by (induction l arbitrary: cur) auto

lemma split_lines_none: "CHR 0x0A \<notin> set l \<Longrightarrow> split_lines cur l = []"
  by (induction l arbitrary: cur) auto

lemma split_lines_concat: "(\<And>x. x \<in> set xs \<Longrightarrow> CHR 0x0A \<notin> set (f x)) \<Longrightarrow> split_lines [] (concat (map (\<lambda>x. f x @ [CHR 0x0A]) xs)) = map f xs"
  by (induction xs) (auto simp: split_lines_line)

lemma block_text_not_null: "block_text t \<noteq> ''~''"
  by (cases t) (auto simp: block_text_def is_plain_def word_char_def isalpha_def isdigit_def)

lemma newline_not_null: "CHR 0x0A \<in> set s \<Longrightarrow> s \<noteq> ''~''"
  by auto

lemma split_pair_line:
  assumes "is_plain k"
  shows "split_pair (k @ '': '' @ block_text t) = (k, Scalar t)" "take 2 (k @ '': '' @ s) \<noteq> ''- ''" "CHR 0x0A \<notin> set k"
proof -
  have k: "\<forall>c \<in> set k. word_char c" "k \<noteq> []" and c: "\<not> word_char CHR '':''"
    using assms by (auto simp: is_plain_def list_all_iff word_char_def isalpha_def isdigit_def)
  have "takeWhile word_char (k @ '': '' @ block_text t) = k" "dropWhile word_char (k @ '': '' @ block_text t) = '': '' @ block_text t"
    using k(1) c by simp_all
  then show "split_pair (k @ '': '' @ block_text t) = (k, Scalar t)" by (simp add: split_pair_def block_scalar_text)
  have "hd k \<noteq> CHR ''-''" "CHR 0x0A \<notin> set k" using k plain_hd [OF assms] by (auto simp: word_char_def isalpha_def isdigit_def)
  then show "take 2 (k @ '': '' @ s) \<noteq> ''- ''" "CHR 0x0A \<notin> set k" using k(2) by (cases k; simp)+
qed

interpretation bs: yaml block_load block_emit block_docs "Collect is_plain"
proof
  fix n
  assume "n \<in> block_docs"
  then consider "n = Null" | t where "n = Scalar t" | ts where "n = Sequence (map Scalar ts)" "ts \<noteq> []"
    | ps where "n = Mapping (map (\<lambda>(k, t). (k, Scalar t)) ps)" "ps \<noteq> []" "\<forall>(k, t) \<in> set ps. is_plain k"
    unfolding block_docs_def by blast
  then show "block_load (block_emit n) = Some n"
  proof cases
    case (2 t)
    then show ?thesis by (simp add: block_load_def block_text_not_null split_lines_none block_text_no_newline block_scalar_text)
  next
    case (3 ts)
    let ?f = "\<lambda>t. ''- '' @ block_text t"
    have e: "block_emit n = concat (map (\<lambda>t. ?f t @ [CHR 0x0A]) ts)" by (simp add: 3(1) comp_def)
    have l: "split_lines [] (block_emit n) = map ?f ts" unfolding e by (rule split_lines_concat) (simp add: block_text_no_newline)
    have "block_emit n \<noteq> ''~''" by (rule newline_not_null) (use 3(2) e in \<open>cases ts; simp\<close>)
    then show ?thesis using l 3 by (cases ts) (simp_all add: block_load_def block_scalar_text)
  next
    case (4 ps)
    let ?f = "\<lambda>(k, t). k @ '': '' @ block_text t"
    have e: "block_emit n = concat (map (\<lambda>p. ?f p @ [CHR 0x0A]) ps)" by (simp add: 4(1) comp_def case_prod_beta)
    have l: "split_lines [] (block_emit n) = map ?f ps" unfolding e
      by (rule split_lines_concat) (use 4(3) split_pair_line(3) in \<open>auto simp: block_text_no_newline\<close>)
    have "split_pair (?f p) = (\<lambda>(k, t). (k, Scalar t)) p" if "p \<in> set ps" for p
      using that 4(3) split_pair_line(1) by (cases p) auto
    then have m: "map split_pair (map ?f ps) = map (\<lambda>(k, t). (k, Scalar t)) ps" by simp
    have "block_emit n \<noteq> ''~''" by (rule newline_not_null) (use 4(2) e in \<open>cases ps; simp\<close>)
    moreover have "take 2 (?f (hd ps)) \<noteq> ''- ''" using 4(2,3) split_pair_line(2) by (cases ps) auto
    ultimately show ?thesis using l m 4(1,2) by (cases ps) (simp_all add: block_load_def)
  qed (simp add: block_load_def)
qed (simp add: block_text_def)

interpretation lv: lexical ToString "\<lambda>s. Some (FromString s)" UNIV
  by unfold_locales (simp add: FromString_ToString)

lemma level_plain: "is_plain (ToString l)"
  by (cases l) (auto simp: is_plain_def word_char_def isalpha_def)

lemma block_docs_I:
  "node_of_texts ts \<in> block_docs" "Scalar t \<in> block_docs"
  "(\<And>k x. (k, x) \<in> set m \<Longrightarrow> is_plain k) \<Longrightarrow> node_of_pairs (map (\<lambda>(k, x). (k, Scalar (f x))) m) \<in> block_docs"
proof -
  show "node_of_texts ts \<in> block_docs" "Scalar t \<in> block_docs" by (auto simp: block_docs_def node_of_texts_def)
  assume p: "\<And>k x. (k, x) \<in> set m \<Longrightarrow> is_plain k"
  let ?ps = "map (\<lambda>(k, x). (k, f x)) m"
  have e: "map (\<lambda>(k, x). (k, Scalar (f x))) m = map (\<lambda>(k, t). (k, Scalar t)) ?ps" by (simp add: case_prod_beta)
  show "node_of_pairs (map (\<lambda>(k, x). (k, Scalar (f x))) m) \<in> block_docs"
  proof (cases "m = []")
    case False
    then have "Mapping (map (\<lambda>(k, t). (k, Scalar t)) ?ps) \<in> block_docs" unfolding block_docs_def
      by (intro UnI2 CollectI exI [of _ ?ps]) (use p in auto)
    then show ?thesis using False by (simp add: node_of_pairs_def e del: map_map)
  qed (simp add: node_of_pairs_def block_docs_def)
qed

definition config_example :: "(unit, string) config" where
  "config_example = \<lparr>S_DATAS = [''app.tcp.timeout'' \<mapsto> 0, ''app.other'' \<mapsto> 1],
     cf_vars = [\<lparr>cv_name = ''app.tcp.timeout'', cv_desc = [], cv_type = (), m_val = ''5''\<rparr>,
       \<lparr>cv_name = ''app.other'', cv_desc = [], cv_type = (), m_val = ''1''\<rparr>]\<rparr>"

section \<open>Loggers from definitions\<close>

definition implements_def :: "log_world \<Rightarrow> Logger \<Rightarrow> LoggerDefine \<Rightarrow> bool" where
  "implements_def W l d \<longleftrightarrow> lg_name l = ld_name d \<and> lg_level l = ld_level d \<and> length (m_appenders l) = length (ld_appenders d) \<and>
     (\<forall>k < length (ld_appenders d). m_appenders l ! k < length (lw_appenders W) \<and>
        (let a = lw_appenders W ! (m_appenders l ! k); b = ld_appenders d ! k in
         app_level a = ad_level b \<and> is_stdout a = (ad_type b \<noteq> ''FileLogAppender'') \<and> app_formatter a = LogFormatter_new (ld_formater d)))"

definition log_extends :: "log_world \<Rightarrow> log_world \<Rightarrow> bool" where
  "log_extends W W1 \<longleftrightarrow> length (lw_appenders W) \<le> length (lw_appenders W1) \<and> (\<forall>i < length (lw_appenders W). lw_appenders W1 ! i = lw_appenders W ! i)"

lemma log_extends_trans: "log_extends W W1 \<Longrightarrow> log_extends W1 W2 \<Longrightarrow> log_extends W W2"
  by (auto simp: log_extends_def)

lemma implements_extends: "implements_def W l d \<Longrightarrow> log_extends W W1 \<Longrightarrow> implements_def W1 l d"
  by (auto simp: implements_def_def log_extends_def Let_def)

lemma make_appender_step:
  assumes "make_appender le now now2 f b (l, W) = (l1, W1)"
  obtains a where "l1 = l\<lparr>m_appenders := m_appenders l @ [length (lw_appenders W)]\<rparr>" "lw_appenders W1 = lw_appenders W @ [a]" "lw_loggers W1 = lw_loggers W"
    "m_logger_map W1 = m_logger_map W" "app_level a = ad_level b" "is_stdout a = (ad_type b \<noteq> ''FileLogAppender'')" "app_formatter a = f"
  using assms by (auto simp: make_appender_def add_appender_def FileLogAppender_new_def open_file_def Let_def split: if_splits)

lemma implements_snoc:
  assumes "implements_def W l (d\<lparr>ld_appenders := as\<rparr>)" "lw_appenders W1 = lw_appenders W @ [a]" "app_level a = ad_level b"
    "is_stdout a = (ad_type b \<noteq> ''FileLogAppender'')" "app_formatter a = LogFormatter_new (ld_formater d)"
  shows "implements_def W1 (l\<lparr>m_appenders := m_appenders l @ [length (lw_appenders W)]\<rparr>) (d\<lparr>ld_appenders := as @ [b]\<rparr>)"
proof -
  have n: "lg_name l = ld_name d" "lg_level l = ld_level d" "length (m_appenders l) = length as" using assms(1) by (simp_all add: implements_def_def)
  have k: "m_appenders l ! k < length (lw_appenders W) \<and> app_level (lw_appenders W ! (m_appenders l ! k)) = ad_level (as ! k) \<and>
      is_stdout (lw_appenders W ! (m_appenders l ! k)) = (ad_type (as ! k) \<noteq> ''FileLogAppender'') \<and>
      app_formatter (lw_appenders W ! (m_appenders l ! k)) = LogFormatter_new (ld_formater d)" if "k < length as" for k
    using assms(1) that by (simp add: implements_def_def Let_def)
  show ?thesis unfolding implements_def_def Let_def
  proof (intro conjI allI impI)
    fix k
    assume "k < length (ld_appenders (d\<lparr>ld_appenders := as @ [b]\<rparr>))"
    then consider "k < length as" | "k = length as" by fastforce
    note cs = this
    let ?l = "l\<lparr>m_appenders := m_appenders l @ [length (lw_appenders W)]\<rparr>"
    show "m_appenders ?l ! k < length (lw_appenders W1)" using cs k [of k] n assms(2) by cases (simp_all add: nth_append)
    show "app_level (lw_appenders W1 ! (m_appenders ?l ! k)) = ad_level (ld_appenders (d\<lparr>ld_appenders := as @ [b]\<rparr>) ! k)"
      using cs k [of k] n assms(2,3) by cases (simp_all add: nth_append)
    show "is_stdout (lw_appenders W1 ! (m_appenders ?l ! k)) = (ad_type (ld_appenders (d\<lparr>ld_appenders := as @ [b]\<rparr>) ! k) \<noteq> ''FileLogAppender'')"
      using cs k [of k] n assms(2,4) by cases (simp_all add: nth_append)
    show "app_formatter (lw_appenders W1 ! (m_appenders ?l ! k)) = LogFormatter_new (ld_formater (d\<lparr>ld_appenders := as @ [b]\<rparr>))"
      using cs k [of k] n assms(2,5) by cases (simp_all add: nth_append)
  qed (simp_all add: n)
qed

lemma make_appenders:
  assumes "fold (make_appender le now now2 (LogFormatter_new (ld_formater d))) bs (l, W) = (l1, W1)"
    "implements_def W l (d\<lparr>ld_appenders := as\<rparr>)"
  shows "implements_def W1 l1 (d\<lparr>ld_appenders := as @ bs\<rparr>) \<and> log_extends W W1 \<and> lw_loggers W1 = lw_loggers W \<and> m_logger_map W1 = m_logger_map W"
  using assms
proof (induction bs arbitrary: l W as)
  case (Cons b bs)
  obtain l2 W2 where m: "make_appender le now now2 (LogFormatter_new (ld_formater d)) b (l, W) = (l2, W2)" by fastforce
  obtain a where a: "l2 = l\<lparr>m_appenders := m_appenders l @ [length (lw_appenders W)]\<rparr>" "lw_appenders W2 = lw_appenders W @ [a]" "lw_loggers W2 = lw_loggers W"
      "m_logger_map W2 = m_logger_map W" "app_level a = ad_level b" "is_stdout a = (ad_type b \<noteq> ''FileLogAppender'')" "app_formatter a = LogFormatter_new (ld_formater d)"
    by (rule make_appender_step [OF m]) (rule that)
  have "implements_def W2 l2 (d\<lparr>ld_appenders := as @ [b]\<rparr>)" unfolding a(1) by (rule implements_snoc [OF Cons.prems(2) a(2,5,6,7)])
  moreover have "log_extends W W2" using a(2) by (simp add: log_extends_def nth_append)
  ultimately show ?case using Cons.IH [of l2 W2 "as @ [b]"] Cons.prems(1) m a(3,4) by (auto intro: log_extends_trans)
qed (simp add: log_extends_def)

lemma add_logger_def_adds:
  assumes "m_logger_map W (ld_name d) = None"
  obtains W1 l where "add_logger_def le now now2 d W = (True, W1)" "implements_def W1 l d" "log_extends W W1"
    "lw_loggers W1 = lw_loggers W @ [l]" "m_logger_map W1 = (m_logger_map W)(ld_name d \<mapsto> length (lw_loggers W))"
proof -
  obtain l W1 where f: "fold (make_appender le now now2 (LogFormatter_new (ld_formater d))) (ld_appenders d) (Logger_new (ld_name d) (ld_level d), W) = (l, W1)" by fastforce
  have "implements_def W (Logger_new (ld_name d) (ld_level d)) (d\<lparr>ld_appenders := []\<rparr>)" by (simp add: implements_def_def Logger_new_def)
  from make_appenders [OF f this] have i: "implements_def W1 l d" "log_extends W W1" "lw_loggers W1 = lw_loggers W" "m_logger_map W1 = m_logger_map W" by simp_all
  let ?W = "W1\<lparr>lw_loggers := lw_loggers W @ [l], m_logger_map := (m_logger_map W)(ld_name d \<mapsto> length (lw_loggers W))\<rparr>"
  have "lg_name l = ld_name d" using i(1) by (simp add: implements_def_def)
  then have "add_logger_def le now now2 d W = (True, ?W)" using f i(3,4) assms by (simp add: add_logger_def_def add_logger_def)
  moreover have "implements_def ?W l d" "log_extends W ?W" using i(1,2) by (simp_all add: implements_def_def log_extends_def)
  ultimately show thesis using that by force
qed

lemma add_loggers_all:
  assumes "add_loggers le now now2 defs W = (suc, W1)" "distinct (map ld_name defs)" "\<forall>d \<in> set defs. m_logger_map W (ld_name d) = None"
    "\<forall>x i. m_logger_map W x = Some i \<longrightarrow> i < length (lw_loggers W)"
  shows "suc \<and> (\<forall>d \<in> set defs. \<exists>i. m_logger_map W1 (ld_name d) = Some i \<and> implements_def W1 (lw_loggers W1 ! i) d) \<and> log_extends W W1 \<and>
    (\<forall>x i. m_logger_map W x = Some i \<longrightarrow> m_logger_map W1 x = Some i \<and> lw_loggers W1 ! i = lw_loggers W ! i)"
  using assms
proof (induction defs arbitrary: W)
  case Nil
  then show ?case by (simp add: add_loggers_def log_extends_def)
next
  case (Cons d ds)
  obtain W2 l where a: "add_logger_def le now now2 d W = (True, W2)" "implements_def W2 l d" "log_extends W W2"
      "lw_loggers W2 = lw_loggers W @ [l]" "m_logger_map W2 = (m_logger_map W)(ld_name d \<mapsto> length (lw_loggers W))"
    using add_logger_def_adds Cons.prems(3) by (metis list.set_intros(1))
  have "add_loggers le now now2 ds W2 = (suc, W1)" using Cons.prems(1) a(1) by (simp add: add_loggers_def)
  moreover have "\<forall>e \<in> set ds. m_logger_map W2 (ld_name e) = None" using Cons.prems(2,3) a(5) by (force simp: image_iff)
  moreover have "\<forall>x i. m_logger_map W2 x = Some i \<longrightarrow> i < length (lw_loggers W2)" using Cons.prems(4) a(4,5) by (auto simp: less_Suc_eq)
  ultimately have ih: "suc" "\<forall>e \<in> set ds. \<exists>i. m_logger_map W1 (ld_name e) = Some i \<and> implements_def W1 (lw_loggers W1 ! i) e" "log_extends W2 W1"
      "\<forall>x i. m_logger_map W2 x = Some i \<longrightarrow> m_logger_map W1 x = Some i \<and> lw_loggers W1 ! i = lw_loggers W2 ! i"
    using Cons.IH [of W2] Cons.prems(2) by simp_all
  have "m_logger_map W1 (ld_name d) = Some (length (lw_loggers W)) \<and> lw_loggers W1 ! length (lw_loggers W) = l"
    using ih(4) [rule_format, of "ld_name d" "length (lw_loggers W)"] a(4,5) by simp
  then have d: "\<exists>i. m_logger_map W1 (ld_name d) = Some i \<and> implements_def W1 (lw_loggers W1 ! i) d" using implements_extends [OF a(2) ih(3)] by blast
  have old: "m_logger_map W1 x = Some i \<and> lw_loggers W1 ! i = lw_loggers W ! i" if "m_logger_map W x = Some i" for x i
  proof -
    have "x \<noteq> ld_name d" "i < length (lw_loggers W)" using that Cons.prems(3,4) by auto
    then show ?thesis using ih(4) [rule_format, of x i] a(4,5) that by (simp add: nth_append)
  qed
  show ?case using ih(1,2) d old log_extends_trans [OF a(3) ih(3)] by simp
qed

section \<open>Theorems\<close>

text \<open>
  Containers of a configuration are read back from what is printed for them: vectors and lists, sets, unordered sets, maps and
  unordered maps of values whose own conversion is a round trip, for documents that YAML reads back.
  In the first two the texts of the elements must be printed without quotes. A vector of vectors is not
  read back: the inner ones are printed as texts, and all of them come back empty.
\<close>

theorem container_round_trips:
  fixes print :: "'a :: linorder \<Rightarrow> string"
  assumes "yaml load emit docs plain" "lexical print parse ok" "\<forall>x \<in> set v \<union> ran (map_of m). x \<in> ok \<and> print x \<in> plain"
    "node_of_texts (map print v) \<in> docs" "node_of_texts (map print (sorted_list_of_set (set v))) \<in> docs"
    "distinct (map fst m)" "node_of_pairs (map (\<lambda>(k, x). (k, Scalar (print x))) m) \<in> docs" "\<forall>x \<in> ran (map_of m). Scalar (print x) \<in> docs"
    "node_of_texts (map (vector_to_string emit print) vs) \<in> docs" "\<forall>v \<in> set vs. Scalar (vector_to_string emit print v) \<in> docs"
  shows "vector_from_string load emit parse (vector_to_string emit print v) = Some v \<and>
    set_from_string load emit parse (set_to_string emit print (set v)) = Some (set v) \<and>
    Option.bind (map_to_string load emit print m) (map_from_string load emit parse) = Some (map_of m) \<and>
    unordered_map_from_string load parse (unordered_map_to_string emit print m) = Some (map_of m) \<and>
    list_from_string load emit parse (list_to_string emit print v) = Some v \<and>
    unordered_set_from_string load emit parse (unordered_set_to_string emit print v) = Some (set v) \<and>
    vector_from_string load emit (vector_from_string load emit parse) (vector_to_string emit (vector_to_string emit print) vs) = Some (map (\<lambda>v. []) vs)"
proof (intro conjI)
  have r: "x \<in> ran (map_of m)" if "(k, x) \<in> set m" for k x using map_of_is_SomeI [OF assms(6) that] by (auto simp: ran_def)
  have "lexical (vector_to_string emit print) (vector_from_string load emit parse) {v}"
    by (rule yaml.vector_lexical [OF assms(1,2)]) (use assms(3,4) in auto)
  then show v: "vector_from_string load emit parse (vector_to_string emit print v) = Some v" by (rule lexical.round_trip) simp
  show "list_from_string load emit parse (list_to_string emit print v) = Some v"
    using v by (simp add: list_from_string_def vector_from_string_def list_to_string_def vector_to_string_def)
  show "unordered_set_from_string load emit parse (unordered_set_to_string emit print v) = Some (set v)"
    using v by (simp add: unordered_set_from_string_def unordered_set_to_string_def vector_to_string_def)
  have "lexical (set_to_string emit print) (set_from_string load emit parse) {set v}"
    by (rule yaml.set_lexical [OF assms(1,2)]) (use assms(3,5) in auto)
  then show "set_from_string load emit parse (set_to_string emit print (set v)) = Some (set v)" by (rule lexical.round_trip) simp
  show "Option.bind (map_to_string load emit print m) (map_from_string load emit parse) = Some (map_of m)"
  proof (rule yaml.map_round [OF assms(1,6), where doc = "\<lambda>x. Scalar (print x)"])
    show "\<forall>(k, x) \<in> set m. load (print x) = Some (Scalar (print x)) \<and> parse (emit (Scalar (print x))) = Some x"
    proof clarify
      fix k x
      assume "(k, x) \<in> set m"
      then have x: "x \<in> ok" "print x \<in> plain" "Scalar (print x) \<in> docs" using assms(3,8) r by auto
      have e: "emit (Scalar (print x)) = print x" by (rule yaml.emit_plain [OF assms(1) x(2)])
      show "load (print x) = Some (Scalar (print x)) \<and> parse (emit (Scalar (print x))) = Some x"
        using yaml.load_emit [OF assms(1) x(3)] lexical.round_trip [OF assms(2) x(1)] e by simp
    qed
  qed (rule assms(7))
  show "unordered_map_from_string load parse (unordered_map_to_string emit print m) = Some (map_of m)"
    by (rule yaml.unordered_map_round [OF assms(1,2,6) _ assms(7)]) (use assms(3) r in auto)
  show "vector_from_string load emit (vector_from_string load emit parse) (vector_to_string emit (vector_to_string emit print) vs) = Some (map (\<lambda>v. []) vs)"
    by (rule yaml.nested_empty [OF assms(1,9,10)])
qed

theorem container_round_trips_witness:
  "vector_from_string block_load block_emit (\<lambda>s. Some (FromString s)) (vector_to_string block_emit ToString [WARN, DEBUG]) = Some [WARN, DEBUG] \<and>
   vector_from_string block_load block_emit (vector_from_string block_load block_emit (\<lambda>s. Some (FromString s)))
     (vector_to_string block_emit (vector_to_string block_emit ToString) [[INFO], [DEBUG, WARN]]) = Some [[], []]"
  using container_round_trips [OF bs.yaml_axioms lv.lexical_axioms, of "[WARN, DEBUG]" "[]" "[[INFO], [DEBUG, WARN]]"]
    block_docs_I(1,2) block_docs_I(3) [of "[]"] by (simp add: level_plain)

text \<open>
  Loading a document sets exactly the variables it has values for. A variable under whose name the document has
  one value, at a path whose names joined with dots give that name, gets this value if its text converts to
  the type of the variable and keeps its own otherwise; a variable under whose name it has none keeps its value.
\<close>

theorem config_load:
  assumes "\<forall>x j. S_DATAS c x = Some j \<longrightarrow> j < length (cf_vars c)" "\<forall>y. S_DATAS c y = Some i \<longleftrightarrow> y = x"
    "LoadFromYmal emit cast prefix (Some root) c = Some c1"
  shows "((\<nexists>n. inside_doc root prefix x n) \<longrightarrow> cf_vars c1 ! i = cf_vars c ! i) \<and>
    ((\<forall>n. inside_doc root prefix x n \<longleftrightarrow> n = n0) \<longrightarrow>
      cf_vars c1 ! i = (case cast (cv_type (cf_vars c ! i)) (node_text emit n0) of None \<Rightarrow> cf_vars c ! i | Some v \<Rightarrow> (cf_vars c ! i)\<lparr>m_val := v\<rparr>))"
proof -
  let ?es = "filter (\<lambda>(y, n). S_DATAS c y = Some i) (list_all_member root prefix)"
  let ?f = "\<lambda>(y :: string, n) v. snd (from_string cast (node_text emit n) v)"
  have i: "i < length (cf_vars c)" using assms(1,2) by blast
  have v: "cf_vars c1 ! i = fold ?f ?es (cf_vars c ! i)"
    using load_fold [of c i emit cast "list_all_member root prefix"] assms(1,3) i by (auto simp: LoadFromYmal_def)
  have s: "S_DATAS c y = Some i \<longleftrightarrow> y = x" for y using assms(2) by blast
  have es: "set ?es = Pair x ` Collect (inside_doc root prefix x)" unfolding s by (auto simp: list_all_member_iff)
  have idem: "?f e (?f e v) = ?f e v" for e v
    by (cases e; cases "cast (cv_type v) (node_text emit (snd e))") (simp_all add: from_string_def)
  show ?thesis
  proof (intro conjI impI)
    assume "\<nexists>n. inside_doc root prefix x n"
    then have "set ?es = {}" unfolding es by simp
    then have "?es = []" by (simp only: set_empty)
    then show "cf_vars c1 ! i = cf_vars c ! i" by (simp only: v fold.simps id_apply)
  next
    assume "\<forall>n. inside_doc root prefix x n \<longleftrightarrow> n = n0"
    then have "set ?es = {(x, n0)}" unfolding es by auto
    from fold_same [OF this, of ?f, OF idem] show "cf_vars c1 ! i = (case cast (cv_type (cf_vars c ! i)) (node_text emit n0) of None \<Rightarrow> cf_vars c ! i | Some v \<Rightarrow> (cf_vars c ! i)\<lparr>m_val := v\<rparr>)"
      unfolding v by (simp add: from_string_def split: option.splits)
  qed
qed

theorem config_load_witness:
  "map m_val (cf_vars (the (LoadFromYmal block_emit (\<lambda>t. Some) ''app''
     (Some (Mapping [(''tcp'', Mapping [(''timeout'', Scalar ''60'')]), (''x-y'', Scalar ''9'')])) config_example))) = [''60'', ''1'']"
proof -
  let ?root = "Mapping [(''tcp'', Mapping [(''timeout'', Scalar ''60'')]), (''x-y'', Scalar ''9'')]"
  have l: "list_all_member ?root ''app'' = [(''app'', ?root), (''app.tcp'', Mapping [(''timeout'', Scalar ''60'')]), (''app.tcp.timeout'', Scalar ''60'')]"
    by (simp add: IsValidName_def)
  obtain c1 where c: "LoadFromYmal block_emit (\<lambda>t. Some) ''app'' (Some ?root) config_example = Some c1" by (simp add: LoadFromYmal_def)
  have b: "\<forall>x j. S_DATAS config_example x = Some j \<longrightarrow> j < length (cf_vars config_example)"
    "\<forall>y. S_DATAS config_example y = Some 0 \<longleftrightarrow> y = ''app.tcp.timeout''" "\<forall>y. S_DATAS config_example y = Some 1 \<longleftrightarrow> y = ''app.other''"
    by (auto simp: config_example_def split: if_splits)
  have n: "\<forall>n. inside_doc ?root ''app'' ''app.tcp.timeout'' n \<longleftrightarrow> n = Scalar ''60''" "\<nexists>n. inside_doc ?root ''app'' ''app.other'' n"
    unfolding list_all_member_iff [symmetric] l by auto
  have "cf_vars c1 ! 0 = (cf_vars config_example ! 0)\<lparr>m_val := ''60''\<rparr>" "cf_vars c1 ! 1 = cf_vars config_example ! 1"
    using config_load [OF b(1,2) c, of "Scalar ''60''"] config_load [OF b(1,3) c] n by (auto simp: node_text_def)
  moreover have "length (cf_vars c1) = 2"
    using load_fold [of config_example 0 block_emit "\<lambda>t. Some" "list_all_member ?root ''app''"] b(1) c by (auto simp: LoadFromYmal_def config_example_def)
  ultimately have "map m_val (cf_vars c1) = [''60'', ''1'']"
    by (intro nth_equalityI) (auto simp: config_example_def less_2_cases_iff nth_Cons')
  then show ?thesis using c by simp
qed



text \<open>
  Looking a variable up with another type replaces it: the variable that was handed out before stays as it is and is no
  longer found under its name.
\<close>

lemma lookup_other_type:
  assumes "S_DATAS c name = Some i" "i < length (cf_vars c)" "cv_type (cf_vars c ! i) \<noteq> t" "IsValidName name"
  shows "\<exists>j c1. Config_Lookup t name dflt desc c = Some (j, c1) \<and> j \<noteq> i \<and> LookupBase name c1 = Some j \<and> cf_vars c1 ! i = cf_vars c ! i"
  using assms by (auto simp: Config_Lookup_def Lookup_type_def LookupBase_def nth_append)

text \<open>The definition of a logger is read back from what is printed for it, where the fields of a file are kept for file appenders only.\<close>

lemma logger_define_round_trip:
  assumes "yaml load emit docs plain" "\<And>x. as_int (show_int x) = Some x" "logger_to_node v \<in> docs"
    "\<forall>a \<in> set (ld_appenders v). ad_type a \<noteq> ''FileLogAppender'' \<longrightarrow> ad_file a = [] \<and> ad_interval a = 0"
  shows "logger_from_string load as_int (logger_to_string emit v) = Some v"
proof -
  have "cast_all (\<lambda>it. Option.bind it (appender_from_node as_int)) (map (\<lambda>a. Some (appender_to_node a)) (ld_appenders v)) = Some (map (\<lambda>a. a) (ld_appenders v))"
    by (rule cast_all_map) (use assms(2,4) in \<open>auto simp: appender_from_node_def appender_to_node_def node_field_def FromString_ToString\<close>)
  then have "logger_from_node as_int (logger_to_node v) = Some v"
    by (auto simp: logger_from_node_def logger_to_node_def node_field_def FromString_ToString comp_def)
  then show ?thesis using yaml.load_emit [OF assms(1,3)] by (simp add: logger_from_string_def logger_to_string_def)
qed

end
