(* ===== verification/WsClient.thy ===== *)
theory WsClient
  imports HttpConnection
begin

text \<open>
  Opening a WebSocket connection: \<^verbatim>\<open>WSConnection::Create\<close> in \<^verbatim>\<open>src/servers/http/ws_connection.cc\<close>, on top of the client of
  \<open>HttpConnection\<close>. The messages on an open connection are in \<open>WebSocket\<close>, and so is the other side of the handshake,
  \<open>handle_shake\<close>.
\<close>

section \<open>The request\<close>

text \<open>The headers of the caller, in the order of the map; the flags are \<^verbatim>\<open>has_host\<close> and \<^verbatim>\<open>has_conn\<close>.\<close>

definition add_ws_header :: "string \<times> string \<Rightarrow> bool \<times> bool \<times> HTTPRequest \<Rightarrow> bool \<times> bool \<times> HTTPRequest" where
  "add_ws_header = (\<lambda>(key, val) (has_host, has_conn, req).
     if strcasecmp key ''Connection'' = 0 then (has_host, True, HTTPRequest_set_header key val req)
     else (if \<not> has_host \<and> strcasecmp key ''Host'' = 0 then val \<noteq> [] else has_host, has_conn, HTTPRequest_set_header key val req))"

definition finish_ws_request :: "string \<Rightarrow> string \<Rightarrow> bool \<times> bool \<times> HTTPRequest \<Rightarrow> HTTPRequest" where
  "finish_ws_request sec_key host = (\<lambda>(has_host, has_conn, req).
     let r1 = req\<lparr>m_websocket := True\<rparr>;
         r2 = (if has_conn then r1 else HTTPRequest_set_header ''Connection'' ''Upgrade'' r1);
         r3 = HTTPRequest_set_header ''Upgrade'' ''websocket'' r2;
         r4 = HTTPRequest_set_header ''Sec-WebSocket-Version'' ''13'' r3;
         r5 = HTTPRequest_set_header ''Sec-WebSocket-Key'' (Base64Decode sec_key) r4
     in if has_host then r5 else HTTPRequest_set_header ''Host'' host r5)"

text \<open>\<open>sec_key\<close> is the value of the configuration.\<close>

definition build_ws_request :: "string \<Rightarrow> URI \<Rightarrow> (string \<times> string) list \<Rightarrow> HTTPRequest" where
  "build_ws_request sec_key uri headers =
     (let req = (HTTPRequest_new 0x11 True)\<lparr>m_path := URI_get_path uri, m_query := u_query uri, m_fragment := u_fragment uri, m_method := GET\<rparr>
      in finish_ws_request sec_key (u_host uri) (fold add_ws_header headers (False, False, req)))"

section \<open>Opening a connection\<close>

text \<open>
  The socket is a plain one for every scheme. Where no connection is returned, the one that was opened is destroyed.
\<close>

definition WSConnection_Create ::
    "('cs, 'k os_world) client_env \<Rightarrow> string \<Rightarrow> URI \<Rightarrow> u64 \<Rightarrow> (string \<times> string) list \<Rightarrow> 'k os_world \<Rightarrow>
     (HTTPResult \<times> SocketStream option, 'k os_world) received option" where
  "WSConnection_Create ce sec_key uri timeout headers w =
     (case create_address (so_host (ce_sys ce)) (ce_getaddrinfo ce) uri of
        None \<Rightarrow> Some (Got (failure INVALID_HOST, None) w)
      | Some a \<Rightarrow>
          let addr = sockaddr_of (so_host (ce_sys ce)) a in
          (case connect_socket ce False addr (CreateTCP addr) w of
             None \<Rightarrow> Some Abort
           | Some (False, s1, w1) \<Rightarrow> Some (Got (failure CONNECT_FAIL, None) (snd (snd (Socket_close (so_sys (ce_sys ce)) s1 w1))))
           | Some (True, s1, w1) \<Rightarrow>
               (case set_recv_timeout (to_int64 (uint timeout)) s1 w1 of
                  None \<Rightarrow> Some Abort
                | Some w2 \<Rightarrow>
                    (case converse ce False (build_ws_request sec_key uri headers) (\<lparr>m_socket = Some s1, m_owner = True\<rparr>, w2) of
                       None \<Rightarrow> None
                     | Some Abort \<Rightarrow> Some Abort
                     | Some (Failed st) \<Rightarrow> Some Abort
                     | Some (Got r st) \<Rightarrow>
                         (case res_rsp r of
                            None \<Rightarrow> Some (Got (r, None) (snd (SocketStream_destroy (conn_sys ce False) st)))
                          | Some rsp \<Rightarrow>
                              if m_status rsp \<noteq> 101 then
                                Some (Got (failure INVALID_PROTOCOLS, None) (snd (SocketStream_destroy (conn_sys ce False) st)))
                              else Some (Got (r, Some (fst st)) (snd st)))))))"

definition WSConnection_Create_url ::
    "('cs, 'k os_world) client_env \<Rightarrow> (string \<Rightarrow> URI option) \<Rightarrow> string \<Rightarrow> string \<Rightarrow> u64 \<Rightarrow> (string \<times> string) list \<Rightarrow> 'k os_world \<Rightarrow>
     (HTTPResult \<times> SocketStream option, 'k os_world) received option" where
  "WSConnection_Create_url ce create sec_key url timeout headers w =
     (case create url of
        None \<Rightarrow> Some (Got (failure INVALID_URL, None) w)
      | Some uri \<Rightarrow> WSConnection_Create ce sec_key uri timeout headers w)"

section \<open>What is opened\<close>

lemma converse_result:
  "converse ce b req st = Some (Got r st1) \<Longrightarrow> res_code r = OK \<longleftrightarrow> res_rsp r \<noteq> None"
  by (auto simp: converse_def Let_def split: option.splits if_splits received.splits)

context http_client
begin

lemma Create_books:
  assumes "WSConnection_Create ce sec_key uri timeout headers w = Some (Got (res, conn) w1)"
  shows "(case conn of None \<Rightarrow> opened w1 = opened w | Some ss \<Rightarrow> ss_owns opened (opened w) (ss, w1)) \<and>
    (res_code res = OK \<longleftrightarrow> conn \<noteq> None) \<and> (conn \<noteq> None \<longrightarrow> (\<exists>rsp. res_rsp res = Some rsp \<and> m_status rsp = 101))"
proof (cases "create_address (so_host (ce_sys ce)) (ce_getaddrinfo ce) uri")
  case None
  then show ?thesis using assms by (auto simp: WSConnection_Create_def)
next
  case (Some a)
  let ?addr = "sockaddr_of (so_host (ce_sys ce)) a" and ?req = "build_ws_request sec_key uri headers"
  obtain v s2 w2 where c: "connect_socket ce False ?addr (CreateTCP ?addr) w = Some (v, s2, w2)" "owns opened (opened w) (s2, w2)"
    "v \<longrightarrow> m_is_connected s2" using connect_socket_owns by blast
  show ?thesis
  proof (cases v)
    case False
    then have "conn = None \<and> res = failure CONNECT_FAIL \<and> w1 = snd (snd (Socket_close (so_sys (ce_sys ce)) s2 w2))"
      using assms Some c by (auto simp: WSConnection_Create_def)
    then show ?thesis using close_releases [OF c(2)] by simp
  next
    case True
    then obtain w3 where w3: "set_recv_timeout (to_int64 (uint timeout)) s2 w2 = Some w3" "owns opened (opened w) (s2, w3)"
      using timeout_set c by blast
    then have g: "ss_owns opened (opened w) (\<lparr>m_socket = Some s2, m_owner = True\<rparr>, w3)" by (simp add: ss_owns_def)
    obtain r st where q: "converse ce False ?req (\<lparr>m_socket = Some s2, m_owner = True\<rparr>, w3) = Some (Got r st)"
      using assms Some c True w3 by (auto simp: WSConnection_Create_def Let_def split: option.splits received.splits)
    have st: "ss_owns opened (opened w) st" using converse_keeps [OF q g] by simp
    note d = destroy_releases [OF st, of False] and k = converse_result [OF q]
    have "WSConnection_Create ce sec_key uri timeout headers w =
        (case res_rsp r of
           None \<Rightarrow> Some (Got (r, None) (snd (SocketStream_destroy (conn_sys ce False) st)))
         | Some rsp \<Rightarrow>
             if m_status rsp \<noteq> 101 then Some (Got (failure INVALID_PROTOCOLS, None) (snd (SocketStream_destroy (conn_sys ce False) st)))
             else Some (Got (r, Some (fst st)) (snd st)))"
      using Some c(1) True w3(1) q by (simp add: WSConnection_Create_def Let_def)
    then show ?thesis using assms d k st by (auto split: option.splits if_splits)
  qed
qed

end

section \<open>The handshake\<close>

lemma add_ws_headers:
  assumes "fold add_ws_header headers (h, c, req) = (h1, c1, req1)" "wf_fields (m_headers req)"
  shows "req1 = fold (\<lambda>(k, v). HTTPRequest_set_header k v) headers req" "c1 \<longleftrightarrow> c \<or> (\<exists>(k, v) \<in> set headers. folded k = folded ''Connection'')"
proof -
  have "req1 = fold (\<lambda>(k, v). HTTPRequest_set_header k v) headers req \<and> (c1 \<longleftrightarrow> c \<or> (\<exists>(k, v) \<in> set headers. folded k = folded ''Connection''))"
    using assms(1)
  proof (induction headers arbitrary: h c req)
    case (Cons kv headers)
    obtain k v where kv: "kv = (k, v)" by fastforce
    show ?case using Cons.IH Cons.prems by (auto simp: kv add_ws_header_def strcasecmp_zero split: if_splits)
  qed simp
  then show "req1 = fold (\<lambda>(k, v). HTTPRequest_set_header k v) headers req" "c1 \<longleftrightarrow> c \<or> (\<exists>(k, v) \<in> set headers. folded k = folded ''Connection'')" by blast+
qed

lemma ws_names: "distinct (map folded [''Connection'', ''Upgrade'', ''Sec-WebSocket-Version'', ''Sec-WebSocket-Key'', ''Host''])"
  by code_simp

lemma find_some: "find P xs = Some x \<Longrightarrow> x \<in> set xs \<and> P x"
  by (induction xs) (auto split: if_splits)

lemma ws_request_headers:
  fixes sec_key uri headers
  defines "req \<equiv> build_ws_request sec_key uri headers"
  shows "HTTPRequest_get_header ''Upgrade'' [] req = ''websocket''" "field ''Sec-WebSocket-Version'' (m_headers req) = Some ''13''"
    "HTTPRequest_get_header ''Sec-WebSocket-Key'' [] req = Base64Decode sec_key"
    "if \<exists>(k, v) \<in> set headers. folded k = folded ''Connection'' then \<exists>(k, v) \<in> set headers. folded k = folded ''Connection'' \<and> HTTPRequest_get_header ''Connection'' [] req = v
     else HTTPRequest_get_header ''Connection'' [] req = ''Upgrade''"
proof -
  define r0 where "r0 = (HTTPRequest_new 0x11 True)\<lparr>m_path := URI_get_path uri, m_query := u_query uri, m_fragment := u_fragment uri, m_method := GET\<rparr>"
  obtain h c r1 where f: "fold add_ws_header headers (False, False, r0) = (h, c, r1)" by (metis prod_cases3)
  have wf0: "wf_fields (m_headers r0)" by (simp add: r0_def HTTPRequest_new_def)
  note a = add_ws_headers [OF f wf0]
  have wf: "wf_fields (m_headers r1)" and g: "field k (m_headers r1) = (case find (\<lambda>(l, v). folded l = folded k) (rev headers) of Some (l, v) \<Rightarrow> Some v | None \<Rightarrow> None)" for k
    using req.put_list [of r0 headers k] wf0 a(1) by (auto simp: r0_def HTTPRequest_new_def split: option.splits)
  note n = ws_names [simplified]
  have q: "req = finish_ws_request sec_key (u_host uri) (h, c, r1)" using f by (simp add: req_def build_ws_request_def r0_def)
  show "HTTPRequest_get_header ''Upgrade'' [] req = ''websocket''" "field ''Sec-WebSocket-Version'' (m_headers req) = Some ''13''"
    "HTTPRequest_get_header ''Sec-WebSocket-Key'' [] req = Base64Decode sec_key"
    using n wf by (auto simp: q finish_ws_request_def Let_def HTTPRequest_get_header_def req.get_put req.ok_put)
  have "HTTPRequest_get_header ''Connection'' [] req = (if c then HTTPRequest_get_header ''Connection'' [] r1 else ''Upgrade'')"
    using n wf by (auto simp: q finish_ws_request_def Let_def HTTPRequest_get_header_def req.get_put req.ok_put)
  moreover have "\<exists>(k, v) \<in> set headers. folded k = folded ''Connection'' \<and> HTTPRequest_get_header ''Connection'' [] r1 = v" if c
  proof -
    have "find (\<lambda>(l, v). folded l = folded ''Connection'') (rev headers) \<noteq> None" using a(2) that by (auto simp: find_None_iff)
    then obtain l v where lv: "find (\<lambda>(l, v). folded l = folded ''Connection'') (rev headers) = Some (l, v)" by fastforce
    have "(l, v) \<in> set headers" "folded l = folded ''Connection''" using find_some [OF lv] by simp_all
    moreover have "HTTPRequest_get_header ''Connection'' [] r1 = v" unfolding HTTPRequest_get_header_def g lv by simp
    ultimately show ?thesis by blast
  qed
  ultimately show "if \<exists>(k, v) \<in> set headers. folded k = folded ''Connection'' then \<exists>(k, v) \<in> set headers. folded k = folded ''Connection'' \<and> HTTPRequest_get_header ''Connection'' [] req = v
     else HTTPRequest_get_header ''Connection'' [] req = ''Upgrade''"
    using a(2) by auto
qed

section \<open>Theorems\<close>





end
