(* ===== verification/ZlibStream.thy ===== *)
theory ZlibStream
  imports ByteArray
begin

text \<open>
  The compressing stream of \<^verbatim>\<open>src/streams/zlib_stream.cc\<close>. The functions of zlib are arguments (the record \<open>zlib\<close>): a call of
  \<^verbatim>\<open>deflate\<close> or \<^verbatim>\<open>inflate\<close> gets the flush mode, the input that is left, the room in the output and the state, and gives
  its result, how much of the input it took, its output and the next state. What is asked of them is the
  locale \<open>coder\<close> with its extensions \<open>deflater\<close> and \<open>inflater\<close>. The buffers of the stream are lists of bytes.
\<close>

section \<open>Data\<close>

record 'z zlib =
  deflateInit2 :: "int \<Rightarrow> int \<Rightarrow> int \<Rightarrow> int \<Rightarrow> int \<times> 'z"
  inflateInit2 :: "int \<Rightarrow> int \<times> 'z"
  deflate :: "nat \<Rightarrow> byte list \<Rightarrow> nat \<Rightarrow> 'z \<Rightarrow> int \<times> nat \<times> byte list \<times> 'z"
  inflate :: "nat \<Rightarrow> byte list \<Rightarrow> nat \<Rightarrow> 'z \<Rightarrow> int \<times> nat \<times> byte list \<times> 'z"
  deflateEnd :: "'z \<Rightarrow> 'z"
  inflateEnd :: "'z \<Rightarrow> 'z"

definition Z_OK :: int where "Z_OK = 0"
definition Z_STREAM_ERROR :: int where "Z_STREAM_ERROR = - 2"
definition Z_NO_FLUSH :: nat where "Z_NO_FLUSH = 0"
definition Z_FINISH :: nat where "Z_FINISH = 4"

datatype zlib_type = ZLIB | DEFLATE | GZIP

datatype Strategy = DEFAULT | FILTERED | HUFFMAN | FIXED | RLE

fun strategy_num :: "Strategy \<Rightarrow> int" where
  "strategy_num DEFAULT = 0"
| "strategy_num FILTERED = 1"
| "strategy_num HUFFMAN = 2"
| "strategy_num FIXED = 4"
| "strategy_num RLE = 3"

datatype CompressLevel = NO_COMPRESSION | BEST_SPEED | BEST_COMPRESSION | DEFAULT_COMPRESSION

fun compress_num :: "CompressLevel \<Rightarrow> int" where
  "compress_num NO_COMPRESSION = 0"
| "compress_num BEST_SPEED = 1"
| "compress_num BEST_COMPRESSION = 9"
| "compress_num DEFAULT_COMPRESSION = - 1"

record 'z ZlibStream =
  m_encode :: bool
  m_free :: bool
  m_buff_size :: nat
  m_zstream :: 'z
  m_buffers :: "byte list list"

section \<open>Creating a stream\<close>

text \<open>\<open>None\<close> is a failed assertion.\<close>

definition zlib_init :: "'z zlib \<Rightarrow> bool \<Rightarrow> zlib_type \<Rightarrow> CompressLevel \<Rightarrow> int \<Rightarrow> int \<Rightarrow> Strategy \<Rightarrow> (int \<times> 'z) option" where
  "zlib_init Z encode type level window_bits mem_level strategy =
     (if \<not> (0 \<le> compress_num level \<and> compress_num level \<le> 9 \<or> level = DEFAULT_COMPRESSION) then None
      else if \<not> (8 \<le> window_bits \<and> window_bits \<le> 15) then None
      else if \<not> (1 \<le> mem_level \<and> mem_level \<le> 9) then None
      else let wb = (case type of DEFLATE \<Rightarrow> - window_bits | GZIP \<Rightarrow> window_bits + 16 | ZLIB \<Rightarrow> window_bits)
           in Some (if encode then deflateInit2 Z (compress_num level) wb mem_level (strategy_num strategy) else inflateInit2 Z wb))"

text \<open>A null pointer (\<open>Some None\<close>) when zlib reports an error.\<close>

definition ZlibStream_Create :: "'z zlib \<Rightarrow> bool \<Rightarrow> nat \<Rightarrow> zlib_type \<Rightarrow> CompressLevel \<Rightarrow> int \<Rightarrow> int \<Rightarrow> Strategy \<Rightarrow> 'z ZlibStream option option" where
  "ZlibStream_Create Z encode buff_size type level window_bits mem_level strategy =
     map_option (\<lambda>(ret, z).
         if ret = Z_OK then Some \<lparr>m_encode = encode, m_free = True, m_buff_size = buff_size, m_zstream = z, m_buffers = []\<rparr> else None)
       (zlib_init Z encode type level window_bits mem_level strategy)"

definition CreateGzip :: "'z zlib \<Rightarrow> bool \<Rightarrow> nat \<Rightarrow> 'z ZlibStream option option" where
  "CreateGzip Z encode buff_size = ZlibStream_Create Z encode buff_size GZIP DEFAULT_COMPRESSION 15 8 DEFAULT"

definition CreateZlib :: "'z zlib \<Rightarrow> bool \<Rightarrow> nat \<Rightarrow> 'z ZlibStream option option" where
  "CreateZlib Z encode buff_size = ZlibStream_Create Z encode buff_size ZLIB DEFAULT_COMPRESSION 15 8 DEFAULT"

definition CreateDeflate :: "'z zlib \<Rightarrow> bool \<Rightarrow> nat \<Rightarrow> 'z ZlibStream option option" where
  "CreateDeflate Z encode buff_size = ZlibStream_Create Z encode buff_size DEFLATE DEFAULT_COMPRESSION 15 8 DEFAULT"

section \<open>Coding\<close>

text \<open>The buffer to fill is the last one if it has room, or a new one.\<close>

definition pick_buffer :: "nat \<Rightarrow> byte list list \<Rightarrow> byte list list" where
  "pick_buffer n bs = (if bs \<noteq> [] \<and> length (last bs) \<noteq> n then bs else bs @ [[]])"

text \<open>
  The inner loop, which goes on as long as the output was filled; it is the same in \<^verbatim>\<open>encode\<close> and \<^verbatim>\<open>decode\<close>. The flag tells
  whether all went well; otherwise what the failed call wrote is not counted.
\<close>

partial_function (option) code_loop ::
    "(byte list \<Rightarrow> nat \<Rightarrow> 'z \<Rightarrow> int \<times> nat \<times> byte list \<times> 'z) \<Rightarrow> nat \<Rightarrow> byte list \<Rightarrow> byte list list \<Rightarrow> 'z \<Rightarrow> (bool \<times> byte list list \<times> 'z) option" where
  "code_loop f n inp bs z =
     (let bs1 = pick_buffer n bs; room = n - length (last bs1) in
      case f inp room z of
        (ret, k, out, z1) \<Rightarrow>
          if ret = Z_STREAM_ERROR then Some (False, bs1, z1)
          else let bs2 = butlast bs1 @ [last bs1 @ out] in
            if length out = room then code_loop f n (drop k inp) bs2 z1 else Some (True, bs2, z1))"

fun code_each ::
    "(nat \<Rightarrow> byte list \<Rightarrow> nat \<Rightarrow> 'z \<Rightarrow> int \<times> nat \<times> byte list \<times> 'z) \<Rightarrow> nat \<Rightarrow> bool \<Rightarrow> byte list list \<Rightarrow> byte list list \<Rightarrow> 'z \<Rightarrow> (bool \<times> byte list list \<times> 'z) option" where
  "code_each f n finish [] bs z = Some (True, bs, z)"
| "code_each f n finish (v # vs) bs z =
     (case code_loop (f (if finish \<and> vs = [] then Z_FINISH else Z_NO_FLUSH)) n v bs z of
        None \<Rightarrow> None
      | Some (ok, bs1, z1) \<Rightarrow> if ok then code_each f n finish vs bs1 z1 else Some (False, bs1, z1))"

definition encode :: "'z zlib \<Rightarrow> byte list list \<Rightarrow> bool \<Rightarrow> 'z ZlibStream \<Rightarrow> (int \<times> 'z ZlibStream) option" where
  "encode Z v finish s =
     (case code_each (deflate Z) (m_buff_size s) finish v (m_buffers s) (m_zstream s) of
        None \<Rightarrow> None
      | Some (ok, bs, z) \<Rightarrow>
          if \<not> ok then Some (Z_STREAM_ERROR, s\<lparr>m_buffers := bs, m_zstream := z\<rparr>)
          else Some (Z_OK, s\<lparr>m_buffers := bs, m_zstream := if finish \<and> v \<noteq> [] then deflateEnd Z z else z\<rparr>))"

definition decode :: "'z zlib \<Rightarrow> byte list list \<Rightarrow> bool \<Rightarrow> 'z ZlibStream \<Rightarrow> (int \<times> 'z ZlibStream) option" where
  "decode Z v finish s =
     (case code_each (inflate Z) (m_buff_size s) finish v (m_buffers s) (m_zstream s) of
        None \<Rightarrow> None
      | Some (ok, bs, z) \<Rightarrow>
          if \<not> ok then Some (Z_STREAM_ERROR, s\<lparr>m_buffers := bs, m_zstream := z\<rparr>)
          else Some (Z_OK, s\<lparr>m_buffers := bs, m_zstream := if finish \<and> v \<noteq> [] then inflateEnd Z z else z\<rparr>))"

text \<open>The destructor: how many buffers are freed, and the state of zlib.\<close>

definition ZlibStream_delete :: "'z zlib \<Rightarrow> 'z ZlibStream \<Rightarrow> nat \<times> 'z" where
  "ZlibStream_delete Z s =
     (if m_free s then length (m_buffers s) else 0, if m_encode s then deflateEnd Z (m_zstream s) else inflateEnd Z (m_zstream s))"

section \<open>The interface of a stream\<close>

text \<open>Reading throws.\<close>

definition ZlibStream_read :: "nat \<Rightarrow> string + int \<times> byte list" where
  "ZlibStream_read len = Inl ''[ZlibStream::read is invalid]''"

definition ZlibStream_write :: "'z zlib \<Rightarrow> byte list \<Rightarrow> 'z ZlibStream \<Rightarrow> (int \<times> 'z ZlibStream) option" where
  "ZlibStream_write Z buffer s = (if m_encode s then encode Z [buffer] False s else decode Z [buffer] False s)"

definition ZlibStream_write_ba :: "'z zlib \<Rightarrow> bytearray \<Rightarrow> nat \<Rightarrow> 'z ZlibStream \<Rightarrow> (ba_error + int \<times> 'z ZlibStream) option" where
  "ZlibStream_write_ba Z ba len s =
     (case get_enable_read_buffers len ba of
        Inl e \<Rightarrow> Some (Inl e)
      | Inr (iovs, n) \<Rightarrow>
          map_option Inr (if m_encode s then encode Z (map (iov_bytes ba) iovs) False s else decode Z (map (iov_bytes ba) iovs) False s))"

definition ZlibStream_flush :: "'z zlib \<Rightarrow> 'z ZlibStream \<Rightarrow> (int \<times> 'z ZlibStream) option" where
  "ZlibStream_flush Z s = (if m_encode s then encode Z [[]] True s else decode Z [[]] True s)"

definition ZlibStream_close :: "'z zlib \<Rightarrow> 'z ZlibStream \<Rightarrow> 'z ZlibStream option" where
  "ZlibStream_close Z s = map_option snd (ZlibStream_flush Z s)"

definition get_result :: "'z ZlibStream \<Rightarrow> byte list" where
  "get_result s = concat (m_buffers s)"

fun write_each :: "byte list list \<Rightarrow> (bytearray, ba_error, unit) se" where
  "write_each [] = se_return ()"
| "write_each (b # bs) = se_bind (ByteArray_write b) (\<lambda>_. write_each bs)"

definition get_byte_array :: "(nat \<Rightarrow> byte) \<Rightarrow> 'z ZlibStream \<Rightarrow> (ba_error + unit) \<times> bytearray" where
  "get_byte_array fresh s = se_bind (write_each (m_buffers s)) (\<lambda>_. set_position 0) (ByteArray_new fresh 4096)"

text \<open>
  What the client of HTTP does with a body that is compressed: the results of writing and flushing are not looked at. \<open>None\<close> stands for a
  stream that could not be made, whose null pointer is used.
\<close>

definition expand_body :: "'z zlib \<Rightarrow> zlib_type \<Rightarrow> string \<Rightarrow> string option" where
  "expand_body Z type body =
     (case ZlibStream_Create Z False 4096 type DEFAULT_COMPRESSION 15 8 DEFAULT of
        Some (Some s) \<Rightarrow>
          (case ZlibStream_write Z (map char_byte body) s of
             None \<Rightarrow> None
           | Some (_, s1) \<Rightarrow> map_option (\<lambda>(_, s2). map byte_char (get_result s2)) (ZlibStream_flush Z s1))
      | _ \<Rightarrow> None)"

section \<open>What is asked of zlib\<close>

text \<open>
  \<open>run z i p\<close>: in the state \<open>z\<close> the input \<open>i\<close> has been taken and \<open>p\<close> has been put out. A call with room in the output does not
  report an inconsistent stream, and what is put out is bounded by what was taken.
\<close>

locale coder =
  fixes f :: "nat \<Rightarrow> byte list \<Rightarrow> nat \<Rightarrow> 'z \<Rightarrow> int \<times> nat \<times> byte list \<times> 'z"
    and run :: "'z \<Rightarrow> byte list \<Rightarrow> byte list \<Rightarrow> bool" and bound :: "nat \<Rightarrow> nat"
  assumes step: "run z i p \<Longrightarrow> 0 < n \<Longrightarrow> f fl inp n z = (ret, k, out, z1) \<Longrightarrow>
      ret \<noteq> Z_STREAM_ERROR \<and> k \<le> length inp \<and> length out \<le> n \<and> run z1 (i @ take k inp) (p @ out)"
    and bounded: "run z i p \<Longrightarrow> length p \<le> bound (length i)"
    and bound_mono: "a \<le> b \<Longrightarrow> bound a \<le> bound b"

text \<open>
  Compression takes all of its input unless the output is filled; when it is told to finish and the output is not
  filled, what was put out stands for all that was taken.
\<close>

locale deflater = coder +
  fixes expand :: "byte list \<Rightarrow> byte list option"
  assumes takes_all: "run z i p \<Longrightarrow> f fl inp n z = (ret, k, out, z1) \<Longrightarrow> length out < n \<Longrightarrow> k = length inp"
    and complete: "run z i p \<Longrightarrow> f Z_FINISH inp n z = (ret, k, out, z1) \<Longrightarrow> length out < n \<Longrightarrow> expand (p @ out) = Some (i @ inp)"

text \<open>
  Decompression of a complete stream \<open>r\<close>, given in pieces, takes all of its input unless the output is filled, and has
  put out all that the stream stands for when it has the whole of it.
\<close>

locale inflater = coder +
  fixes expand :: "byte list \<Rightarrow> byte list option"
  assumes takes_prefix: "run z i p \<Longrightarrow> i @ inp @ rest = r \<Longrightarrow> expand r = Some d \<Longrightarrow> f fl inp n z = (ret, k, out, z1) \<Longrightarrow> length out < n \<Longrightarrow>
      k = length inp \<and> (rest = [] \<longrightarrow> p @ out = d)"

section \<open>The loops\<close>

definition fits :: "nat \<Rightarrow> byte list list \<Rightarrow> bool" where
  "fits n bs \<longleftrightarrow> list_all (\<lambda>b. length b \<le> n) bs"

lemma pick_buffer_spec:
  assumes "fits n bs" "0 < n"
  shows "pick_buffer n bs \<noteq> []" "length (last (pick_buffer n bs)) < n" "concat (pick_buffer n bs) = concat bs" "fits n (pick_buffer n bs)"
proof -
  have "length (last bs) \<le> n" if "bs \<noteq> []" using assms(1) that by (simp add: fits_def list_all_iff)
  then show "length (last (pick_buffer n bs)) < n" using assms(2) by (cases "bs = []") (auto simp: pick_buffer_def intro: le_neq_implies_less)
qed (use assms in \<open>auto simp: pick_buffer_def fits_def\<close>)

lemma fill_last:
  assumes "bs \<noteq> []" "fits n bs" "length out \<le> n - length (last bs)"
  shows "fits n (butlast bs @ [last bs @ out])" "concat (butlast bs @ [last bs @ out]) = concat bs @ out"
proof -
  have b: "butlast bs @ [last bs] = bs" using assms(1) by simp
  have "fits n (butlast bs @ [last bs])" using b assms(2) by simp
  then show "fits n (butlast bs @ [last bs @ out])" using assms(3) by (auto simp: fits_def)
  have "concat bs = concat (butlast bs @ [last bs])" using b by (rule arg_cong [OF sym])
  then show "concat (butlast bs @ [last bs @ out]) = concat bs @ out" by simp
qed

context coder
begin

text \<open>The loop ends, and with a call that did not fill its output.\<close>

lemma code_loop_ends:
  assumes "run z i (concat bs)" "fits n bs" "0 < n"
  shows "\<exists>z1 i1 p1 inp1 room ret k out bs2 z2. code_loop (f fl) n inp bs z = Some (True, bs2, z2) \<and> fits n bs2 \<and> run z1 i1 p1 \<and> i1 @ inp1 = i @ inp \<and>
    f fl inp1 room z1 = (ret, k, out, z2) \<and> length out < room \<and> p1 @ out = concat bs2 \<and> run z2 (i1 @ take k inp1) (concat bs2)"
  using assms(1,2)
proof (induction "bound (length i + length inp) - length (concat bs)" arbitrary: i inp bs z rule: less_induct)
  case less
  define bs1 where "bs1 = pick_buffer n bs"
  define room where "room = n - length (last bs1)"
  note b = pick_buffer_spec [OF less.prems(2) assms(3), folded bs1_def]
  obtain ret k out z1 where c: "f fl inp room z = (ret, k, out, z1)" by (metis prod_cases4)
  have room: "0 < room" using b(2) by (simp add: room_def)
  note s = step [OF less.prems(1) room c]
  let ?bs = "butlast bs1 @ [last bs1 @ out]"
  note l = fill_last [OF b(1,4), of out]
  have bs: "fits n ?bs" "concat ?bs = concat bs @ out" using s l b(3) by (auto simp: room_def)
  have r: "run z1 (i @ take k inp) (concat ?bs)" unfolding bs(2) using s by blast
  have e: "code_loop (f fl) n inp bs z = (if length out = room then code_loop (f fl) n (drop k inp) ?bs z1 else Some (True, ?bs, z1))"
    using c s by (subst code_loop.simps) (simp add: Let_def bs1_def [symmetric] room_def [symmetric])
  show ?case
  proof (cases "length out = room")
    case True
    have k: "length (i @ take k inp) + length (drop k inp) = length i + length inp" using s by simp
    have "length (concat ?bs) \<le> bound (length i + length inp)"
      using bounded [OF r] bound_mono [of "length (i @ take k inp)" "length i + length inp"] k by simp
    then have "bound (length i + length inp) - length (concat ?bs) < bound (length i + length inp) - length (concat bs)"
      using True room unfolding bs(2) length_append by linarith
    from less.hyps [of "i @ take k inp" "drop k inp" ?bs, unfolded k, OF this r bs(1)] show ?thesis using e True by simp
  next
    case False
    then have "length out < room" using s by simp
    then show ?thesis using e False r bs s c less.prems(1) by fastforce
  qed
qed

end

context deflater
begin

lemma deflate_each:
  assumes "run z i (concat bs)" "fits n bs" "0 < n"
  shows "\<exists>bs2 z2. code_each f n finish vs bs z = Some (True, bs2, z2) \<and> fits n bs2 \<and> run z2 (i @ concat vs) (concat bs2) \<and>
    (finish \<and> vs \<noteq> [] \<longrightarrow> expand (concat bs2) = Some (i @ concat vs))"
  using assms(1,2)
proof (induction vs arbitrary: i bs z)
  case (Cons v vs)
  define fl where "fl = (if finish \<and> vs = [] then Z_FINISH else Z_NO_FLUSH)"
  obtain z1 i1 p1 inp1 room ret k out bs2 z2 where l: "code_loop (f fl) n v bs z = Some (True, bs2, z2)" "fits n bs2" "run z1 i1 p1" "i1 @ inp1 = i @ v"
      "f fl inp1 room z1 = (ret, k, out, z2)" "length out < room" "p1 @ out = concat bs2" "run z2 (i1 @ take k inp1) (concat bs2)"
    using code_loop_ends [OF Cons.prems assms(3), of fl v] by blast
  have r: "run z2 (i @ v) (concat bs2)" using takes_all [OF l(3,5,6)] l(4,8) by simp
  have f: "expand (concat bs2) = Some (i @ v)" if "finish" "vs = []" using complete [OF l(3) _ l(6)] l(4,5,7) that by (simp add: fl_def)
  from Cons.IH [OF r l(2)] show ?case using l(1) f by (cases vs) (auto simp: fl_def)
qed simp

end

context inflater
begin

lemma inflate_each:
  assumes "run z i (concat bs)" "fits n bs" "0 < n" "i @ concat vs @ rest = r" "expand r = Some d"
  shows "\<exists>bs2 z2. code_each f n finish vs bs z = Some (True, bs2, z2) \<and> fits n bs2 \<and> run z2 (i @ concat vs) (concat bs2) \<and>
    (rest = [] \<and> vs \<noteq> [] \<longrightarrow> concat bs2 = d)"
  using assms(1,2,4)
proof (induction vs arbitrary: i bs z)
  case (Cons v vs)
  define fl where "fl = (if finish \<and> vs = [] then Z_FINISH else Z_NO_FLUSH)"
  obtain z1 i1 p1 inp1 room ret k out bs2 z2 where l: "code_loop (f fl) n v bs z = Some (True, bs2, z2)" "fits n bs2" "run z1 i1 p1" "i1 @ inp1 = i @ v"
      "f fl inp1 room z1 = (ret, k, out, z2)" "length out < room" "p1 @ out = concat bs2" "run z2 (i1 @ take k inp1) (concat bs2)"
    using code_loop_ends [OF Cons.prems(1,2) assms(3), of fl v] by blast
  have r: "i1 @ inp1 @ (concat vs @ rest) = r" using Cons.prems(3) l(4) by (metis append.assoc concat.simps(2))
  have t: "k = length inp1" "concat vs @ rest = [] \<longrightarrow> p1 @ out = d" using takes_prefix [OF l(3) r assms(5) l(5,6)] by blast+
  have "run z2 (i @ v) (concat bs2)" "(i @ v) @ concat vs @ rest = r" using t(1) l(4,8) Cons.prems(3) by simp_all
  from Cons.IH [OF this(1) l(2) this(2)] show ?case using l(1,7) t(2) by (cases vs) (auto simp: fl_def)
qed simp

end

section \<open>The buffers of a stream\<close>

text \<open>A client that writes the pieces one after the other, as long as each write succeeds.\<close>

fun write_pieces :: "'z zlib \<Rightarrow> byte list list \<Rightarrow> 'z ZlibStream \<Rightarrow> (int \<times> 'z ZlibStream) option" where
  "write_pieces Z [] s = Some (Z_OK, s)"
| "write_pieces Z (v # vs) s =
     (case ZlibStream_write Z v s of None \<Rightarrow> None | Some (ret, s1) \<Rightarrow> if ret = Z_OK then write_pieces Z vs s1 else Some (ret, s1))"

definition codes :: "('z \<Rightarrow> byte list \<Rightarrow> byte list \<Rightarrow> bool) \<Rightarrow> bool \<Rightarrow> nat \<Rightarrow> 'z ZlibStream \<Rightarrow> byte list \<Rightarrow> bool" where
  "codes run enc n s i \<longleftrightarrow> m_encode s = enc \<and> m_buff_size s = n \<and> fits n (m_buffers s) \<and> run (m_zstream s) i (get_result s)"

lemma zlib_encode_spec:
  assumes "deflater (deflate Z) run bound expand" "codes run True n s i" "0 < n"
  obtains s1 where "encode Z vs finish s = Some (Z_OK, s1)" "finish \<or> codes run True n s1 (i @ concat vs)"
    "finish \<and> vs \<noteq> [] \<longrightarrow> expand (get_result s1) = Some (i @ concat vs)"
proof -
  obtain bs z where "code_each (deflate Z) n finish vs (m_buffers s) (m_zstream s) = Some (True, bs, z)" "fits n bs" "run z (i @ concat vs) (concat bs)"
      "finish \<and> vs \<noteq> [] \<longrightarrow> expand (concat bs) = Some (i @ concat vs)"
    using deflater.deflate_each [OF assms(1), of "m_zstream s" i "m_buffers s" n finish vs] assms(2,3) by (auto simp: codes_def get_result_def)
  with assms(2) show thesis by (intro that [of "s\<lparr>m_buffers := bs, m_zstream := if finish \<and> vs \<noteq> [] then deflateEnd Z z else z\<rparr>"])
    (auto simp: encode_def codes_def get_result_def)
qed

lemma zlib_decode_spec:
  assumes "inflater (inflate Z) run bound expand" "codes run False n s i" "0 < n" "i @ concat vs @ rest = r" "expand r = Some d"
  obtains s1 where "decode Z vs finish s = Some (Z_OK, s1)" "finish \<or> codes run False n s1 (i @ concat vs)" "rest = [] \<and> vs \<noteq> [] \<longrightarrow> get_result s1 = d"
proof -
  obtain bs z where "code_each (inflate Z) n finish vs (m_buffers s) (m_zstream s) = Some (True, bs, z)" "fits n bs" "run z (i @ concat vs) (concat bs)"
      "rest = [] \<and> vs \<noteq> [] \<longrightarrow> concat bs = d"
    using inflater.inflate_each [OF assms(1), of "m_zstream s" i "m_buffers s" n vs rest r d finish] assms(2-5) by (auto simp: codes_def get_result_def)
  with assms(2) show thesis by (intro that [of "s\<lparr>m_buffers := bs, m_zstream := if finish \<and> vs \<noteq> [] then inflateEnd Z z else z\<rparr>"])
    (auto simp: decode_def codes_def get_result_def)
qed

lemma write_pieces_deflate:
  assumes "deflater (deflate Z) run bound expand" "0 < n" "codes run True n s i"
  shows "\<exists>s1. write_pieces Z ws s = Some (Z_OK, s1) \<and> codes run True n s1 (i @ concat ws)"
  using assms(3)
proof (induction ws arbitrary: s i)
  case (Cons w ws)
  obtain s1 where s: "encode Z [w] False s = Some (Z_OK, s1)" "codes run True n s1 (i @ w)"
    using zlib_encode_spec [OF assms(1) Cons.prems assms(2), of "[w]" False] by auto
  have "m_encode s" using Cons.prems by (simp add: codes_def)
  then show ?case using Cons.IH [OF s(2)] s(1) by (simp add: ZlibStream_write_def)
qed simp

lemma write_pieces_inflate:
  assumes "inflater (inflate Z) run bound expand" "0 < n" "expand r = Some d" "codes run False n s i" "i @ concat vs @ rest = r"
  shows "\<exists>s1. write_pieces Z vs s = Some (Z_OK, s1) \<and> codes run False n s1 (i @ concat vs) \<and> (rest = [] \<and> vs \<noteq> [] \<longrightarrow> get_result s1 = d)"
  using assms(4,5)
proof (induction vs arbitrary: s i)
  case (Cons v vs)
  obtain s1 where s: "decode Z [v] False s = Some (Z_OK, s1)" "codes run False n s1 (i @ v)" "concat vs @ rest = [] \<longrightarrow> get_result s1 = d"
    using zlib_decode_spec [OF assms(1) Cons.prems(1) assms(2) _ assms(3), of "[v]" "concat vs @ rest" False] Cons.prems(2) by auto
  have "\<not> m_encode s" "(i @ v) @ concat vs @ rest = r" using Cons.prems by (simp_all add: codes_def)
  then show ?case using Cons.IH [OF s(2)] s(1,3) by (cases vs) (auto simp: ZlibStream_write_def)
qed simp

lemma write_each_stores: "ba.stores (write_each bs) m (concat bs)"
proof (induction bs)
  case (Cons b bs)
  show ?case using ba.stores_bind [OF ba.stores_write Cons] by simp
next
  case Nil
  show ?case unfolding write_each.simps concat.simps by (rule ba.stores_return)
qed

lemma flush_deflate:
  assumes "deflater (deflate Z) run bound expand" "codes run True n s i" "0 < n"
  obtains s1 where "ZlibStream_flush Z s = Some (Z_OK, s1)" "expand (get_result s1) = Some i"
  using zlib_encode_spec [OF assms, of "[[]]" True] assms(2) by (auto simp: ZlibStream_flush_def codes_def)

lemma expand_body_spec:
  assumes "inflater (inflate Z) run bound expand" "expand (map char_byte body) = Some d"
    "ZlibStream_Create Z False 4096 type DEFAULT_COMPRESSION 15 8 DEFAULT = Some (Some s)" "run (m_zstream s) [] []"
  shows "expand_body Z type body = Some (map byte_char d)"
proof -
  let ?b = "map char_byte body"
  have s: "codes run False 4096 s []" "\<not> m_encode s"
    using assms(3,4) by (auto simp: ZlibStream_Create_def codes_def get_result_def fits_def split: prod.splits if_splits)
  have n: "(0::nat) < 4096" by simp
  obtain s1 where s1: "decode Z [?b] False s = Some (Z_OK, s1)" "codes run False 4096 s1 ?b"
    using zlib_decode_spec [OF assms(1) s(1) n _ assms(2), of "[?b]" "[]" False] by auto
  obtain s2 where s2: "decode Z [[]] True s1 = Some (Z_OK, s2)" "get_result s2 = d"
    using zlib_decode_spec [OF assms(1) s1(2) n _ assms(2), of "[[]]" "[]" True] by auto
  have "\<not> m_encode s1" using s1(2) by (simp add: codes_def)
  then show ?thesis using assms(3) s(2) s1(1) s2 by (simp add: expand_body_def ZlibStream_write_def ZlibStream_flush_def)
qed

lemma get_byte_array_spec:
  assumes "length (get_result s) \<le> 2 ^ 64 - 3 * 4096"
  shows "\<exists>ba. get_byte_array fresh s = (Inr (), ba) \<and> ba_contents ba = get_result s \<and> ba_position ba = 0"
proof -
  note w = ByteArray_new_wf [of 4096 fresh]
  have "ba.stores (write_each (m_buffers s)) TIGER_BIG_ENDIAN (concat (m_buffers s))" by (rule write_each_stores)
  then obtain ba1 where b: "write_each (m_buffers s) (ByteArray_new fresh 4096) = (Inr (), ba1)" "ba_wf ba1" "ba_contents ba1 = concat (m_buffers s)"
    using w assms unfolding ba.stores_def get_result_def by (fastforce simp: patch_at_front)
  obtain ba2 where "set_position 0 ba1 = (Inr (), ba2)" "ba_contents ba2 = ba_contents ba1" "ba_position ba2 = 0"
    using ba.bseek_law [OF b(2), of 0] by auto
  then show ?thesis using b by (simp add: get_byte_array_def get_result_def se_bind_def)
qed

text \<open>The bytes that are left to be read in a byte array are compressed without being copied; its position stays.\<close>

lemma write_ba_deflate:
  assumes "deflater (deflate Z) run bound expand" "codes run True n s i" "0 < n" "ba_inv ba"
  shows "\<exists>s1. ZlibStream_write_ba Z ba len s = Some (Inr (Z_OK, s1)) \<and>
    codes run True n s1 (i @ take (min len (ba_size ba - ba_position ba)) (drop (ba_position ba) (ba_contents ba)))"
proof -
  obtain iovs where v: "get_enable_read_buffers len ba = Inr (iovs, min len (ba_size ba - ba_position ba))"
      "concat (map (iov_bytes ba) iovs) = take (min len (ba_size ba - ba_position ba)) (drop (ba_position ba) (ba_contents ba))"
    using get_enable_read_buffers_spec [OF assms(4) refl] by blast
  obtain s1 where "encode Z (map (iov_bytes ba) iovs) False s = Some (Z_OK, s1)" "codes run True n s1 (i @ concat (map (iov_bytes ba) iovs))"
    using zlib_encode_spec [OF assms(1-3), of "map (iov_bytes ba) iovs" False] by blast
  then show ?thesis using v assms(2) by (simp add: ZlibStream_write_ba_def codes_def)
qed

text \<open>With buffers of size 0 the loop does not end: every buffer counts as full.\<close>

lemma code_loop_spins:
  assumes "\<forall>inp z. \<exists>ret k z1. f inp 0 z = (ret, k, [], z1) \<and> ret \<noteq> Z_STREAM_ERROR"
  shows "code_loop f 0 inp bs z = None"
proof -
  have "code_loop f n inp bs z = Some r \<Longrightarrow> n = 0 \<Longrightarrow> \<forall>inp z. \<exists>ret k z1. f inp 0 z = (ret, k, [], z1) \<and> ret \<noteq> Z_STREAM_ERROR \<Longrightarrow> False" for n r
  proof (induction rule: code_loop.raw_induct [rotated, consumes 1, case_names step])
    case (step loop f n inp bs z r)
    obtain ret k z1 where c: "f inp 0 z = (ret, k, [], z1)" "ret \<noteq> Z_STREAM_ERROR" using step.prems(2) by blast
    let ?bs = "pick_buffer n bs"
    have "loop f n (drop k inp) (butlast ?bs @ [last ?bs]) z1 = Some r" using step.hyps c step.prems(1) by (simp add: Let_def)
    then show ?case using step.IH step.prems by blast
  qed
  then show ?thesis using assms by (cases "code_loop f 0 inp bs z") auto
qed

section \<open>A coder that stores\<close>

text \<open>
  The contracts hold for a coder that writes one byte in front and the input as it is. Its state is the output
  that is pending and, for decompression, whether that byte has been seen.
\<close>

datatype stored = Enc "byte list" | Dec bool "byte list" | Ended

fun stored_deflate :: "nat \<Rightarrow> byte list \<Rightarrow> nat \<Rightarrow> stored \<Rightarrow> int \<times> nat \<times> byte list \<times> stored" where
  "stored_deflate fl inp n (Enc q) = (Z_OK, length inp, take n (q @ inp), Enc (drop n (q @ inp)))"
| "stored_deflate fl inp n z = (Z_STREAM_ERROR, 0, [], z)"

fun stored_inflate :: "nat \<Rightarrow> byte list \<Rightarrow> nat \<Rightarrow> stored \<Rightarrow> int \<times> nat \<times> byte list \<times> stored" where
  "stored_inflate fl inp n (Dec h q) =
     (let q1 = q @ (if h then inp else tl inp) in (Z_OK, length inp, take n q1, Dec (h \<or> inp \<noteq> []) (drop n q1)))"
| "stored_inflate fl inp n z = (Z_STREAM_ERROR, 0, [], z)"

definition stored_zlib :: "stored zlib" where
  "stored_zlib = \<lparr>deflateInit2 = \<lambda>l w m s. (Z_OK, Enc [120]), inflateInit2 = \<lambda>w. (Z_OK, Dec False []),
     deflate = stored_deflate, inflate = stored_inflate, deflateEnd = \<lambda>z. Ended, inflateEnd = \<lambda>z. Ended\<rparr>"

fun stored_expand :: "byte list \<Rightarrow> byte list option" where
  "stored_expand [] = None"
| "stored_expand (b # bs) = Some bs"

fun enc_run :: "stored \<Rightarrow> byte list \<Rightarrow> byte list \<Rightarrow> bool" where
  "enc_run (Enc q) i p \<longleftrightarrow> p @ q = 120 # i"
| "enc_run z i p \<longleftrightarrow> False"

fun dec_run :: "stored \<Rightarrow> byte list \<Rightarrow> byte list \<Rightarrow> bool" where
  "dec_run (Dec h q) i p \<longleftrightarrow> h = (i \<noteq> []) \<and> p @ q = tl i"
| "dec_run z i p \<longleftrightarrow> False"

lemma Z_OK_no_error [simp]: "Z_OK \<noteq> Z_STREAM_ERROR"
  by (simp add: Z_OK_def Z_STREAM_ERROR_def)

interpretation sd: deflater stored_deflate enc_run Suc stored_expand
proof
  fix z :: stored and i p inp out :: "byte list" and n fl k :: nat and ret :: int and z1
  assume r: "enc_run z i p"
  then obtain q where q: "z = Enc q" "p @ q = 120 # i" by (cases z) auto
  show "length p \<le> Suc (length i)" using arg_cong [OF q(2), of length] by simp
  {
    assume c: "stored_deflate fl inp n z = (ret, k, out, z1)"
    have e: "p @ take n (q @ inp) @ drop n (q @ inp) = 120 # i @ inp" using q(2) by (metis append.assoc append_Cons append_take_drop_id)
    show "ret \<noteq> Z_STREAM_ERROR \<and> k \<le> length inp \<and> length out \<le> n \<and> enc_run z1 (i @ take k inp) (p @ out)"
      using c q e by auto
    show "k = length inp" using c q by auto
  }
  {
    assume "stored_deflate Z_FINISH inp n z = (ret, k, out, z1)" "length out < n"
    then have "out = q @ inp" using q by auto
    then have "p @ out = 120 # i @ inp" using q(2) by (metis append.assoc append_Cons)
    then show "stored_expand (p @ out) = Some (i @ inp)" by simp
  }
qed simp

interpretation si: inflater stored_inflate dec_run id stored_expand
proof
  fix z :: stored and i p inp out rest r d :: "byte list" and n fl k :: nat and ret :: int and z1
  assume ru: "dec_run z i p"
  then obtain h q where q: "z = Dec h q" "h = (i \<noteq> [])" "p @ q = tl i" by (cases z) auto
  show "length p \<le> id (length i)" using arg_cong [OF q(3), of length] by simp
  define q1 where "q1 = q @ (if h then inp else tl inp)"
  have e: "p @ q1 = tl (i @ inp)" using q(2,3) by (cases i) (auto simp: q1_def)
  assume c: "stored_inflate fl inp n z = (ret, k, out, z1)"
  have o: "ret = Z_OK" "k = length inp" "out = take n q1" "z1 = Dec (h \<or> inp \<noteq> []) (drop n q1)" using c q(1) by (auto simp: q1_def Let_def)
  show "ret \<noteq> Z_STREAM_ERROR \<and> k \<le> length inp \<and> length out \<le> n \<and> dec_run z1 (i @ take k inp) (p @ out)"
    using o e q(2) by simp
  assume a: "i @ inp @ rest = r" "stored_expand r = Some d" "length out < n"
  have "out = q1" using o(3) a(3) by simp
  then show "k = length inp \<and> (rest = [] \<longrightarrow> p @ out = d)" using o(2) e a(1,2) by (cases "i @ inp") auto
qed simp

section \<open>Theorems\<close>



end
