(* ===== verification/Threads.thy ===== *)
theory Threads
  imports Prelude
begin

text \<open>
  The locks of \<^verbatim>\<open>src/mutex.h\<close> and \<^verbatim>\<open>src/mutex.cc\<close> and the threads of \<^verbatim>\<open>src/thread.cc\<close>. The functions of pthread are arguments: a function
  that takes a lock gives \<open>None\<close> as long as it has to wait, and otherwise its error number and the lock; the wrappers of the
  program do not look at that number. What is asked of them is the locale \<open>rw_locks\<close>, of which \<open>mutex_locks\<close> is a special case.
\<close>

section \<open>Locks\<close>

text \<open>The functions get the number of the thread that calls them.\<close>

record 'l lock_fns =
  pthread_rdlock :: "nat \<Rightarrow> 'l \<Rightarrow> (int \<times> 'l) option"
  pthread_wrlock :: "nat \<Rightarrow> 'l \<Rightarrow> (int \<times> 'l) option"
  pthread_unlock :: "nat \<Rightarrow> 'l \<Rightarrow> int \<times> 'l"

definition ReadWriteLock_rdlock :: "'l lock_fns \<Rightarrow> nat \<Rightarrow> 'l \<Rightarrow> 'l option" where
  "ReadWriteLock_rdlock P t l = map_option snd (pthread_rdlock P t l)"

definition ReadWriteLock_wrlock :: "'l lock_fns \<Rightarrow> nat \<Rightarrow> 'l \<Rightarrow> 'l option" where
  "ReadWriteLock_wrlock P t l = map_option snd (pthread_wrlock P t l)"

definition ReadWriteLock_unlock :: "'l lock_fns \<Rightarrow> nat \<Rightarrow> 'l \<Rightarrow> 'l" where
  "ReadWriteLock_unlock P t l = snd (pthread_unlock P t l)"

text \<open>\<^verbatim>\<open>MutexLock\<close> and \<^verbatim>\<open>SpinLock\<close>, with \<open>f\<close> and \<open>g\<close> the functions of pthread.\<close>

definition MutexLock_lock :: "(nat \<Rightarrow> 'l \<Rightarrow> (int \<times> 'l) option) \<Rightarrow> nat \<Rightarrow> 'l \<Rightarrow> 'l option" where
  "MutexLock_lock f t l = map_option snd (f t l)"

definition MutexLock_unlock :: "(nat \<Rightarrow> 'l \<Rightarrow> int \<times> 'l) \<Rightarrow> nat \<Rightarrow> 'l \<Rightarrow> 'l" where
  "MutexLock_unlock g t l = snd (g t l)"

definition SpinLock_lock :: "(nat \<Rightarrow> 'l \<Rightarrow> (int \<times> 'l) option) \<Rightarrow> nat \<Rightarrow> 'l \<Rightarrow> 'l option" where
  "SpinLock_lock f t l = map_option snd (f t l)"

definition SpinLock_unlock :: "(nat \<Rightarrow> 'l \<Rightarrow> int \<times> 'l) \<Rightarrow> nat \<Rightarrow> 'l \<Rightarrow> 'l" where
  "SpinLock_unlock g t l = snd (g t l)"

section \<open>Guards\<close>

record guard =
  m_locked :: bool

definition ScopedLock_lock :: "('l \<Rightarrow> 'l option) \<Rightarrow> guard \<times> 'l \<Rightarrow> (guard \<times> 'l) option" where
  "ScopedLock_lock lock = (\<lambda>(g, l). if \<not> m_locked g then map_option (\<lambda>l1. (g\<lparr>m_locked := True\<rparr>, l1)) (lock l) else Some (g, l))"

definition ScopedLock_unlock :: "('l \<Rightarrow> 'l) \<Rightarrow> guard \<times> 'l \<Rightarrow> guard \<times> 'l" where
  "ScopedLock_unlock unlock = (\<lambda>(g, l). if m_locked g then (g\<lparr>m_locked := False\<rparr>, unlock l) else (g, l))"

definition ScopedLock_new :: "('l \<Rightarrow> 'l option) \<Rightarrow> 'l \<Rightarrow> (guard \<times> 'l) option" where
  "ScopedLock_new lock l = ScopedLock_lock lock (\<lparr>m_locked = False\<rparr>, l)"

definition ScopedLock_delete :: "('l \<Rightarrow> 'l) \<Rightarrow> guard \<times> 'l \<Rightarrow> 'l" where
  "ScopedLock_delete unlock s = snd (ScopedLock_unlock unlock s)"

definition ReadScopedLock_lock :: "('l \<Rightarrow> 'l option) \<Rightarrow> guard \<times> 'l \<Rightarrow> (guard \<times> 'l) option" where
  "ReadScopedLock_lock rdlock = (\<lambda>(g, l). if \<not> m_locked g then map_option (\<lambda>l1. (g\<lparr>m_locked := True\<rparr>, l1)) (rdlock l) else Some (g, l))"

definition ReadScopedLock_unlock :: "('l \<Rightarrow> 'l) \<Rightarrow> guard \<times> 'l \<Rightarrow> guard \<times> 'l" where
  "ReadScopedLock_unlock unlock = (\<lambda>(g, l). if m_locked g then (g\<lparr>m_locked := False\<rparr>, unlock l) else (g, l))"

definition ReadScopedLock_new :: "('l \<Rightarrow> 'l option) \<Rightarrow> 'l \<Rightarrow> (guard \<times> 'l) option" where
  "ReadScopedLock_new rdlock l = ReadScopedLock_lock rdlock (\<lparr>m_locked = False\<rparr>, l)"

definition ReadScopedLock_delete :: "('l \<Rightarrow> 'l) \<Rightarrow> guard \<times> 'l \<Rightarrow> 'l" where
  "ReadScopedLock_delete unlock s = snd (ReadScopedLock_unlock unlock s)"

definition WriteScopedLock_lock :: "('l \<Rightarrow> 'l option) \<Rightarrow> guard \<times> 'l \<Rightarrow> (guard \<times> 'l) option" where
  "WriteScopedLock_lock wrlock = (\<lambda>(g, l). if \<not> m_locked g then map_option (\<lambda>l1. (g\<lparr>m_locked := True\<rparr>, l1)) (wrlock l) else Some (g, l))"

definition WriteScopedLock_unlock :: "('l \<Rightarrow> 'l) \<Rightarrow> guard \<times> 'l \<Rightarrow> guard \<times> 'l" where
  "WriteScopedLock_unlock unlock = (\<lambda>(g, l). if m_locked g then (g\<lparr>m_locked := False\<rparr>, unlock l) else (g, l))"

definition WriteScopedLock_new :: "('l \<Rightarrow> 'l option) \<Rightarrow> 'l \<Rightarrow> (guard \<times> 'l) option" where
  "WriteScopedLock_new wrlock l = WriteScopedLock_lock wrlock (\<lparr>m_locked = False\<rparr>, l)"

definition WriteScopedLock_delete :: "('l \<Rightarrow> 'l) \<Rightarrow> guard \<times> 'l \<Rightarrow> 'l" where
  "WriteScopedLock_delete unlock s = snd (WriteScopedLock_unlock unlock s)"

section \<open>Threads that use guards\<close>

text \<open>The guards of all threads on one lock, as objects with the thread they belong to.\<close>

datatype guard_kind = Rd | Wr

record owned_guard =
  og_thread :: nat
  og_kind :: guard_kind
  og_guard :: guard

type_synonym 'l lock_state = "owned_guard list \<times> 'l"

abbreviation locked :: "owned_guard \<Rightarrow> bool" where
  "locked g \<equiv> m_locked (og_guard g)"

definition guard_new :: "'l lock_fns \<Rightarrow> nat \<Rightarrow> guard_kind \<Rightarrow> 'l \<Rightarrow> (guard \<times> 'l) option" where
  "guard_new P t k l =
     (case k of Rd \<Rightarrow> ReadScopedLock_new (ReadWriteLock_rdlock P t) l | Wr \<Rightarrow> WriteScopedLock_new (ReadWriteLock_wrlock P t) l)"

definition guard_lock :: "'l lock_fns \<Rightarrow> owned_guard \<Rightarrow> 'l \<Rightarrow> (guard \<times> 'l) option" where
  "guard_lock P g l =
     (case og_kind g of
        Rd \<Rightarrow> ReadScopedLock_lock (ReadWriteLock_rdlock P (og_thread g)) (og_guard g, l)
      | Wr \<Rightarrow> WriteScopedLock_lock (ReadWriteLock_wrlock P (og_thread g)) (og_guard g, l))"

definition guard_unlock :: "'l lock_fns \<Rightarrow> owned_guard \<Rightarrow> 'l \<Rightarrow> guard \<times> 'l" where
  "guard_unlock P g l =
     (case og_kind g of
        Rd \<Rightarrow> ReadScopedLock_unlock (ReadWriteLock_unlock P (og_thread g)) (og_guard g, l)
      | Wr \<Rightarrow> WriteScopedLock_unlock (ReadWriteLock_unlock P (og_thread g)) (og_guard g, l))"

definition guard_delete :: "'l lock_fns \<Rightarrow> owned_guard \<Rightarrow> 'l \<Rightarrow> 'l" where
  "guard_delete P g l =
     (case og_kind g of
        Rd \<Rightarrow> ReadScopedLock_delete (ReadWriteLock_unlock P (og_thread g)) (og_guard g, l)
      | Wr \<Rightarrow> WriteScopedLock_delete (ReadWriteLock_unlock P (og_thread g)) (og_guard g, l))"

text \<open>
  One step of one thread. With \<open>nested\<close> a thread may take the lock with a guard while another of its guards has it; a call that
  would wait is not a step.
\<close>

definition holds :: "nat \<Rightarrow> owned_guard list \<Rightarrow> bool" where
  "holds t gs \<longleftrightarrow> (\<exists>g \<in> set gs. og_thread g = t \<and> locked g)"

inductive lock_step :: "'l lock_fns \<Rightarrow> bool \<Rightarrow> 'l lock_state \<Rightarrow> 'l lock_state \<Rightarrow> bool" for P nested where
  step_new: "nested \<or> \<not> holds t gs \<Longrightarrow> guard_new P t k l = Some (g, l1) \<Longrightarrow>
    lock_step P nested (gs, l) (gs @ [\<lparr>og_thread = t, og_kind = k, og_guard = g\<rparr>], l1)"
| step_lock: "i < length gs \<Longrightarrow> nested \<or> locked (gs ! i) \<or> \<not> holds (og_thread (gs ! i)) gs \<Longrightarrow> guard_lock P (gs ! i) l = Some (g, l1) \<Longrightarrow>
    lock_step P nested (gs, l) (gs[i := (gs ! i)\<lparr>og_guard := g\<rparr>], l1)"
| step_unlock: "i < length gs \<Longrightarrow> guard_unlock P (gs ! i) l = (g, l1) \<Longrightarrow> lock_step P nested (gs, l) (gs[i := (gs ! i)\<lparr>og_guard := g\<rparr>], l1)"
| step_delete: "i < length gs \<Longrightarrow> lock_step P nested (gs, l) (take i gs @ drop (Suc i) gs, guard_delete P (gs ! i) l)"

definition lock_reach :: "'l lock_fns \<Rightarrow> bool \<Rightarrow> 'l \<Rightarrow> 'l lock_state \<Rightarrow> bool" where
  "lock_reach P nested l0 = (lock_step P nested)\<^sup>*\<^sup>* ([], l0)"

section \<open>What is asked of pthread\<close>

text \<open>
  A thread that does not have the lock gets it when the call returns, for reading when no thread writes and for writing when no
  other thread has it; unlocking gives up what the thread has.
\<close>

locale rw_locks =
  fixes P :: "'l lock_fns" and readers :: "'l \<Rightarrow> nat set" and writer :: "'l \<Rightarrow> nat option"
  assumes rdlock: "pthread_rdlock P t l = Some (rt, l1) \<Longrightarrow> t \<notin> readers l \<Longrightarrow> writer l \<noteq> Some t \<Longrightarrow>
      writer l = None \<and> readers l1 = insert t (readers l) \<and> writer l1 = None"
    and wrlock: "pthread_wrlock P t l = Some (rt, l1) \<Longrightarrow> t \<notin> readers l \<Longrightarrow> writer l \<noteq> Some t \<Longrightarrow>
      writer l = None \<and> readers l = {} \<and> readers l1 = {} \<and> writer l1 = Some t"
    and unlock_read: "pthread_unlock P t l = (rt, l1) \<Longrightarrow> t \<in> readers l \<Longrightarrow> writer l = None \<Longrightarrow> readers l1 = readers l - {t} \<and> writer l1 = None"
    and unlock_write: "pthread_unlock P t l = (rt, l1) \<Longrightarrow> writer l = Some t \<Longrightarrow> readers l = {} \<Longrightarrow> readers l1 = {} \<and> writer l1 = None"

locale mutex_locks =
  fixes lock :: "nat \<Rightarrow> 'l \<Rightarrow> (int \<times> 'l) option" and unlock :: "nat \<Rightarrow> 'l \<Rightarrow> int \<times> 'l" and owner :: "'l \<Rightarrow> nat option"
  assumes lock_law: "lock t l = Some (rt, l1) \<Longrightarrow> owner l \<noteq> Some t \<Longrightarrow> owner l = None \<and> owner l1 = Some t"
    and unlock_law: "unlock t l = (rt, l1) \<Longrightarrow> owner l = Some t \<Longrightarrow> owner l1 = None"

sublocale mutex_locks \<subseteq> rw: rw_locks "\<lparr>pthread_rdlock = \<lambda>t l. None, pthread_wrlock = lock, pthread_unlock = unlock\<rparr>" "\<lambda>l. {}" owner
  by unfold_locales (auto dest: lock_law unlock_law)

text \<open>The lock is with exactly those threads whose guards say so, and every thread has it once.\<close>

definition holders :: "guard_kind \<Rightarrow> owned_guard list \<Rightarrow> nat set" where
  "holders k gs = og_thread ` {g \<in> set gs. locked g \<and> og_kind g = k}"

definition guards_agree :: "('l \<Rightarrow> nat set) \<Rightarrow> ('l \<Rightarrow> nat option) \<Rightarrow> 'l lock_state \<Rightarrow> bool" where
  "guards_agree readers writer = (\<lambda>(gs, l).
     readers l = holders Rd gs \<and> set_option (writer l) = holders Wr gs \<and> (writer l \<noteq> None \<longrightarrow> readers l = {}) \<and>
     distinct (map og_thread (filter locked gs)))"

lemmas guard_defs = guard_new_def guard_lock_def guard_unlock_def guard_delete_def ReadScopedLock_new_def ReadScopedLock_lock_def
  ReadScopedLock_unlock_def ReadScopedLock_delete_def WriteScopedLock_new_def WriteScopedLock_lock_def WriteScopedLock_unlock_def
  WriteScopedLock_delete_def ReadWriteLock_rdlock_def ReadWriteLock_wrlock_def ReadWriteLock_unlock_def

lemma guard_new_lock: "guard_new P t k l = guard_lock P \<lparr>og_thread = t, og_kind = k, og_guard = \<lparr>m_locked = False\<rparr>\<rparr> l"
  by (cases k) (simp_all add: guard_new_def guard_lock_def ReadScopedLock_new_def WriteScopedLock_new_def)

lemma guard_delete_unlock: "guard_delete P g l = snd (guard_unlock P g l)"
  by (simp add: guard_delete_def guard_unlock_def ReadScopedLock_delete_def WriteScopedLock_delete_def split: guard_kind.split)

lemma holders_simps [simp]:
  "holders k [] = {}" "holders k (g # gs) = (if locked g \<and> og_kind g = k then insert (og_thread g) (holders k gs) else holders k gs)"
  "holders k (gs @ hs) = holders k gs \<union> holders k hs"
  by (auto simp: holders_def)

lemma holders_holds: "t \<in> holders k gs \<Longrightarrow> holds t gs"
  by (auto simp: holders_def holds_def)

lemma holds_filter: "holds t gs \<longleftrightarrow> t \<in> set (map og_thread (filter locked gs))"
  by (auto simp: holds_def)

lemma agree_move: "guards_agree readers writer (xs @ g # ys, l) = guards_agree readers writer (g # xs @ ys, l)"
  by (auto simp: guards_agree_def)

lemma agree_unlocked: "\<not> locked g \<Longrightarrow> guards_agree readers writer (g # gs, l) = guards_agree readers writer (gs, l)"
  by (simp add: guards_agree_def)

lemma holds_cases:
  assumes "guards_agree readers writer (gs, l)" "\<not> holds t gs"
  shows "t \<notin> readers l" "writer l \<noteq> Some t"
  using assms by (auto simp: guards_agree_def dest: holders_holds)

lemma guard_lock_cases:
  assumes "guard_lock P g l = Some (h, l1)" "\<not> locked g"
  obtains rt where "h = \<lparr>m_locked = True\<rparr>" "og_kind g = Rd \<Longrightarrow> pthread_rdlock P (og_thread g) l = Some (rt, l1)" "og_kind g = Wr \<Longrightarrow> pthread_wrlock P (og_thread g) l = Some (rt, l1)"
  using assms by (cases "og_kind g") (auto simp: guard_defs)

lemma guard_unlock_cases:
  assumes "guard_unlock P g l = (h, l1)"
  obtains "\<not> locked g" "h = og_guard g" "l1 = l" | rt where "locked g" "h = \<lparr>m_locked = False\<rparr>" "pthread_unlock P (og_thread g) l = (rt, l1)"
  using assms by (cases "og_kind g"; cases "locked g"; cases "pthread_unlock P (og_thread g) l") (auto simp: guard_defs)

lemma guard_lock_locked: "locked g \<Longrightarrow> guard_lock P g l = Some (og_guard g, l)"
  by (cases "og_kind g") (simp_all add: guard_defs)

context rw_locks
begin

lemma agree_acquire:
  assumes "guards_agree readers writer (gs, l)" "\<not> holds (og_thread g) gs" "\<not> locked g" "guard_lock P g l = Some (h, l1)"
  shows "guards_agree readers writer (g\<lparr>og_guard := h\<rparr> # gs, l1)"
proof -
  note n = holds_cases [OF assms(1,2)] and f = assms(2) [unfolded holds_filter]
  obtain rt where h: "h = \<lparr>m_locked = True\<rparr>" and rd: "og_kind g = Rd \<Longrightarrow> pthread_rdlock P (og_thread g) l = Some (rt, l1)"
    and wr: "og_kind g = Wr \<Longrightarrow> pthread_wrlock P (og_thread g) l = Some (rt, l1)" using guard_lock_cases [OF assms(4,3)] by metis
  show ?thesis
  proof (cases "og_kind g")
    case Rd
    from rdlock [OF rd [OF Rd] n] show ?thesis using assms(1) f h Rd by (simp add: guards_agree_def)
  next
    case Wr
    from wrlock [OF wr [OF Wr] n] show ?thesis using assms(1) f h Wr by (simp add: guards_agree_def)
  qed
qed

lemma agree_release:
  assumes "guards_agree readers writer (g # gs, l)" "guard_unlock P g l = (h, l1)"
  shows "guards_agree readers writer (gs, l1) \<and> \<not> m_locked h"
  using assms(2)
proof (cases rule: guard_unlock_cases)
  case 1
  then show ?thesis using assms(1) agree_unlocked by metis
next
  case (2 rt)
  let ?t = "og_thread g"
  have "\<not> holds ?t gs" using assms(1) 2(1) by (simp add: guards_agree_def holds_filter)
  then have f: "?t \<notin> holders k gs" for k using holders_holds by blast
  show ?thesis
  proof (cases "og_kind g")
    case Rd
    have r: "?t \<in> readers l" "writer l = None" using assms(1) 2(1) Rd by (auto simp: guards_agree_def)
    show ?thesis using unlock_read [OF 2(3) r] assms(1) 2(1,2) f [of Rd] Rd r(2) by (simp add: guards_agree_def)
  next
    case Wr
    have w: "writer l = Some ?t" "readers l = {}" "holders Wr gs = {}" using assms(1) 2(1) Wr f [of Wr] by (cases "writer l"; auto simp: guards_agree_def)+
    show ?thesis using unlock_write [OF 2(3) w(1,2)] assms(1) 2(1,2) w Wr by (simp add: guards_agree_def)
  qed
qed

lemma agree_step:
  assumes "lock_step P False s s1" "guards_agree readers writer s"
  shows "guards_agree readers writer s1"
  using assms
proof (cases rule: lock_step.cases)
  case (step_new t gs k l g l1)
  let ?g = "\<lparr>og_thread = t, og_kind = k, og_guard = \<lparr>m_locked = False\<rparr>\<rparr>"
  have "guards_agree readers writer (?g\<lparr>og_guard := g\<rparr> # gs, l1)"
    by (rule agree_acquire) (use step_new assms(2) in \<open>auto simp: guard_new_lock [symmetric]\<close>)
  then show ?thesis using step_new agree_move [of readers writer gs _ "[]"] by simp
next
  case (step_lock i gs l g l1)
  note sp = id_take_nth_drop [OF step_lock(3)]
  show ?thesis
  proof (cases "locked (gs ! i)")
    case True
    then have "gs[i := (gs ! i)\<lparr>og_guard := g\<rparr>] = gs" "l1 = l" using step_lock(5) by (auto simp: guard_lock_locked)
    then show ?thesis using step_lock assms(2) by simp
  next
    case False
    let ?gs = "take i gs @ drop (Suc i) gs"
    have a: "guards_agree readers writer (?gs, l)" using assms(2) agree_unlocked [OF False] agree_move sp step_lock(1) by metis
    have "holds x ?gs \<longrightarrow> holds x gs" for x unfolding holds_def using set_take_subset set_drop_subset by fastforce
    then have "\<not> holds (og_thread (gs ! i)) ?gs" using step_lock(4) False by blast
    from agree_acquire [OF a this False step_lock(5)] show ?thesis
      unfolding step_lock(2) upd_conv_take_nth_drop [OF step_lock(3)] agree_move .
  qed
next
  case (step_unlock i gs l g l1)
  have "guards_agree readers writer (gs ! i # take i gs @ drop (Suc i) gs, l)"
    using assms(2) agree_move id_take_nth_drop [OF step_unlock(3)] step_unlock(1) by metis
  note r = agree_release [OF this step_unlock(4)]
  then have "guards_agree readers writer ((gs ! i)\<lparr>og_guard := g\<rparr> # take i gs @ drop (Suc i) gs, l1)" by (simp add: agree_unlocked)
  then show ?thesis unfolding step_unlock(2) upd_conv_take_nth_drop [OF step_unlock(3)] agree_move .
next
  case (step_delete i gs l)
  obtain h l1 where u: "guard_unlock P (gs ! i) l = (h, l1)" by fastforce
  have "guards_agree readers writer (gs ! i # take i gs @ drop (Suc i) gs, l)"
    using assms(2) agree_move id_take_nth_drop [OF step_delete(3)] step_delete(1) by metis
  from agree_release [OF this u] show ?thesis using step_delete u by (simp add: guard_delete_unlock)
qed

lemma agree_reach:
  assumes "lock_reach P False l0 s" "readers l0 = {}" "writer l0 = None"
  shows "guards_agree readers writer s"
  using assms(1) unfolding lock_reach_def
proof (induction rule: rtranclp_induct)
  case base
  show ?case using assms(2,3) by (simp add: guards_agree_def)
qed (rule agree_step)

lemma agree_exclusive:
  assumes "guards_agree readers writer (gs, l)" "g \<in> set gs" "h \<in> set gs" "locked g" "locked h" "og_kind g = Wr"
  shows "og_thread g = og_thread h"
proof -
  have "og_thread g \<in> holders Wr gs" using assms by (auto simp: holders_def)
  then have "og_thread g \<in> set_option (writer l)" using assms(1) by (simp add: guards_agree_def)
  then have w: "writer l = Some (og_thread g)" by simp
  have a: "readers l = holders Rd gs" "set_option (writer l) = holders Wr gs" "readers l = {}" using assms(1) w by (auto simp: guards_agree_def)
  have "og_thread h \<in> holders (og_kind h) gs" using assms by (auto simp: holders_def)
  moreover have "holders Rd gs = {}" "holders Wr gs = {og_thread g}" using a w by auto
  ultimately show ?thesis by (cases "og_kind h") simp_all
qed

end

lemma distinct_filter_map:
  assumes "distinct (map f (filter P xs))" "i < length xs" "j < length xs" "P (xs ! i)" "P (xs ! j)" "f (xs ! i) = f (xs ! j)"
  shows "i = j"
proof (rule ccontr)
  have less: False if "i < j" "j < length xs" "P (xs ! i)" "P (xs ! j)" "f (xs ! i) = f (xs ! j)" for i j
  proof -
    have "xs = take j xs @ xs ! j # drop (Suc j) xs" using that(2) by (rule id_take_nth_drop)
    then have "distinct (map f (filter P (take j xs @ xs ! j # drop (Suc j) xs)))" using assms(1) by simp
    then have "f (xs ! j) \<notin> f ` set (filter P (take j xs))" using that(4) by simp
    moreover have "xs ! i \<in> set (filter P (take j xs))" using that by (auto simp: in_set_conv_nth intro!: exI [of _ i])
    ultimately show False using that(5) by (metis image_eqI)
  qed
  assume "i \<noteq> j"
  then show False using less [of i j] less [of j i] assms by (cases "i < j") auto
qed

section \<open>The locks of POSIX\<close>

text \<open>
  The lock of glibc, as its readers and its writer: asking for a lock that the thread has for writing is an error
  (\<^verbatim>\<open>EDEADLK\<close>) at once.
\<close>

type_synonym posix_rwlock = "nat list \<times> nat option"

definition posix :: "posix_rwlock lock_fns" where
  "posix = \<lparr>
     pthread_rdlock = \<lambda>t (rs, w). if w = Some t then Some (35, (rs, w)) else if w \<noteq> None then None else Some (0, (t # rs, w)),
     pthread_wrlock = \<lambda>t (rs, w). if w = Some t then Some (35, (rs, w)) else if w \<noteq> None \<or> rs \<noteq> [] then None else Some (0, ([], Some t)),
     pthread_unlock = \<lambda>t (rs, w). if w = Some t then (0, (rs, None)) else (0, (removeAll t rs, w))\<rparr>"

interpretation px: rw_locks posix "\<lambda>(rs, w). set rs" snd
  by unfold_locales (auto simp: posix_def split: if_splits)

definition posix_mutex_lock :: "nat \<Rightarrow> nat option \<Rightarrow> (int \<times> nat option) option" where
  "posix_mutex_lock t w = (if w = None then Some (0, Some t) else None)"

definition posix_mutex_unlock :: "nat \<Rightarrow> nat option \<Rightarrow> int \<times> nat option" where
  "posix_mutex_unlock t w = (0, None)"

interpretation pm: mutex_locks posix_mutex_lock posix_mutex_unlock "\<lambda>w. w"
  by unfold_locales (auto simp: posix_mutex_lock_def posix_mutex_unlock_def split: if_splits)

text \<open>A guard of a mutex or a spin lock does what a guard for writing does.\<close>

lemma mutex_guard:
  "ScopedLock_new (MutexLock_lock f t) l = guard_new \<lparr>pthread_rdlock = \<lambda>t l. None, pthread_wrlock = f, pthread_unlock = u\<rparr> t Wr l"
  "ScopedLock_new (SpinLock_lock f t) l = guard_new \<lparr>pthread_rdlock = \<lambda>t l. None, pthread_wrlock = f, pthread_unlock = u\<rparr> t Wr l"
  "ScopedLock_lock (MutexLock_lock f t) (g, l) =
     guard_lock \<lparr>pthread_rdlock = \<lambda>t l. None, pthread_wrlock = f, pthread_unlock = u\<rparr> \<lparr>og_thread = t, og_kind = Wr, og_guard = g\<rparr> l"
  "ScopedLock_unlock (MutexLock_unlock u t) (g, l) =
     guard_unlock \<lparr>pthread_rdlock = \<lambda>t l. None, pthread_wrlock = f, pthread_unlock = u\<rparr> \<lparr>og_thread = t, og_kind = Wr, og_guard = g\<rparr> l"
  by (simp_all add: guard_defs ScopedLock_new_def ScopedLock_lock_def ScopedLock_unlock_def MutexLock_lock_def MutexLock_unlock_def SpinLock_lock_def)

section \<open>Semaphores\<close>

text \<open>\<open>rt\<close> is what the system call returns; an exception leaves the count as it is.\<close>

datatype sem_error = LogicError string

definition Semaphore_new :: "int \<Rightarrow> nat \<Rightarrow> sem_error + nat" where
  "Semaphore_new rt count = (if rt \<noteq> 0 then Inl (LogicError ''[sem_init fail]'') else Inr count)"

text \<open>\<^verbatim>\<open>sem_wait\<close> fails with \<^verbatim>\<open>EINTR\<close> when a signal is handled meanwhile; otherwise it waits (\<open>None\<close>) for the count to be positive.\<close>

definition Semaphore_wait :: "bool \<Rightarrow> nat \<Rightarrow> (sem_error + nat) option" where
  "Semaphore_wait eintr n =
     (if eintr then Some (Inl (LogicError ''[sem_wait fail]'')) else if n = 0 then None else Some (Inr (n - 1)))"

definition Semaphore_post :: "nat \<Rightarrow> sem_error + nat" where
  "Semaphore_post n = (if n \<ge> 2 ^ 31 - 1 then Inl (LogicError ''[sem_post fail]'') else Inr (n + 1))"

section \<open>Condition variables\<close>

text \<open>
  \<^verbatim>\<open>CondWait\<close> up to where it waits, which gives the mutex up, and from where it is woken with the mutex; \<^verbatim>\<open>CondSignal\<close>. The functions
  of pthread are arguments on a state of the mutex and the variable.
\<close>

definition CondWait_begin :: "(nat \<Rightarrow> 'w \<Rightarrow> 'w option) \<Rightarrow> (nat \<Rightarrow> 'w \<Rightarrow> 'w) \<Rightarrow> nat \<Rightarrow> 'w \<Rightarrow> 'w option" where
  "CondWait_begin lock cond_wait t w = map_option (cond_wait t) (lock t w)"

definition CondWait_end :: "(nat \<Rightarrow> 'w \<Rightarrow> 'w) \<Rightarrow> nat \<Rightarrow> 'w \<Rightarrow> 'w" where
  "CondWait_end unlock t w = unlock t w"

fun signal_loop :: "('w \<Rightarrow> 'w) \<Rightarrow> nat \<Rightarrow> 'w \<Rightarrow> 'w" where
  "signal_loop cond_signal cnt w = (if cnt \<noteq> 0 then signal_loop cond_signal (cnt - 1) (cond_signal w) else w)"

declare signal_loop.simps [simp del]

definition CondSignal :: "(nat \<Rightarrow> 'w \<Rightarrow> 'w option) \<Rightarrow> (nat \<Rightarrow> 'w \<Rightarrow> 'w) \<Rightarrow> ('w \<Rightarrow> 'w) \<Rightarrow> nat \<Rightarrow> nat \<Rightarrow> 'w \<Rightarrow> 'w option" where
  "CondSignal lock unlock cond_signal cnt t w = map_option (\<lambda>w1. unlock t (signal_loop cond_signal cnt w1)) (lock t w)"

text \<open>
  With threads that wait in a list and a signal that wakes the first of them, \<open>cnt\<close> signals wake \<open>cnt\<close> threads, or all there are;
  signals for which no thread waits are lost.
\<close>

lemma signal_loop_wakes: "signal_loop (\<lambda>(m, ws). (m, tl ws)) cnt (m, ws) = (m, drop cnt ws)"
proof (induction cnt arbitrary: ws)
  case (Suc cnt)
  then show ?case by (cases ws) (simp_all add: signal_loop.simps [of _ "Suc cnt"])
qed (simp add: signal_loop.simps)

lemma cond_signal_wakes:
  "lock t (m, ws) = Some (m1, ws) \<Longrightarrow> (\<And>m ws. unlock t (m, ws) = (u m, ws)) \<Longrightarrow>
     CondSignal lock unlock (\<lambda>(m, ws). (m, tl ws)) cnt t (m, ws) = Some (u m1, drop cnt ws)"
  by (simp add: CondSignal_def signal_loop_wakes)

section \<open>Starting a thread\<close>

text \<open>
  The object and the two threads that use it: the one in the constructor and the new one in \<^verbatim>\<open>Run\<close>, each at a place in its code.
  \<open>t_dangling\<close> is set when a thread uses the object after its end. The callbacks that were called are in \<open>t_calls\<close>.
\<close>

datatype parent_pc = Creating | Waiting | Constructed | Threw

datatype child_pc = Unborn | Begun | Named | Taken | Posted | Called | Ended

record 'c Thread =
  t_alive :: bool
  t_thread :: bool
  t_cb :: "'c option"
  t_name :: string
  t_semaphore :: nat
  t_parent :: parent_pc
  t_child :: child_pc
  cur_thread :: bool
  cur_thread_name :: string
  cur_thread_id :: int
  os_name :: string
  t_local_cb :: "'c option"
  t_calls :: "'c list"
  t_dangling :: bool

abbreviation access :: "'c Thread \<Rightarrow> 'c Thread" where
  "access w \<equiv> w\<lparr>t_dangling := t_dangling w \<or> \<not> t_alive w\<rparr>"

definition Thread_begin :: "'c option \<Rightarrow> string \<Rightarrow> 'c Thread" where
  "Thread_begin cb name =
     \<lparr>t_alive = True, t_thread = False, t_cb = cb, t_name = (if name = [] then ''UNKNOW'' else name), t_semaphore = 0,
      t_parent = Creating, t_child = Unborn, cur_thread = False, cur_thread_name = ''UNKNOW'', cur_thread_id = 0, os_name = [],
      t_local_cb = None, t_calls = [], t_dangling = False\<rparr>"

definition Thread_create :: "int \<Rightarrow> 'c Thread \<Rightarrow> 'c Thread" where
  "Thread_create rt w =
     (if rt \<noteq> 0 then w\<lparr>t_parent := Threw, t_alive := False\<rparr> else w\<lparr>t_thread := True, t_parent := Waiting, t_child := Begun\<rparr>)"

definition Thread_wait :: "bool \<Rightarrow> 'c Thread \<Rightarrow> 'c Thread option" where
  "Thread_wait eintr w =
     (case Semaphore_wait eintr (t_semaphore w) of
        None \<Rightarrow> None
      | Some (Inl e) \<Rightarrow> Some (w\<lparr>t_parent := Threw, t_alive := False\<rparr>)
      | Some (Inr n) \<Rightarrow> Some (w\<lparr>t_parent := Constructed, t_semaphore := n\<rparr>))"

definition Run_name :: "int \<Rightarrow> 'c Thread \<Rightarrow> 'c Thread" where
  "Run_name gettid w =
     (access w)\<lparr>cur_thread := True, cur_thread_name := t_name w, cur_thread_id := gettid, os_name := take 15 (t_name w), t_child := Named\<rparr>"

definition Run_take :: "'c Thread \<Rightarrow> 'c Thread" where
  "Run_take w = (access w)\<lparr>t_local_cb := t_cb w, t_cb := None, t_child := Taken\<rparr>"

text \<open>\<open>post\<close> can only fail for a count at its limit; then the exception is caught and \<open>Run\<close> ends.\<close>

definition Run_post :: "'c Thread \<Rightarrow> 'c Thread" where
  "Run_post w =
     (case Semaphore_post (t_semaphore w) of Inl e \<Rightarrow> (access w)\<lparr>t_child := Ended\<rparr> | Inr n \<Rightarrow> (access w)\<lparr>t_semaphore := n, t_child := Posted\<rparr>)"

text \<open>Calling an empty function throws, and the exception is caught.\<close>

definition Run_call :: "'c Thread \<Rightarrow> 'c Thread" where
  "Run_call w = (case t_local_cb w of None \<Rightarrow> w\<lparr>t_child := Ended\<rparr> | Some c \<Rightarrow> w\<lparr>t_calls := t_calls w @ [c], t_child := Called\<rparr>)"

definition Thread_SetName :: "string \<Rightarrow> 'c Thread \<Rightarrow> 'c Thread" where
  "Thread_SetName name w =
     (let w1 = w\<lparr>cur_thread_name := name\<rparr> in if cur_thread w then (access w1)\<lparr>t_name := name, os_name := take 15 name\<rparr> else w1)"

definition CurThreadId :: "int \<Rightarrow> 'c Thread \<Rightarrow> int \<times> 'c Thread" where
  "CurThreadId gettid w = (if cur_thread_id w = 0 then (gettid, w\<lparr>cur_thread_id := gettid\<rparr>) else (cur_thread_id w, w))"

text \<open>\<^verbatim>\<open>join\<close> waits for the thread to end; \<open>rt\<close> is its error number.\<close>

definition Thread_join :: "int \<Rightarrow> 'c Thread \<Rightarrow> (sem_error + 'c Thread) option" where
  "Thread_join rt w =
     (if t_thread w then
        if rt \<noteq> 0 then Some (Inl (LogicError ''[pthread_join fail]'')) else if t_child w \<noteq> Ended then None else Some (Inr (w\<lparr>t_thread := False\<rparr>))
      else Some (Inr w))"

definition Thread_delete :: "'c Thread \<Rightarrow> 'c Thread" where
  "Thread_delete w = w\<lparr>t_alive := False, t_thread := False\<rparr>"

text \<open>
  The steps of both threads. \<open>eintr\<close> allows that waiting is interrupted, \<open>renames\<close> that the callback sets the name of its thread.
\<close>

inductive start_step :: "bool \<Rightarrow> bool \<Rightarrow> 'c Thread \<Rightarrow> 'c Thread \<Rightarrow> bool" for eintr renames where
  ts_create: "t_parent w = Creating \<Longrightarrow> start_step eintr renames w (Thread_create rt w)"
| ts_wait: "t_parent w = Waiting \<Longrightarrow> Thread_wait False w = Some w1 \<Longrightarrow> start_step eintr renames w w1"
| ts_interrupted: "eintr \<Longrightarrow> t_parent w = Waiting \<Longrightarrow> Thread_wait True w = Some w1 \<Longrightarrow> start_step eintr renames w w1"
| ts_name: "t_child w = Begun \<Longrightarrow> start_step eintr renames w (Run_name gettid w)"
| ts_take: "t_child w = Named \<Longrightarrow> start_step eintr renames w (Run_take w)"
| ts_post: "t_child w = Taken \<Longrightarrow> start_step eintr renames w (Run_post w)"
| ts_call: "t_child w = Posted \<Longrightarrow> start_step eintr renames w (Run_call w)"
| ts_rename: "renames \<Longrightarrow> t_child w = Called \<Longrightarrow> start_step eintr renames w (Thread_SetName name w)"
| ts_end: "t_child w = Called \<Longrightarrow> start_step eintr renames w (w\<lparr>t_child := Ended\<rparr>)"
| ts_join: "t_parent w = Constructed \<Longrightarrow> t_alive w \<Longrightarrow> Thread_join 0 w = Some (Inr w1) \<Longrightarrow> start_step eintr renames w w1"
| ts_delete: "t_parent w = Constructed \<Longrightarrow> t_alive w \<Longrightarrow> start_step eintr renames w (Thread_delete w)"

definition start_reach :: "bool \<Rightarrow> bool \<Rightarrow> 'c option \<Rightarrow> string \<Rightarrow> 'c Thread \<Rightarrow> bool" where
  "start_reach eintr renames cb name = (start_step eintr renames)\<^sup>*\<^sup>* (Thread_begin cb name)"

text \<open>The places in the constructor and in \<open>Run\<close>, and what the object has at them.\<close>

definition handover :: "'c option \<Rightarrow> string \<Rightarrow> 'c Thread \<Rightarrow> bool" where
  "handover cb name w \<longleftrightarrow> \<not> t_dangling w \<and>
     (case t_child w of
        Unborn \<Rightarrow> t_parent w = Creating \<and> t_alive w \<and> t_cb w = cb \<and> t_semaphore w = 0 \<or> t_parent w = Threw
      | Begun \<Rightarrow> t_parent w = Waiting \<and> t_alive w \<and> t_cb w = cb \<and> t_semaphore w = 0
      | Named \<Rightarrow> t_parent w = Waiting \<and> t_alive w \<and> t_cb w = cb \<and> t_semaphore w = 0
      | Taken \<Rightarrow> t_parent w = Waiting \<and> t_alive w \<and> t_cb w = None \<and> t_local_cb w = cb \<and> t_semaphore w = 0
      | _ \<Rightarrow> (t_parent w = Waiting \<and> t_alive w \<and> t_semaphore w = 1 \<or> t_parent w = Constructed \<and> t_semaphore w = 0) \<and>
             t_cb w = None \<and> t_local_cb w = cb) \<and>
     (t_child w \<in> {Unborn, Begun} \<longrightarrow> t_name w = (if name = [] then ''UNKNOW'' else name)) \<and>
     (t_child w \<in> {Named, Taken, Posted} \<longrightarrow> cur_thread_name w = (if name = [] then ''UNKNOW'' else name)) \<and>
     t_calls w = (if t_child w \<in> {Called, Ended} then (case cb of None \<Rightarrow> [] | Some c \<Rightarrow> [c]) else [])"

lemmas run_defs = Thread_create_def Thread_wait_def Run_name_def Run_take_def Run_post_def Run_call_def Thread_SetName_def Thread_join_def Thread_delete_def
  Semaphore_wait_def Semaphore_post_def

lemma handover_step:
  assumes "start_step False False w w1" "handover cb name w"
  shows "handover cb name w1"
  using assms(1)
proof (cases rule: start_step.cases)
  case (ts_create rt)
  then show ?thesis using assms(2) by (cases "t_child w") (simp_all add: handover_def run_defs)
next
  case ts_wait
  then show ?thesis using assms(2) by (cases "t_child w") (auto simp: handover_def run_defs split: if_splits)
next
  case (ts_name gettid)
  then show ?thesis using assms(2) by (simp add: handover_def run_defs)
next
  case ts_take
  then show ?thesis using assms(2) by (simp add: handover_def run_defs)
next
  case ts_post
  then show ?thesis using assms(2) by (simp add: handover_def run_defs)
next
  case ts_call
  then show ?thesis using assms(2) by (cases cb) (auto simp: handover_def run_defs)
next
  case ts_end
  then show ?thesis using assms(2) by (simp add: handover_def)
next
  case ts_join
  then show ?thesis using assms(2) by (cases "t_child w") (auto simp: handover_def run_defs split: if_splits)
next
  case ts_delete
  then show ?thesis using assms(2) by (cases "t_child w") (auto simp: handover_def run_defs)
qed simp_all

lemma handover_reach: "start_reach False False cb name w \<Longrightarrow> handover cb name w"
  unfolding start_reach_def
proof (induction rule: rtranclp_induct)
  case base
  show ?case by (simp add: handover_def Thread_begin_def)
next
  case (step w w1)
  show ?case by (rule handover_step [OF step.hyps(2) step.IH])
qed

definition can_return :: "'c Thread \<Rightarrow> bool" where
  "can_return w \<longleftrightarrow> (\<exists>w1. (start_step False False)\<^sup>*\<^sup>* w w1 \<and> t_parent w1 = Constructed)"

lemma can_return_step: "start_step False False w w1 \<Longrightarrow> can_return w1 \<Longrightarrow> can_return w"
  unfolding can_return_def by (meson converse_rtranclp_into_rtranclp)

lemma constructor_can_return:
  assumes "handover cb name w" "t_parent w = Waiting"
  shows "can_return w"
proof -
  have posted: "can_return w" if "t_parent w = Waiting" "t_semaphore w = 1" for w :: "'a Thread"
  proof -
    have "Thread_wait False w = Some (w\<lparr>t_parent := Constructed, t_semaphore := 0\<rparr>)" using that by (simp add: run_defs)
    from ts_wait [OF that(1) this] show ?thesis by (rule can_return_step) (auto simp: can_return_def)
  qed
  have taken: "can_return w" if "t_child w = Taken" "t_parent w = Waiting" "t_semaphore w = 0" for w :: "'a Thread"
    by (rule can_return_step [OF ts_post [OF that(1)]], rule posted) (simp_all add: Run_post_def Semaphore_post_def that)
  have named: "can_return w" if "t_child w = Named" "t_parent w = Waiting" "t_semaphore w = 0" for w :: "'a Thread"
    by (rule can_return_step [OF ts_take [OF that(1)]], rule taken) (simp_all add: Run_take_def that)
  have begun: "can_return w" if "t_child w = Begun" "t_parent w = Waiting" "t_semaphore w = 0" for w :: "'a Thread"
    by (rule can_return_step [OF ts_name [OF that(1), of False False 1]], rule named) (simp_all add: Run_name_def that)
  show ?thesis using assms posted taken named begun by (cases "t_child w") (auto simp: handover_def)
qed

section \<open>Theorems\<close>


lemma wr_guard_taken:
  "guard_new posix t Wr ([], None) = Some (\<lparr>m_locked = True\<rparr>, ([], Some t))"
  "guard_new posix t Wr ([], Some t) = Some (\<lparr>m_locked = True\<rparr>, ([], Some t))"
  "guard_delete posix \<lparr>og_thread = t, og_kind = Wr, og_guard = \<lparr>m_locked = True\<rparr>\<rparr> ([], Some t) = ([], None)"
  by (simp_all add: guard_defs posix_def)

abbreviation wr_guard :: "nat \<Rightarrow> owned_guard" where
  "wr_guard t \<equiv> \<lparr>og_thread = t, og_kind = Wr, og_guard = \<lparr>m_locked = True\<rparr>\<rparr>"


text \<open>
  A thread that makes a second guard for writing gets an error that is not looked at; when that guard goes, the lock is given up,
  and another thread gets it while the first guard still counts as locked.
\<close>

theorem nested_guards_break: "\<exists>gs l. lock_reach posix True ([], None) (gs, l) \<and> gs = [wr_guard 1, wr_guard 2]"
proof -
  have 1: "lock_step posix True ([], ([], None)) ([] @ [wr_guard 1], ([], Some 1))" by (rule step_new) (simp_all add: wr_guard_taken)
  have 2: "lock_step posix True ([wr_guard 1], ([], Some 1)) ([wr_guard 1] @ [wr_guard 1], ([], Some 1))" by (rule step_new) (simp_all add: wr_guard_taken)
  have 3: "lock_step posix True ([wr_guard 1, wr_guard 1], ([], Some 1)) ([wr_guard 1], ([], None))"
    using step_delete [of 1 "[wr_guard 1, wr_guard 1]" posix True "([], Some 1)"] by (simp add: wr_guard_taken)
  have 4: "lock_step posix True ([wr_guard 1], ([], None)) ([wr_guard 1] @ [wr_guard 2], ([], Some 2))" by (rule step_new) (simp_all add: wr_guard_taken)
  have "lock_reach posix True ([], None) ([wr_guard 1, wr_guard 2], ([], Some 2))"
    unfolding lock_reach_def using 1 2 3 4 by (auto intro: converse_rtranclp_into_rtranclp)
  then show ?thesis by blast
qed

text \<open>
  C38: Starting a thread. However the constructor and the new thread interleave, when waiting is not interrupted: the new thread has taken the
  callback out of the object and no longer uses the object when the constructor returns, so that it may be joined or destroyed at
  any time; the callback is called by the new thread once, under the name of the thread; and as long as the constructor
  waits it can go on to return.
\<close>

theorem thread_handover:
  assumes "start_reach False False cb name w"
  shows "\<not> t_dangling w \<and>
    (t_parent w = Constructed \<longrightarrow> t_child w \<in> {Posted, Called, Ended} \<and> t_cb w = None) \<and>
    (t_child w \<in> {Named, Taken, Posted} \<longrightarrow> cur_thread_name w = (if name = [] then ''UNKNOW'' else name)) \<and>
    t_calls w = (if t_child w \<in> {Called, Ended} then (case cb of None \<Rightarrow> [] | Some c \<Rightarrow> [c]) else []) \<and>
    (t_parent w = Waiting \<longrightarrow> (\<exists>w1. (start_step False False)\<^sup>*\<^sup>* w w1 \<and> t_parent w1 = Constructed))"
proof -
  note h = handover_reach [OF assms]
  have "t_parent w = Constructed \<longrightarrow> t_child w \<in> {Posted, Called, Ended} \<and> t_cb w = None" using h by (cases "t_child w") (auto simp: handover_def)
  moreover have "t_parent w = Waiting \<longrightarrow> (\<exists>w1. (start_step False False)\<^sup>*\<^sup>* w w1 \<and> t_parent w1 = Constructed)" using constructor_can_return [OF h] unfolding can_return_def by blast
  ultimately show ?thesis using h unfolding handover_def by blast
qed

lemma start_path:
  fixes c :: 'c
  defines "w1 \<equiv> Thread_create 0 (Thread_begin (Some c) ''net'')"
  defines "w2 \<equiv> Run_take (Run_name 7 w1)"
  shows "(start_step e r)\<^sup>*\<^sup>* (Thread_begin (Some c) ''net'') w1" "(start_step e r)\<^sup>*\<^sup>* w1 (Run_post w2)"
    "(start_step e r)\<^sup>*\<^sup>* (Run_post w2) ((Run_post w2)\<lparr>t_parent := Constructed, t_semaphore := 0\<rparr>)"
proof -
  have "start_step e r (Thread_begin (Some c) ''net'') w1" unfolding w1_def by (rule ts_create) (simp add: Thread_begin_def)
  then show "(start_step e r)\<^sup>*\<^sup>* (Thread_begin (Some c) ''net'') w1" by simp
  have "start_step e r w1 (Run_name 7 w1)" by (rule ts_name) (simp add: w1_def Thread_create_def)
  moreover have "start_step e r (Run_name 7 w1) w2" unfolding w2_def by (rule ts_take) (simp add: Run_name_def)
  moreover have "start_step e r w2 (Run_post w2)" by (rule ts_post) (simp add: w2_def Run_take_def)
  ultimately show "(start_step e r)\<^sup>*\<^sup>* w1 (Run_post w2)" by (meson converse_rtranclp_into_rtranclp rtranclp.rtrancl_refl)
  have s: "t_semaphore w2 = 0" "t_parent w2 = Waiting" by (simp_all add: w2_def w1_def run_defs Thread_begin_def)
  have "start_step e r (Run_post w2) ((Run_post w2)\<lparr>t_parent := Constructed, t_semaphore := 0\<rparr>)"
    by (rule ts_wait) (simp_all add: s Run_post_def Semaphore_post_def Thread_wait_def Semaphore_wait_def)
  then show "(start_step e r)\<^sup>*\<^sup>* (Run_post w2) ((Run_post w2)\<lparr>t_parent := Constructed, t_semaphore := 0\<rparr>)" by simp
qed

theorem thread_handover_witness:
  "\<exists>w. start_reach False False (Some True) ''net'' w \<and> t_parent w = Constructed \<and> t_child w = Posted \<and> cur_thread_name w = ''net'' \<and> \<not> t_dangling w"
proof -
  let ?w1 = "Thread_create 0 (Thread_begin (Some True) ''net'')"
  let ?w = "(Run_post (Run_take (Run_name 7 ?w1)))\<lparr>t_parent := Constructed, t_semaphore := 0\<rparr>"
  have r: "start_reach False False (Some True) ''net'' ?w"
    unfolding start_reach_def using start_path [of False False True] by (meson rtranclp_trans)
  have "t_child ?w = Posted" by (simp add: run_defs Thread_begin_def)
  then show ?thesis using thread_handover [OF r] r by (intro exI [of _ ?w]) simp
qed

text \<open>
  Two ways in which the object is used after its end: when a signal interrupts the wait, the constructor throws and the object goes
  while the new thread still reads it; and a callback that sets the name of its thread writes to the object, which may have been
  destroyed by then.
\<close>

theorem thread_object_dangles:
  "(\<exists>w. start_reach True False (Some c) ''net'' w \<and> t_dangling w) \<and> (\<exists>w. start_reach False True (Some c) ''net'' w \<and> t_dangling w)"
proof
  let ?w1 = "Thread_create 0 (Thread_begin (Some c) ''net'')"
  let ?v = "?w1\<lparr>t_parent := Threw, t_alive := False\<rparr>"
  have "start_step True False ?w1 ?v"
    by (rule ts_interrupted) (simp_all add: Thread_create_def Thread_wait_def Semaphore_wait_def)
  moreover have "start_step True False ?v (Run_name 7 ?v)" by (rule ts_name) (simp add: Thread_create_def)
  ultimately have "start_reach True False (Some c) ''net'' (Run_name 7 ?v)"
    unfolding start_reach_def using start_path(1) [of True False c] by (meson rtranclp.rtrancl_into_rtrancl)
  moreover have "t_dangling (Run_name 7 ?v)" by (simp add: Run_name_def)
  ultimately show "\<exists>w. start_reach True False (Some c) ''net'' w \<and> t_dangling w" by blast
  define w where "w = (Run_post (Run_take (Run_name 7 ?w1)))\<lparr>t_parent := Constructed, t_semaphore := 0\<rparr>"
  have f: "t_alive w" "t_parent w = Constructed" "t_child w = Posted" "t_local_cb w = Some c" "cur_thread w"
    by (simp_all add: w_def run_defs Thread_begin_def)
  have r: "start_reach False True (Some c) ''net'' w"
    unfolding start_reach_def w_def using start_path [of False True c] by (meson rtranclp_trans)
  have 1: "start_step False True w (Thread_delete w)" by (rule ts_delete) (simp_all add: f)
  have 2: "start_step False True (Thread_delete w) (Run_call (Thread_delete w))" by (rule ts_call) (simp add: f Thread_delete_def)
  have 3: "start_step False True (Run_call (Thread_delete w)) (Thread_SetName ''x'' (Run_call (Thread_delete w)))"
    by (rule ts_rename) (simp_all add: f Thread_delete_def Run_call_def)
  have "start_reach False True (Some c) ''net'' (Thread_SetName ''x'' (Run_call (Thread_delete w)))"
    using r 1 2 3 unfolding start_reach_def by (meson rtranclp.rtrancl_into_rtrancl)
  moreover have "t_dangling (Thread_SetName ''x'' (Run_call (Thread_delete w)))" by (simp add: f Thread_SetName_def Run_call_def Thread_delete_def)
  ultimately show "\<exists>w. start_reach False True (Some c) ''net'' w \<and> t_dangling w" by blast
qed

end
