(* ===== verification/SysUtil.thy ===== *)
theory SysUtil
  imports Util
begin

text \<open>
  The utilities of \<^verbatim>\<open>src/util.cc\<close> that are wrapped around the C library: formatted strings, conversions between strings and wide
  strings, and files. What the library does is an argument of the definitions: \<open>lib\<close> has the calls on a state of the
  system \<open>'w\<close>, among it the locale. \<open>None\<close> as a result of a conversion is an undefined behaviour or an exception.
\<close>

section \<open>The C library\<close>

text \<open>
  \<open>l_setlocale\<close> returns the name of the locale that is set then, or a null pointer; \<open>l_wcstombs\<close> and \<open>l_mbstowcs\<close> give the whole converted string in the
  locale of the state, or nothing when a character has no image, for which the C functions return \<open>(size_t)-1\<close>; \<open>l_open\<close> is the
  content of a file that can be opened.
\<close>

record 'w c_library =
  l_setlocale :: "string \<Rightarrow> 'w \<Rightarrow> string option \<times> 'w"
  l_wcstombs :: "u32 list \<Rightarrow> 'w \<Rightarrow> string option"
  l_mbstowcs :: "string \<Rightarrow> 'w \<Rightarrow> u32 list option"
  l_lstat :: "string \<Rightarrow> 'w \<Rightarrow> int"
  l_unlink :: "string \<Rightarrow> 'w \<Rightarrow> int \<times> 'w"
  l_open :: "string \<Rightarrow> 'w \<Rightarrow> string option"

section \<open>Formatted strings\<close>

text \<open>\<open>printed\<close> is what \<^verbatim>\<open>vasprintf\<close> returns and stores for the format and its arguments.\<close>

definition Formatv :: "('f \<Rightarrow> 'a \<Rightarrow> int \<times> string) \<Rightarrow> 'f \<Rightarrow> 'a \<Rightarrow> string" where
  "Formatv vasprintf fmt ap = (case vasprintf fmt ap of (len, buf) \<Rightarrow> if len = -1 then [] else take (nat len) buf)"

definition Format :: "('f \<Rightarrow> 'a \<Rightarrow> int \<times> string) \<Rightarrow> 'f \<Rightarrow> 'a \<Rightarrow> string" where
  "Format vasprintf fmt args = (let v = Formatv vasprintf fmt args in v)"

section \<open>Wide strings\<close>

text \<open>
  The text of a C string ends at the first zero. The buffer is cleared and has room for the converted characters and a zero, so what is read back is
  all of the conversion; when a character has no image the buffer has no room at all, and reading it is undefined.
\<close>

definition c_str :: "'c::zero list \<Rightarrow> 'c list" where
  "c_str s = takeWhile (\<lambda>c. c \<noteq> 0) s"

definition c_chars :: "string \<Rightarrow> string" where
  "c_chars s = takeWhile (\<lambda>c. of_char c \<noteq> (0 :: nat)) s"

definition WStringToString :: "'w c_library \<Rightarrow> u32 list \<Rightarrow> 'w \<Rightarrow> (string \<times> 'w) option" where
  "WStringToString lib w st =
     (case l_setlocale lib [] st of
        (None, st1) \<Rightarrow> None
      | (Some strLocale, st1) \<Rightarrow>
          (case l_wcstombs lib (c_str w) st1 of
             None \<Rightarrow> None
           | Some chDest \<Rightarrow> Some (c_chars chDest, snd (l_setlocale lib strLocale st1))))"

definition StringToWString :: "'w c_library \<Rightarrow> string \<Rightarrow> 'w \<Rightarrow> (u32 list \<times> 'w) option" where
  "StringToWString lib s st =
     (case l_setlocale lib [] st of
        (None, st1) \<Rightarrow> None
      | (Some strLocle, st1) \<Rightarrow>
          (case l_mbstowcs lib (c_chars s) st1 of
             None \<Rightarrow> None
           | Some wchDest \<Rightarrow> Some (c_str wchDest, snd (l_setlocale lib strLocle st1))))"

section \<open>Files\<close>

text \<open>The condition of \<^verbatim>\<open>Unlink\<close> guards an empty statement.\<close>

definition Unlink :: "'w c_library \<Rightarrow> string \<Rightarrow> bool \<Rightarrow> 'w \<Rightarrow> bool \<times> 'w" where
  "Unlink lib filename exist st =
     (let st1 = (if \<not> exist \<and> l_lstat lib filename st \<noteq> 0 then st else st) in
      case l_unlink lib filename st1 of (rst, st2) \<Rightarrow> (rst = 0, st2))"

definition ReadFile :: "'w c_library \<Rightarrow> string \<Rightarrow> 'w \<Rightarrow> string" where
  "ReadFile lib filename st = (case l_open lib filename st of None \<Rightarrow> [] | Some content \<Rightarrow> content)"

section \<open>What the C library promises\<close>

text \<open>
  The locale of the environment, with the empty name, is always the same one, \<open>env\<close>; selecting a locale by the name that the library
  returned selects that one. The two conversions of one locale are inverse to each other and keep the zero for the end.
\<close>

locale c_locale =
  fixes lib :: "'w c_library" and env :: "'w \<Rightarrow> 'w" and name :: string
  assumes environment: "l_setlocale lib [] st = (Some name, env st)"
    and by_name: "l_setlocale lib name st = (Some name, env st)"
    and env_idem: "env (env st) = env st"
    and to_wide: "l_wcstombs lib w (env st) = Some s \<Longrightarrow> 0 \<notin> set w \<Longrightarrow> l_mbstowcs lib s (env st) = Some w \<and> c_chars s = s"
    and to_bytes: "l_mbstowcs lib s (env st) = Some w \<Longrightarrow> c_chars s = s \<Longrightarrow> l_wcstombs lib w (env st) = Some s \<and> c_str w = w"
begin

lemma c_str_id: "0 \<notin> set w \<Longrightarrow> c_str w = w"
  by (auto simp: c_str_def)

lemma zero_free: "c_str w = w \<Longrightarrow> 0 \<notin> set w"
  by (auto simp: c_str_def)

text \<open>What is set back is the locale that was set a line before, not the one the program had.\<close>

lemma leaves_environment:
  "WStringToString lib w st = Some (s, st1) \<Longrightarrow> st1 = env st" "StringToWString lib s st = Some (w, st2) \<Longrightarrow> st2 = env st"
  by (auto simp: WStringToString_def StringToWString_def environment by_name env_idem split: option.splits)

lemma wide_and_back:
  assumes "WStringToString lib w st = Some (s, st1)" "0 \<notin> set w"
  shows "StringToWString lib s st1 = Some (w, st1)"
proof -
  have st1: "st1 = env st" by (rule leaves_environment(1) [OF assms(1)])
  obtain b where b: "l_wcstombs lib w (env st) = Some b" "s = c_chars b"
    using assms by (auto simp: WStringToString_def environment c_str_id split: option.splits)
  from to_wide [OF b(1) assms(2)] have m: "l_mbstowcs lib b (env st) = Some w" "c_chars b = b" by simp_all
  then show ?thesis using b(2) assms(2) by (simp add: StringToWString_def environment by_name env_idem st1 c_str_id)
qed

lemma bytes_and_back:
  assumes "StringToWString lib s st = Some (w, st1)" "c_chars s = s"
  shows "WStringToString lib w st1 = Some (s, st1)"
proof -
  have st1: "st1 = env st" by (rule leaves_environment(2) [OF assms(1)])
  obtain b where b: "l_mbstowcs lib s (env st) = Some b" "w = c_str b"
    using assms by (auto simp: StringToWString_def environment split: option.splits)
  from to_bytes [OF b(1) assms(2)] have m: "l_wcstombs lib b (env st) = Some s" "c_str b = b" by simp_all
  then show ?thesis using b(2) assms(2) by (simp add: WStringToString_def environment by_name env_idem st1)
qed

end

section \<open>A locale of single bytes\<close>

text \<open>
  A library whose only locale but the initial one is that of ISO 8859-1: the wide characters below 256 are the bytes. A state
  is whether it has been selected, and the files.
\<close>

definition narrow :: "u32 list \<Rightarrow> string option" where
  "narrow w = (if list_all (\<lambda>c. c < 256) w then Some (map (\<lambda>c. char_of (unat c)) w) else None)"

definition widen :: "string \<Rightarrow> u32 list" where
  "widen s = map (\<lambda>c. word_of_nat (of_char c)) s"

definition byte_library :: "(bool \<times> (string \<times> string) list) c_library" where
  "byte_library =
     \<lparr>l_setlocale = \<lambda>n st. if n = [] \<or> n = ''bytes'' then (Some ''bytes'', (True, snd st)) else (None, st),
      l_wcstombs = \<lambda>w st. narrow w, l_mbstowcs = \<lambda>s st. Some (widen s),
      l_lstat = \<lambda>f st. if map_of (snd st) f = None then -1 else 0,
      l_unlink = \<lambda>f st. if map_of (snd st) f = None then (-1, st) else (0, (fst st, filter (\<lambda>x. fst x \<noteq> f) (snd st))),
      l_open = \<lambda>f st. map_of (snd st) f\<rparr>"

lemma unat_wide: "unat (word_of_nat (of_char c) :: u32) = of_char c"
proof -
  have "of_char c < (256 :: nat)" by simp
  then have "of_char c < (2 ^ 32 :: nat)" by (rule order.strict_trans) simp
  then have "of_char c mod 2 ^ 32 = (of_char c :: nat)" by (rule mod_less)
  then show ?thesis by (simp add: unat_of_nat)
qed

lemma widen_narrow: "narrow w = Some s \<Longrightarrow> widen s = w"
  by (induction w arbitrary: s) (auto simp: narrow_def widen_def word_less_nat_alt split: if_splits)

lemma narrow_widen: "narrow (widen s) = Some s"
proof -
  have "list_all (\<lambda>c. c < (256 :: u32)) (widen s)" by (auto simp: widen_def list_all_iff word_less_nat_alt unat_wide)
  moreover have "map (\<lambda>c. char_of (unat c)) (widen s) = s" by (simp add: widen_def unat_wide comp_def)
  ultimately show ?thesis by (simp add: narrow_def)
qed

lemma zero_narrow: "narrow w = Some s \<Longrightarrow> 0 \<notin> set w \<Longrightarrow> c_chars s = s"
proof -
  assume n: "narrow w = Some s" and z: "0 \<notin> set w"
  have "unat c \<noteq> 0" if "c \<in> set w" for c using that z by (metis unat_eq_0)
  then show "c_chars s = s" using n by (auto simp: narrow_def c_chars_def list_all_iff word_less_nat_alt split: if_splits)
qed

lemma zero_widen: "c_chars s = s \<Longrightarrow> c_str (widen s) = widen s"
proof -
  assume "c_chars s = s"
  then have "of_char c \<noteq> (0 :: nat)" if "c \<in> set s" for c using that unfolding c_chars_def takeWhile_eq_all_conv by blast
  then have "(word_of_nat (of_char c) :: u32) \<noteq> 0" if "c \<in> set s" for c using that unat_wide [of c] by (metis unat_0)
  then show ?thesis by (auto simp: c_str_def widen_def)
qed

interpretation bl: c_locale byte_library "\<lambda>st. (True, snd st)" "''bytes''"
proof
  fix st w s
  show "l_setlocale byte_library [] st = (Some ''bytes'', True, snd st)" "l_setlocale byte_library ''bytes'' st = (Some ''bytes'', True, snd st)"
    by (simp_all add: byte_library_def)
  show "l_wcstombs byte_library w (True, snd st) = Some s \<Longrightarrow> 0 \<notin> set w \<Longrightarrow> l_mbstowcs byte_library s (True, snd st) = Some w \<and> c_chars s = s"
    by (simp add: byte_library_def widen_narrow zero_narrow)
  show "l_mbstowcs byte_library s (True, snd st) = Some w \<Longrightarrow> c_chars s = s \<Longrightarrow> l_wcstombs byte_library w (True, snd st) = Some s \<and> c_str w = w"
    using narrow_widen [of s] zero_widen [of s] by (auto simp: byte_library_def)
qed simp

text \<open>
  A string without zeros comes back from its wide form and a wide string from its bytes, whatever the library is that keeps the
  contract; and the locale of the environment stays selected, as the name that is set back was asked for after the change.
\<close>

theorem wide_string_round_trip:
  assumes "c_locale lib env name" "StringToWString lib s st = Some (w, st1)" "c_chars s = s"
  shows "WStringToString lib w st1 = Some (s, st1)" "st1 = env st"
  using c_locale.bytes_and_back [OF assms] c_locale.leaves_environment(2) [OF assms(1,2)] by simp_all

text \<open>In the byte locale: the conversion is defined for every string, and leaves a program that had not asked for it in that locale.\<close>

theorem byte_strings:
  "\<exists>w. StringToWString byte_library s (False, fs) = Some (w, (True, fs)) \<and> (c_chars s = s \<longrightarrow> WStringToString byte_library w (True, fs) = Some (s, (True, fs)))"
proof -
  obtain w st1 where w: "StringToWString byte_library s (False, fs) = Some (w, st1)"
    by (simp add: StringToWString_def byte_library_def)
  show ?thesis using w bl.leaves_environment(2) [OF w] bl.bytes_and_back [OF w] by auto
qed

text \<open>
  \<^verbatim>\<open>exist\<close> makes no difference to \<^verbatim>\<open>Unlink\<close>; a file that is not there is a failure also for a caller who did not ask that it exists.
\<close>

theorem Unlink_ignores_exist:
  "Unlink lib f exist st = Unlink lib f (\<not> exist) st" "fst (Unlink byte_library f False (l, [])) = False"
  by (simp_all add: Unlink_def byte_library_def)

theorem Unlink_ReadFile: "Unlink byte_library f exist (l, fs) = (True, st) \<Longrightarrow> ReadFile byte_library f st = []"
  by (auto simp: Unlink_def ReadFile_def byte_library_def Let_def split: if_splits option.splits dest: map_of_SomeD)

end
