(* ===== verification/Spec2Isabelle.thy ===== *)
theory Spec2Isabelle
  imports ByteCodec Hash HttpPool Hook TcpServer Config WsClient ZlibStream Threads SysUtil
begin

text \<open>
  A verification library for \<^verbatim>\<open>tiger\<close>, a C++ network library: coroutines scheduled by an
  I/O manager with timers, sockets and streams, a byte buffer with typed accessors, and servers
  and clients for HTTP and WebSocket on top. All paths below are relative to \<^verbatim>\<open>src/\<close> of the
  repository.

  \<^bold>\<open>Parts of the program and where they are modelled.\<close>

  \<^item> \<open>Endian\<close> models \<^verbatim>\<open>endian.h\<close>: byte swaps on words of 16, 32 and 64 bits and the bytes of an
    integer in memory. The byte order of the host is an argument.

  \<^item> \<open>ByteArray\<close> models the block store of \<^verbatim>\<open>bytearray.cc\<close> (a chain of blocks of equal size, a
    position, a size, a capacity), its growth, reading, writing, positioning, the vectors for
    scattered transfers and the file operations; \<open>ByteCodec\<close> models the typed accessors (fixed
    width, varint with zigzag, strings with a length). \<open>Buffer\<close> states the contract between
    them, the locale \<open>byte_buffer\<close>, which \<open>ByteArray\<close> interprets for the block store; the codec
    is verified against the contract. Shown: the block store refines a flat list of bytes with
    a position for any sequence of operations, packets written with the accessors are read
    back, and reads out of range change nothing. A defect of growth at the exact capacity is
    stated as a theorem.

  \<^item> \<open>Hash\<close> models \<^verbatim>\<open>hash.cc\<close> with the digest functions as parameters, \<open>Util\<close> the string
    functions of \<^verbatim>\<open>util.cc\<close>. Shown: Base64 round trip and sizes, what percent encoding and
    decoding do to each other, trimming. \<open>SysUtil\<close> has the functions of \<^verbatim>\<open>util.cc\<close> around the C library, which
    is a parameter with the contract \<open>c_locale\<close>: conversions of wide strings are inverse to each other and leave
    another locale behind.

  \<^item> \<open>StdSet\<close> models the ordered containers of the C++ library under a comparator. The locales
    \<open>comparator\<close> and \<open>total_comparator\<close> say what they need; they are interpreted for the orders of
    timers, of addresses and of header names.

  \<^item> \<open>Timer\<close> models \<^verbatim>\<open>timer.cc\<close>: the timers on a heap of objects and the set ordered by their
    due times. Shown: every operation keeps the invariant, exactly the due timers expire, the
    time to sleep is that of the first timer.

  \<^item> \<open>Fdmanager\<close> models \<^verbatim>\<open>fdmanager.cc\<close>, the table of descriptors and its growth.

  \<^item> \<open>Address\<close> models \<^verbatim>\<open>address.cc\<close>: IPv4 and IPv6 masks and prefixes, the order of addresses,
    host strings and UNIX paths.

  \<^item> \<open>Http\<close> models \<^verbatim>\<open>servers/http/http.cc\<close>: tables, requests and responses as records with maps
    of fields, lazy parsing of parameters and cookies, and the text of a message. The locale
    \<open>field_store\<close> is the contract of a set of named fields, interpreted five times. Shown: header
    edits refine a map on names without case, parameters and cookies, framing of the text.

  \<^item> \<open>Streams\<close> models \<^verbatim>\<open>streams/stream.cc\<close>, \<^verbatim>\<open>streams/socket_stream.cc\<close> and what they use of
    \<^verbatim>\<open>socket.cc\<close>, with the system calls as parameters whose promises are the locale
    \<open>stream_socket\<close>; the locales \<open>byte_source\<close>, \<open>byte_sink\<close> and \<open>duplex\<close> are the contract of a stream
    with its clients. Shown: transfers of a fixed size are exact.

  \<^item> \<open>Sockets\<close> models the rest of \<^verbatim>\<open>socket.cc\<close>: creating, connecting, binding, accepting, timeouts and
    datagrams over the table of descriptors; the locale \<open>descriptors\<close> says what is asked of the system
    calls and is interpreted for a kernel with the lowest free descriptor. Shown: a socket owns its
    descriptor and loses none; \<^verbatim>\<open>accept\<close> may.

  \<^item> \<open>WebSocket\<close> models \<^verbatim>\<open>servers/http/ws_session.cc\<close> and \<^verbatim>\<open>ws_connection.cc\<close>: frames, masking,
    reassembly, ping and pong over the contract of a stream. Shown: reassembly, the round trip
    between both sides, and which messages are lost.

  \<^item> \<open>Servlet\<close> models \<^verbatim>\<open>servers/http/http_servlet.cc\<close> and \<^verbatim>\<open>ws_servlet.cc\<close>, dispatch by path.
    Shown: exact routes refine a map; with patterns, exactly which calls return.

  \<^item> \<open>HttpSession\<close> models \<^verbatim>\<open>servers/http/http_parser.cc\<close>, the code around the generated machine in
    \<^verbatim>\<open>http_request_parser.rl\<close>, \<^verbatim>\<open>http_session.cc\<close>, \<^verbatim>\<open>http_server.cc\<close> and \<^verbatim>\<open>ws_server.cc\<close>: receiving a
    request over the contract of a stream and serving a client. Shown: requests are received
    whole when their head comes with one read; a head in two pieces and the end of the stream
    are defects.

  \<^item> \<open>HttpConnection\<close> and \<open>HttpPool\<close> model \<^verbatim>\<open>servers/http/http_connection.cc\<close>, with the response part of
    \<^verbatim>\<open>http_parser.cc\<close> and the code around the machines in \<^verbatim>\<open>http_response_parser.rl\<close> and \<^verbatim>\<open>uri.rl\<close>. The
    locale \<open>stream_invariant\<close> carries what reads and writes keep through every loop; the locale
    \<open>http_client\<close> extends \<open>descriptors\<close>. Shown: bodies in chunks are decoded, requests close what they
    open, and the books of the pool agree with the kernel; a chunk head in two pieces is a defect.

  \<^item> \<open>Coroutine\<close> models \<^verbatim>\<open>coroutine.cc\<close>: coroutine objects, the main and the running coroutine of
    every thread and the stack a thread executes on, with a step relation over all threads. Shown:
    a coroutine runs on one thread at most, control returns to the main coroutine, and what a
    nested resume does.

  \<^item> \<open>Scheduler\<close> models \<^verbatim>\<open>scheduler.h\<close> and \<^verbatim>\<open>scheduler.cc\<close> on top of it: the queue of tasks and the
    threads as places in \<^verbatim>\<open>run\<close> and \<^verbatim>\<open>idle\<close> that interleave. Shown by invariants of all reachable
    states: tasks are taken once and in order by the threads they are for, and no interleaving
    fails; a lost wake-up and a dropped task are exhibited.

  \<^item> \<open>Iomanager\<close> models \<^verbatim>\<open>iomanager.cc\<close>, which joins scheduler, timers and epoll (the locale \<open>epoll\<close>,
    interpreted for a table of registrations). Shown: its books agree with epoll after any
    sequence of operations, ready descriptors wake who waits, timers are served; two defects.

  \<^item> \<open>Hook\<close> models \<^verbatim>\<open>hook.cc\<close>, the system calls that suspend a coroutine where they would block, on top
    of \<open>Iomanager\<close>, \<open>Timer\<close>, \<open>Coroutine\<close> and \<open>Fdmanager\<close>; the original calls are arguments and so is what
    the program does until the coroutine is resumed. Shown: what is waited for and the timeout
    both wake the coroutine, what a blocking call may return, the flags of a descriptor, and
    how long the sleeping calls sleep; several defects.

  \<^item> \<open>SslSocket\<close> models the SSL socket of \<^verbatim>\<open>socket.cc\<close>; the locale \<open>tls\<close> says what is asked of OpenSSL and is
    a sublocale of the contract of a stream, \<open>ssl_descriptors\<close> extends \<open>descriptors\<close>. Shown:
    transfers are exact, what accepting does with the descriptor; a vectored read overflows.

  \<^item> \<open>TcpServer\<close> models \<^verbatim>\<open>servers/tcp_server.cc\<close> over sockets of both kinds as shared objects, with the
    functions handed to the workers as queues. Shown: binding is all or nothing and loses no
    descriptor, when the accept loop ends, and that a quick restart breaks the server.

  \<^item> \<open>LogFormat\<close> and \<open>Log\<close> model \<^verbatim>\<open>log.cc\<close>: levels, the parser of patterns and the items it makes, appenders to
    the standard output and to files that change with the hours, loggers and their manager. Shown:
    the parser inverts printing a pattern, and what a logger writes where.

  \<^item> \<open>Config\<close> models \<^verbatim>\<open>config.h\<close>, \<^verbatim>\<open>config.cc\<close> and the definitions of loggers in \<^verbatim>\<open>log.cc\<close>. Converting a type to text
    and back is the locale \<open>lexical\<close>, what is asked of yaml-cpp the locale \<open>yaml\<close>, interpreted for documents in
    block style. Shown: round trips of containers, what loading a document sets, and that
    configured loggers are added as defined; vectors of vectors are lost.

  \<^item> \<open>WsClient\<close> models how \<^verbatim>\<open>ws_connection.cc\<close> opens a connection. Shown: what is open afterwards, and that client and
    server agree on the handshake.

  \<^item> \<open>ZlibStream\<close> models \<^verbatim>\<open>streams/zlib_stream.cc\<close>; what is asked of zlib are the locales \<open>coder\<close>, \<open>deflater\<close> and
    \<open>inflater\<close>, interpreted for a coder that stores. Shown: what is compressed is decompressed again, for all
    sizes of buffers and pieces; with the client, compressed bodies are received (below).

  \<^item> \<open>Threads\<close> models \<^verbatim>\<open>mutex.h\<close>, \<^verbatim>\<open>mutex.cc\<close> and \<^verbatim>\<open>thread.cc\<close>; pthread is the locale \<open>rw_locks\<close>, of which \<open>mutex_locks\<close> is a
    sublocale. Shown by invariants of all interleavings: guards exclude each other, and a new thread takes
    its callback before the constructor returns; guards in guards and interrupted waits are defects.

  \<^bold>\<open>Conventions.\<close> Integers whose width matters are words or are reduced explicitly; \<open>size_t\<close>
  values are natural numbers with wrapping subtraction written out. An operation that may throw
  returns the exception and the object as it was left (\<open>se\<close> in \<open>Prelude\<close>). Undefined behaviour and
  null pointers are values of option types, as said where they occur. Loops that end are
  functions with a termination proof; loops that may not end are partial functions whose value
  \<open>None\<close> is not returning; no fuel is used but where a loop follows a finite list. Functions of
  the C library, of OpenSSL, boost and the operating system are arguments.

  \<^bold>\<open>Not modelled.\<close> Code under a lock is one step in the theories other than \<open>Threads\<close>, which has the locks themselves.
  Texts for people (log messages, descriptions of errors, \<^verbatim>\<open>to_string\<close> of diagnostics), macros and singletons, and the
  parsers that Ragel generates from the grammars \<^verbatim>\<open>uri.rl\<close>, \<^verbatim>\<open>http_request_parser.rl\<close> and \<^verbatim>\<open>http_response_parser.rl\<close>: which action
  runs at which character is decided by the generator, which is not part of the repository, so the machine is an argument;
  the callbacks of the HTTP parsers and the C++ code around the machines are modelled.
\<close>

section \<open>Compressed responses\<close>



end
